(* ===== verification/Prelude.thy ===== *)
theory Prelude
  imports Main "HOL-Library.Word" "HOL-Library.Multiset"
begin

text \<open>
  Shared vocabulary of the development: the machine integers and the \<open>Result\<close> type of the
  Rust sources, the sequencing of fallible steps, the fallible traversal of a vector
  (\<open>Iterator::collect::<Result<Vec<_>, _>>\<close>), and the generic list lemmas the components use.

  A Rust \<open>Result<T, E>\<close> is the sum \<open>'e + 'a\<close>, with \<open>Err\<close> and \<open>Ok\<close> as names of its two
  injections. The question-mark operator is \<open>rbind\<close>: it stops at the first error.
\<close>

section \<open>Integers, bytes and results\<close>

type_synonym u8 = "8 word"
type_synonym u32 = "32 word"
type_synonym u64 = "64 word"
type_synonym bytes = "8 word list"

type_synonym ('e, 'a) result = "'e + 'a"

abbreviation (input) Ok :: "'a \<Rightarrow> ('e, 'a) result" where "Ok \<equiv> Inr"
abbreviation (input) Err :: "'e \<Rightarrow> ('e, 'a) result" where "Err \<equiv> Inl"

named_theorems result_simps \<open>evaluation of fallible steps\<close>
named_theorems result_elims \<open>what a successful fallible step tells\<close>

definition rbind :: "('e, 'a) result \<Rightarrow> ('a \<Rightarrow> ('e, 'b) result) \<Rightarrow> ('e, 'b) result" where
  "rbind r f = (case r of Err e \<Rightarrow> Err e | Ok x \<Rightarrow> f x)"

definition ok_or :: "'a option \<Rightarrow> 'e \<Rightarrow> ('e, 'a) result" where
  "ok_or x e = (case x of None \<Rightarrow> Err e | Some y \<Rightarrow> Ok y)"

definition map_err :: "('e \<Rightarrow> 'f) \<Rightarrow> ('e, 'a) result \<Rightarrow> ('f, 'a) result" where
  "map_err g r = (case r of Err e \<Rightarrow> Err (g e) | Ok x \<Rightarrow> Ok x)"

definition guard_err :: "bool \<Rightarrow> 'e \<Rightarrow> ('e, unit) result" where
  "guard_err bad e = (if bad then Err e else Ok ())"

definition is_ok :: "('e, 'a) result \<Rightarrow> bool" where
  "is_ok r = (case r of Err e \<Rightarrow> False | Ok x \<Rightarrow> True)"

lemma rbind_simps [simp, result_simps]:
  "rbind (Err e) f = Err e"
  "rbind (Ok x) f = f x"
  by (simp_all add: rbind_def)

lemma rbind_eq_Ok [result_elims]:
  "rbind r f = Ok y \<longleftrightarrow> (\<exists>x. r = Ok x \<and> f x = Ok y)"
  by (cases r) simp_all

lemma rbind_eq_Err:
  "rbind r f = Err e \<longleftrightarrow> r = Err e \<or> (\<exists>x. r = Ok x \<and> f x = Err e)"
  by (cases r) simp_all

lemma rbind_cong [fundef_cong]:
  "r = s \<Longrightarrow> (\<And>x. s = Ok x \<Longrightarrow> f x = g x) \<Longrightarrow> rbind r f = rbind s g"
  by (cases s) simp_all

lemma ok_or_simps [simp, result_simps]:
  "ok_or None e = Err e"
  "ok_or (Some x) e = Ok x"
  by (simp_all add: ok_or_def)

lemma ok_or_eq_Ok [simp, result_elims]: "ok_or x e = Ok y \<longleftrightarrow> x = Some y"
  by (cases x) simp_all

lemma guard_err_simps [simp, result_simps]:
  "guard_err True e = Err e"
  "guard_err False e = Ok ()"
  by (simp_all add: guard_err_def)

lemma guard_err_eq_Ok [simp, result_elims]: "guard_err b e = Ok u \<longleftrightarrow> \<not> b"
  by (cases b) simp_all

lemma map_err_simps [simp, result_simps]:
  "map_err g (Err e) = Err (g e)"
  "map_err g (Ok x) = Ok x"
  by (simp_all add: map_err_def)

lemma map_err_eq_Ok [simp, result_elims]: "map_err g r = Ok y \<longleftrightarrow> r = Ok y"
  by (cases r) simp_all

lemma is_ok_simps [simp, result_simps]:
  "is_ok (Ok x)" "\<not> is_ok (Err e)"
  by (simp_all add: is_ok_def)

lemma is_ok_iff: "is_ok r \<longleftrightarrow> (\<exists>x. r = Ok x)"
  by (cases r) simp_all

section \<open>Fallible traversal of a vector\<close>

fun try_map :: "('a \<Rightarrow> ('e, 'b) result) \<Rightarrow> 'a list \<Rightarrow> ('e, 'b list) result" where
  "try_map f [] = Ok []"
| "try_map f (x # xs) = rbind (f x) (\<lambda>y. rbind (try_map f xs) (\<lambda>ys. Ok (y # ys)))"

lemma try_map_cong [fundef_cong]:
  "xs = ys \<Longrightarrow> (\<And>x. x \<in> set ys \<Longrightarrow> f x = g x) \<Longrightarrow> try_map f xs = try_map g ys"
proof (induction ys arbitrary: xs)
  case Nil
  then show ?case by simp
next
  case (Cons y ys)
  then have "try_map f ys = try_map g ys" "f y = g y" by auto
  with Cons.prems(1) show ?case by simp
qed

lemma try_map_Ok_iff [result_elims]:
  "try_map f xs = Ok ys \<longleftrightarrow> list_all2 (\<lambda>x y. f x = Ok y) xs ys"
proof (induction xs arbitrary: ys)
  case Nil
  then show ?case by (cases ys) auto
next
  case (Cons x xs)
  then show ?case by (cases ys) (auto simp: rbind_eq_Ok)
qed

lemma try_map_all_Ok:
  "(\<And>x. x \<in> set xs \<Longrightarrow> f x = Ok (g x)) \<Longrightarrow> try_map f xs = Ok (map g xs)"
  by (induction xs) auto

lemma try_map_inverse:
  "(\<And>x. x \<in> set xs \<Longrightarrow> f (g x) = Ok x) \<Longrightarrow> try_map f (map g xs) = Ok xs"
  by (induction xs) auto

lemma try_map_is_ok: "is_ok (try_map f xs) \<longleftrightarrow> (\<forall>x \<in> set xs. is_ok (f x))"
  by (induction xs) (auto simp: is_ok_iff rbind_eq_Ok)

lemma try_map_length: "try_map f xs = Ok ys \<Longrightarrow> length ys = length xs"
  by (simp add: try_map_Ok_iff list_all2_lengthD)

lemma try_map_append:
  "try_map f (xs @ ys) = rbind (try_map f xs) (\<lambda>us. rbind (try_map f ys) (\<lambda>vs. Ok (us @ vs)))"
  by (induction xs) (auto simp: rbind_def split: sum.splits)

lemma try_map_Err_first:
  assumes "try_map f pre = Ok ys" and "f x = Err e"
  shows "try_map f (pre @ x # post) = Err e"
  using assms by (simp add: try_map_append)

lemma try_map_Ok_map:
  assumes "try_map f xs = Ok ys" and "\<And>x y. x \<in> set xs \<Longrightarrow> f x = Ok y \<Longrightarrow> h y = k x"
  shows "map h ys = map k xs"
  using assms by (induction xs arbitrary: ys) (auto simp: rbind_eq_Ok)

lemma try_map_mem: "try_map f xs = Ok ys \<Longrightarrow> x \<in> set xs \<Longrightarrow> \<exists>y \<in> set ys. f x = Ok y"
  by (induction xs arbitrary: ys) (auto simp: rbind_eq_Ok)

section \<open>Generic list lemmas\<close>

lemma filter_partition_mset:
  "mset (filter P xs) + mset (filter (\<lambda>x. \<not> P x) xs) = mset xs"
  by (induction xs) auto

lemma fold_invariant_list:
  assumes "P s" and "\<And>x s. x \<in> set xs \<Longrightarrow> P s \<Longrightarrow> P (f x s)"
  shows "P (fold f xs s)"
  using assms by (induction xs arbitrary: s) auto

lemma find_map_of:
  "map_of xs k = map_option snd (find (\<lambda>p. fst p = k) xs)"
  by (induction xs) auto

lemma map_of_rev_distinct: "distinct (map fst ps) \<Longrightarrow> map_of (rev ps) = map_of ps"
  by (simp add: map_of_inject_set rev_map [symmetric])

end
