(* ===== verification/Collections.thy ===== *)
theory Collections
  imports Prelude
begin

text \<open>
  The standard collections the sources use, as far as they use them.

  \<^item> \<open>BTreeMap<K, V>\<close> is an association list whose keys are strictly increasing: iteration
    goes in key order, so the list is what the iterator yields.
  \<^item> \<open>HashMap<K, V>\<close> is an association list with at most one entry per key, up to the key
    type's \<open>Eq\<close> instance, which is an argument: the sources define instances that
    ignore some fields. The order of the list stands for the unspecified iteration order.
    \<open>insert\<close> on a present key keeps the stored key and replaces the value, as the standard
    library documents.
  \<^item> \<open>HashSet<T>\<close> is a list without two equal elements, again up to an \<open>Eq\<close> argument;
    \<open>insert\<close> of a present element keeps the stored one.

  The locale \<open>map_contract\<close> is the interface of a map (what a lookup returns after an insert, a
  removal or the construction from an iterator); both representations are interpretations.
\<close>

section \<open>The interfaces\<close>

locale key_eq =
  fixes keq :: "'k \<Rightarrow> 'k \<Rightarrow> bool"
  assumes keq_refl: "keq k k"
    and keq_sym: "keq k l \<Longrightarrow> keq l k"
    and keq_trans: "keq k l \<Longrightarrow> keq l r \<Longrightarrow> keq k r"
begin

lemma keq_iff: "keq k l \<Longrightarrow> keq k r \<longleftrightarrow> keq l r"
  by (blast intro: keq_sym keq_trans)

end

locale map_contract =
  fixes keq :: "'k \<Rightarrow> 'k \<Rightarrow> bool"
    and empty :: "'m"
    and insert :: "'k \<Rightarrow> 'v \<Rightarrow> 'm \<Rightarrow> 'm"
    and remove :: "'k \<Rightarrow> 'm \<Rightarrow> 'm"
    and lookup :: "'m \<Rightarrow> 'k \<Rightarrow> 'v option"
    and invar :: "'m \<Rightarrow> bool"
  assumes lookup_empty: "lookup empty k = None"
    and lookup_insert: "invar m \<Longrightarrow> lookup (insert k v m) l = (if keq k l then Some v else lookup m l)"
    and lookup_remove: "invar m \<Longrightarrow> lookup (remove k m) l = (if keq k l then None else lookup m l)"
    and invar_empty: "invar empty"
    and invar_insert: "invar m \<Longrightarrow> invar (insert k v m)"
    and invar_remove: "invar m \<Longrightarrow> invar (remove k m)"
begin

text \<open>Removing several keys in turn, as a loop over a vector of keys does.\<close>

lemma invar_remove_all: "invar m \<Longrightarrow> invar (fold remove ks m)"
  by (induction ks arbitrary: m) (simp_all add: invar_remove)

lemma lookup_remove_all:
  "invar m \<Longrightarrow> lookup (fold remove ks m) l = (if \<exists>k \<in> set ks. keq k l then None else lookup m l)"
  by (induction ks arbitrary: m) (auto simp: lookup_remove invar_remove)

text \<open>Building a map from an iterator: the last pair of a key wins.\<close>

lemma invar_insert_all: "invar m \<Longrightarrow> invar (fold (\<lambda>(k, v). insert k v) ps m)"
  by (induction ps arbitrary: m) (auto simp: invar_insert)

lemma lookup_insert_all:
  "invar m \<Longrightarrow> lookup (fold (\<lambda>(k, v). insert k v) ps m) l =
     (case find (\<lambda>p. keq (fst p) l) (rev ps) of Some p \<Rightarrow> Some (snd p) | None \<Rightarrow> lookup m l)"
proof (induction ps rule: rev_induct)
  case Nil
  then show ?case by simp
next
  case (snoc p ps)
  obtain k v where p: "p = (k, v)" by (cases p)
  have inv: "invar (fold (\<lambda>(k, v). insert k v) ps m)"
    by (rule invar_insert_all [OF snoc.prems])
  show ?case
  proof (cases "keq k l")
    case True
    then show ?thesis by (simp add: p lookup_insert [OF inv])
  next
    case False
    with snoc show ?thesis by (simp add: p lookup_insert [OF inv])
  qed
qed

lemma lookup_insert_all_unmentioned:
  assumes "invar m" and "\<And>p. p \<in> set ps \<Longrightarrow> \<not> keq (fst p) l"
  shows "lookup (fold (\<lambda>(k, v). insert k v) ps m) l = lookup m l"
proof -
  have "find (\<lambda>p. keq (fst p) l) (rev ps) = None"
    using assms(2) by (fastforce simp: find_None_iff)
  then show ?thesis by (simp add: lookup_insert_all [OF assms(1)])
qed

end

section \<open>BTreeMap\<close>

type_synonym ('k, 'v) btree_map = "('k \<times> 'v) list"

definition bt_wf :: "('k::linorder, 'v) btree_map \<Rightarrow> bool" where
  "bt_wf m \<longleftrightarrow> sorted_wrt (<) (map fst m)"

fun bt_insert :: "'k::linorder \<Rightarrow> 'v \<Rightarrow> ('k, 'v) btree_map \<Rightarrow> ('k, 'v) btree_map" where
  "bt_insert k v [] = [(k, v)]"
| "bt_insert k v (p # m) =
     (if k < fst p then (k, v) # p # m
      else if fst p < k then p # bt_insert k v m
      else (k, v) # m)"

definition bt_remove :: "'k::linorder \<Rightarrow> ('k, 'v) btree_map \<Rightarrow> ('k, 'v) btree_map" where
  "bt_remove k m = filter (\<lambda>p. fst p \<noteq> k) m"

definition bt_from_iter :: "('k::linorder \<times> 'v) list \<Rightarrow> ('k, 'v) btree_map" where
  "bt_from_iter ps = fold (\<lambda>(k, v). bt_insert k v) ps []"

lemma bt_wf_simps [simp]:
  "bt_wf []"
  "bt_wf (p # m) \<longleftrightarrow> (\<forall>q \<in> set m. fst p < fst q) \<and> bt_wf m"
  by (auto simp: bt_wf_def)

lemma bt_keys_insert [simp]: "fst ` set (bt_insert k v m) = insert k (fst ` set m)"
  by (induction m) auto

lemma bt_insert_elem:
  "q \<in> set (bt_insert k v m) \<Longrightarrow> fst q = k \<or> q \<in> set m"
  by (induction m) (auto split: if_splits)

lemma bt_wf_insert [simp]: "bt_wf m \<Longrightarrow> bt_wf (bt_insert k v m)"
proof (induction m)
  case Nil
  then show ?case by simp
next
  case (Cons p m)
  then show ?case
    by (auto dest!: bt_insert_elem elim!: neqE)
qed

lemma bt_lookup_insert [simp]:
  "map_of (bt_insert k v m) l = (if k = l then Some v else map_of m l)"
  by (induction m) auto

lemma bt_wf_remove [simp]: "bt_wf m \<Longrightarrow> bt_wf (bt_remove k m)"
  by (simp add: bt_wf_def bt_remove_def sorted_wrt_filter sorted_wrt_map)

lemma bt_lookup_remove [simp]:
  "map_of (bt_remove k m) l = (if k = l then None else map_of m l)"
  by (induction m) (auto simp: bt_remove_def)

lemma bt_wf_distinct: "bt_wf m \<Longrightarrow> distinct (map fst m)"
  by (auto simp: bt_wf_def strict_sorted_iff)

lemma bt_mem_iff: "bt_wf m \<Longrightarrow> (k, v) \<in> set m \<longleftrightarrow> map_of m k = Some v"
  by (simp add: bt_wf_distinct)

interpretation bt: map_contract "(=)" "[]" bt_insert bt_remove map_of bt_wf
  by unfold_locales auto

lemma bt_wf_from_iter [simp]: "bt_wf (bt_from_iter ps)"
  unfolding bt_from_iter_def by (rule bt.invar_insert_all) simp

lemma bt_lookup_from_iter:
  "map_of (bt_from_iter ps) k = map_of (rev ps) k"
  unfolding bt_from_iter_def
  by (subst bt.lookup_insert_all) (auto simp: find_map_of split: option.splits)

text \<open>A well-formed map is determined by its lookups.\<close>

lemma bt_ext:
  assumes "bt_wf m" "bt_wf m'" and "\<And>k. map_of m k = map_of m' k"
  shows "m = m'"
proof (rule map_sorted_distinct_set_unique [where f = fst])
  show same: "set m = set m'"
    using assms by (auto simp: bt_mem_iff)
  show "inj_on fst (set m \<union> set m')"
    using bt_wf_distinct [OF assms(1)] same by (simp add: distinct_map)
qed (use assms in \<open>simp_all add: bt_wf_def strict_sorted_iff\<close>)

section \<open>HashMap and HashSet over a key equality\<close>

type_synonym ('k, 'v) hash_map = "('k \<times> 'v) list"

fun hm_get :: "('k \<Rightarrow> 'k \<Rightarrow> bool) \<Rightarrow> ('k, 'v) hash_map \<Rightarrow> 'k \<Rightarrow> 'v option" where
  "hm_get eq [] k = None"
| "hm_get eq (p # m) k = (if eq (fst p) k then Some (snd p) else hm_get eq m k)"

fun hm_insert :: "('k \<Rightarrow> 'k \<Rightarrow> bool) \<Rightarrow> 'k \<Rightarrow> 'v \<Rightarrow> ('k, 'v) hash_map \<Rightarrow> ('k, 'v) hash_map" where
  "hm_insert eq k v [] = [(k, v)]"
| "hm_insert eq k v (p # m) = (if eq (fst p) k then (fst p, v) # m else p # hm_insert eq k v m)"

definition hm_remove :: "('k \<Rightarrow> 'k \<Rightarrow> bool) \<Rightarrow> 'k \<Rightarrow> ('k, 'v) hash_map \<Rightarrow> ('k, 'v) hash_map" where
  "hm_remove eq k m = filter (\<lambda>p. \<not> eq (fst p) k) m"

definition hm_contains_key :: "('k \<Rightarrow> 'k \<Rightarrow> bool) \<Rightarrow> ('k, 'v) hash_map \<Rightarrow> 'k \<Rightarrow> bool" where
  "hm_contains_key eq m k \<longleftrightarrow> list_ex (\<lambda>p. eq (fst p) k) m"

definition hm_from_iter :: "('k \<Rightarrow> 'k \<Rightarrow> bool) \<Rightarrow> ('k \<times> 'v) list \<Rightarrow> ('k, 'v) hash_map" where
  "hm_from_iter eq ps = fold (\<lambda>(k, v). hm_insert eq k v) ps []"

fun hm_wf :: "('k \<Rightarrow> 'k \<Rightarrow> bool) \<Rightarrow> ('k, 'v) hash_map \<Rightarrow> bool" where
  "hm_wf eq [] = True"
| "hm_wf eq (p # m) = (list_all (\<lambda>q. \<not> eq (fst q) (fst p)) m \<and> hm_wf eq m)"

definition hs_contains :: "('a \<Rightarrow> 'a \<Rightarrow> bool) \<Rightarrow> 'a list \<Rightarrow> 'a \<Rightarrow> bool" where
  "hs_contains eq s x \<longleftrightarrow> list_ex (\<lambda>y. eq y x) s"

definition hs_insert :: "('a \<Rightarrow> 'a \<Rightarrow> bool) \<Rightarrow> 'a \<Rightarrow> 'a list \<Rightarrow> 'a list" where
  "hs_insert eq x s = (if hs_contains eq s x then s else s @ [x])"

definition hs_extend :: "('a \<Rightarrow> 'a \<Rightarrow> bool) \<Rightarrow> 'a list \<Rightarrow> 'a list \<Rightarrow> 'a list" where
  "hs_extend eq s xs = fold (hs_insert eq) xs s"

lemma hm_contains_key_iff: "hm_contains_key eq m k \<longleftrightarrow> hm_get eq m k \<noteq> None"
  by (induction m) (auto simp: hm_contains_key_def)

lemma hm_get_eq_None: "hm_get eq m k = None \<longleftrightarrow> (\<forall>p \<in> set m. \<not> eq (fst p) k)"
  by (induction m) auto

lemma hm_get_SomeD: "hm_get eq m k = Some v \<Longrightarrow> \<exists>p \<in> set m. eq (fst p) k \<and> snd p = v"
  by (induction m) (auto split: if_splits)

lemma hm_insert_elem:
  "q \<in> set (hm_insert eq k v m) \<Longrightarrow>
     q \<in> set m \<or> snd q = v \<and> (q = (k, v) \<or> (\<exists>p \<in> set m. fst q = fst p \<and> eq (fst p) k))"
  by (induction m) (auto split: if_splits)

lemma hm_remove_elem [simp]: "q \<in> set (hm_remove eq k m) \<longleftrightarrow> q \<in> set m \<and> \<not> eq (fst q) k"
  by (auto simp: hm_remove_def)

lemma hs_contains_iff: "hs_contains eq s x \<longleftrightarrow> (\<exists>y \<in> set s. eq y x)"
  by (simp add: hs_contains_def list_ex_iff)

context key_eq
begin

lemma hm_get_cong: "keq k l \<Longrightarrow> hm_get keq m k = hm_get keq m l"
proof (induction m)
  case Nil
  then show ?case by simp
next
  case (Cons p m)
  then have "keq (fst p) k \<longleftrightarrow> keq (fst p) l" by (meson keq_sym keq_trans)
  with Cons show ?case by simp
qed

lemma hm_get_insert:
  "hm_get keq (hm_insert keq k v m) l = (if keq k l then Some v else hm_get keq m l)"
proof (induction m)
  case Nil
  then show ?case by simp
next
  case (Cons p m)
  have "keq (fst p) k \<Longrightarrow> keq (fst p) l \<longleftrightarrow> keq k l"
    and "\<not> keq (fst p) k \<Longrightarrow> keq k l \<Longrightarrow> \<not> keq (fst p) l"
    by (meson keq_sym keq_trans)+
  with Cons show ?case by auto
qed

lemma hm_get_remove:
  "hm_get keq (hm_remove keq k m) l = (if keq k l then None else hm_get keq m l)"
proof (induction m)
  case Nil
  then show ?case by (simp add: hm_remove_def)
next
  case (Cons p m)
  have "keq (fst p) k \<Longrightarrow> keq (fst p) l \<longleftrightarrow> keq k l"
    and "\<not> keq (fst p) k \<Longrightarrow> keq k l \<Longrightarrow> \<not> keq (fst p) l"
    by (meson keq_sym keq_trans)+
  with Cons show ?case by (auto simp: hm_remove_def)
qed

lemma hm_wf_insert: "hm_wf keq m \<Longrightarrow> hm_wf keq (hm_insert keq k v m)"
proof (induction m)
  case Nil
  then show ?case by simp
next
  case (Cons p m)
  have "\<not> keq (fst q) (fst p)"
    if "\<not> keq (fst p) k" "q \<in> set (hm_insert keq k v m)" for q
    using hm_insert_elem [OF that(2)] Cons.prems that(1)
    by (cases q) (auto simp: list_all_iff dest: keq_sym)
  with Cons show ?case by (auto simp: list_all_iff)
qed

lemma hm_wf_remove: "hm_wf keq m \<Longrightarrow> hm_wf keq (hm_remove keq k m)"
  by (induction m) (auto simp: hm_remove_def list_all_iff)

lemma hm_get_mem: "hm_wf keq m \<Longrightarrow> p \<in> set m \<Longrightarrow> keq (fst p) k \<Longrightarrow> hm_get keq m k = Some (snd p)"
proof (induction m)
  case Nil
  then show ?case by simp
next
  case (Cons q m)
  have "p \<in> set m \<Longrightarrow> \<not> keq (fst q) k"
    using Cons.prems(1,3) by (auto simp: list_all_iff) (meson keq_sym keq_trans)
  with Cons show ?case by auto
qed

lemma hs_contains_insert: "hs_contains keq (hs_insert keq x s) y \<longleftrightarrow> keq x y \<or> hs_contains keq s y"
proof (cases "hs_contains keq s x")
  case True
  then have "keq x y \<Longrightarrow> hs_contains keq s y"
    unfolding hs_contains_iff by (meson keq_trans)
  with True show ?thesis by (auto simp: hs_insert_def)
next
  case False
  then show ?thesis by (auto simp: hs_insert_def hs_contains_iff)
qed

lemma hs_contains_extend:
  "hs_contains keq (hs_extend keq s xs) y \<longleftrightarrow> hs_contains keq s y \<or> (\<exists>x \<in> set xs. keq x y)"
  unfolding hs_extend_def by (induction xs arbitrary: s) (auto simp: hs_contains_insert)

lemma hm_insert_fresh: "list_all (\<lambda>q. \<not> keq (fst q) k) m \<Longrightarrow> hm_insert keq k v m = m @ [(k, v)]"
  by (induction m) auto

lemma hm_from_iter_wf: "hm_wf keq (m @ ps) \<Longrightarrow> fold (\<lambda>(k, v). hm_insert keq k v) ps m = m @ ps"
proof (induction ps arbitrary: m)
  case Nil
  then show ?case by simp
next
  case (Cons p ps)
  obtain k v where p: "p = (k, v)" by (cases p)
  have "list_all (\<lambda>q. \<not> keq (fst q) k) m"
    using Cons.prems unfolding p by (induction m) (auto intro: keq_sym)
  then have "hm_insert keq k v m = m @ [p]" by (simp add: p hm_insert_fresh)
  with Cons show ?case by (simp add: p)
qed

lemma hs_extend_wf: "hm_wf keq (map (\<lambda>x. (x, ())) (s @ xs)) \<Longrightarrow> hs_extend keq s xs = s @ xs"
proof (induction xs arbitrary: s)
  case Nil
  then show ?case by (simp add: hs_extend_def)
next
  case (Cons x xs)
  have "\<not> hs_contains keq s x"
    using Cons.prems by (induction s) (auto simp: hs_contains_def dest: keq_sym)
  then have "hs_insert keq x s = s @ [x]" by (simp add: hs_insert_def)
  with Cons.IH [of "s @ [x]"] Cons.prems show ?case by (simp add: hs_extend_def)
qed

end

sublocale key_eq \<subseteq> hm: map_contract keq "[]" "hm_insert keq" "hm_remove keq" "hm_get keq" "hm_wf keq"
  by unfold_locales (auto simp: hm_get_insert hm_get_remove hm_wf_insert hm_wf_remove)

lemma hs_insert_set: "set (hs_insert eq x s) \<subseteq> insert x (set s)"
  by (auto simp: hs_insert_def)

lemma hs_extend_set: "set (hs_extend eq s xs) \<subseteq> set s \<union> set xs"
  unfolding hs_extend_def
  by (induction xs arbitrary: s) (use hs_insert_set in fastforce)+

lemma hs_extend_keeps: "set s \<subseteq> set (hs_extend eq s xs)"
  unfolding hs_extend_def
  by (induction xs arbitrary: s) (auto simp: hs_insert_def split: if_splits, fastforce)

text \<open>Key types with the derived \<open>Eq\<close> instance.\<close>

interpretation plain: key_eq "(=)"
  by unfold_locales auto

lemma hm_from_iter_distinct:
  "distinct (map fst ps) \<Longrightarrow> (\<forall>p \<in> set ps. fst p \<notin> fst ` set m) \<Longrightarrow>
     fold (\<lambda>(k, v). hm_insert (=) k v) ps m = m @ ps"
proof (induction ps arbitrary: m)
  case Nil
  then show ?case by simp
next
  case (Cons p ps)
  obtain k v where p: "p = (k, v)" by (cases p)
  have "k \<notin> fst ` set m \<Longrightarrow> hm_insert (=) k v m = m @ [(k, v)]" for m
    by (induction m) auto
  then have "hm_insert (=) k v m = m @ [(k, v)]" using Cons.prems(2) p by simp
  moreover have "fold (\<lambda>(k, v). hm_insert (=) k v) ps (m @ [(k, v)]) = (m @ [(k, v)]) @ ps"
    using Cons.prems p by (intro Cons.IH) (auto simp: image_iff)
  ultimately show ?case by (simp add: p)
qed

lemma hs_extend_keeps_distinct: "distinct s \<Longrightarrow> distinct (hs_extend (=) s xs)"
  unfolding hs_extend_def
  by (induction xs arbitrary: s) (auto simp: hs_insert_def hs_contains_def list_ex_iff)

lemma hs_extend_distinct: "distinct xs \<Longrightarrow> hs_extend (=) [] xs = xs"
proof -
  assume "distinct xs"
  then have "hm_wf (=) (map (\<lambda>x. (x, ())) xs)" by (induction xs) (auto simp: list_all_iff)
  then show ?thesis by (simp add: plain.hs_extend_wf)
qed

end
