(* ===== verification/Cursors.thy ===== *)
theory Cursors
  imports Collections
begin

text \<open>
  Positions in the network's logs: \<open>Cursor\<close> (\<open>xmtp_proto/src/types/cursor.rs\<close>), the vector clock
  \<open>GlobalCursor\<close> with its \<open>VectorClock\<close> operations (\<open>xmtp_proto/src/types/global_cursor.rs\<close>) and
  the constant originators (\<open>xmtp_configuration\<close>).

  The locale \<open>vector_clock\<close> is the contract of the trait \<open>VectorClock\<close> over an abstract reading
  \<open>get\<close>: what \<open>dominates\<close>, \<open>merge\<close> and \<open>apply\<close> promise, and what follows from it for a client
  (monotonicity, least upper bounds). \<open>gc\<close> is its interpretation on \<open>GlobalCursor\<close>.
\<close>

section \<open>Cursor\<close>

type_synonym originator_id = u32
type_synonym sequence_id = u64

datatype cursor = Cursor (sequence_id: sequence_id) (originator_id: originator_id)

text \<open>\<open>#[derive(PartialOrd, Ord)]\<close>: lexicographic in the order of the fields.\<close>

instantiation cursor :: linorder
begin

definition less_eq_cursor :: "cursor \<Rightarrow> cursor \<Rightarrow> bool" where
  "less_eq_cursor a b \<longleftrightarrow> sequence_id a < sequence_id b \<or>
     sequence_id a = sequence_id b \<and> originator_id a \<le> originator_id b"

definition less_cursor :: "cursor \<Rightarrow> cursor \<Rightarrow> bool" where
  "less_cursor a b \<longleftrightarrow> sequence_id a < sequence_id b \<or>
     sequence_id a = sequence_id b \<and> originator_id a < originator_id b"

instance
  by standard (auto simp: less_eq_cursor_def less_cursor_def cursor.expand)

end

definition MLS_COMMITS :: originator_id where "MLS_COMMITS = 0"
definition INBOX_LOG :: originator_id where "INBOX_LOG = 1"
definition APPLICATION_MESSAGES :: originator_id where "APPLICATION_MESSAGES = 10"
definition WELCOME_MESSAGES :: originator_id where "WELCOME_MESSAGES = 11"
definition INSTALLATIONS :: originator_id where "INSTALLATIONS = 13"
definition REMOTE_COMMIT_LOG :: originator_id where "REMOTE_COMMIT_LOG = 100"

lemmas originator_defs = MLS_COMMITS_def INBOX_LOG_def APPLICATION_MESSAGES_def
  WELCOME_MESSAGES_def INSTALLATIONS_def REMOTE_COMMIT_LOG_def

definition Cursor_new :: "u64 \<Rightarrow> u32 \<Rightarrow> cursor" where
  "Cursor_new sid oid = Cursor sid oid"

definition Cursor_commit_log :: "u64 \<Rightarrow> cursor" where
  "Cursor_commit_log sid = Cursor sid REMOTE_COMMIT_LOG"

definition Cursor_v3_welcomes :: "u64 \<Rightarrow> cursor" where
  "Cursor_v3_welcomes sid = Cursor sid WELCOME_MESSAGES"

definition Cursor_v3_messages :: "u64 \<Rightarrow> cursor" where
  "Cursor_v3_messages sid = Cursor sid APPLICATION_MESSAGES"

definition Cursor_installations :: "u64 \<Rightarrow> cursor" where
  "Cursor_installations sid = Cursor sid INSTALLATIONS"

definition Cursor_mls_commits :: "u64 \<Rightarrow> cursor" where
  "Cursor_mls_commits sid = Cursor sid MLS_COMMITS"

definition Cursor_inbox_log :: "u64 \<Rightarrow> cursor" where
  "Cursor_inbox_log sid = Cursor sid INBOX_LOG"

section \<open>GlobalCursor\<close>

type_synonym global_cursor = "(originator_id, sequence_id) btree_map"

abbreviation (input) gc_default :: global_cursor where "gc_default \<equiv> []"

definition gc_new :: "(originator_id, sequence_id) btree_map \<Rightarrow> global_cursor" where
  "gc_new m = m"

definition gc_get :: "global_cursor \<Rightarrow> originator_id \<Rightarrow> sequence_id" where
  "gc_get c originator = (case map_of c originator of None \<Rightarrow> 0 | Some sid \<Rightarrow> sid)"

definition gc_has_seen :: "global_cursor \<Rightarrow> cursor \<Rightarrow> bool" where
  "gc_has_seen c other = (let sid = gc_get c (originator_id other) in sid \<ge> sequence_id other)"

definition gc_with_hashmap :: "(originator_id, sequence_id) hash_map \<Rightarrow> global_cursor" where
  "gc_with_hashmap m = bt_from_iter m"

definition gc_cursors :: "global_cursor \<Rightarrow> cursor list" where
  "gc_cursors c = map (\<lambda>(k, v). Cursor v k) c"

text \<open>
  \<open>entry(k).and_modify(f).or_insert(v)\<close>: the stored value is changed by \<open>f\<close> when the key is
  present and is \<open>v\<close> otherwise.
\<close>

definition gc_apply :: "cursor \<Rightarrow> global_cursor \<Rightarrow> global_cursor" where
  "gc_apply cur c =
     (case map_of c (originator_id cur) of
        Some sid \<Rightarrow> bt_insert (originator_id cur) (max sid (sequence_id cur)) c
      | None \<Rightarrow> bt_insert (originator_id cur) (sequence_id cur) c)"

definition gc_apply_least :: "cursor \<Rightarrow> global_cursor \<Rightarrow> global_cursor" where
  "gc_apply_least cur c =
     (case map_of c (originator_id cur) of
        Some sid \<Rightarrow> bt_insert (originator_id cur) (min sid (sequence_id cur)) c
      | None \<Rightarrow> bt_insert (originator_id cur) (sequence_id cur) c)"

definition gc_cursor :: "global_cursor \<Rightarrow> originator_id \<Rightarrow> cursor" where
  "gc_cursor c originator = Cursor_new (gc_get c originator) originator"

definition gc_max :: "global_cursor \<Rightarrow> sequence_id" where
  "gc_max c = (case map snd c of [] \<Rightarrow> 0 | v # vs \<Rightarrow> fold max vs v)"

definition gc_v3_welcome :: "global_cursor \<Rightarrow> sequence_id" where
  "gc_v3_welcome c = (case map_of c WELCOME_MESSAGES of None \<Rightarrow> 0 | Some s \<Rightarrow> s)"

definition gc_v3_message :: "global_cursor \<Rightarrow> sequence_id" where
  "gc_v3_message c = (case map_of c APPLICATION_MESSAGES of None \<Rightarrow> 0 | Some s \<Rightarrow> s)"

definition gc_commit :: "global_cursor \<Rightarrow> sequence_id" where
  "gc_commit c = (case map_of c MLS_COMMITS of None \<Rightarrow> 0 | Some s \<Rightarrow> s)"

definition gc_commit_cursor :: "global_cursor \<Rightarrow> cursor" where
  "gc_commit_cursor c = (let sequence_id = gc_get c MLS_COMMITS in Cursor_mls_commits sequence_id)"

definition gc_v3_installations :: "global_cursor \<Rightarrow> sequence_id" where
  "gc_v3_installations c = (case map_of c INSTALLATIONS of None \<Rightarrow> 0 | Some s \<Rightarrow> s)"

definition gc_inbox_log :: "global_cursor \<Rightarrow> sequence_id" where
  "gc_inbox_log c = (case map_of c INBOX_LOG of None \<Rightarrow> 0 | Some s \<Rightarrow> s)"

text \<open>
  Conversions, with the constructors of \<open>ConversionError\<close>; the rendered values (\<open>got\<close>) and
  the wrapped library errors some of them carry for display are left out. The protobuf \<open>Cursor\<close> of \<open>xmtpv4.envelopes\<close> is one hash map
  \<open>node_id_to_sequence_id\<close>. \<open>Extend\<close> overwrites; it does not take the maximum.
\<close>

datatype conversion_error =
    Missing string string
  | Unspecified string
  | Deprecated string
  | InvalidLength string nat nat
  | InvalidValue string string
  | Decode
  | Encode
  | UnknownEnumValue int
  | EdSignature
  | InvalidPublicKey string
  | InvalidVersion
  | OpenMls
  | Protocol
  | Builder
  | Slice

definition gc_from_proto :: "(originator_id, sequence_id) hash_map \<Rightarrow> global_cursor" where
  "gc_from_proto m = bt_from_iter m"

definition gc_to_proto :: "global_cursor \<Rightarrow> (originator_id, sequence_id) hash_map" where
  "gc_to_proto c = hm_from_iter (=) c"

definition cursor_to_proto :: "cursor \<Rightarrow> (originator_id, sequence_id) hash_map" where
  "cursor_to_proto c = hm_insert (=) (originator_id c) (sequence_id c) []"

definition cursor_of_global :: "global_cursor \<Rightarrow> (conversion_error, cursor) result" where
  "cursor_of_global c =
     (if length c > 1 then Err (InvalidLength ''GlobalCursor'' 1 (length c))
      else case c of
             [] \<Rightarrow> Err (InvalidLength ''GlobalCursor'' 1 0)
           | (oid, sid) # _ \<Rightarrow> Ok (Cursor_new sid oid))"

definition cursor_of_proto :: "(originator_id, sequence_id) hash_map \<Rightarrow> (conversion_error, cursor) result" where
  "cursor_of_proto m = cursor_of_global (gc_from_proto m)"

definition gc_from_cursor :: "cursor \<Rightarrow> global_cursor" where
  "gc_from_cursor c = bt_insert (originator_id c) (sequence_id c) []"

definition gc_extend :: "global_cursor \<Rightarrow> cursor list \<Rightarrow> global_cursor" where
  "gc_extend c cs = fold (\<lambda>(k, v). bt_insert k v) (map (\<lambda>x. (originator_id x, sequence_id x)) cs) c"

section \<open>The VectorClock operations\<close>

datatype clock_ordering = Equal | Ancestor | Descendant | Concurrent

definition gc_dominates :: "global_cursor \<Rightarrow> global_cursor \<Rightarrow> bool" where
  "gc_dominates c other \<longleftrightarrow> list_all (\<lambda>(node, seq). gc_get c node \<ge> seq) other"

definition gc_missing :: "global_cursor \<Rightarrow> global_cursor \<Rightarrow> cursor list" where
  "gc_missing c other =
     List.map_filter (\<lambda>(node, seq). if gc_get c node < seq then Some (Cursor_new seq node) else None) other"

definition gc_merge :: "global_cursor \<Rightarrow> global_cursor \<Rightarrow> global_cursor" where
  "gc_merge c other =
     fold (\<lambda>(node, seq) acc.
       let entry = (case map_of acc node of None \<Rightarrow> 0 | Some sid \<Rightarrow> sid)
       in bt_insert node (max entry seq) acc) other c"

definition gc_merge_least :: "global_cursor \<Rightarrow> global_cursor \<Rightarrow> global_cursor" where
  "gc_merge_least c other =
     fold (\<lambda>(node, seq) acc.
       let entry = (case map_of acc node of None \<Rightarrow> seq | Some sid \<Rightarrow> sid)
       in bt_insert node (min entry seq) acc) other c"

definition gc_compare :: "global_cursor \<Rightarrow> global_cursor \<Rightarrow> clock_ordering" where
  "gc_compare c other =
     (let all_nodes = hs_extend (=) [] (map fst c @ map fst other);
          (self_greater, other_greater) =
            fold (\<lambda>node (sg, og).
              let a = gc_get c node; b = gc_get other node
              in if a > b then (True, og) else if a < b then (sg, True) else (sg, og))
            all_nodes (False, False)
      in case (self_greater, other_greater) of
           (False, False) \<Rightarrow> Equal
         | (True, False) \<Rightarrow> Descendant
         | (False, True) \<Rightarrow> Ancestor
         | (True, True) \<Rightarrow> Concurrent)"

section \<open>The contract of a vector clock\<close>

locale vector_clock =
  fixes get :: "'c \<Rightarrow> 'o \<Rightarrow> 's::linorder"
    and dominates :: "'c \<Rightarrow> 'c \<Rightarrow> bool"
    and merge :: "'c \<Rightarrow> 'c \<Rightarrow> 'c"
    and advance :: "'k \<Rightarrow> 'c \<Rightarrow> 'c"
    and seq_of :: "'k \<Rightarrow> 's"
    and orig_of :: "'k \<Rightarrow> 'o"
    and invar :: "'c \<Rightarrow> bool"
  assumes dominates_iff: "invar d \<Longrightarrow> dominates c d \<longleftrightarrow> (\<forall>x. get d x \<le> get c x)"
    and dominates_mono: "dominates c d \<Longrightarrow> (\<And>x. get c x \<le> get c' x) \<Longrightarrow> dominates c' d"
    and get_merge: "invar d \<Longrightarrow> get (merge c d) x = max (get c x) (get d x)"
    and get_advance: "get (advance k c) x = (if orig_of k = x then max (get c x) (seq_of k) else get c x)"
    and invar_merge: "invar c \<Longrightarrow> invar (merge c d)"
    and invar_advance: "invar c \<Longrightarrow> invar (advance k c)"
begin

lemma dominates_refl: "invar c \<Longrightarrow> dominates c c"
  by (simp add: dominates_iff)

lemma dominates_trans: "dominates c d \<Longrightarrow> dominates b c \<Longrightarrow> invar c \<Longrightarrow> dominates b d"
  by (erule dominates_mono) (auto simp: dominates_iff)

lemma dominates_advance: "dominates c d \<Longrightarrow> dominates (advance k c) d"
  by (erule dominates_mono) (simp add: get_advance)

lemma get_advance_ge: "get c x \<le> get (advance k c) x"
  by (simp add: get_advance)

lemma advance_seen: "seq_of k \<le> get (advance k c) (orig_of k)"
  by (simp add: get_advance)

lemma advance_commute: "get (advance k (advance l c)) = get (advance l (advance k c))"
  by (rule ext) (simp add: get_advance max.left_commute max.commute)

lemma advance_idem: "seq_of k \<le> get c (orig_of k) \<Longrightarrow> get (advance k c) = get c"
  by (rule ext) (auto simp: get_advance max_absorb1)

lemma merge_lub:
  assumes "invar c" "invar d"
  shows "dominates (merge c d) c" and "dominates (merge c d) d"
    and "dominates b c \<Longrightarrow> dominates b d \<Longrightarrow> dominates b (merge c d)"
  using assms by (simp_all add: dominates_iff get_merge invar_merge)

lemma merge_commute: "invar c \<Longrightarrow> invar d \<Longrightarrow> get (merge c d) = get (merge d c)"
  by (rule ext) (simp add: get_merge max.commute)

lemma merge_absorb: "invar d \<Longrightarrow> dominates c d \<Longrightarrow> get (merge c d) = get c"
  by (rule ext) (auto simp: dominates_iff get_merge max_absorb1)

lemma get_advance_all:
  "get (fold advance ks c) x =
     fold max (map seq_of (filter (\<lambda>k. orig_of k = x) ks)) (get c x)"
  by (induction ks arbitrary: c) (auto simp: get_advance max.commute)

end

section \<open>GlobalCursor is a vector clock\<close>

lemma gc_get_simps [simp]:
  "gc_get [] n = 0"
  "gc_get (bt_insert k s c) n = (if k = n then s else gc_get c n)"
  "gc_get (p # c) n = (if fst p = n then snd p else gc_get c n)"
  by (auto simp: gc_get_def)

lemma gc_get_apply:
  "gc_get (gc_apply k c) n =
     (if originator_id k = n then max (gc_get c n) (sequence_id k) else gc_get c n)"
  by (auto simp: gc_apply_def gc_get_def split: option.splits)

lemma gc_wf_apply [simp]: "bt_wf c \<Longrightarrow> bt_wf (gc_apply k c)"
  by (auto simp: gc_apply_def split: option.splits)

lemma gc_merge_Nil [simp]: "gc_merge c [] = c"
  by (simp add: gc_merge_def)

lemma gc_merge_Cons:
  "gc_merge c (p # d) = gc_merge (bt_insert (fst p) (max (gc_get c (fst p)) (snd p)) c) d"
  by (cases p) (simp add: gc_merge_def gc_get_def Let_def)

lemma gc_wf_merge [simp]: "bt_wf c \<Longrightarrow> bt_wf (gc_merge c d)"
  by (induction d arbitrary: c) (auto simp: gc_merge_Cons)

lemma gc_get_none: "n \<notin> fst ` set c \<Longrightarrow> gc_get c n = 0"
  by (simp add: gc_get_def map_of_eq_None_iff [THEN iffD2])

lemma gc_get_mem: "bt_wf c \<Longrightarrow> (n, s) \<in> set c \<Longrightarrow> gc_get c n = s"
  by (simp add: gc_get_def bt_mem_iff)

lemma gc_get_merge: "bt_wf d \<Longrightarrow> gc_get (gc_merge c d) n = max (gc_get c n) (gc_get d n)"
proof (induction d arbitrary: c)
  case Nil
  then show ?case by (simp add: max_def)
next
  case (Cons p d)
  then have fresh: "fst p \<notin> fst ` set d" by auto
  from Cons show ?case
    by (auto simp: gc_merge_Cons gc_get_none [OF fresh] max_def)
qed

lemma gc_dominates_mono:
  "gc_dominates c d \<Longrightarrow> (\<And>n. gc_get c n \<le> gc_get c' n) \<Longrightarrow> gc_dominates c' d"
  by (fastforce simp: gc_dominates_def list_all_iff intro: order_trans)

lemma gc_dominates_iff:
  assumes "bt_wf d"
  shows "gc_dominates c d \<longleftrightarrow> (\<forall>n. gc_get d n \<le> gc_get c n)"
proof
  assume dom: "gc_dominates c d"
  show "\<forall>n. gc_get d n \<le> gc_get c n"
  proof
    fix n
    show "gc_get d n \<le> gc_get c n"
    proof (cases "map_of d n")
      case None
      then show ?thesis by (simp add: gc_get_def)
    next
      case (Some s)
      with dom show ?thesis
        by (auto simp: gc_dominates_def list_all_iff gc_get_def [of d] dest: map_of_SomeD)
    qed
  qed
next
  assume le: "\<forall>n. gc_get d n \<le> gc_get c n"
  show "gc_dominates c d"
    using le gc_get_mem [OF assms] by (auto simp: gc_dominates_def list_all_iff)
qed

interpretation gc: vector_clock gc_get gc_dominates gc_merge gc_apply sequence_id originator_id bt_wf
proof unfold_locales
  fix c d c' :: global_cursor and k n
  show "gc_dominates c d \<longleftrightarrow> (\<forall>n. gc_get d n \<le> gc_get c n)" if "bt_wf d"
    using that by (rule gc_dominates_iff)
  show "gc_dominates c' d" if "gc_dominates c d" "\<And>n. gc_get c n \<le> gc_get c' n"
    using that by (rule gc_dominates_mono)
qed (simp_all add: gc_get_merge gc_get_apply)

section \<open>Properties of the clock operations\<close>

lemma compare_fold:
  "fold (\<lambda>node (sg, og). let a = f node; b = g node
      in if a > b then (True, og) else if a < b then (sg, True) else (sg, og)) ns (sg, og) =
   (sg \<or> (\<exists>n \<in> set ns. f n > (g n :: 'a::linorder)), og \<or> (\<exists>n \<in> set ns. f n < g n))"
  by (induction ns arbitrary: sg og) (auto simp: Let_def)

lemma hs_extend_plain_set: "set (hs_extend (=) [] xs) = set xs"
  using plain.hs_contains_extend [of "[]" xs] by (auto simp: hs_contains_iff)

lemma not_dominates_witness:
  assumes "bt_wf c" "bt_wf d" and "K = fst ` set c \<union> fst ` set d"
  shows "(\<exists>n \<in> K. gc_get c n > gc_get d n) \<longleftrightarrow> \<not> gc_dominates d c"
proof -
  have "gc_get c n > gc_get d n \<Longrightarrow> n \<in> K" for n
    using assms(3) gc_get_none [of n c] by (cases "n \<in> fst ` set c") auto
  then show ?thesis
    by (auto simp: gc_dominates_iff [OF assms(1)] not_le)
qed

text \<open>
  On well-formed clocks \<open>compare\<close> decides the causal order that \<open>dominates\<close> defines:
  \<open>Equal\<close> when each dominates the other, \<open>Descendant\<close> when only the first dominates,
  \<open>Ancestor\<close> when only the second does, \<open>Concurrent\<close> when neither does.
\<close>

theorem gc_compare_decides:
  assumes "bt_wf c" and "bt_wf d"
  shows "gc_compare c d =
     (if gc_dominates c d then (if gc_dominates d c then Equal else Descendant)
      else (if gc_dominates d c then Ancestor else Concurrent))"
proof -
  let ?K = "fst ` set c \<union> fst ` set d"
  have keys: "set (hs_extend (=) [] (map fst c @ map fst d)) = ?K"
    by (simp add: hs_extend_plain_set)
  have "(\<exists>n \<in> ?K. gc_get c n > gc_get d n) \<longleftrightarrow> \<not> gc_dominates d c"
    by (rule not_dominates_witness [OF assms]) simp
  moreover have "(\<exists>n \<in> ?K. gc_get c n < gc_get d n) \<longleftrightarrow> \<not> gc_dominates c d"
    by (rule not_dominates_witness [OF assms(2,1)]) (simp add: Un_commute)
  ultimately show ?thesis
    unfolding gc_compare_def Let_def compare_fold [unfolded Let_def] keys by simp
qed

theorem gc_compare_decides_witness:
  "bt_wf [(1 :: u32, 5 :: u64), (2, 0)] \<and> bt_wf [(1 :: u32, 4 :: u64)] \<and> gc_compare [(1, 5), (2, 0)] [(1, 4)] = Descendant"
proof -
  have wf: "bt_wf [(1 :: u32, 5 :: u64), (2, 0)]" "bt_wf [(1 :: u32, 4 :: u64)]" by simp_all
  show ?thesis
    using wf by (simp add: gc_compare_decides [OF wf] gc_dominates_def)
qed

text \<open>
  \<open>merge\<close> is the least upper bound of two clocks for \<open>dominates\<close>: the merged clock has
  seen what either has seen, and every clock that has seen both has seen the merged one.
\<close>

lemma gc_merge_least_upper_bound:
  assumes "bt_wf c" and "bt_wf d"
  shows "gc_dominates (gc_merge c d) c \<and> gc_dominates (gc_merge c d) d \<and>
    (\<forall>b. gc_dominates b (gc_merge c d) = (gc_dominates b c \<and> gc_dominates b d))"
proof -
  have "gc_dominates b c \<and> gc_dominates b d" if "gc_dominates b (gc_merge c d)" for b
    using that gc.merge_lub(1,2) [OF assms] gc.dominates_trans gc_wf_merge [OF assms(1)] assms
    by (meson gc.dominates_iff order_trans)
  then show ?thesis
    using gc.merge_lub [OF assms] by blast
qed

lemma gc_missing_set:
  "set (gc_missing c d) = {Cursor s n | n s. (n, s) \<in> set d \<and> gc_get c n < s}"
  by (force simp: gc_missing_def List.map_filter_def Cursor_new_def split: if_splits)

lemma gc_missing_Cons:
  "gc_missing c (p # d) =
     (if gc_get c (fst p) < snd p then Cursor (snd p) (fst p) # gc_missing c d else gc_missing c d)"
  by (cases p) (simp add: gc_missing_def List.map_filter_def Cursor_new_def)

lemma gc_apply_missing:
  assumes "bt_wf d" "\<And>n. n \<in> fst ` set d \<Longrightarrow> gc_get c n = gc_get c0 n"
  shows "gc_get (fold gc_apply (gc_missing c0 d) c) n = max (gc_get c n) (gc_get d n)"
  using assms
proof (induction d arbitrary: c)
  case Nil
  then show ?case by (simp add: gc_missing_def List.map_filter_def max_def)
next
  case (Cons p d)
  then have fresh: "fst p \<notin> fst ` set d" by auto
  let ?c' = "if gc_get c0 (fst p) < snd p then gc_apply (Cursor (snd p) (fst p)) c else c"
  have "gc_get ?c' m = gc_get c0 m" if "m \<in> fst ` set d" for m
    using Cons.prems(2) fresh that by (auto simp: gc_get_apply)
  then have "gc_get (fold gc_apply (gc_missing c0 d) ?c') n = max (gc_get ?c' n) (gc_get d n)"
    using Cons.IH Cons.prems(1) by simp
  then have step: "gc_get (fold gc_apply (gc_missing c0 (p # d)) c) n = max (gc_get ?c' n) (gc_get d n)"
    by (cases "gc_get c0 (fst p) < snd p") (simp_all add: gc_missing_Cons)
  have same: "gc_get c (fst p) = gc_get c0 (fst p)"
    using Cons.prems(2) by simp
  show ?case
    unfolding step using same gc_get_none [OF fresh]
    by (auto simp: gc_get_apply max_def not_less)
qed

text \<open>
  \<open>missing\<close> is exactly the gap: it is empty if and only if the clock dominates the
  other, every cursor it lists is one the clock has not seen, and applying the listed cursors one
  by one brings the clock to the merge of the two.
\<close>

theorem gc_missing_is_gap:
  assumes "bt_wf d"
  shows "(gc_missing c d = []) = gc_dominates c d \<and>
    list_all (\<lambda>k. \<not> gc_has_seen c k) (gc_missing c d) \<and>
    gc_get (fold gc_apply (gc_missing c d) c) = gc_get (gc_merge c d)"
proof (intro conjI)
  show "(gc_missing c d = []) = gc_dominates c d"
    using gc_missing_set [of c d] unfolding gc_dominates_def list_all_iff
    by (fastforce simp: not_less simp flip: set_empty)
  show "list_all (\<lambda>k. \<not> gc_has_seen c k) (gc_missing c d)"
    by (auto simp: list_all_iff gc_missing_set gc_has_seen_def Let_def)
  show "gc_get (fold gc_apply (gc_missing c d) c) = gc_get (gc_merge c d)"
    by (rule ext) (simp add: gc_apply_missing [OF assms] gc_get_merge [OF assms])
qed

theorem gc_missing_is_gap_witness:
  "bt_wf [(1 :: u32, 5 :: u64), (2, 7)] \<and> gc_missing [(1, 3), (2, 7)] [(1, 5), (2, 7)] = [Cursor 5 1] \<and>
   gc_get (fold gc_apply [Cursor 5 1] [(1, 3), (2, 7)]) = gc_get (gc_merge [(1, 3), (2, 7)] [(1, 5), (2, 7)])"
proof -
  have wf: "bt_wf [(1 :: u32, 5 :: u64), (2, 7)]" by simp
  have eq: "gc_missing [(1, 3), (2, 7)] [(1, 5), (2, 7)] = [Cursor 5 1]"
    by (simp add: gc_missing_Cons) (simp add: gc_missing_def List.map_filter_def)
  show ?thesis
    using wf eq gc_missing_is_gap [OF wf, of "[(1, 3), (2, 7)]"] unfolding eq by simp
qed

text \<open>
  A clock survives the trip through the protobuf \<open>Cursor\<close> (a hash map without
  order): decoding what was encoded gives the clock back, and a single cursor survives too.
\<close>

theorem gc_proto_roundtrip:
  assumes "bt_wf c"
  shows "gc_from_proto (gc_to_proto c) = c \<and> cursor_of_proto (cursor_to_proto k) = Ok k"
proof
  have "gc_to_proto c = c"
    unfolding gc_to_proto_def hm_from_iter_def
    using hm_from_iter_distinct [of c "[]"] bt_wf_distinct [OF assms] by simp
  moreover have "bt_from_iter c = c"
    by (rule bt_ext) (use assms bt_wf_distinct [OF assms] in \<open>simp_all add: bt_lookup_from_iter map_of_rev_distinct\<close>)
  ultimately show "gc_from_proto (gc_to_proto c) = c"
    by (simp add: gc_from_proto_def)
  show "cursor_of_proto (cursor_to_proto k) = Ok k"
    by (simp add: cursor_of_proto_def cursor_to_proto_def gc_from_proto_def bt_from_iter_def
        cursor_of_global_def Cursor_new_def)
qed

theorem gc_proto_roundtrip_witness:
  "gc_from_proto (gc_to_proto [(0, 12), (11, 3)]) = [(0, 12), (11, 3)] \<and>
   cursor_of_proto (cursor_to_proto (Cursor_v3_welcomes 3)) = Ok (Cursor_v3_welcomes 3)"
proof -
  have wf: "bt_wf [(0 :: u32, 12 :: u64), (11, 3)]" by simp
  show ?thesis by (rule gc_proto_roundtrip [OF wf])
qed

end
