(* ===== verification/Topics.thy ===== *)
theory Topics
  imports Cursors
begin

text \<open>
  Topics, the clock kept per topic, and orphaned envelopes:
  \<open>xmtp_proto/src/types/topic.rs\<close>, \<open>topic_cursor.rs\<close> and \<open>orphaned_envelope.rs\<close>.

  A topic is its bytes; the first byte is the kind. \<open>Topic::kind\<close> panics on bytes that no
  constructor produces: the panic is \<open>None\<close>. \<open>TopicCursor\<close> is a hash map from topics to clocks;
  \<open>get_or_default\<close> returns the clock together with the map, because it inserts the empty clock.
  The equality of orphans ignores their payload, as the source's \<open>PartialEq\<close> does.
\<close>

section \<open>Topic kinds and topics\<close>

datatype topic_kind = GroupMessagesV1 | WelcomeMessagesV1 | IdentityUpdatesV1 | KeyPackagesV1

datatype topic = Topic (topic_inner: bytes)

fun TopicKind_byte :: "topic_kind \<Rightarrow> u8" where
  "TopicKind_byte GroupMessagesV1 = 0"
| "TopicKind_byte WelcomeMessagesV1 = 1"
| "TopicKind_byte IdentityUpdatesV1 = 2"
| "TopicKind_byte KeyPackagesV1 = 3"

definition TopicKind_try_from :: "u8 \<Rightarrow> (conversion_error, topic_kind) result" where
  "TopicKind_try_from value =
     (if value = 0 then Ok GroupMessagesV1
      else if value = 1 then Ok WelcomeMessagesV1
      else if value = 2 then Ok IdentityUpdatesV1
      else if value = 3 then Ok KeyPackagesV1
      else Err (InvalidValue ''u8'' ''an unsigned integer in the range 0-3''))"

definition TopicKind_build :: "topic_kind \<Rightarrow> bytes \<Rightarrow> bytes" where
  "TopicKind_build kind bs = TopicKind_byte kind # bs"

definition TopicKind_create :: "topic_kind \<Rightarrow> bytes \<Rightarrow> topic" where
  "TopicKind_create kind bs = Topic (TopicKind_build kind bs)"

definition Topic_new :: "topic_kind \<Rightarrow> bytes \<Rightarrow> topic" where
  "Topic_new kind bs = Topic (TopicKind_build kind bs)"

definition new_group_message :: "bytes \<Rightarrow> topic" where
  "new_group_message group_id = TopicKind_create GroupMessagesV1 group_id"

definition new_identity_update :: "bytes \<Rightarrow> topic" where
  "new_identity_update inbox_id = TopicKind_create IdentityUpdatesV1 inbox_id"

definition new_welcome_message :: "bytes \<Rightarrow> topic" where
  "new_welcome_message installation_id = TopicKind_create WelcomeMessagesV1 installation_id"

definition new_key_package :: "bytes \<Rightarrow> topic" where
  "new_key_package installation_id = TopicKind_create KeyPackagesV1 installation_id"

definition topic_kind_of :: "topic \<Rightarrow> topic_kind option" where
  "topic_kind_of t =
     (case topic_inner t of
        [] \<Rightarrow> None
      | b # _ \<Rightarrow> (case TopicKind_try_from b of Ok k \<Rightarrow> Some k | Err _ \<Rightarrow> None))"

text \<open>\<open>&self.inner[1..]\<close> panics on the empty byte array.\<close>

definition topic_identifier :: "topic \<Rightarrow> bytes option" where
  "topic_identifier t = (case topic_inner t of [] \<Rightarrow> None | _ # bs \<Rightarrow> Some bs)"

definition identity_updates :: "topic \<Rightarrow> topic option option" where
  "identity_updates t = map_option (\<lambda>k. if k = IdentityUpdatesV1 then Some t else None) (topic_kind_of t)"

definition group_message_v1 :: "topic \<Rightarrow> topic option option" where
  "group_message_v1 t = map_option (\<lambda>k. if k = GroupMessagesV1 then Some t else None) (topic_kind_of t)"

definition welcome_message_v1 :: "topic \<Rightarrow> topic option option" where
  "welcome_message_v1 t = map_option (\<lambda>k. if k = WelcomeMessagesV1 then Some t else None) (topic_kind_of t)"

definition key_packages_v1 :: "topic \<Rightarrow> topic option option" where
  "key_packages_v1 t = map_option (\<lambda>k. if k = KeyPackagesV1 then Some t else None) (topic_kind_of t)"

definition Topic_try_from :: "bytes \<Rightarrow> (conversion_error, topic) result" where
  "Topic_try_from value =
     (case value of
        b # bs \<Rightarrow> rbind (TopicKind_try_from b) (\<lambda>kind. Ok (Topic_new kind bs))
      | [] \<Rightarrow> Err (InvalidValue ''Topic'' ''a byte array where the first byte is a valid TopicKind''))"

definition Topic_to_bytes :: "topic \<Rightarrow> bytes" where
  "Topic_to_bytes t = topic_inner t"

section \<open>TopicCursor\<close>

type_synonym topic_cursor = "(topic, global_cursor) hash_map"

definition get_or_default :: "topic_cursor \<Rightarrow> topic \<Rightarrow> global_cursor \<times> topic_cursor" where
  "get_or_default tc t =
     (case hm_get (=) tc t of
        Some clock \<Rightarrow> (clock, tc)
      | None \<Rightarrow> (gc_default, hm_insert (=) t gc_default tc))"

definition get_group :: "topic_cursor \<Rightarrow> bytes \<Rightarrow> global_cursor" where
  "get_group tc group_id =
     (case hm_get (=) tc (new_group_message group_id) of Some clock \<Rightarrow> clock | None \<Rightarrow> gc_default)"

definition contains_group :: "topic_cursor \<Rightarrow> bytes \<Rightarrow> bool" where
  "contains_group tc group_id = hm_contains_key (=) tc (new_group_message group_id)"

definition TopicCursor_topics :: "topic_cursor \<Rightarrow> topic list" where
  "TopicCursor_topics tc = map fst tc"

definition TopicCursor_add :: "topic_cursor \<Rightarrow> topic \<Rightarrow> global_cursor \<Rightarrow> topic_cursor" where
  "TopicCursor_add tc t clock = hm_insert (=) t clock tc"

definition TopicCursor_from_iter :: "(topic \<times> global_cursor) list \<Rightarrow> topic_cursor" where
  "TopicCursor_from_iter ps = hm_from_iter (=) ps"

text \<open>\<open>groups()\<close> is \<open>None\<close> when some topic's bytes make \<open>kind\<close> panic.\<close>

fun groups :: "topic_cursor \<Rightarrow> (bytes \<times> global_cursor) list option" where
  "groups [] = Some []"
| "groups ((t, g) # tc) =
     (case group_message_v1 t of
        None \<Rightarrow> None
      | Some None \<Rightarrow> groups tc
      | Some (Some t') \<Rightarrow>
          (case topic_identifier t' of
             None \<Rightarrow> None
           | Some gid \<Rightarrow> map_option (Cons (gid, g)) (groups tc)))"

section \<open>OrphanedEnvelope\<close>

record orphaned_envelope =
  oe_cursor :: cursor
  oe_depends_on :: global_cursor
  oe_payload :: bytes
  oe_group_id :: bytes

definition orphan_eq :: "orphaned_envelope \<Rightarrow> orphaned_envelope \<Rightarrow> bool" where
  "orphan_eq a b \<longleftrightarrow> oe_cursor a = oe_cursor b \<and> oe_depends_on a = oe_depends_on b \<and>
     oe_group_id a = oe_group_id b"

definition into_payload :: "orphaned_envelope \<Rightarrow> bytes" where
  "into_payload o1 = oe_payload o1"

definition is_child_of :: "orphaned_envelope \<Rightarrow> cursor \<Rightarrow> bool" where
  "is_child_of o1 cur \<longleftrightarrow>
     map_of (oe_depends_on o1) (originator_id cur) \<noteq> None \<and>
     gc_get (oe_depends_on o1) (originator_id cur) = sequence_id cur"

section \<open>Lemmas\<close>

interpretation orphan: key_eq orphan_eq
  by unfold_locales (auto simp: orphan_eq_def)

lemma TopicKind_try_from_byte [simp]: "TopicKind_try_from (TopicKind_byte k) = Ok k"
  by (cases k) (simp_all add: TopicKind_try_from_def)

lemma TopicKind_try_from_Ok: "TopicKind_try_from b = Ok k \<longleftrightarrow> b = TopicKind_byte k"
  by (cases k) (auto simp: TopicKind_try_from_def)

definition topic_wf :: "topic \<Rightarrow> bool" where
  "topic_wf t \<longleftrightarrow> (\<exists>k bs. t = Topic_new k bs)"

lemma topic_wf_kind: "topic_wf t \<longleftrightarrow> topic_kind_of t \<noteq> None"
proof (cases "topic_inner t")
  case Nil
  then show ?thesis by (cases t) (auto simp: topic_wf_def topic_kind_of_def Topic_new_def TopicKind_build_def)
next
  case (Cons b bs)
  then show ?thesis
    by (cases t; cases "TopicKind_try_from b")
      (auto simp: topic_wf_def topic_kind_of_def Topic_new_def TopicKind_build_def TopicKind_try_from_Ok)
qed

lemma u8_le_three: "(b :: u8) \<le> 3 \<longleftrightarrow> b = 0 \<or> b = 1 \<or> b = 2 \<or> b = 3"
proof
  assume "b \<le> 3"
  then have "unat b \<le> 3" by (simp add: word_le_nat_alt)
  then consider "unat b = 0" | "unat b = 1" | "unat b = 2" | "unat b = 3" by linarith
  moreover have unat: "unat b = n \<Longrightarrow> b = word_of_nat n" for n
    by (metis of_nat_unat ucast_id)
  ultimately show "b = 0 \<or> b = 1 \<or> b = 2 \<or> b = 3"
    by cases (drule unat, simp)+
qed auto

text \<open>
  Bytes and topics correspond: the bytes of a topic made by a constructor parse back
  to that topic, its kind and identifier are the ones it was made with, and bytes that parse are
  exactly the bytes of the topic they parse to. Parsing fails on the empty array and on every
  first byte above 3, and only there.
\<close>

theorem topic_bytes_roundtrip:
  "Topic_try_from (Topic_to_bytes (Topic_new k bs)) = Ok (Topic_new k bs) \<and>
   topic_kind_of (Topic_new k bs) = Some k \<and> topic_identifier (Topic_new k bs) = Some bs \<and>
   (Topic_try_from raw = Ok t) = (Topic_to_bytes t = raw \<and> topic_kind_of t \<noteq> None) \<and>
   is_ok (Topic_try_from raw) = (raw \<noteq> [] \<and> hd raw \<le> 3)"
proof -
  have parse: "is_ok (Topic_try_from raw) = (raw \<noteq> [] \<and> hd raw \<le> 3)"
  proof (cases raw)
    case Nil
    then show ?thesis by (simp add: Topic_try_from_def)
  next
    case (Cons b v)
    have "b \<le> 3 \<longleftrightarrow> b = 0 \<or> b = 1 \<or> b = 2 \<or> b = 3"
      by (rule u8_le_three)
    then show ?thesis
      by (auto simp: Cons Topic_try_from_def TopicKind_try_from_def)
  qed
  have "(Topic_try_from raw = Ok t) = (Topic_to_bytes t = raw \<and> topic_kind_of t \<noteq> None)"
    by (cases raw; cases t)
      (auto simp: Topic_try_from_def Topic_to_bytes_def topic_kind_of_def rbind_eq_Ok Topic_new_def
        TopicKind_build_def TopicKind_try_from_Ok split: sum.splits list.splits)
  with parse show ?thesis
    by (simp add: Topic_try_from_def Topic_to_bytes_def Topic_new_def TopicKind_build_def
        topic_kind_of_def topic_identifier_def)
qed

text \<open>The clock a topic cursor holds for a topic, the empty clock when it holds none.\<close>

definition clock_of :: "topic_cursor \<Rightarrow> topic \<Rightarrow> global_cursor" where
  "clock_of tc t = (case hm_get (=) tc t of Some clock \<Rightarrow> clock | None \<Rightarrow> gc_default)"

lemma get_or_default_fst [simp]: "fst (get_or_default tc t) = clock_of tc t"
  by (simp add: get_or_default_def clock_of_def split: option.splits)

lemma get_or_default_snd [simp]: "clock_of (snd (get_or_default tc t)) u = clock_of tc u"
  by (auto simp: get_or_default_def clock_of_def plain.hm_get_insert split: option.splits)

lemma get_or_default_eq: "get_or_default tc t = (clock_of tc t, snd (get_or_default tc t))"
  by (metis get_or_default_fst prod.collapse)

lemma get_group_clock: "get_group tc gid = clock_of tc (new_group_message gid)"
  by (simp add: get_group_def clock_of_def)

lemma clock_of_add: "clock_of (TopicCursor_add tc t c) u = (if t = u then c else clock_of tc u)"
  by (simp add: TopicCursor_add_def clock_of_def plain.hm_get_insert)

end
