(* ===== verification/Causal_Sort.thy ===== *)
theory Causal_Sort
  imports Topics "HOL-Library.Option_ord"
begin

text \<open>
  Causal ordering of envelopes: \<open>xmtp_api_d14n/src/protocol/sort/causal.rs\<close>,
  \<open>sort/timestamp.rs\<close> and \<open>traits/sort.rs\<close>.

  The methods of the trait \<open>Envelope\<close> that the sorts call are the fields of a record, so that the
  code is modelled for every implementor; each can fail. \<open>causal_sort_loop\<close> is the index loop of
  \<open>CausalSort::sort\<close>: it removes an envelope whose dependencies the topic's clock does not dominate,
  applies the others, and splices back what became valid. It returns the result together with the
  vector and the topic cursor, which the source mutates in place also when it fails.

  The abstract view forgets everything of a topic cursor but what it has seen: a function from
  topics and originators to sequence ids. The loop is proved to compute the unique causal closure
  over that view, whatever the arrival order.
\<close>

section \<open>The operations of an envelope\<close>

datatype cursor_store_error =
    Write | Read | UnhandledTopicKind topic_kind | NoDependenciesFound "string list" | Other

datatype envelope_error =
    Conversion conversion_error | Extraction | TopicMismatch | NotFound string
  | MissingBuilderField | Store cursor_store_error | Decode_error | DynError

record ('e, 'x) envelope_ops =
  ev_topic :: "'e \<Rightarrow> ('x, topic) result"
  ev_cursor :: "'e \<Rightarrow> ('x, cursor) result"
  ev_depends_on :: "'e \<Rightarrow> ('x, global_cursor option) result"
  ev_timestamp :: "'e \<Rightarrow> int option"
  ev_orphan :: "'e \<Rightarrow> ('x, orphaned_envelope) result"

definition TopicCursor_apply ::
    "('e, 'x) envelope_ops \<Rightarrow> 'e \<Rightarrow> topic_cursor \<Rightarrow> ('x, topic_cursor) result" where
  "TopicCursor_apply E envelope tc =
     rbind (ev_topic E envelope) (\<lambda>t.
     rbind (ev_cursor E envelope) (\<lambda>cur.
       Ok (case hm_get (=) tc t of
             Some global \<Rightarrow> hm_insert (=) t (gc_apply cur global) tc
           | None \<Rightarrow> hm_insert (=) t (gc_apply cur gc_default) tc)))"

section \<open>The causal sort\<close>

record 'e missed =
  m_envelope :: 'e
  m_depends_on :: global_cursor
  m_topic :: topic

definition Missed_new :: "'e \<Rightarrow> global_cursor \<Rightarrow> topic \<Rightarrow> 'e missed" where
  "Missed_new e d t = \<lparr> m_envelope = e, m_depends_on = d, m_topic = t \<rparr>"

fun recover_newly_valid :: "'e missed list \<Rightarrow> topic_cursor \<Rightarrow> 'e list \<times> 'e missed list \<times> topic_cursor" where
  "recover_newly_valid [] tc = ([], [], tc)"
| "recover_newly_valid (m # ms) tc =
     (let (clock, tc1) = get_or_default tc (m_topic m);
          valid = gc_dominates clock (m_depends_on m);
          (newly_valid, rest, tc2) = recover_newly_valid ms tc1
      in if valid then (m_envelope m # newly_valid, rest, tc2)
         else (newly_valid, m # rest, tc2))"

lemma recover_length:
  "recover_newly_valid ms tc = (nv, rest, tc') \<Longrightarrow> length nv + length rest = length ms"
  by (induction ms tc arbitrary: nv rest tc' rule: recover_newly_valid.induct)
    (auto simp: Let_def split: prod.splits if_splits)

function (sequential) causal_sort_loop ::
    "('e, 'x) envelope_ops \<Rightarrow> nat \<Rightarrow> 'e list \<Rightarrow> 'e missed list \<Rightarrow> topic_cursor \<Rightarrow>
     ('x, 'e missed list) result \<times> 'e list \<times> topic_cursor" where
  "causal_sort_loop E i envelopes missed tc =
     (if i < length envelopes then
        (let env = envelopes ! i in
         case ev_topic E env of
           Err x \<Rightarrow> (Err x, envelopes, tc)
         | Ok t \<Rightarrow>
        (case ev_depends_on E env of
           Err x \<Rightarrow> (Err x, envelopes, tc)
         | Ok d \<Rightarrow>
        (let last_seen = (case d of Some g \<Rightarrow> g | None \<Rightarrow> gc_default);
             (vector_clock, tc1) = get_or_default tc t
         in if gc_dominates vector_clock last_seen then
              (case TopicCursor_apply E env tc1 of
                 Err x \<Rightarrow> (Err x, envelopes, tc1)
               | Ok tc2 \<Rightarrow>
                   (case recover_newly_valid missed tc2 of
                      (newly_valid, missed', tc3) \<Rightarrow>
                        causal_sort_loop E (i + 1)
                          (take (i + 1) envelopes @ newly_valid @ drop (i + 1) envelopes) missed' tc3))
            else causal_sort_loop E i (take i envelopes @ drop (i + 1) envelopes)
                   (missed @ [Missed_new env last_seen t]) tc1)))
      else (Ok missed, envelopes, tc))"
  by pat_completeness auto

termination
  by (relation "measures
      [\<lambda>(E, i, envelopes, missed, tc). length envelopes + length missed - i,
       \<lambda>(E, i, envelopes, missed, tc). length envelopes - i]")
    (auto dest!: recover_length [OF sym])

declare causal_sort_loop.simps [simp del]

definition causal_sort ::
    "('e, 'x) envelope_ops \<Rightarrow> 'e list \<Rightarrow> topic_cursor \<Rightarrow>
     ('x, 'e list option) result \<times> 'e list \<times> topic_cursor" where
  "causal_sort E envelopes tc =
     (case causal_sort_loop E 0 envelopes [] tc of
        (Err x, envelopes', tc') \<Rightarrow> (Err x, envelopes', tc')
      | (Ok missed, envelopes', tc') \<Rightarrow>
          (Ok (if missed \<noteq> [] then Some (map m_envelope missed) else None), envelopes', tc'))"

section \<open>The timestamp sort\<close>

text \<open>
  \<open>sort_unstable_by_key\<close> with the order of \<open>Option\<close>, \<open>None\<close> first. The library leaves the order of
  equal timestamps open; the definition keeps their arrival order.
\<close>

definition timestamp_sort :: "('e, 'x) envelope_ops \<Rightarrow> 'e list \<Rightarrow> 'e list" where
  "timestamp_sort E envelopes = sort_key (ev_timestamp E) envelopes"

section \<open>The abstract causal order\<close>

type_synonym seen = "topic \<Rightarrow> originator_id \<Rightarrow> sequence_id"

definition seen_of :: "topic_cursor \<Rightarrow> seen" where
  "seen_of tc t = gc_get (clock_of tc t)"

definition topic_of :: "('e, 'x) envelope_ops \<Rightarrow> 'e \<Rightarrow> topic" where
  "topic_of E e = projr (ev_topic E e)"

definition cursor_of :: "('e, 'x) envelope_ops \<Rightarrow> 'e \<Rightarrow> cursor" where
  "cursor_of E e = projr (ev_cursor E e)"

definition deps_of :: "('e, 'x) envelope_ops \<Rightarrow> 'e \<Rightarrow> global_cursor" where
  "deps_of E e = (case projr (ev_depends_on E e) of Some g \<Rightarrow> g | None \<Rightarrow> gc_default)"

definition readable :: "('e, 'x) envelope_ops \<Rightarrow> 'e \<Rightarrow> bool" where
  "readable E e \<longleftrightarrow> is_ok (ev_topic E e) \<and> is_ok (ev_cursor E e) \<and> is_ok (ev_depends_on E e)"

definition covers :: "(originator_id \<Rightarrow> sequence_id) \<Rightarrow> global_cursor \<Rightarrow> bool" where
  "covers f d \<longleftrightarrow> list_all (\<lambda>(node, seq). seq \<le> f node) d"

definition satisfied :: "('e, 'x) envelope_ops \<Rightarrow> seen \<Rightarrow> 'e \<Rightarrow> bool" where
  "satisfied E v e \<longleftrightarrow> covers (v (topic_of E e)) (deps_of E e)"

definition see :: "('e, 'x) envelope_ops \<Rightarrow> 'e \<Rightarrow> seen \<Rightarrow> seen" where
  "see E e v = v(topic_of E e := (v (topic_of E e))
     (originator_id (cursor_of E e) :=
        max (v (topic_of E e) (originator_id (cursor_of E e))) (sequence_id (cursor_of E e))))"

text \<open>Each envelope's dependencies are seen before it is processed.\<close>

fun causally_ordered :: "('e, 'x) envelope_ops \<Rightarrow> seen \<Rightarrow> 'e list \<Rightarrow> bool" where
  "causally_ordered E v [] = True"
| "causally_ordered E v (e # es) = (satisfied E v e \<and> causally_ordered E (see E e v) es)"

lemma covers_dominates: "gc_dominates c d \<longleftrightarrow> covers (gc_get c) d"
  by (simp add: gc_dominates_def covers_def)

lemma covers_mono: "covers f d \<Longrightarrow> f \<le> g \<Longrightarrow> covers g d"
  by (fastforce simp: covers_def list_all_iff le_fun_def intro: order_trans)

lemma satisfied_mono: "satisfied E v e \<Longrightarrow> v \<le> w \<Longrightarrow> satisfied E w e"
  unfolding satisfied_def by (erule covers_mono) (simp add: le_fun_def)

lemma see_ge: "v \<le> see E e v"
  by (simp add: see_def le_fun_def)

lemma see_all_ge: "v \<le> fold (see E) es v"
  by (induction es arbitrary: v) (auto intro: order_trans see_ge)

lemma see_mono: "v \<le> w \<Longrightarrow> see E e v \<le> see E e w"
  by (simp add: see_def le_fun_def max.coboundedI1)

lemma see_absorb:
  "sequence_id (cursor_of E e) \<le> w (topic_of E e) (originator_id (cursor_of E e)) \<Longrightarrow> see E e w = w"
  by (simp add: see_def max_absorb1)

lemma see_idem: "e \<in> set es \<Longrightarrow> see E e (fold (see E) es v) = fold (see E) es v"
proof (induction es arbitrary: v)
  case Nil
  then show ?case by simp
next
  case (Cons x es)
  show ?case
  proof (cases "e \<in> set es")
    case True
    with Cons.IH show ?thesis by simp
  next
    case False
    with Cons.prems have [simp]: "x = e" by simp
    have "sequence_id (cursor_of E e) \<le> see E e v (topic_of E e) (originator_id (cursor_of E e))"
      by (simp add: see_def)
    also have "\<dots> \<le> fold (see E) es (see E e v) (topic_of E e) (originator_id (cursor_of E e))"
      using see_all_ge [of "see E e v" E es] by (simp add: le_fun_def)
    finally show ?thesis by (simp add: see_absorb)
  qed
qed

section \<open>The loop refines the abstract order\<close>

lemma seen_of_get_or_default [simp]: "seen_of (snd (get_or_default tc t)) = seen_of tc"
  by (simp add: seen_of_def fun_eq_iff)

lemma get_or_default_seen:
  "get_or_default tc t = (c, tc') \<Longrightarrow> gc_get c = seen_of tc t \<and> seen_of tc' = seen_of tc"
  by (metis fst_conv get_or_default_fst seen_of_def seen_of_get_or_default snd_conv)

lemma TopicCursor_apply_seen:
  assumes "TopicCursor_apply E e tc = Ok tc'"
  shows "seen_of tc' = see E e (seen_of tc)"
proof -
  obtain t k where tk: "ev_topic E e = Ok t" "ev_cursor E e = Ok k"
    using assms by (auto simp: TopicCursor_apply_def rbind_eq_Ok)
  have "tc' = hm_insert (=) t (gc_apply k (clock_of tc t)) tc"
    using assms by (auto simp: TopicCursor_apply_def tk clock_of_def split: option.splits)
  then have "seen_of tc' u n = (if t = u then gc_get (gc_apply k (clock_of tc t)) n else seen_of tc u n)" for u n
    by (simp add: seen_of_def clock_of_def plain.hm_get_insert)
  then show ?thesis
    by (auto simp: see_def topic_of_def cursor_of_def tk gc_get_apply seen_of_def fun_eq_iff)
qed

lemma TopicCursor_apply_ok:
  "readable E e \<Longrightarrow> \<exists>tc'. TopicCursor_apply E e tc = Ok tc'"
  by (auto simp: readable_def is_ok_iff TopicCursor_apply_def)

lemma recover_newly_valid_filter:
  "recover_newly_valid ms tc = (nv, rest, tc') \<Longrightarrow>
     seen_of tc' = seen_of tc \<and>
     nv = map m_envelope (filter (\<lambda>m. covers (seen_of tc (m_topic m)) (m_depends_on m)) ms) \<and>
     rest = filter (\<lambda>m. \<not> covers (seen_of tc (m_topic m)) (m_depends_on m)) ms"
proof (induction ms tc arbitrary: nv rest tc' rule: recover_newly_valid.induct)
  case (1 tc)
  then show ?case by simp
next
  case (2 m ms tc)
  obtain c tc1 where g: "get_or_default tc (m_topic m) = (c, tc1)" by fastforce
  obtain nv2 rest2 tc2 where r: "recover_newly_valid ms tc1 = (nv2, rest2, tc2)"
    using prod_cases3 by blast
  note IH = "2.IH" [OF g [symmetric] refl refl r]
  from "2.prems" IH get_or_default_seen [OF g] show ?case
    by (auto simp: g r covers_dominates split: if_splits)
qed

definition missed_ok :: "('e, 'x) envelope_ops \<Rightarrow> seen \<Rightarrow> 'e missed list \<Rightarrow> bool" where
  "missed_ok E v ms \<longleftrightarrow> list_all (\<lambda>m. m_topic m = topic_of E (m_envelope m) \<and>
     m_depends_on m = deps_of E (m_envelope m) \<and> \<not> satisfied E v (m_envelope m)) ms"

lemma missed_ok_recover:
  assumes "missed_ok E v ms" and "recover_newly_valid ms tc = (nv, rest, tc')"
  shows "missed_ok E (seen_of tc) rest \<and> mset nv + mset (map m_envelope rest) = mset (map m_envelope ms)"
proof -
  let ?P = "\<lambda>m. covers (seen_of tc (m_topic m)) (m_depends_on m)"
  have r: "nv = map m_envelope (filter ?P ms)" "rest = filter (\<lambda>m. \<not> ?P m) ms"
    using recover_newly_valid_filter [OF assms(2)] by auto
  have "missed_ok E (seen_of tc) rest"
    using assms(1) unfolding r by (auto simp: missed_ok_def list_all_iff satisfied_def)
  moreover have "mset nv + mset (map m_envelope rest) = mset (map m_envelope ms)"
    unfolding r mset_map by (metis filter_partition_mset image_mset_union)
  ultimately show ?thesis ..
qed

text \<open>One turn of the loop, with the topic and the dependencies already read.\<close>

lemma loop_done: "\<not> i < length es \<Longrightarrow> causal_sort_loop E i es ms tc = (Ok ms, es, tc)"
  by (subst causal_sort_loop.simps) simp

lemma loop_step:
  assumes "i < length es" and "ev_topic E (es ! i) = Ok t" and "ev_depends_on E (es ! i) = Ok d"
  shows "causal_sort_loop E i es ms tc =
    (let tc1 = snd (get_or_default tc t) in
     if satisfied E (seen_of tc) (es ! i) then
       (case TopicCursor_apply E (es ! i) tc1 of
          Err x \<Rightarrow> (Err x, es, tc1)
        | Ok tc2 \<Rightarrow>
            (case recover_newly_valid ms tc2 of (nv, ms', tc3) \<Rightarrow>
               causal_sort_loop E (i + 1) (take (i + 1) es @ nv @ drop (i + 1) es) ms' tc3))
     else causal_sort_loop E i (take i es @ drop (i + 1) es)
            (ms @ [Missed_new (es ! i) (deps_of E (es ! i)) t]) tc1)"
proof -
  have "gc_dominates (clock_of tc t) (deps_of E (es ! i)) \<longleftrightarrow> satisfied E (seen_of tc) (es ! i)"
    by (simp add: satisfied_def covers_dominates seen_of_def topic_of_def assms(2))
  moreover have "deps_of E (es ! i) = (case d of Some g \<Rightarrow> g | None \<Rightarrow> gc_default)"
    by (simp add: deps_of_def assms(3))
  moreover obtain tc1 where "get_or_default tc t = (clock_of tc t, tc1)"
    using get_or_default_eq by blast
  ultimately show ?thesis
    using assms by (subst causal_sort_loop.simps) (simp add: Let_def)
qed

lemma loop_Ok_cases:
  assumes "causal_sort_loop E i es ms tc = (Ok ms', es', tc')"
  obtains (finished) "\<not> i < length es" "ms' = ms" "es' = es" "tc' = tc"
  | (valid) tc2 nv rest tc3 where "i < length es" "satisfied E (seen_of tc) (es ! i)"
      "seen_of tc2 = see E (es ! i) (seen_of tc)" "recover_newly_valid ms tc2 = (nv, rest, tc3)"
      "causal_sort_loop E (i + 1) (take (i + 1) es @ nv @ drop (i + 1) es) rest tc3 = (Ok ms', es', tc')"
  | (missing) t tc1 where "i < length es" "\<not> satisfied E (seen_of tc) (es ! i)"
      "t = topic_of E (es ! i)" "seen_of tc1 = seen_of tc"
      "causal_sort_loop E i (take i es @ drop (i + 1) es)
         (ms @ [Missed_new (es ! i) (deps_of E (es ! i)) t]) tc1 = (Ok ms', es', tc')"
proof (cases "i < length es")
  case False
  with assms show thesis by (intro finished) (simp_all add: loop_done)
next
  case i: True
  from assms i obtain t d where td: "ev_topic E (es ! i) = Ok t" "ev_depends_on E (es ! i) = Ok d"
    by (subst (asm) causal_sort_loop.simps) (auto simp: Let_def split: sum.splits)
  note step = assms [unfolded loop_step [OF i td] Let_def]
  show thesis
  proof (cases "satisfied E (seen_of tc) (es ! i)")
    case True
    with step show thesis
      using i by (auto split: sum.splits prod.splits dest!: TopicCursor_apply_seen intro: valid)
  next
    case False
    with step i td show thesis by (intro missing) (auto simp: topic_of_def)
  qed
qed

lemma loop_measure_induct [case_names step]:
  fixes P :: "nat \<Rightarrow> 'e list \<Rightarrow> 'e missed list \<Rightarrow> bool"
  assumes step: "\<And>i es ms. (\<And>i' es' ms'. length es' + length ms' - i' < length es + length ms - i \<or>
      length es' + length ms' - i' = length es + length ms - i \<and> length es' - i' < length es - i \<Longrightarrow>
      P i' es' ms') \<Longrightarrow> P i es ms"
  shows "P i es ms"
proof -
  have "case p of (i, es, ms) \<Rightarrow> P i es ms" for p
  proof (induction p rule: wf_induct_rule [OF wf_measures, of "[\<lambda>(i, es, ms). length es + length ms - i, \<lambda>(i, es, ms). length es - i]"])
    case (1 p)
    obtain i es ms where p: "p = (i, es, ms)" by (cases p)
    show ?case
      unfolding p prod.case
    proof (rule step)
      fix i' :: nat and es' :: "'e list" and ms' :: "'e missed list"
      assume "length es' + length ms' - i' < length es + length ms - i \<or>
        length es' + length ms' - i' = length es + length ms - i \<and> length es' - i' < length es - i"
      then show "P i' es' ms'" using "1" [of "(i', es', ms')"] by (auto simp: p)
    qed
  qed
  from this [of "(i, es, ms)"] show ?thesis by simp
qed

lemma causal_sort_loop_correct:
  assumes "causal_sort_loop E i es ms tc = (Ok ms', es', tc')"
    and "i \<le> length es" and "missed_ok E (seen_of tc) ms"
  shows "i \<le> length es' \<and> take i es' = take i es \<and>
    mset es' + mset (map m_envelope ms') = mset es + mset (map m_envelope ms) \<and>
    causally_ordered E (seen_of tc) (drop i es') \<and>
    seen_of tc' = fold (see E) (drop i es') (seen_of tc) \<and> missed_ok E (seen_of tc') ms'"
  using assms
proof (induction i es ms arbitrary: tc rule: loop_measure_induct)
  case (step i es ms)
  from step.prems(1) show ?case
  proof (cases rule: loop_Ok_cases)
    case finished
    with step.prems show ?thesis by simp
  next
    case (valid tc2 nv rest tc3)
    let ?es = "take (i + 1) es @ nv @ drop (i + 1) es"
    have seen3: "seen_of tc3 = see E (es ! i) (seen_of tc)"
      using valid(3) recover_newly_valid_filter [OF valid(4)] by simp
    have rec: "missed_ok E (seen_of tc2) rest" "mset nv + mset (map m_envelope rest) = mset (map m_envelope ms)"
      using missed_ok_recover [OF step.prems(3) valid(4)] by auto
    have "length ?es + length rest - (i + 1) < length es + length ms - i"
      using recover_length [OF valid(4)] valid(1) by simp
    then have IH: "i + 1 \<le> length es' \<and> take (i + 1) es' = take (i + 1) ?es \<and>
        mset es' + mset (map m_envelope ms') = mset ?es + mset (map m_envelope rest) \<and>
        causally_ordered E (seen_of tc3) (drop (i + 1) es') \<and>
        seen_of tc' = fold (see E) (drop (i + 1) es') (seen_of tc3) \<and> missed_ok E (seen_of tc') ms'"
      using valid rec(1) recover_newly_valid_filter [OF valid(4)]
      by (intro step.IH) (auto intro: disjI1)
    have take: "take (i + 1) es' = take (i + 1) es" using IH valid(1) by simp
    then have hd: "drop i es' = es ! i # drop (i + 1) es'"
      using IH by (metis Cons_nth_drop_Suc Suc_eq_plus1 Suc_le_lessD lessI nth_take)
    have "take i es' = take i es"
      using take by (metis le_add1 min.absorb1 take_take)
    moreover have "mset es = mset (take (i + 1) es) + mset (drop (i + 1) es)"
      by (metis append_take_drop_id mset_append)
    then have "mset es' + mset (map m_envelope ms') = mset es + mset (map m_envelope ms)"
      using IH rec(2) [symmetric] by (simp add: ac_simps)
    moreover have "causally_ordered E (seen_of tc) (drop i es')"
      and "seen_of tc' = fold (see E) (drop i es') (seen_of tc)"
      using IH valid(2) seen3 by (simp_all add: hd)
    moreover have "i \<le> length es'" using IH by simp
    moreover have "missed_ok E (seen_of tc') ms'" using IH by blast
    ultimately show ?thesis by blast
  next
    case (missing t tc1)
    let ?es = "take i es @ drop (i + 1) es"
    let ?ms = "ms @ [Missed_new (es ! i) (deps_of E (es ! i)) t]"
    have "missed_ok E (seen_of tc1) ?ms"
      using step.prems(3) missing by (simp add: missed_ok_def Missed_new_def)
    then have IH: "i \<le> length es' \<and> take i es' = take i ?es \<and>
        mset es' + mset (map m_envelope ms') = mset ?es + mset (map m_envelope ?ms) \<and>
        causally_ordered E (seen_of tc1) (drop i es') \<and>
        seen_of tc' = fold (see E) (drop i es') (seen_of tc1) \<and> missed_ok E (seen_of tc') ms'"
      using missing by (intro step.IH) auto
    have "mset es = mset (take i es) + mset (es ! i # drop (i + 1) es)"
      using missing(1) by (metis Cons_nth_drop_Suc Suc_eq_plus1 append_take_drop_id mset_append)
    with IH missing(1,4) show ?thesis
      by (elim conjE) (simp add: Missed_new_def)
  qed
qed

lemma causal_sort_loop_total:
  assumes "list_all (readable E) es" and "list_all (\<lambda>m. readable E (m_envelope m)) ms"
  shows "is_ok (fst (causal_sort_loop E i es ms tc))"
  using assms
proof (induction i es ms arbitrary: tc rule: loop_measure_induct)
  case (step i es ms)
  show ?case
  proof (cases "i < length es")
    case False
    then show ?thesis by (simp add: loop_done)
  next
    case i: True
    then have "readable E (es ! i)" using step.prems(1) by (simp add: list_all_length)
    then obtain t d where td: "ev_topic E (es ! i) = Ok t" "ev_depends_on E (es ! i) = Ok d"
      by (auto simp: readable_def is_ok_iff)
    obtain tc2 where tc2: "TopicCursor_apply E (es ! i) (snd (get_or_default tc t)) = Ok tc2"
      using TopicCursor_apply_ok [OF \<open>readable E (es ! i)\<close>] by blast
    obtain nv rest tc3 where r: "recover_newly_valid ms tc2 = (nv, rest, tc3)"
      using prod_cases3 by blast
    have "list_all (readable E) nv" "list_all (\<lambda>m. readable E (m_envelope m)) rest"
      using step.prems(2) recover_newly_valid_filter [OF r] by (auto simp: list_all_iff)
    moreover have "length nv + length rest = length ms" by (rule recover_length [OF r])
    moreover have "list_all (readable E) (take k es)" "list_all (readable E) (drop k es)" for k
      using step.prems(1) by (auto simp: list_all_iff dest: in_set_takeD in_set_dropD)
    ultimately show ?thesis
      using i step.prems(2) \<open>readable E (es ! i)\<close> unfolding loop_step [OF i td]
      by (auto simp: Let_def tc2 r Missed_new_def intro!: step.IH)
  qed
qed

section \<open>What the causal sort guarantees\<close>

lemma mset_split_by:
  assumes "mset zs + mset ms = mset us" and "\<forall>e \<in> set zs. P e" and "\<forall>e \<in> set ms. \<not> P e"
  shows "mset zs = filter_mset P (mset us)" and "mset ms = filter_mset (\<lambda>e. \<not> P e) (mset us)"
  using assms(2,3) unfolding assms(1) [symmetric] by (simp_all flip: mset_filter)

abbreviation (input) missing_list :: "'e list option \<Rightarrow> 'e list" where
  "missing_list m \<equiv> (case m of Some ms \<Rightarrow> ms | None \<Rightarrow> [])"

lemma causal_sort_sound:
  assumes "causal_sort E es tc = (Ok missing, es', tc')"
  shows "mset es' + mset (missing_list missing) = mset es"
    and "causally_ordered E (seen_of tc) es'"
    and "seen_of tc' = fold (see E) es' (seen_of tc)"
    and "\<forall>e \<in> set (missing_list missing). \<not> satisfied E (seen_of tc') e"
proof -
  obtain ms where loop: "causal_sort_loop E 0 es [] tc = (Ok ms, es', tc')"
    and m: "missing = (if ms \<noteq> [] then Some (map m_envelope ms) else None)"
    using assms by (auto simp: causal_sort_def split: prod.splits sum.splits)
  have list: "missing_list missing = map m_envelope ms" by (simp add: m)
  note c = causal_sort_loop_correct [OF loop, simplified missed_ok_def, simplified]
  show "mset es' + mset (missing_list missing) = mset es"
    and "causally_ordered E (seen_of tc) es'"
    and "seen_of tc' = fold (see E) es' (seen_of tc)"
    unfolding list using c by simp_all
  show "\<forall>e \<in> set (missing_list missing). \<not> satisfied E (seen_of tc') e"
    unfolding list using c by (elim conjE) (auto simp: list_all_iff)
qed

lemma causal_sort_total:
  assumes "list_all (readable E) es"
  obtains missing es' tc' where "causal_sort E es tc = (Ok missing, es', tc')"
proof -
  have "is_ok (fst (causal_sort_loop E 0 es [] tc))"
    using assms by (rule causal_sort_loop_total) simp
  then show thesis
    using that by (cases "causal_sort_loop E 0 es [] tc") (auto simp: causal_sort_def is_ok_iff)
qed

lemma causally_ordered_satisfied:
  "causally_ordered E v es \<Longrightarrow> e \<in> set es \<Longrightarrow> satisfied E (fold (see E) es v) e"
proof (induction es arbitrary: v)
  case Nil
  then show ?case by simp
next
  case (Cons x es)
  then show ?case
    using see_all_ge [of "see E x v" E es] see_ge [of v E x]
    by (auto intro: satisfied_mono order_trans)
qed

text \<open>A causal run stays below every fixed point of the view that contains its start.\<close>

lemma causally_ordered_below:
  assumes "causally_ordered E v es" "v \<le> w"
    and "\<And>e. e \<in> set es \<Longrightarrow> satisfied E w e \<Longrightarrow> see E e w = w"
  shows "fold (see E) es v \<le> w"
  using assms
proof (induction es arbitrary: v)
  case Nil
  then show ?case by simp
next
  case (Cons x es)
  then have "satisfied E w x" using satisfied_mono by fastforce
  then have "see E x v \<le> w" using see_mono [OF Cons.prems(2), of E x] Cons.prems(3) by simp
  then show ?case using Cons by simp
qed

text \<open>
  Property C2. A causal sort that succeeds loses and invents no envelope (sorted and missing
  envelopes together are the input), leaves the sorted ones in causal order (each envelope's
  dependencies are seen by the clock of its topic when its turn comes), moves the topic cursor by
  exactly the sorted envelopes, and returns as missing only envelopes whose dependencies the final
  clocks do not cover. It succeeds whenever every envelope's fields can be read.
\<close>

theorem causal_sort_correct:
  assumes "list_all (readable E) es"
  shows "\<exists>missing es' tc'. causal_sort E es tc = (Ok missing, es', tc') \<and>
    mset es' + mset (missing_list missing) = mset es \<and>
    causally_ordered E (seen_of tc) es' \<and>
    seen_of tc' = fold (see E) es' (seen_of tc) \<and>
    list_all (\<lambda>e. \<not> satisfied E (seen_of tc') e) (missing_list missing)"
proof -
  obtain missing es' tc' where run: "causal_sort E es tc = (Ok missing, es', tc')"
    using causal_sort_total [OF assms] .
  from causal_sort_sound [OF run] run show ?thesis
    unfolding list_all_iff by blast
qed

text \<open>
  Arrival order does not matter: for two arrangements of the same envelopes and
  topic cursors that have seen the same, the causal sort ends with the same view of what has been
  seen, the same envelopes sorted and the same envelopes missing.
\<close>

theorem causal_sort_confluent:
  assumes "mset xs = mset ys" and "seen_of tc = seen_of td"
    and "causal_sort E xs tc = (Ok mx, xs', tc')" and "causal_sort E ys td = (Ok my, ys', td')"
  shows "seen_of tc' = seen_of td' \<and> mset xs' = mset ys' \<and>
    mset (missing_list mx) = mset (missing_list my)"
proof -
  note X = causal_sort_sound [OF assms(3)] and Y = causal_sort_sound [OF assms(4)]
  have fixed: "see E e w = w"
    if "w = fold (see E) zs v" "mset zs + mset ms = mset us" "e \<in> set us" "satisfied E w e"
      "\<forall>e \<in> set ms. \<not> satisfied E w e" for w zs v ms us e
  proof -
    have "e \<in> set zs \<union> set ms" using that(2,3) by (metis mset_append set_append set_mset_mset)
    then have "e \<in> set zs" using that(4,5) by auto
    then show ?thesis unfolding that(1) by (rule see_idem)
  qed
  have set_eq: "set xs = set ys" using assms(1) by (metis set_mset_mset)
  have in_x: "set xs' \<subseteq> set xs" and in_y: "set ys' \<subseteq> set ys"
    using X(1) Y(1) by (metis mset_subset_eq_add_left set_mset_mono set_mset_mset)+
  have "seen_of tc' \<le> seen_of td'"
    unfolding X(3)
  proof (rule causally_ordered_below [OF X(2)])
    show "seen_of tc \<le> seen_of td'" unfolding assms(2) Y(3) by (rule see_all_ge)
    show "see E e (seen_of td') = seen_of td'" if "e \<in> set xs'" "satisfied E (seen_of td') e" for e
      using that in_x set_eq by (intro fixed [OF Y(3) Y(1) _ _ Y(4)]) auto
  qed
  moreover have "seen_of td' \<le> seen_of tc'"
    unfolding Y(3)
  proof (rule causally_ordered_below [OF Y(2)])
    show "seen_of td \<le> seen_of tc'" unfolding assms(2) [symmetric] X(3) by (rule see_all_ge)
    show "see E e (seen_of tc') = seen_of tc'" if "e \<in> set ys'" "satisfied E (seen_of tc') e" for e
      using that in_y set_eq by (intro fixed [OF X(3) X(1) _ _ X(4)]) auto
  qed
  ultimately have final: "seen_of tc' = seen_of td'" by (rule antisym)
  have sx: "\<forall>e \<in> set xs'. satisfied E (seen_of tc') e"
    and sy: "\<forall>e \<in> set ys'. satisfied E (seen_of td') e"
    using causally_ordered_satisfied [OF X(2)] causally_ordered_satisfied [OF Y(2)] X(3) Y(3) by simp_all
  note px = mset_split_by [OF X(1) sx X(4)] and py = mset_split_by [OF Y(1) sy Y(4)]
  have "mset xs' = mset ys'" "mset (missing_list mx) = mset (missing_list my)"
    unfolding px py final assms(1) by (rule refl)+
  with final show ?thesis by blast
qed

lemma see_origin:
  "fold (see E) es v t n = s \<Longrightarrow> s \<le> v t n \<or>
     (\<exists>f \<in> set es. topic_of E f = t \<and> originator_id (cursor_of E f) = n \<and> s \<le> sequence_id (cursor_of E f))"
proof (induction es arbitrary: v)
  case Nil
  then show ?case by simp
next
  case (Cons x es)
  then have "s \<le> see E x v t n \<or>
     (\<exists>f \<in> set es. topic_of E f = t \<and> originator_id (cursor_of E f) = n \<and> s \<le> sequence_id (cursor_of E f))"
    by simp
  moreover have "see E x v t n = v t n \<or> topic_of E x = t \<and> originator_id (cursor_of E x) = n \<and>
      see E x v t n = max (v t n) (sequence_id (cursor_of E x))"
    by (auto simp: see_def)
  ultimately show ?case by (auto simp: le_max_iff_disj)
qed

lemma causally_ordered_append:
  "causally_ordered E v (es @ fs) \<longleftrightarrow> causally_ordered E v es \<and> causally_ordered E (fold (see E) es v) fs"
  by (induction es arbitrary: v) auto

text \<open>
  Dependencies come first: wherever an envelope stands in the sorted output, each
  entry of its dependency clock is either already seen by the topic cursor the sort started from,
  or covered by an envelope of the same topic and originator that stands earlier in the output.
\<close>

theorem causal_sort_dependencies_first:
  assumes "causal_sort E es tc = (Ok missing, before @ e # after, tc')"
    and "(node, seq) \<in> set (deps_of E e)"
  shows "seq \<le> gc_get (clock_of tc (topic_of E e)) node \<or>
    list_ex (\<lambda>f. topic_of E f = topic_of E e \<and> originator_id (cursor_of E f) = node \<and>
      seq \<le> sequence_id (cursor_of E f)) before"
proof -
  have "satisfied E (fold (see E) before (seen_of tc)) e"
    using causal_sort_sound(2) [OF assms(1)] by (simp add: causally_ordered_append)
  then have "seq \<le> fold (see E) before (seen_of tc) (topic_of E e) node"
    using assms(2) by (auto simp: satisfied_def covers_def list_all_iff)
  then show ?thesis
    using see_origin [OF refl, of E before "seen_of tc" "topic_of E e" node]
    by (auto simp: seen_of_def list_ex_iff intro: order_trans)
qed

section \<open>Concrete runs\<close>

text \<open>Envelopes that are a pair of a cursor and a dependency clock, on one group topic.\<close>

definition pair_ops :: "(cursor \<times> global_cursor, envelope_error) envelope_ops" where
  "pair_ops = \<lparr> ev_topic = (\<lambda>_. Ok (Topic [0, 7])), ev_cursor = (\<lambda>(c, d). Ok c),
     ev_depends_on = (\<lambda>(c, d). Ok (Some d)), ev_timestamp = (\<lambda>(c, d). Some (uint (sequence_id c))),
     ev_orphan = (\<lambda>(c, d). Ok \<lparr> oe_cursor = c, oe_depends_on = d, oe_payload = [], oe_group_id = [7] \<rparr>) \<rparr>"

lemma pair_ops_readable: "list_all (readable pair_ops) es"
  by (auto simp: list_all_iff readable_def pair_ops_def)

text \<open>
  Three envelopes of originator 1 arriving out of order, and a fourth whose dependency on
  originator 2 never arrives.
\<close>

definition demo_envelopes :: "(cursor \<times> global_cursor) list" where
  "demo_envelopes = [(Cursor 3 1, [(1, 2)]), (Cursor 1 1, []), (Cursor 9 1, [(2, 5)]), (Cursor 2 1, [(1, 1)])]"

lemma demo_run:
  "causal_sort pair_ops demo_envelopes [] =
     (Ok (Some [(Cursor 9 1, [(2, 5)])]),
      [(Cursor 1 1, []), (Cursor 2 1, [(1, 1)]), (Cursor 3 1, [(1, 2)])], [(Topic [0, 7], [(1, 3)])])"
  by code_simp

lemma demo_run_rev:
  "causal_sort pair_ops (rev demo_envelopes) [] =
     (Ok (Some [(Cursor 9 1, [(2, 5)])]),
      [(Cursor 1 1, []), (Cursor 2 1, [(1, 1)]), (Cursor 3 1, [(1, 2)])], [(Topic [0, 7], [(1, 3)])])"
  by code_simp

theorem causal_sort_correct_witness:
  "list_all (readable pair_ops) demo_envelopes \<and>
   causally_ordered pair_ops (seen_of []) [(Cursor 1 1, []), (Cursor 2 1, [(1, 1)]), (Cursor 3 1, [(1, 2)])]"
  using causal_sort_correct [OF pair_ops_readable, of demo_envelopes "[]"] pair_ops_readable
  by (auto simp: demo_run)

theorem causal_sort_confluent_witness:
  "mset demo_envelopes = mset (rev demo_envelopes) \<and>
   seen_of (snd (snd (causal_sort pair_ops demo_envelopes []))) =
   seen_of (snd (snd (causal_sort pair_ops (rev demo_envelopes) [])))"
  using causal_sort_confluent [OF _ refl demo_run demo_run_rev] by (simp add: demo_run demo_run_rev)

theorem causal_sort_dependencies_first_witness:
  "list_ex (\<lambda>f. topic_of pair_ops f = Topic [0, 7] \<and> originator_id (cursor_of pair_ops f) = 1 \<and>
     2 \<le> sequence_id (cursor_of pair_ops f)) [(Cursor 1 1, []), (Cursor 2 1, [(1, 1)])]"
proof -
  have run: "causal_sort pair_ops demo_envelopes [] =
     (Ok (Some [(Cursor 9 1, [(2, 5)])]),
      [(Cursor 1 1, []), (Cursor 2 1, [(1, 1)])] @ (Cursor 3 1, [(1, 2)]) # [], [(Topic [0, 7], [(1, 3)])])"
    by (simp add: demo_run)
  have "(1, 2) \<in> set (deps_of pair_ops (Cursor 3 1, [(1, 2)]))"
    by (simp add: deps_of_def pair_ops_def)
  from causal_sort_dependencies_first [OF run this] show ?thesis
    by (simp add: clock_of_def topic_of_def pair_ops_def)
qed

end
