(* ===== verification/Cursor_Store.thy ===== *)
theory Cursor_Store
  imports Causal_Sort
begin

text \<open>
  Where cursors and orphaned envelopes are kept: the in-memory implementation of \<open>CursorStore\<close>
  (\<open>xmtp_api_d14n/src/protocol/in_memory_cursor_store.rs\<close>), the one that stores nothing
  (\<open>NoCursorStore\<close> of \<open>traits/cursor_store.rs\<close>), and the least common cursor of
  \<open>resolve/network_backoff.rs\<close>.

  \<open>resolve_children_inner\<close> is a recursion over data that came from the network; it is an
  option-valued partial function, \<open>None\<close> standing for a call that does not return. The locale
  \<open>icebox_store\<close> is what the ordering relies on: what was iced is kept, and what is resolved was
  kept.
\<close>

section \<open>The in-memory store\<close>

type_synonym i64 = int

definition i64_MAX :: i64 where "i64_MAX = 2 ^ 63 - 1"

record in_memory_cursor_store =
  ims_topics :: "(topic, global_cursor) hash_map"
  ims_icebox :: "orphaned_envelope list"
  ims_cutover_ns :: i64
  ims_last_checked_ns :: i64
  ims_migrated :: bool

definition InMemoryCursorStore_default :: in_memory_cursor_store where
  "InMemoryCursorStore_default = \<lparr> ims_topics = [], ims_icebox = [], ims_cutover_ns = i64_MAX,
     ims_last_checked_ns = 0, ims_migrated = False \<rparr>"

definition received :: "in_memory_cursor_store \<Rightarrow> topic \<Rightarrow> global_cursor \<Rightarrow> in_memory_cursor_store" where
  "received s t new_clock =
     (let (current, tops) = get_or_default (ims_topics s) t
      in s\<lparr> ims_topics := hm_insert (=) t (gc_merge current new_clock) tops \<rparr>)"

definition get_latest :: "in_memory_cursor_store \<Rightarrow> topic \<Rightarrow> global_cursor option" where
  "get_latest s t = hm_get (=) (ims_topics s) t"

definition latest ::
    "in_memory_cursor_store \<Rightarrow> topic \<Rightarrow> originator_id list option \<Rightarrow> (cursor_store_error, global_cursor) result" where
  "latest s t originators =
     (let cur = (case get_latest s t of Some c \<Rightarrow> c | None \<Rightarrow> gc_default)
      in case originators of
           Some oids \<Rightarrow> Ok (bt_from_iter (filter (\<lambda>(k, v). k \<in> set oids) cur))
         | None \<Rightarrow> Ok cur)"

definition latest_for_originator ::
    "in_memory_cursor_store \<Rightarrow> topic \<Rightarrow> originator_id \<Rightarrow> (cursor_store_error, cursor) result" where
  "latest_for_originator s t originator =
     rbind (latest s t (Some [originator])) (\<lambda>c. Ok (Cursor_new (gc_get c originator) originator))"

definition latest_for_topics ::
    "in_memory_cursor_store \<Rightarrow> topic list \<Rightarrow> (cursor_store_error, (topic, global_cursor) hash_map) result" where
  "latest_for_topics s ts =
     Ok (hm_from_iter (=) (map (\<lambda>t. (t, case latest s t None of Ok c \<Rightarrow> c | Err _ \<Rightarrow> gc_default)) ts))"

definition find_message_dependencies ::
    "(bytes \<Rightarrow> string) \<Rightarrow> in_memory_cursor_store \<Rightarrow> bytes list \<Rightarrow> (cursor_store_error, (bytes, cursor) hash_map) result" where
  "find_message_dependencies hex_encode s hashes = Err (NoDependenciesFound (map hex_encode hashes))"

definition ice ::
    "in_memory_cursor_store \<Rightarrow> orphaned_envelope list \<Rightarrow> (cursor_store_error, unit) result \<times> in_memory_cursor_store" where
  "ice s orphans = (Ok (), s\<lparr> ims_icebox := hs_extend orphan_eq (ims_icebox s) orphans \<rparr>)"

definition direct_children :: "cursor list \<Rightarrow> orphaned_envelope list \<Rightarrow> orphaned_envelope list" where
  "direct_children cursors icebox =
     fold (\<lambda>cur acc. hs_extend orphan_eq acc (hs_extend orphan_eq [] (filter (\<lambda>o1. is_child_of o1 cur) icebox)))
       cursors []"

definition child_cursors :: "orphaned_envelope list \<Rightarrow> cursor list" where
  "child_cursors children =
     fold (\<lambda>c acc. if oe_depends_on c \<noteq> [] then acc @ [oe_cursor c] else acc) children []"

partial_function (option) resolve_children_inner ::
    "cursor list \<Rightarrow> orphaned_envelope list \<Rightarrow> orphaned_envelope list option" where
  [code]: "resolve_children_inner cursors icebox =
     (let children = direct_children cursors icebox;
          cursors' = child_cursors children
      in if cursors' \<noteq> []
         then Option.bind (resolve_children_inner cursors' icebox) (\<lambda>v. Some (hs_extend orphan_eq children v))
         else Some children)"

definition resolve_children ::
    "in_memory_cursor_store \<Rightarrow> cursor list \<Rightarrow> (cursor_store_error, orphaned_envelope list) result option" where
  "resolve_children s cursors = map_option Inr (resolve_children_inner cursors (ims_icebox s))"

definition set_cutover_ns :: "in_memory_cursor_store \<Rightarrow> i64 \<Rightarrow> in_memory_cursor_store" where
  "set_cutover_ns s v = s\<lparr> ims_cutover_ns := v \<rparr>"

definition get_cutover_ns :: "in_memory_cursor_store \<Rightarrow> (cursor_store_error, i64) result" where
  "get_cutover_ns s = Ok (ims_cutover_ns s)"

definition has_migrated :: "in_memory_cursor_store \<Rightarrow> (cursor_store_error, bool) result" where
  "has_migrated s = Ok (ims_migrated s)"

definition set_has_migrated :: "in_memory_cursor_store \<Rightarrow> bool \<Rightarrow> in_memory_cursor_store" where
  "set_has_migrated s v = s\<lparr> ims_migrated := v \<rparr>"

definition get_last_checked_ns :: "in_memory_cursor_store \<Rightarrow> (cursor_store_error, i64) result" where
  "get_last_checked_ns s = Ok (ims_last_checked_ns s)"

definition set_last_checked_ns :: "in_memory_cursor_store \<Rightarrow> i64 \<Rightarrow> in_memory_cursor_store" where
  "set_last_checked_ns s v = s\<lparr> ims_last_checked_ns := v \<rparr>"

section \<open>The interface the ordering uses\<close>

record 's cursor_store_ops =
  cs_resolve_children :: "'s \<Rightarrow> cursor list \<Rightarrow> (cursor_store_error, orphaned_envelope list) result option"
  cs_ice :: "'s \<Rightarrow> orphaned_envelope list \<Rightarrow> (cursor_store_error, unit) result \<times> 's"

definition in_memory_ops :: "in_memory_cursor_store cursor_store_ops" where
  "in_memory_ops = \<lparr> cs_resolve_children = resolve_children, cs_ice = ice \<rparr>"

definition NoCursorStore_ops :: "unit cursor_store_ops" where
  "NoCursorStore_ops = \<lparr> cs_resolve_children = (\<lambda>_ _. Some (Ok [])), cs_ice = (\<lambda>_ _. (Ok (), ())) \<rparr>"

locale icebox_store =
  fixes S :: "'s cursor_store_ops"
    and holds :: "'s \<Rightarrow> orphaned_envelope \<Rightarrow> bool"
  assumes ice_holds: "cs_ice S s os = (Ok (), s') \<Longrightarrow>
      holds s' o1 \<longleftrightarrow> holds s o1 \<or> (\<exists>p \<in> set os. orphan_eq p o1)"
    and resolved_held: "cs_resolve_children S s cs = Some (Ok v) \<Longrightarrow> p \<in> set v \<Longrightarrow> holds s p"
begin

lemma ice_keeps: "cs_ice S s os = (Ok (), s') \<Longrightarrow> holds s o1 \<Longrightarrow> holds s' o1"
  by (simp add: ice_holds)

lemma iced_held: "cs_ice S s os = (Ok (), s') \<Longrightarrow> o1 \<in> set os \<Longrightarrow> holds s' o1"
  using ice_holds orphan.keq_refl by blast

end

section \<open>The least common cursor of a set of missing envelopes\<close>

record required_dependency =
  rd_needed_by :: cursor
  rd_topic :: topic
  rd_cursor :: cursor

definition RequiredDependency_new :: "topic \<Rightarrow> cursor \<Rightarrow> cursor \<Rightarrow> required_dependency" where
  "RequiredDependency_new t cur needed_by = \<lparr> rd_needed_by = needed_by, rd_topic = t, rd_cursor = cur \<rparr>"

definition lcc_groups :: "required_dependency list \<Rightarrow> (topic, global_cursor) hash_map" where
  "lcc_groups missing =
     fold (\<lambda>m acc. hm_insert (=) (rd_topic m)
         (gc_apply_least (rd_cursor m) (case hm_get (=) acc (rd_topic m) of Some c \<Rightarrow> c | None \<Rightarrow> gc_default)) acc)
       missing []"

definition lcc :: "required_dependency list \<Rightarrow> topic list \<times> global_cursor" where
  "lcc missing =
     (let groups = lcc_groups missing;
          tops = map fst groups;
          last_seen = fold (\<lambda>clock acc. gc_merge_least acc clock) (map snd groups) gc_default
      in (tops, last_seen))"

section \<open>Resolving the children of cursors\<close>

text \<open>What a \<open>HashSet\<close> of orphans guarantees: no two of its elements are equal up to the payload.\<close>

definition icebox_wf :: "orphaned_envelope list \<Rightarrow> bool" where
  "icebox_wf icebox \<longleftrightarrow> (\<forall>p \<in> set icebox. \<forall>q \<in> set icebox. orphan_eq p q \<longrightarrow> p = q)"

lemma hs_extend_exact:
  assumes "icebox_wf A" "set s \<union> set xs \<subseteq> set A"
  shows "set (hs_extend orphan_eq s xs) = set s \<union> set xs"
proof -
  have "x \<in> set (hs_extend orphan_eq s xs)" if "x \<in> set xs" for x
  proof -
    have "hs_contains orphan_eq (hs_extend orphan_eq s xs) x"
      using that orphan.keq_refl by (auto simp: orphan.hs_contains_extend)
    then obtain y where "y \<in> set (hs_extend orphan_eq s xs)" "orphan_eq y x"
      by (auto simp: hs_contains_iff)
    moreover from this have "y \<in> set A" using hs_extend_set assms(2) by fastforce
    ultimately show ?thesis using assms that unfolding icebox_wf_def by blast
  qed
  then show ?thesis using hs_extend_set hs_extend_keeps by fast
qed

lemma ice_wf: "icebox_wf (ims_icebox s) \<Longrightarrow> icebox_wf (ims_icebox (snd (ice s os)))"
proof -
  have step: "icebox_wf (hs_insert orphan_eq x b)" if "icebox_wf b" for x b
    using that orphan.keq_sym by (auto simp: icebox_wf_def hs_insert_def hs_contains_iff)
  have "icebox_wf b \<Longrightarrow> icebox_wf (hs_extend orphan_eq b xs)" for b xs
    unfolding hs_extend_def by (rule fold_invariant_list) (auto intro: step)
  then show "icebox_wf (ims_icebox s) \<Longrightarrow> ?thesis" by (simp add: ice_def)
qed

lemma direct_children_set:
  assumes "icebox_wf icebox"
  shows "set (direct_children cs icebox) = {o1 \<in> set icebox. \<exists>c \<in> set cs. is_child_of o1 c}"
proof -
  have "set (fold (\<lambda>cur acc. hs_extend orphan_eq acc (hs_extend orphan_eq []
        (filter (\<lambda>o1. is_child_of o1 cur) icebox))) cs acc) =
      set acc \<union> {o1 \<in> set icebox. \<exists>c \<in> set cs. is_child_of o1 c}" if "set acc \<subseteq> set icebox" for acc
    using that
  proof (induction cs arbitrary: acc)
    case Nil
    then show ?case by simp
  next
    case (Cons c cs)
    let ?f = "filter (\<lambda>o1. is_child_of o1 c) icebox"
    have f: "set (hs_extend orphan_eq [] ?f) = set ?f"
      using hs_extend_exact [OF assms, of "[]" ?f] by auto
    have "set (hs_extend orphan_eq acc (hs_extend orphan_eq [] ?f)) = set acc \<union> set ?f"
      using hs_extend_exact [OF assms, of acc "hs_extend orphan_eq [] ?f"] Cons.prems f by auto
    with Cons.IH [of "hs_extend orphan_eq acc (hs_extend orphan_eq [] ?f)"] Cons.prems show ?case
      by auto
  qed
  from this [of "[]"] show ?thesis by (simp add: direct_children_def)
qed

lemma child_cursors_set: "set (child_cursors cs) = oe_cursor ` {c \<in> set cs. oe_depends_on c \<noteq> []}"
proof -
  have "set (fold (\<lambda>c acc. if oe_depends_on c \<noteq> [] then acc @ [oe_cursor c] else acc) cs acc) =
      set acc \<union> oe_cursor ` {c \<in> set cs. oe_depends_on c \<noteq> []}" for acc
    by (induction cs arbitrary: acc) auto
  then show ?thesis by (simp add: child_cursors_def)
qed

lemma is_child_of_nonempty: "is_child_of o1 c \<Longrightarrow> oe_depends_on o1 \<noteq> []"
  by (auto simp: is_child_of_def)

lemma child_cursors_direct:
  "icebox_wf icebox \<Longrightarrow> set (child_cursors (direct_children cs icebox)) =
     oe_cursor ` {o1 \<in> set icebox. \<exists>c \<in> set cs. is_child_of o1 c}"
  using is_child_of_nonempty by (auto simp: child_cursors_set direct_children_set)

text \<open>The specification: the orphans that depend, directly or through other orphans, on a cursor.\<close>

inductive descends :: "orphaned_envelope list \<Rightarrow> cursor set \<Rightarrow> orphaned_envelope \<Rightarrow> bool"
  for icebox where
  direct: "o1 \<in> set icebox \<Longrightarrow> c \<in> C \<Longrightarrow> is_child_of o1 c \<Longrightarrow> descends icebox C o1"
| deeper: "p \<in> set icebox \<Longrightarrow> c \<in> C \<Longrightarrow> is_child_of p c \<Longrightarrow> descends icebox {oe_cursor p} o1 \<Longrightarrow>
    descends icebox C o1"

lemma descends_mono: "descends icebox C o1 \<Longrightarrow> C \<subseteq> D \<Longrightarrow> descends icebox D o1"
  by (induction arbitrary: D rule: descends.induct) (auto intro: descends.intros)

lemma descends_single: "descends icebox C o1 \<Longrightarrow> \<exists>c \<in> C. descends icebox {c} o1"
  by (erule descends.cases) (auto intro: descends.intros)

lemma descends_unfold:
  "descends icebox (set cs) o1 \<longleftrightarrow>
     o1 \<in> set icebox \<and> (\<exists>c \<in> set cs. is_child_of o1 c) \<or>
     descends icebox (oe_cursor ` {p \<in> set icebox. \<exists>c \<in> set cs. is_child_of p c}) o1"
  (is "?L \<longleftrightarrow> ?D \<or> ?R")
proof
  show "?L \<Longrightarrow> ?D \<or> ?R"
    by (erule descends.cases) (auto intro: descends_mono)
  show "?D \<or> ?R \<Longrightarrow> ?L"
  proof (elim disjE)
    show "?D \<Longrightarrow> ?L" by (auto intro: descends.direct)
    assume ?R
    from descends_single [OF this]
    obtain p c where "p \<in> set icebox" "c \<in> set cs" "is_child_of p c" "descends icebox {oe_cursor p} o1"
      by auto
    then show ?L by (rule descends.deeper)
  qed
qed

lemma resolve_children_sound:
  "resolve_children_inner cs icebox = Some v \<Longrightarrow> icebox_wf icebox \<Longrightarrow> set v = {o1. descends icebox (set cs) o1}"
proof (induction rule: resolve_children_inner.raw_induct [rotated, consumes 1, case_names step])
  case (step resolve cs icebox v)
  let ?ch = "direct_children cs icebox"
  let ?next = "child_cursors ?ch"
  have unfold: "{o1. descends icebox (set cs) o1} = set ?ch \<union> {o1. descends icebox (set ?next) o1}"
    using descends_unfold [of icebox cs]
    by (auto simp: direct_children_set [OF step.prems] child_cursors_direct [OF step.prems])
  show ?case
  proof (cases "?next = []")
    case True
    have "\<not> descends icebox {} o1" for o1 by (auto elim: descends.cases)
    with True step.hyps show ?thesis unfolding unfold by (auto simp: Let_def)
  next
    case False
    with step.hyps obtain w where w: "resolve ?next icebox = Some w" "v = hs_extend orphan_eq ?ch w"
      by (auto simp: Let_def split: Option.bind_splits)
    have "set w = {o1. descends icebox (set ?next) o1}" by (rule step.IH [OF w(1) step.prems])
    moreover have "descends icebox C o1 \<Longrightarrow> o1 \<in> set icebox" for C o1
      by (induction rule: descends.induct) auto
    ultimately show ?thesis
      unfolding w(2) unfold
      by (subst hs_extend_exact [OF step.prems]) (auto simp: direct_children_set [OF step.prems])
  qed
qed

text \<open>A rank that grows along dependencies: no cycle among the iced envelopes.\<close>

definition ranked :: "(cursor \<Rightarrow> nat) \<Rightarrow> orphaned_envelope list \<Rightarrow> bool" where
  "ranked rank icebox \<longleftrightarrow> (\<forall>p \<in> set icebox. \<forall>q \<in> set icebox.
     is_child_of q (oe_cursor p) \<longrightarrow> rank (oe_cursor p) < rank (oe_cursor q))"

lemma resolve_children_returns_from:
  assumes "icebox_wf icebox" "ranked rank icebox" "\<forall>p \<in> set icebox. rank (oe_cursor p) < m"
  shows "set cs \<subseteq> oe_cursor ` set icebox \<Longrightarrow> \<forall>c \<in> set cs. m \<le> rank c + n \<Longrightarrow>
    \<exists>v. resolve_children_inner cs icebox = Some v"
proof (induction n arbitrary: cs)
  case 0
  have "\<not> is_child_of o1 c" if "o1 \<in> set icebox" "c \<in> set cs" for o1 c
    using that 0 assms(3) by fastforce
  then have "child_cursors (direct_children cs icebox) = []"
    using child_cursors_direct [OF assms(1), of cs] by (simp flip: set_empty)
  then show ?case by (subst resolve_children_inner.simps) (simp add: Let_def)
next
  case (Suc n)
  let ?next = "child_cursors (direct_children cs icebox)"
  have "m \<le> rank c' + n" if "c' \<in> set ?next" for c'
  proof -
    from that obtain q c where q: "c' = oe_cursor q" "q \<in> set icebox" "c \<in> set cs" "is_child_of q c"
      by (auto simp: child_cursors_direct [OF assms(1)])
    with Suc.prems assms(2) have "rank c < rank c'" unfolding ranked_def by blast
    with Suc.prems(2) q(3) show ?thesis by fastforce
  qed
  moreover have "set ?next \<subseteq> oe_cursor ` set icebox" by (auto simp: child_cursors_direct [OF assms(1)])
  ultimately obtain v where "resolve_children_inner ?next icebox = Some v" using Suc.IH by blast
  then show ?case by (subst resolve_children_inner.simps) (simp add: Let_def)
qed

text \<open>
  Property C37. Resolving children returns on every icebox without a dependency cycle, and what it
  returns is exactly the set of iced envelopes that depend, directly or through other iced
  envelopes, on one of the given cursors.
\<close>

theorem resolve_children_closure:
  assumes "icebox_wf (ims_icebox s)" and "ranked rank (ims_icebox s)"
  shows "\<exists>v. resolve_children s cs = Some (Ok v) \<and> set v = {o1. descends (ims_icebox s) (set cs) o1}"
proof -
  let ?b = "ims_icebox s"
  let ?next = "child_cursors (direct_children cs ?b)"
  define m where "m = Suc (Max (insert 0 ((\<lambda>p. rank (oe_cursor p)) ` set ?b)))"
  have "\<forall>p \<in> set ?b. rank (oe_cursor p) < m" by (auto simp: m_def less_Suc_eq_le)
  moreover have "set ?next \<subseteq> oe_cursor ` set ?b" by (auto simp: child_cursors_direct [OF assms(1)])
  ultimately obtain w where w: "resolve_children_inner ?next ?b = Some w"
    using resolve_children_returns_from [OF assms, of m ?next m] by auto
  then have "\<exists>v. resolve_children_inner cs ?b = Some v"
    by (subst resolve_children_inner.simps) (auto simp: Let_def)
  then obtain v where v: "resolve_children_inner cs ?b = Some v" ..
  then show ?thesis
    using resolve_children_sound [OF v assms(1)] by (simp add: resolve_children_def)
qed


theorem resolve_children_closure_witness:
  "\<exists>v. resolve_children (InMemoryCursorStore_default
      \<lparr> ims_icebox := [\<lparr> oe_cursor = Cursor 2 1, oe_depends_on = [(1, 1)], oe_payload = [], oe_group_id = [] \<rparr>] \<rparr>)
    [Cursor 1 1] = Some (Ok v)"
proof -
  let ?o = "\<lparr> oe_cursor = Cursor 2 1, oe_depends_on = [(1, 1)], oe_payload = [], oe_group_id = [] \<rparr>"
  let ?s = "InMemoryCursorStore_default \<lparr> ims_icebox := [?o] \<rparr>"
  have "icebox_wf (ims_icebox ?s)" by (simp add: icebox_wf_def)
  moreover have "ranked (\<lambda>_. 0) (ims_icebox ?s)" by (simp add: ranked_def is_child_of_def)
  ultimately show ?thesis using resolve_children_closure by blast
qed


lemma resolved_in_icebox: "resolve_children_inner cs b = Some v \<Longrightarrow> set v \<subseteq> set b"
proof (induction rule: resolve_children_inner.raw_induct [rotated, consumes 1, case_names step])
  case (step resolve cs b v)
  have "set (hs_extend orphan_eq acc (hs_extend orphan_eq [] (filter P b))) \<subseteq> set b"
    if "set acc \<subseteq> set b" for acc P
    using that hs_extend_set [of orphan_eq acc] hs_extend_set [of orphan_eq "[]" "filter P b"] by fastforce
  then have "set (direct_children cs b) \<subseteq> set b"
    unfolding direct_children_def by (intro fold_invariant_list [where P = "\<lambda>a. set a \<subseteq> set b"]) auto
  moreover have "set w \<subseteq> set b \<Longrightarrow> set (hs_extend orphan_eq (direct_children cs b) w) \<subseteq> set b" for w
    using calculation hs_extend_set [of orphan_eq "direct_children cs b" w] by blast
  ultimately show ?case
    using step by (simp add: Let_def split: if_splits Option.bind_splits) blast
qed

interpretation in_memory: icebox_store in_memory_ops "\<lambda>s. hs_contains orphan_eq (ims_icebox s)"
proof unfold_locales
  fix s os s' o1
  show "cs_ice in_memory_ops s os = (Ok (), s') \<Longrightarrow>
      hs_contains orphan_eq (ims_icebox s') o1 = (hs_contains orphan_eq (ims_icebox s) o1 \<or> (\<exists>p \<in> set os. orphan_eq p o1))"
    by (auto simp: in_memory_ops_def ice_def orphan.hs_contains_extend)
next
  fix s cs v p
  assume "cs_resolve_children in_memory_ops s cs = Some (Ok v)" "p \<in> set v"
  then have "p \<in> set (ims_icebox s)"
    using resolved_in_icebox by (fastforce simp: in_memory_ops_def resolve_children_def)
  then show "hs_contains orphan_eq (ims_icebox s) p"
    using orphan.keq_refl by (auto simp: hs_contains_iff)
qed

section \<open>The stored clocks\<close>

lemma latest_all: "latest s t None = Ok (clock_of (ims_topics s) t)"
  by (simp add: latest_def get_latest_def clock_of_def Let_def)

lemma gc_get_filtered:
  "bt_wf c \<Longrightarrow> gc_get (bt_from_iter (filter (\<lambda>(k, v). P k) c)) n = (if P n then gc_get c n else 0)"
proof -
  assume wf: "bt_wf c"
  have d: "distinct (map fst (filter (\<lambda>(k, v). P k) c))"
    using bt_wf_distinct [OF wf] by (induction c) auto
  have "map_of (filter (\<lambda>(k, v). P k) c) n = (if P n then map_of c n else None)"
    by (induction c) auto
  then show ?thesis
    by (simp add: gc_get_def bt_lookup_from_iter map_of_rev_distinct [OF d])
qed

text \<open>
  Recording a received clock moves the stored position of its topic to the least upper
  bound and leaves every other topic alone; reading it back for one originator gives that
  originator's position.
\<close>

theorem received_latest:
  assumes "bt_wf (clock_of (ims_topics s) t)" and "bt_wf c"
  shows "latest (received s t c) t None = Ok (gc_merge (clock_of (ims_topics s) t) c) \<and>
    (u \<noteq> t \<longrightarrow> latest (received s t c) u None = latest s u None) \<and>
    latest_for_originator (received s t c) t n =
      Ok (Cursor (max (gc_get (clock_of (ims_topics s) t) n) (gc_get c n)) n)"
proof -
  have clocks: "clock_of (ims_topics (received s t c)) u =
      (if u = t then gc_merge (clock_of (ims_topics s) t) c else clock_of (ims_topics s) u)" for u
    by (auto simp: received_def get_or_default_def clock_of_def plain.hm_get_insert split: option.splits)
  have "latest s' u (Some [n]) = Ok (bt_from_iter (filter (\<lambda>(k, v). k = n) (clock_of (ims_topics s') u)))" for s' u
    by (simp add: latest_def get_latest_def clock_of_def Let_def)
  then show ?thesis
    using assms
    by (auto simp: latest_all clocks latest_for_originator_def gc_get_filtered gc_get_merge Cursor_new_def)
qed

theorem received_latest_witness:
  "latest (received InMemoryCursorStore_default (Topic [0, 1]) [(1, 4)]) (Topic [0, 1]) None = Ok [(1, 4)] \<and>
   latest_for_originator (received InMemoryCursorStore_default (Topic [0, 1]) [(1, 4)]) (Topic [0, 1]) 1 = Ok (Cursor 4 1)"
  using received_latest [of InMemoryCursorStore_default "Topic [0, 1]" "[(1, 4)]" "Topic []" 1]
  by (simp add: InMemoryCursorStore_default_def clock_of_def gc_merge_def)

section \<open>The least common cursor\<close>

lemma map_of_apply_least:
  "map_of (gc_apply_least k c) n =
     (if originator_id k = n
      then Some (case map_of c n of Some s \<Rightarrow> min s (sequence_id k) | None \<Rightarrow> sequence_id k)
      else map_of c n)"
  by (auto simp: gc_apply_least_def split: option.splits)

lemma map_of_merge_least:
  "bt_wf d \<Longrightarrow> map_of (gc_merge_least c d) n =
     (case map_of d n of
        None \<Rightarrow> map_of c n
      | Some b \<Rightarrow> Some (case map_of c n of Some a \<Rightarrow> min a b | None \<Rightarrow> b))"
proof (induction d arbitrary: c)
  case Nil
  then show ?case by (simp add: gc_merge_least_def)
next
  case (Cons p d)
  have step: "gc_merge_least c (p # d) =
      gc_merge_least (bt_insert (fst p) (min (case map_of c (fst p) of None \<Rightarrow> snd p | Some s \<Rightarrow> s) (snd p)) c) d"
    by (simp add: gc_merge_least_def Let_def case_prod_beta)
  have "map_of d (fst p) = None"
    using Cons.prems by (auto simp: map_of_eq_None_iff)
  with Cons show ?case by (auto simp: step split: option.splits)
qed

text \<open>A family of clocks bounds a set of cursors from below, tightly.\<close>

definition least_clock :: "cursor set \<Rightarrow> (originator_id \<rightharpoonup> sequence_id) \<Rightarrow> bool" where
  "least_clock K f \<longleftrightarrow>
     (\<forall>k \<in> K. \<exists>s. f (originator_id k) = Some s \<and> s \<le> sequence_id k) \<and>
     (\<forall>n s. f n = Some s \<longrightarrow> Cursor s n \<in> K)"

lemma least_clock_empty: "least_clock {} (map_of [])"
  by (simp add: least_clock_def)

lemma least_clock_apply:
  assumes "least_clock K (map_of c)"
  shows "least_clock (insert k K) (map_of (gc_apply_least k c))"
proof -
  have "Cursor (sequence_id k) (originator_id k) = k" by (cases k) simp
  with assms show ?thesis
    unfolding least_clock_def map_of_apply_least
    by (auto split: option.splits if_splits simp: min_def)
qed

lemma least_clock_merge:
  assumes "bt_wf d" "least_clock K (map_of c)" "least_clock L (map_of d)"
  shows "least_clock (K \<union> L) (map_of (gc_merge_least c d))"
  using assms(2,3) unfolding least_clock_def map_of_merge_least [OF assms(1)]
  by (fastforce split: option.splits simp: min_le_iff_disj min_def)

lemma least_clock_min:
  assumes "least_clock K f" "finite K"
  shows "f n = (if \<exists>k \<in> K. originator_id k = n then Some (Min (sequence_id ` {k \<in> K. originator_id k = n})) else None)"
proof (cases "f n")
  case None
  with assms(1) show ?thesis by (auto simp: least_clock_def)
next
  case (Some s)
  have k: "Cursor s n \<in> K" using assms(1) Some by (simp add: least_clock_def)
  have "Min (sequence_id ` {k \<in> K. originator_id k = n}) = s"
  proof (rule Min_eqI)
    show "s \<in> sequence_id ` {k \<in> K. originator_id k = n}" using k by force
    show "s \<le> y" if "y \<in> sequence_id ` {k \<in> K. originator_id k = n}" for y
      using that assms(1) Some by (fastforce simp: least_clock_def)
  qed (use assms(2) in simp)
  with k Some show ?thesis by force
qed

lemma lcc_groups_least:
  "(\<forall>p \<in> set (lcc_groups ms). bt_wf (snd p)) \<and> fst ` set (lcc_groups ms) = rd_topic ` set ms \<and>
   hm_wf (=) (lcc_groups ms) \<and>
   (\<forall>p \<in> set (lcc_groups ms). least_clock (rd_cursor ` {m \<in> set ms. rd_topic m = fst p}) (map_of (snd p)))"
proof (induction ms rule: rev_induct)
  case Nil
  then show ?case by (simp add: lcc_groups_def)
next
  case (snoc m ms)
  let ?g = "lcc_groups ms" and ?t = "rd_topic m"
  let ?c = "case hm_get (=) ?g ?t of Some c \<Rightarrow> c | None \<Rightarrow> gc_default"
  have g: "lcc_groups (ms @ [m]) = hm_insert (=) ?t (gc_apply_least (rd_cursor m) ?c) ?g"
    by (simp add: lcc_groups_def)
  have wf: "hm_wf (=) (lcc_groups (ms @ [m]))" unfolding g using snoc by (simp add: plain.hm_wf_insert)
  have c: "bt_wf ?c \<and> least_clock (rd_cursor ` {m \<in> set ms. rd_topic m = ?t}) (map_of ?c)"
  proof (cases "hm_get (=) ?g ?t")
    case None
    then have empty: "rd_cursor ` {m \<in> set ms. rd_topic m = ?t} = {}"
      using snoc by (force simp: hm_get_eq_None)
    show ?thesis unfolding empty using None least_clock_empty by simp
  next
    case (Some c)
    from hm_get_SomeD [OF Some] snoc show ?thesis by (fastforce simp: Some)
  qed
  have ins: "insert (rd_cursor m) (rd_cursor ` {m \<in> set ms. rd_topic m = ?t}) =
      rd_cursor ` {m' \<in> set (ms @ [m]). rd_topic m' = ?t}" by auto
  have entry: "bt_wf (snd p) \<and>
      least_clock (rd_cursor ` {m' \<in> set (ms @ [m]). rd_topic m' = fst p}) (map_of (snd p))"
    if p: "p \<in> set (lcc_groups (ms @ [m]))" for p
  proof (cases "fst p = ?t")
    case True
    then have "hm_get (=) (lcc_groups (ms @ [m])) ?t = Some (snd p)"
      using plain.hm_get_mem [OF wf p] by simp
    then have snd: "snd p = gc_apply_least (rd_cursor m) ?c"
      by (simp add: g plain.hm_get_insert)
    have "bt_wf (snd p)" using c by (auto simp: snd gc_apply_least_def split: option.splits)
    then show ?thesis
      using least_clock_apply [of _ ?c "rd_cursor m"] c unfolding True snd ins [symmetric] by blast
  next
    case False
    then have "p \<in> set ?g" using hm_insert_elem [OF p [unfolded g]] by auto
    moreover have "{m' \<in> set (ms @ [m]). rd_topic m' = fst p} = {m' \<in> set ms. rd_topic m' = fst p}"
      using False by auto
    ultimately show ?thesis using snoc by simp
  qed
  have "fst ` set (hm_insert (=) k v h) = insert k (fst ` set h)" for k v and h :: "(topic, global_cursor) hash_map"
    by (induction h) auto
  then have "fst ` set (lcc_groups (ms @ [m])) = rd_topic ` set (ms @ [m])"
    using snoc by (simp add: g)
  with wf entry show ?case by blast
qed

text \<open>
  Property C38. The cursor the resolver queries from names, per originator, the least sequence id
  among the missing dependencies of that originator, and nothing else; its topics are the topics of
  the missing dependencies. Read as a clock of what has been seen, it has already seen the very
  dependency with that least sequence id.
\<close>

theorem lcc_is_least:
  "set (fst (lcc ms)) = rd_topic ` set ms \<and>
   map_of (snd (lcc ms)) n =
     (let K = {k \<in> rd_cursor ` set ms. originator_id k = n}
      in if K = {} then None else Some (Min (sequence_id ` K))) \<and>
   (m \<in> set ms \<longrightarrow> (\<exists>m' \<in> set ms. originator_id (rd_cursor m') = originator_id (rd_cursor m) \<and>
      gc_has_seen (snd (lcc ms)) (rd_cursor m')))"
proof -
  let ?g = "lcc_groups ms"
  have "least_clock (K \<union> (\<Union>p \<in> set ps. rd_cursor ` {m \<in> set ms. rd_topic m = fst p}))
      (map_of (fold (\<lambda>clock acc. gc_merge_least acc clock) (map snd ps) c))"
    if "least_clock K (map_of c)" "set ps \<subseteq> set ?g" for ps K c
    using that
  proof (induction ps arbitrary: K c)
    case Nil
    then show ?case by simp
  next
    case (Cons p ps)
    have "least_clock (K \<union> rd_cursor ` {m \<in> set ms. rd_topic m = fst p}) (map_of (gc_merge_least c (snd p)))"
      using lcc_groups_least [of ms] Cons.prems by (intro least_clock_merge) auto
    from Cons.IH [OF this] Cons.prems(2) show ?case by (simp add: Un_assoc)
  qed
  from this [OF least_clock_empty, of ?g]
  have "least_clock (\<Union>p \<in> set ?g. rd_cursor ` {m \<in> set ms. rd_topic m = fst p}) (map_of (snd (lcc ms)))"
    by (simp add: lcc_def Let_def)
  moreover have "(\<Union>p \<in> set ?g. rd_cursor ` {m \<in> set ms. rd_topic m = fst p}) = rd_cursor ` set ms"
    using lcc_groups_least [of ms] by (fastforce simp: set_eq_iff image_iff)
  ultimately have least: "least_clock (rd_cursor ` set ms) (map_of (snd (lcc ms)))" by simp
  have "\<exists>m' \<in> set ms. originator_id (rd_cursor m') = originator_id (rd_cursor m) \<and>
      gc_has_seen (snd (lcc ms)) (rd_cursor m')" if m: "m \<in> set ms"
  proof -
    from least m obtain s where s: "map_of (snd (lcc ms)) (originator_id (rd_cursor m)) = Some s"
      unfolding least_clock_def by blast
    with least obtain m' where "m' \<in> set ms" "rd_cursor m' = Cursor s (originator_id (rd_cursor m))"
      unfolding least_clock_def by force
    with s show ?thesis by (auto simp: gc_has_seen_def gc_get_def intro!: bexI [of _ m'])
  qed
  moreover have "set (fst (lcc ms)) = rd_topic ` set ms"
    using lcc_groups_least [of ms] by (simp add: lcc_def Let_def)
  ultimately show ?thesis
    using least_clock_min [OF least, of n] by (auto simp: Let_def)
qed

theorem lcc_is_least_witness:
  "\<exists>m' \<in> {RequiredDependency_new (Topic [0]) (Cursor 5 1) (Cursor 9 1)}. originator_id (rd_cursor m') = 1 \<and>
     gc_has_seen (snd (lcc [RequiredDependency_new (Topic [0]) (Cursor 5 1) (Cursor 9 1)])) (rd_cursor m')"
  using lcc_is_least [where m = "RequiredDependency_new (Topic [0]) (Cursor 5 1) (Cursor 9 1)"
      and ms = "[RequiredDependency_new (Topic [0]) (Cursor 5 1) (Cursor 9 1)]"]
  by (simp add: RequiredDependency_new_def)

end
