(* ===== verification/Ordered.thy ===== *)
theory Ordered
  imports Cursor_Store
begin

text \<open>
  Ordering a batch of envelopes with recovery and resolution of dependencies:
  \<open>xmtp_api_d14n/src/protocol/order.rs\<close>, and the retrying resolver of \<open>resolve/network_backoff.rs\<close>.

  The cursor store is used through \<open>cursor_store_ops\<close>, the envelopes through \<open>envelope_ops\<close>. The
  resolver is a function on a state of its own (the network), and \<open>decode\<close> stands for the protobuf
  decoder of the envelope type. \<open>order\<close> runs as long as its resolver keeps finding envelopes, so it
  is option-valued; \<open>None\<close> stands for not returning.
\<close>

section \<open>The ordered collection\<close>

record ('e, 'r, 's) ordered =
  o_envelopes :: "'e list"
  o_resolver :: 'r
  o_topic_cursor :: topic_cursor
  o_store :: 's

datatype resolution_error =
    Envelope envelope_error | Body | Api | Build | ResolutionFailed | RStore cursor_store_error

type_synonym ('r, 'e) resolver =
  "'r \<Rightarrow> required_dependency list \<Rightarrow> (resolution_error, 'e list) result \<times> 'r"

type_synonym 'e decoder = "bytes \<Rightarrow> (envelope_error, 'e) result"

definition TypedNoopResolver :: "('r, 'e) resolver" where
  "TypedNoopResolver r m = (Ok [], r)"

fun needed :: "('e, envelope_error) envelope_ops \<Rightarrow> 'e list \<Rightarrow> topic_cursor \<Rightarrow>
    (envelope_error, required_dependency list) result \<times> topic_cursor" where
  "needed E [] tc = (Ok [], tc)"
| "needed E (e # es) tc =
     (case ev_depends_on E e of
        Err x \<Rightarrow> (Err x, tc)
      | Ok d \<Rightarrow>
     (case ev_topic E e of
        Err x \<Rightarrow> (Err x, tc)
      | Ok t \<Rightarrow>
     (let dependencies = (case d of Some g \<Rightarrow> g | None \<Rightarrow> gc_default);
          (topic_clock, tc1) = get_or_default tc t;
          need = gc_missing topic_clock dependencies
      in case ev_cursor E e of
           Err x \<Rightarrow> (Err x, tc1)
         | Ok needed_by \<Rightarrow>
             (case needed E es tc1 of (r, tc2) \<Rightarrow>
                (rbind r (\<lambda>rest. Ok (map (\<lambda>c. RequiredDependency_new t c needed_by) need @ rest)), tc2)))))"

definition required_dependencies :: "('e, envelope_error) envelope_ops \<Rightarrow> 'e list \<Rightarrow> topic_cursor \<Rightarrow>
    (envelope_error, required_dependency list) result \<times> topic_cursor" where
  "required_dependencies E missing tc =
     (case needed E missing tc of (r, tc') \<Rightarrow> (rbind r (\<lambda>ds. Ok (hs_extend (=) [] ds)), tc'))"

definition recover_lost_children ::
    "('e, envelope_error) envelope_ops \<Rightarrow> 'e decoder \<Rightarrow> 's cursor_store_ops \<Rightarrow> ('e, 'r, 's) ordered \<Rightarrow>
     ((envelope_error, unit) result \<times> ('e, 'r, 's) ordered) option" where
  "recover_lost_children E decode S st =
     (case try_map (ev_cursor E) (o_envelopes st) of
        Err x \<Rightarrow> Some (Err x, st)
      | Ok cursors \<Rightarrow>
     (case cs_resolve_children S (o_store st) cursors of
        None \<Rightarrow> None
      | Some (Err x) \<Rightarrow> Some (Err (Store x), st)
      | Some (Ok children) \<Rightarrow>
     (case try_map decode (map into_payload (filter (\<lambda>o1. oe_cursor o1 \<notin> set cursors) children)) of
        Err x \<Rightarrow> Some (Err x, st)
      | Ok envelopes \<Rightarrow> Some (Ok (), st\<lparr> o_envelopes := o_envelopes st @ envelopes \<rparr>))))"

definition Ordered_causal_sort ::
    "('e, envelope_error) envelope_ops \<Rightarrow> ('e, 'r, 's) ordered \<Rightarrow>
     (envelope_error, 'e list option) result \<times> ('e, 'r, 's) ordered" where
  "Ordered_causal_sort E st =
     (case causal_sort E (o_envelopes st) (o_topic_cursor st) of
        (r, envelopes, tc) \<Rightarrow> (r, st\<lparr> o_envelopes := envelopes, o_topic_cursor := tc \<rparr>))"

definition Ordered_timestamp_sort ::
    "('e, envelope_error) envelope_ops \<Rightarrow> ('e, 'r, 's) ordered \<Rightarrow> ('e, 'r, 's) ordered" where
  "Ordered_timestamp_sort E st = st\<lparr> o_envelopes := timestamp_sort E (o_envelopes st) \<rparr>"

text \<open>Icing the missing envelopes, as both \<open>order\<close> and \<open>order_offline\<close> do.\<close>

definition ice_missing ::
    "('e, envelope_error) envelope_ops \<Rightarrow> 's cursor_store_ops \<Rightarrow> 'e list \<Rightarrow> ('e, 'r, 's) ordered \<Rightarrow>
     (resolution_error, unit) result \<times> ('e, 'r, 's) ordered" where
  "ice_missing E S missing st =
     (case try_map (ev_orphan E) missing of
        Err x \<Rightarrow> (Err (Envelope x), st)
      | Ok orphans \<Rightarrow>
          (case cs_ice S (o_store st) orphans of
             (r, s') \<Rightarrow> (map_err RStore r, st\<lparr> o_store := s' \<rparr>)))"

definition order_offline ::
    "('e, envelope_error) envelope_ops \<Rightarrow> 'e decoder \<Rightarrow> 's cursor_store_ops \<Rightarrow> ('e, 'r, 's) ordered \<Rightarrow>
     ((resolution_error, unit) result \<times> ('e, 'r, 's) ordered) option" where
  "order_offline E decode S st =
     (case recover_lost_children E decode S st of
        None \<Rightarrow> None
      | Some (Err x, st1) \<Rightarrow> Some (Err (Envelope x), st1)
      | Some (Ok _, st1) \<Rightarrow>
          (case Ordered_causal_sort E (Ordered_timestamp_sort E st1) of
             (Err x, st2) \<Rightarrow> Some (Err (Envelope x), st2)
           | (Ok None, st2) \<Rightarrow> Some (Ok (), st2)
           | (Ok (Some missing), st2) \<Rightarrow> Some (ice_missing E S missing st2)))"

text \<open>
  One turn of the loop of \<open>order\<close>: either it is over, with a result, or it goes on with the envelopes
  found. The asynchronous resolver is called between the two sorts.
\<close>

definition order_turn ::
    "('e, envelope_error) envelope_ops \<Rightarrow> 's cursor_store_ops \<Rightarrow> ('r, 'e) resolver \<Rightarrow> ('e, 'r, 's) ordered \<Rightarrow>
     (resolution_error, unit) result option \<times> ('e, 'r, 's) ordered" where
  "order_turn E S resolve st =
     (case Ordered_causal_sort E st of
        (Err x, st1) \<Rightarrow> (Some (Err (Envelope x)), st1)
      | (Ok None, st1) \<Rightarrow> (Some (Ok ()), st1)
      | (Ok (Some missing), st1) \<Rightarrow>
     (case required_dependencies E missing (o_topic_cursor st1) of
        (Err x, tc) \<Rightarrow> (Some (Err (Envelope x)), st1\<lparr> o_topic_cursor := tc \<rparr>)
      | (Ok needed_envelopes, tc) \<Rightarrow>
     (case resolve (o_resolver st1) needed_envelopes of
        (Err x, r) \<Rightarrow> (Some (Err x), st1\<lparr> o_topic_cursor := tc, o_resolver := r \<rparr>)
      | (Ok resolved, r) \<Rightarrow>
          (let st2 = st1\<lparr> o_topic_cursor := tc, o_resolver := r \<rparr> in
           if resolved = []
           then (case ice_missing E S missing st2 of (res, st3) \<Rightarrow> (Some res, st3))
           else (None, st2\<lparr> o_envelopes := o_envelopes st2 @ resolved @ missing \<rparr>)))))"

partial_function (option) order_loop ::
    "('e, envelope_error) envelope_ops \<Rightarrow> 'e decoder \<Rightarrow> 's cursor_store_ops \<Rightarrow> ('r, 'e) resolver \<Rightarrow>
     ('e, 'r, 's) ordered \<Rightarrow> ((resolution_error, unit) result \<times> ('e, 'r, 's) ordered) option" where
  [code]: "order_loop E decode S resolve st =
     (case order_turn E S resolve st of
        (Some res, st1) \<Rightarrow> Some (res, st1)
      | (None, st1) \<Rightarrow>
          Option.bind (recover_lost_children E decode S st1) (\<lambda>(r, st2).
            case r of
              Err x \<Rightarrow> Some (Err (Envelope x), st2)
            | Ok _ \<Rightarrow> order_loop E decode S resolve st2))"

definition order ::
    "('e, envelope_error) envelope_ops \<Rightarrow> 'e decoder \<Rightarrow> 's cursor_store_ops \<Rightarrow> ('r, 'e) resolver \<Rightarrow>
     ('e, 'r, 's) ordered \<Rightarrow> ((resolution_error, unit) result \<times> ('e, 'r, 's) ordered) option" where
  "order E decode S resolve st =
     (case recover_lost_children E decode S st of
        None \<Rightarrow> None
      | Some (Err x, st1) \<Rightarrow> Some (Err (Envelope x), st1)
      | Some (Ok _, st1) \<Rightarrow> order_loop E decode S resolve (Ordered_timestamp_sort E st1))"

section \<open>The resolver that queries the network with backoff\<close>

text \<open>
  \<open>backoff n\<close> says whether the backoff strategy allows the attempt number \<open>n\<close> (the waiting itself
  has no effect on the data), and \<open>query\<close> is the network: topics and the cursor to query from, to
  envelopes.
\<close>

partial_function (option) network_resolve_loop ::
    "('e, envelope_error) envelope_ops \<Rightarrow> (nat \<Rightarrow> bool) \<Rightarrow>
     ('n \<Rightarrow> topic list \<Rightarrow> global_cursor \<Rightarrow> (resolution_error, 'e list) result \<times> 'n) \<Rightarrow>
     'n \<Rightarrow> nat \<Rightarrow> required_dependency list \<Rightarrow> 'e list \<Rightarrow>
     ((resolution_error, 'e list \<times> required_dependency list option) result \<times> 'n) option" where
  [code]: "network_resolve_loop E backoff query n attempts missing resolved =
     (if missing \<noteq> [] then
        if backoff attempts then
          (case lcc missing of (ts, last_seen) \<Rightarrow>
           case query n ts last_seen of
             (Err x, n') \<Rightarrow> Some (Err x, n')
           | (Ok envelopes, n') \<Rightarrow>
               (case try_map (ev_cursor E) envelopes of
                  Err x \<Rightarrow> Some (Err (Envelope x), n')
                | Ok got \<Rightarrow>
                    network_resolve_loop E backoff query n' (attempts + 1)
                      (filter (\<lambda>m. rd_cursor m \<notin> set got) missing) (resolved @ envelopes)))
        else Some (Ok (resolved, Some missing), n)
      else Some (Ok (resolved, None), n))"

definition network_resolve where
  "network_resolve E backoff query n missing = network_resolve_loop E backoff query n 0 missing []"

section \<open>Sorting again what is already sorted\<close>

lemma loop_keeps_satisfied:
  assumes "causal_sort_loop E i (xs @ ys) [] tc = (Ok ms', es', tc')"
    and "i \<le> length xs" and "\<forall>x \<in> set xs. satisfied E (seen_of tc) x"
  shows "take (length xs) es' = xs"
  using assms
proof (induction "length xs - i" arbitrary: i tc)
  case 0
  then have "i = length xs" by simp
  then show ?case
    using causal_sort_loop_correct [OF 0(2)] by (simp add: missed_ok_def)
next
  case (Suc n)
  then have i: "i < length xs" by simp
  then have sat: "satisfied E (seen_of tc) ((xs @ ys) ! i)"
    using Suc.prems(3) by (simp add: nth_append)
  from Suc.prems(1) show ?case
  proof (cases rule: loop_Ok_cases)
    case (valid tc2 nv rest tc3)
    then have r: "nv = []" "rest = []" "tc3 = tc2" by simp_all
    have same: "take (i + 1) (xs @ ys) @ nv @ drop (i + 1) (xs @ ys) = xs @ ys"
      unfolding r append_Nil by (rule append_take_drop_id)
    have "seen_of tc \<le> seen_of tc3" unfolding r(3) valid(3) by (rule see_ge)
    then have "\<forall>x \<in> set xs. satisfied E (seen_of tc3) x"
      using Suc.prems(3) by (meson satisfied_mono)
    then show ?thesis
      using Suc(1) [of "i + 1" tc3] Suc(2) i valid(5) unfolding same r(2) by simp
  qed (use i sat in auto)
qed

lemma causal_sort_prefix:
  assumes "causal_sort E (xs @ ys) tc = (Ok m, es', tc')" and "\<forall>x \<in> set xs. satisfied E (seen_of tc) x"
  obtains zs where "es' = xs @ zs"
proof -
  obtain ms where "causal_sort_loop E 0 (xs @ ys) [] tc = (Ok ms, es', tc')"
    using assms(1) by (auto simp: causal_sort_def split: prod.splits sum.splits)
  from loop_keeps_satisfied [OF this _ assms(2)] have "take (length xs) es' = xs" by simp
  then show thesis using that [of "drop (length xs) es'"] by (metis append_take_drop_id)
qed

lemma see_all_idem: "set es \<subseteq> set fs \<Longrightarrow> fold (see E) es (fold (see E) fs v) = fold (see E) fs v"
  by (induction es) (auto simp: see_idem)

text \<open>A batch whose first envelopes are causally ordered and already counted in the topic cursor.\<close>

definition ordered_prefix :: "('e, 'x) envelope_ops \<Rightarrow> seen \<Rightarrow> 'e list \<Rightarrow> topic_cursor \<Rightarrow> bool" where
  "ordered_prefix E v es tc \<longleftrightarrow>
     (\<exists>xs ys. es = xs @ ys \<and> causally_ordered E v xs \<and> seen_of tc = fold (see E) xs v)"

lemma ordered_prefix_sort:
  assumes "ordered_prefix E v es tc" and "causal_sort E es tc = (Ok m, es', tc')"
  shows "causally_ordered E v es' \<and> seen_of tc' = fold (see E) es' v"
proof -
  from assms(1) obtain xs ys where es: "es = xs @ ys"
    and xs: "causally_ordered E v xs" and tc: "seen_of tc = fold (see E) xs v"
    unfolding ordered_prefix_def by blast
  have "\<forall>x \<in> set xs. satisfied E (seen_of tc) x"
    using causally_ordered_satisfied [OF xs] tc by simp
  with assms(2) obtain zs where zs: "es' = xs @ zs" unfolding es by (elim causal_sort_prefix)
  have idem: "fold (see E) xs (seen_of tc) = seen_of tc"
    unfolding tc by (rule see_all_idem) simp
  have "causally_ordered E (seen_of tc) zs" "seen_of tc' = fold (see E) zs (seen_of tc)"
    using causal_sort_sound(2,3) [OF assms(2)] idem by (simp_all add: zs causally_ordered_append)
  with xs tc show ?thesis by (simp add: zs causally_ordered_append)
qed

lemma ordered_prefix_start: "ordered_prefix E (seen_of tc) es tc"
  unfolding ordered_prefix_def by (rule exI [of _ "[]"]) simp

lemma ordered_prefix_extend:
  "causally_ordered E v es \<Longrightarrow> seen_of tc = fold (see E) es v \<Longrightarrow> ordered_prefix E v (es @ fs) tc"
  unfolding ordered_prefix_def by blast

lemma needed_seen: "needed E es tc = (r, tc') \<Longrightarrow> seen_of tc' = seen_of tc"
proof (induction E es tc arbitrary: r tc' rule: needed.induct)
  case (1 E tc)
  then show ?case by simp
next
  case (2 E e es tc)
  show ?case
  proof (cases "ev_depends_on E e")
    case (Inr d)
    show ?thesis
    proof (cases "ev_topic E e")
      case (Inr t)
      obtain c tc1 where g: "get_or_default tc t = (c, tc1)" by fastforce
      show ?thesis
        using "2.prems" "2.IH" [OF \<open>ev_depends_on E e = Inr d\<close> Inr refl g [symmetric] refl refl]
          get_or_default_seen [OF g] \<open>ev_depends_on E e = Inr d\<close> Inr
        by (auto simp: g Let_def split: sum.splits prod.splits)
    qed (use "2.prems" Inr in simp)
  qed (use "2.prems" in simp)
qed

lemma required_dependencies_seen: "required_dependencies E es tc = (r, tc') \<Longrightarrow> seen_of tc' = seen_of tc"
  by (auto simp: required_dependencies_def split: prod.splits dest: needed_seen)

section \<open>What ordering guarantees\<close>

lemma ice_missing_keeps:
  "ice_missing E S missing st = (r, st') \<Longrightarrow>
     o_envelopes st' = o_envelopes st \<and> o_topic_cursor st' = o_topic_cursor st"
  by (auto simp: ice_missing_def split: sum.splits prod.splits)

text \<open>The ways a turn of \<open>order\<close> can end, without its errors.\<close>

lemma order_turn_cases:
  assumes "order_turn E S resolve st = (res, st')" and "\<And>x. res \<noteq> Some (Err x)"
  obtains (sorted) tc es where "causal_sort E (o_envelopes st) (o_topic_cursor st) = (Ok None, es, tc)"
      "res = Some (Ok ())" "st' = st\<lparr> o_envelopes := es, o_topic_cursor := tc \<rparr>"
  | (iced) missing es tc r tc' where
      "causal_sort E (o_envelopes st) (o_topic_cursor st) = (Ok (Some missing), es, tc')"
      "res = Some (Ok ())" "seen_of tc = seen_of tc'"
      "ice_missing E S missing (st\<lparr> o_envelopes := es, o_topic_cursor := tc, o_resolver := r \<rparr>) = (Ok (), st')"
  | (more) missing es tc r tc' resolved where
      "causal_sort E (o_envelopes st) (o_topic_cursor st) = (Ok (Some missing), es, tc')"
      "res = None" "seen_of tc = seen_of tc'"
      "st' = st\<lparr> o_envelopes := es @ resolved @ missing, o_topic_cursor := tc, o_resolver := r \<rparr>"
proof -
  obtain m es tc' where c: "causal_sort E (o_envelopes st) (o_topic_cursor st) = (Ok m, es, tc')"
    using assms by (auto simp: order_turn_def Ordered_causal_sort_def split: prod.splits sum.splits)
  show thesis
  proof (cases m)
    case None
    with c assms(1) show thesis by (intro sorted) (auto simp: order_turn_def Ordered_causal_sort_def)
  next
    case (Some missing)
    obtain q tc where q: "required_dependencies E missing tc' = (q, tc)" by fastforce
    note seen = required_dependencies_seen [OF q]
    obtain ds where ds: "q = Ok ds"
      using assms c q Some by (cases q) (auto simp: order_turn_def Ordered_causal_sort_def)
    obtain w r where w: "resolve (o_resolver st) ds = (w, r)" by fastforce
    obtain resolved where "w = Ok resolved"
      using assms c q ds w Some by (cases w) (auto simp: order_turn_def Ordered_causal_sort_def)
    then have turn: "order_turn E S resolve st =
        (let st2 = st\<lparr> o_envelopes := es, o_topic_cursor := tc, o_resolver := r \<rparr> in
         if resolved = []
         then (case ice_missing E S missing st2 of (res, st3) \<Rightarrow> (Some res, st3))
         else (None, st2\<lparr> o_envelopes := o_envelopes st2 @ resolved @ missing \<rparr>))"
      using c q ds w Some by (simp add: order_turn_def Ordered_causal_sort_def Let_def)
    show thesis
    proof (cases "resolved = []")
      case True
      with turn assms(1) have "ice_missing E S missing
          (st\<lparr> o_envelopes := es, o_topic_cursor := tc, o_resolver := r \<rparr>) = (the res, st') \<and> res \<noteq> None"
        by (auto simp: Let_def split: prod.splits)
      moreover from this assms(2) have "res = Some (Ok ())"
        by (cases "the res") auto
      ultimately show thesis using c Some seen by (intro iced) auto
    next
      case False
      with turn assms(1) c Some seen show thesis
        by (intro more [where resolved = resolved and tc = tc and r = r]) (auto simp: Let_def)
    qed
  qed
qed

lemma recover_lost_children_Ok:
  assumes "recover_lost_children E decode S st = Some (Ok u, st')"
  obtains es where "st' = st\<lparr> o_envelopes := o_envelopes st @ es \<rparr>"
  using assms by (auto simp: recover_lost_children_def split: sum.splits option.splits)

lemma order_loop_ordered:
  assumes "order_loop E decode S resolve st = Some (Ok (), st')"
    and "ordered_prefix E v (o_envelopes st) (o_topic_cursor st)"
  shows "causally_ordered E v (o_envelopes st') \<and>
    seen_of (o_topic_cursor st') = fold (see E) (o_envelopes st') v"
proof -
  have "order_loop E decode S resolve st = Some y \<Longrightarrow> y = (Ok (), st') \<Longrightarrow>
      ordered_prefix E v (o_envelopes st) (o_topic_cursor st) \<Longrightarrow>
      causally_ordered E v (o_envelopes st') \<and> seen_of (o_topic_cursor st') = fold (see E) (o_envelopes st') v" for y
  proof (induction rule: order_loop.raw_induct [rotated, consumes 1, case_names step])
    case (step loop E decode S resolve st y)
    obtain res st1 where t: "order_turn E S resolve st = (res, st1)" by fastforce
    have "\<And>x. res \<noteq> Some (Err x)" using step.hyps step.prems(1) t by auto
    with t show ?case
    proof (cases rule: order_turn_cases)
      case (sorted tc es)
      then have "st1 = st'" using step.hyps step.prems(1) t by simp
      then show ?thesis using ordered_prefix_sort [OF step.prems(2) sorted(1)] sorted(3) by auto
    next
      case (iced missing es tc r tc')
      then have "st1 = st'" using step.hyps step.prems(1) t by simp
      then show ?thesis
        using ordered_prefix_sort [OF step.prems(2) iced(1)] iced(3) ice_missing_keeps [OF iced(4)] by auto
    next
      case (more missing es tc r tc' resolved)
      with step.hyps step.prems(1) t obtain st2 where
        rec: "recover_lost_children E decode S st1 = Some (Ok (), st2)" and
        go: "loop E decode S resolve st2 = Some y"
        by (auto split: Option.bind_splits sum.splits prod.splits)
      have "ordered_prefix E v (o_envelopes st2) (o_topic_cursor st2)"
        using ordered_prefix_sort [OF step.prems(2) more(1)] more(3,4) rec
        by (elim recover_lost_children_Ok) (simp add: ordered_prefix_extend)
      with go step.prems(1) show ?thesis by (rule step.IH)
    qed
  qed
  with assms show ?thesis by blast
qed

text \<open>
  Property C32. Whenever \<open>order\<close> returns successfully, however many rounds of resolution it took, the
  envelopes it leaves are in causal order from the topic cursor it started with, and the topic
  cursor it leaves is the starting one moved by exactly these envelopes.
\<close>

theorem order_causal:
  assumes "order E decode S resolve st = Some (Ok (), st')"
  shows "causally_ordered E (seen_of (o_topic_cursor st)) (o_envelopes st') \<and>
    seen_of (o_topic_cursor st') = fold (see E) (o_envelopes st') (seen_of (o_topic_cursor st))"
proof -
  obtain st1 where rec: "recover_lost_children E decode S st = Some (Ok (), st1)"
    and loop: "order_loop E decode S resolve (Ordered_timestamp_sort E st1) = Some (Ok (), st')"
    using assms by (auto simp: order_def split: option.splits sum.splits)
  have "o_topic_cursor (Ordered_timestamp_sort E st1) = o_topic_cursor st"
    using rec by (elim recover_lost_children_Ok) (simp add: Ordered_timestamp_sort_def)
  then show ?thesis
    using order_loop_ordered [OF loop, of "seen_of (o_topic_cursor st)"] ordered_prefix_start by metis
qed

section \<open>No envelope is lost\<close>

context icebox_store
begin

definition kept :: "('e, envelope_error) envelope_ops \<Rightarrow> ('e, 'r, 's) ordered \<Rightarrow> 'e \<Rightarrow> bool" where
  "kept E st e \<longleftrightarrow> e \<in> set (o_envelopes st) \<or> (\<exists>o1. ev_orphan E e = Ok o1 \<and> holds (o_store st) o1)"

lemma ice_missing_kept:
  assumes "ice_missing E S missing st = (Ok (), st')"
  shows "e \<in> set missing \<Longrightarrow> kept E st' e" and "kept E st e \<Longrightarrow> kept E st' e"
    and "holds (o_store st) o1 \<Longrightarrow> holds (o_store st') o1"
proof -
  obtain orphans s' where o: "try_map (ev_orphan E) missing = Ok orphans"
    and i: "cs_ice S (o_store st) orphans = (Ok (), s')" and st': "st' = st\<lparr> o_store := s' \<rparr>"
    using assms by (auto simp: ice_missing_def split: sum.splits prod.splits)
  show "kept E st' e" if "e \<in> set missing"
  proof -
    from try_map_mem [OF o that] obtain o1 where "o1 \<in> set orphans" "ev_orphan E e = Ok o1"
      by blast
    with iced_held [OF i] show ?thesis by (auto simp: kept_def st')
  qed
  show "kept E st e \<Longrightarrow> kept E st' e" "holds (o_store st) o1 \<Longrightarrow> holds (o_store st') o1"
    using ice_keeps [OF i] by (auto simp: kept_def st')
qed

lemma sort_keeps:
  assumes "causal_sort E es tc = (Ok m, es', tc')" and "e \<in> set es"
  shows "e \<in> set es' \<union> set (missing_list m)"
  using causal_sort_sound(1) [OF assms(1)] assms(2) by (metis mset_append set_append set_mset_mset)

lemma recover_keeps:
  assumes "recover_lost_children E decode S st = Some (Ok u, st')"
  shows "o_store st' = o_store st" and "e \<in> set (o_envelopes st) \<Longrightarrow> e \<in> set (o_envelopes st')"
  using assms by (elim recover_lost_children_Ok; simp)+

lemma order_loop_kept:
  assumes "order_loop E decode S resolve st = Some (Ok (), st')"
  shows "(e \<in> set (o_envelopes st) \<longrightarrow> kept E st' e) \<and> (holds (o_store st) o1 \<longrightarrow> holds (o_store st') o1)"
proof -
  have "order_loop E decode S' resolve st = Some y \<Longrightarrow> y = (Ok (), st') \<Longrightarrow> S' = S \<Longrightarrow>
      (e \<in> set (o_envelopes st) \<longrightarrow> kept E st' e) \<and> (holds (o_store st) o1 \<longrightarrow> holds (o_store st') o1)" for y S'
  proof (induction rule: order_loop.raw_induct [rotated, consumes 1, case_names step])
    case (step loop E decode S' resolve st y)
    obtain res st1 where t: "order_turn E S resolve st = (res, st1)" by fastforce
    have "\<And>x. res \<noteq> Some (Err x)" using step.hyps step.prems t by auto
    with t show ?case
    proof (cases rule: order_turn_cases)
      case (sorted tc es)
      then have "st1 = st'" using step.hyps step.prems t by simp
      then show ?thesis using sort_keeps [OF sorted(1)] sorted(3) by (auto simp: kept_def)
    next
      case (iced missing es tc r tc')
      then have "st1 = st'" using step.hyps step.prems t by simp
      then show ?thesis
        using sort_keeps [OF iced(1)] ice_missing_kept [OF iced(4)] by (fastforce simp: kept_def)
    next
      case (more missing es tc r tc' resolved)
      with step.hyps step.prems t obtain st2 where
        rec: "recover_lost_children E decode S st1 = Some (Ok (), st2)" and
        go: "loop E decode S resolve st2 = Some y"
        by (auto split: Option.bind_splits sum.splits prod.splits)
      have "e \<in> set (o_envelopes st) \<Longrightarrow> e \<in> set (o_envelopes st2)"
        using sort_keeps [OF more(1)] recover_keeps(2) [OF rec] more(4) by fastforce
      moreover have "o_store st2 = o_store st" using recover_keeps(1) [OF rec] more(4) by simp
      ultimately show ?thesis
        using step.IH [OF go [folded step.prems(2)] step.prems] by auto
    qed
  qed
  with assms show ?thesis by blast
qed

lemma order_kept:
  assumes "order E decode S resolve st = Some (Ok (), st')"
  shows "(e \<in> set (o_envelopes st) \<longrightarrow> kept E st' e) \<and> (holds (o_store st) o1 \<longrightarrow> holds (o_store st') o1)"
proof -
  obtain st1 where rec: "recover_lost_children E decode S st = Some (Ok (), st1)"
    and loop: "order_loop E decode S resolve (Ordered_timestamp_sort E st1) = Some (Ok (), st')"
    using assms by (auto simp: order_def split: option.splits sum.splits)
  show ?thesis
    using order_loop_kept [OF loop, of e o1] recover_keeps(1) [OF rec] recover_keeps(2) [OF rec, of e]
    by (simp add: Ordered_timestamp_sort_def timestamp_sort_def)
qed

lemma order_offline_kept:
  assumes "order_offline E decode S st = Some (Ok (), st')"
  shows "(e \<in> set (o_envelopes st) \<longrightarrow> kept E st' e) \<and> (holds (o_store st) o1 \<longrightarrow> holds (o_store st') o1)"
proof -
  obtain st1 m es tc where rec: "recover_lost_children E decode S st = Some (Ok (), st1)"
    and c: "causal_sort E (timestamp_sort E (o_envelopes st1)) (o_topic_cursor st1) = (Ok m, es, tc)"
    using assms by (auto simp: order_offline_def Ordered_causal_sort_def Ordered_timestamp_sort_def
        split: option.splits sum.splits prod.splits)
  let ?st2 = "st1\<lparr> o_envelopes := es, o_topic_cursor := tc \<rparr>"
  have all: "e \<in> set (o_envelopes st) \<Longrightarrow> e \<in> set es \<union> set (missing_list m)"
    using sort_keeps [OF c, of e] recover_keeps(2) [OF rec] by (simp add: timestamp_sort_def)
  show ?thesis
  proof (cases m)
    case None
    then have "st' = ?st2"
      using assms rec c by (simp add: order_offline_def Ordered_causal_sort_def Ordered_timestamp_sort_def)
    then show ?thesis using all None recover_keeps(1) [OF rec] by (simp add: kept_def)
  next
    case (Some missing)
    then have "ice_missing E S missing ?st2 = (Ok (), st')"
      using assms rec c by (simp add: order_offline_def Ordered_causal_sort_def Ordered_timestamp_sort_def)
    from ice_missing_kept [OF this] show ?thesis
      using all Some recover_keeps(1) [OF rec] by (auto simp: kept_def)
  qed
qed

end

text \<open>
  Property C10. Ordering against the in-memory store loses nothing: after a successful \<open>order\<close> each
  envelope that was to be ordered is in the ordered result or iced in the store, and everything
  that was iced before is still there.
\<close>

theorem order_loses_nothing:
  assumes "order E decode in_memory_ops resolve st = Some (Ok (), st')"
  shows "list_all (\<lambda>e. e \<in> set (o_envelopes st') \<or>
      (\<exists>o1. ev_orphan E e = Ok o1 \<and> hs_contains orphan_eq (ims_icebox (o_store st')) o1)) (o_envelopes st) \<and>
    list_all (hs_contains orphan_eq (ims_icebox (o_store st'))) (ims_icebox (o_store st))"
proof -
  have "hs_contains orphan_eq (ims_icebox (o_store st')) p" if "p \<in> set (ims_icebox (o_store st))" for p
    using in_memory.order_kept [OF assms, of _ p] that orphan.keq_refl by (auto simp: hs_contains_iff)
  then show ?thesis
    using in_memory.order_kept [OF assms] by (auto simp: list_all_iff in_memory.kept_def)
qed

text \<open>
  The same for \<open>order_offline\<close>, which never asks the network.
\<close>

theorem order_offline_loses_nothing:
  assumes "order_offline E decode in_memory_ops st = Some (Ok (), st')"
  shows "list_all (\<lambda>e. e \<in> set (o_envelopes st') \<or>
      (\<exists>o1. ev_orphan E e = Ok o1 \<and> hs_contains orphan_eq (ims_icebox (o_store st')) o1)) (o_envelopes st) \<and>
    list_all (hs_contains orphan_eq (ims_icebox (o_store st'))) (ims_icebox (o_store st))"
proof -
  have "hs_contains orphan_eq (ims_icebox (o_store st')) p" if "p \<in> set (ims_icebox (o_store st))" for p
    using in_memory.order_offline_kept [OF assms, of _ p] that orphan.keq_refl by (auto simp: hs_contains_iff)
  then show ?thesis
    using in_memory.order_offline_kept [OF assms] by (auto simp: list_all_iff in_memory.kept_def)
qed

text \<open>The outcome of resolving: what was found, and what of the missing dependencies it leaves.\<close>

definition resolution_ok :: "('e, envelope_error) envelope_ops \<Rightarrow> required_dependency list \<Rightarrow> 'e list \<Rightarrow>
    (resolution_error, 'e list \<times> required_dependency list option) result \<Rightarrow> bool" where
  "resolution_ok E missing resolved res =
     (case res of Err x \<Rightarrow> True
      | Ok (found, unresolved) \<Rightarrow> \<exists>more. found = resolved @ more \<and> unresolved \<noteq> Some [] \<and>
         (case unresolved of None \<Rightarrow> [] | Some u \<Rightarrow> u) =
         filter (\<lambda>m. \<forall>e \<in> set more. ev_cursor E e \<noteq> Ok (rd_cursor m)) missing)"

lemma resolution_ok_more:
  assumes "resolution_ok E (filter (\<lambda>m. \<forall>e \<in> set es. ev_cursor E e \<noteq> Ok (rd_cursor m)) missing) (resolved @ es) res"
  shows "resolution_ok E missing resolved res"
proof (cases res)
  case (Inr p)
  obtain found u where p: "p = (found, u)" by (cases p)
  from assms obtain more where "found = resolved @ es @ more" "u \<noteq> Some []"
    "(case u of None \<Rightarrow> [] | Some u \<Rightarrow> u) =
      filter (\<lambda>m. \<forall>e \<in> set (es @ more). ev_cursor E e \<noteq> Ok (rd_cursor m)) missing"
    by (auto simp: resolution_ok_def Inr p ball_Un conj_commute)
  then show ?thesis by (auto simp: resolution_ok_def Inr p intro!: exI [of _ "es @ more"])
qed (simp add: resolution_ok_def)

lemma network_resolve_loop_spec:
  assumes "\<not> backoff k"
  shows "attempts \<le> k \<Longrightarrow> \<exists>res n'. network_resolve_loop E backoff query n attempts missing resolved = Some (res, n') \<and>
    resolution_ok E missing resolved res"
proof (induction "k - attempts" arbitrary: n attempts missing resolved)
  case 0
  then have "attempts = k" by simp
  with assms show ?case by (subst network_resolve_loop.simps) (simp add: resolution_ok_def)
next
  case (Suc j)
  obtain ts l where l: "lcc missing = (ts, l)" by fastforce
  obtain q n' where q: "query n ts l = (q, n')" by fastforce
  note unfold = network_resolve_loop.simps [of E backoff query n attempts missing resolved]
  show ?case
  proof (cases "missing \<noteq> [] \<and> backoff attempts \<and> is_ok q \<and> is_ok (try_map (ev_cursor E) (projr q))")
    case True
    then obtain es got where es: "q = Ok es" and got: "try_map (ev_cursor E) es = Ok got"
      by (auto simp: is_ok_iff)
    have rest: "(\<forall>e \<in> set es. ev_cursor E e \<noteq> Ok (rd_cursor m)) \<longleftrightarrow> rd_cursor m \<notin> set got" for m
      using got by (induction es arbitrary: got) (auto simp: rbind_eq_Ok)
    have "network_resolve_loop E backoff query n attempts missing resolved =
        network_resolve_loop E backoff query n' (attempts + 1)
          (filter (\<lambda>m. \<forall>e \<in> set es. ev_cursor E e \<noteq> Ok (rd_cursor m)) missing) (resolved @ es)"
      unfolding rest using True l q es got by (subst unfold) simp
    moreover have "j = k - (attempts + 1)" "attempts + 1 \<le> k" using Suc(2,3) by simp_all
    moreover from Suc(1) [OF this] obtain res n'' where
      "network_resolve_loop E backoff query n' (attempts + 1)
          (filter (\<lambda>m. \<forall>e \<in> set es. ev_cursor E e \<noteq> Ok (rd_cursor m)) missing) (resolved @ es) = Some (res, n'')"
      "resolution_ok E (filter (\<lambda>m. \<forall>e \<in> set es. ev_cursor E e \<noteq> Ok (rd_cursor m)) missing) (resolved @ es) res"
      by blast
    ultimately show ?thesis
      using resolution_ok_more by simp
  next
    case False
    then show ?thesis
      by (subst unfold) (auto simp: l q is_ok_def resolution_ok_def split: sum.splits prod.splits)
  qed
qed

text \<open>
  Property C36. When the backoff strategy gives up at some attempt, resolving over the network
  returns, and unless the network or an envelope fails, the unresolved dependencies it reports are
  exactly the requested ones whose cursor is not among the envelopes found.
\<close>

theorem network_resolve_returns:
  assumes "\<not> backoff k"
  shows "\<exists>res n'. network_resolve E backoff query n missing = Some (res, n') \<and> resolution_ok E missing [] res"
  using network_resolve_loop_spec [where attempts = 0 and backoff = backoff and k = k] assms by (simp add: network_resolve_def)

theorem network_resolve_returns_witness:
  "\<exists>res n'. network_resolve pair_ops (\<lambda>n. n < 3) (\<lambda>n ts l. (Ok [(Cursor 5 1, [])], n)) ()
     [RequiredDependency_new (Topic [0]) (Cursor 5 1) (Cursor 9 1)] = Some (res, n') \<and>
     resolution_ok pair_ops [RequiredDependency_new (Topic [0]) (Cursor 5 1) (Cursor 9 1)] [] res"
  by (rule network_resolve_returns [where k = 3]) simp

section \<open>Concrete runs of the ordering\<close>

definition demo_ordered :: "(cursor \<times> global_cursor, unit, in_memory_cursor_store) ordered" where
  "demo_ordered = \<lparr> o_envelopes = demo_envelopes, o_resolver = (), o_topic_cursor = [],
     o_store = InMemoryCursorStore_default \<rparr>"

definition demo_orphan :: orphaned_envelope where
  "demo_orphan = \<lparr> oe_cursor = Cursor 9 1, oe_depends_on = [(2, 5)], oe_payload = [], oe_group_id = [7] \<rparr>"

definition demo_result :: "(cursor \<times> global_cursor, unit, in_memory_cursor_store) ordered" where
  "demo_result = \<lparr> o_envelopes = [(Cursor 1 1, []), (Cursor 2 1, [(1, 1)]), (Cursor 3 1, [(1, 2)])],
     o_resolver = (), o_topic_cursor = [(Topic [0, 7], [(1, 3)])],
     o_store = InMemoryCursorStore_default\<lparr> ims_icebox := [demo_orphan] \<rparr> \<rparr>"

lemma demo_order:
  "order pair_ops (\<lambda>_. Err Decode_error) in_memory_ops TypedNoopResolver demo_ordered = Some (Ok (), demo_result)"
  by code_simp

lemma demo_order_offline:
  "order_offline pair_ops (\<lambda>_. Err Decode_error) in_memory_ops demo_ordered = Some (Ok (), demo_result)"
  by code_simp

theorem order_causal_witness:
  "causally_ordered pair_ops (seen_of []) (o_envelopes demo_result)"
  using order_causal [OF demo_order] by (simp add: demo_ordered_def)

theorem order_loses_nothing_witness:
  "list_all (\<lambda>e. e \<in> set (o_envelopes demo_result) \<or>
      (\<exists>o1. ev_orphan pair_ops e = Ok o1 \<and> hs_contains orphan_eq (ims_icebox (o_store demo_result)) o1)) demo_envelopes"
  using order_loses_nothing [OF demo_order] by (simp add: demo_ordered_def)

theorem order_offline_loses_nothing_witness:
  "list_all (\<lambda>e. e \<in> set (o_envelopes demo_result) \<or>
      (\<exists>o1. ev_orphan pair_ops e = Ok o1 \<and> hs_contains orphan_eq (ims_icebox (o_store demo_result)) o1)) demo_envelopes"
  using order_offline_loses_nothing [OF demo_order_offline] by (simp add: demo_ordered_def)

end
