(* ===== verification/Permissions.thy ===== *)
theory Permissions
  imports Collections
begin

text \<open>
  Group permissions: \<open>xmtp_mls/src/groups/group_permissions.rs\<close>, with the parts of a validated commit
  they judge (\<open>validated_commit.rs\<close>) and the metadata fields of
  \<open>xmtp_mls_common/src/group_mutable_metadata.rs\<close>.

  The three policy enums of the source (membership, metadata, permissions) have the same shape over
  their own base policies, as do their protobuf counterparts: \<open>'b policies\<close> and \<open>policy_proto\<close>. What
  they share is proved once, in the locale \<open>policy_codec\<close> (the wire codes of base policies), which
  has an interpretation for each enum.
\<close>

section \<open>Commits under judgement\<close>

record commit_participant =
  cp_inbox_id :: string
  cp_installation_id :: bytes
  cp_is_creator :: bool
  cp_is_admin :: bool
  cp_is_super_admin :: bool

record inbox =
  ib_inbox_id :: string
  ib_is_creator :: bool
  ib_is_admin :: bool
  ib_is_super_admin :: bool
  ib_proposer :: "commit_participant option"

record metadata_field_change =
  field_name :: string
  old_value :: "string option"
  new_value :: "string option"

record mutable_metadata_validation_info =
  metadata_field_changes :: "metadata_field_change list"
  admins_added :: "inbox list"
  admins_removed :: "inbox list"
  super_admins_added :: "inbox list"
  super_admins_removed :: "inbox list"
  num_super_admins :: u32
  minimum_supported_protocol_version :: "string option"

definition MutableMetadataValidationInfo_is_empty :: "mutable_metadata_validation_info \<Rightarrow> bool" where
  "MutableMetadataValidationInfo_is_empty i \<longleftrightarrow>
     metadata_field_changes i = [] \<and> admins_added i = [] \<and> admins_removed i = [] \<and>
     super_admins_added i = [] \<and> super_admins_removed i = [] \<and> minimum_supported_protocol_version i = None"

record dm_members =
  member_one_inbox_id :: string
  member_two_inbox_id :: string

record validated_commit =
  vc_actor :: commit_participant
  vc_proposers :: "commit_participant list"
  added_inboxes :: "inbox list"
  removed_inboxes :: "inbox list"
  readded_installations :: "bytes list"
  metadata_validation_info :: mutable_metadata_validation_info
  installations_changed :: bool
  permissions_changed :: bool
  vc_dm_members :: "dm_members option"

section \<open>Metadata fields\<close>

datatype metadata_field =
    GroupName | Description | GroupImageUrlSquare | MessageDisappearFromNS | MessageDisappearInNS
  | MinimumSupportedProtocolVersion | CommitLogSigner | AppData

fun field_str :: "metadata_field \<Rightarrow> string" where
  "field_str GroupName = ''group_name''"
| "field_str Description = ''description''"
| "field_str GroupImageUrlSquare = ''group_image_url_square''"
| "field_str MessageDisappearFromNS = ''message_disappear_from_ns''"
| "field_str MessageDisappearInNS = ''message_disappear_in_ns''"
| "field_str MinimumSupportedProtocolVersion = ''minimum_supported_protocol_version''"
| "field_str CommitLogSigner = ''_commit_log_signer''"
| "field_str AppData = ''app_data''"

definition supported_fields :: "metadata_field list" where
  "supported_fields = [GroupName, Description, GroupImageUrlSquare, MessageDisappearFromNS,
     MessageDisappearInNS, MinimumSupportedProtocolVersion, AppData]"

definition SUPER_ADMIN_METADATA_PREFIX :: string where
  "SUPER_ADMIN_METADATA_PREFIX = ''_''"

section \<open>Policies\<close>

datatype policy_error =
    MissingMetadataPolicyField string
  | InvalidPolicy
  | InvalidPresetPolicy
  | InvalidMetadataPolicy
  | InvalidMembershipPolicy
  | InvalidPermissionsPolicy
  | FromProtoAddMemberInvalidPolicy
  | FromProtoRemoveMemberInvalidPolicy
  | FromProtoAddAdminInvalidPolicy
  | FromProtoRemoveAdminInvalidPolicy
  | FromProtoUpdatePermissionsInvalidPolicy

datatype 'b policies = Standard 'b | AndCondition "'b policies list" | AnyCondition "'b policies list"

datatype policy_proto = KindNone | KindBase int | KindAnd "policy_proto list" | KindAny "policy_proto list"

fun policies_evaluate :: "('b \<Rightarrow> bool) \<Rightarrow> 'b policies \<Rightarrow> bool" where
  "policies_evaluate ev (Standard b) = ev b"
| "policies_evaluate ev (AndCondition ps) = (\<forall>p \<in> set ps. policies_evaluate ev p)"
| "policies_evaluate ev (AnyCondition ps) = (\<exists>p \<in> set ps. policies_evaluate ev p)"

fun policies_to_proto :: "('b \<Rightarrow> (policy_error, int) result) \<Rightarrow> 'b policies \<Rightarrow> (policy_error, policy_proto) result" where
  "policies_to_proto code (Standard b) = rbind (code b) (\<lambda>i. Ok (KindBase i))"
| "policies_to_proto code (AndCondition ps) = rbind (try_map (policies_to_proto code) ps) (\<lambda>qs. Ok (KindAnd qs))"
| "policies_to_proto code (AnyCondition ps) = rbind (try_map (policies_to_proto code) ps) (\<lambda>qs. Ok (KindAny qs))"

fun policies_try_from :: "(int \<Rightarrow> 'b option) \<Rightarrow> policy_error \<Rightarrow> policy_proto \<Rightarrow> (policy_error, 'b policies) result" where
  "policies_try_from dec e KindNone = Err e"
| "policies_try_from dec e (KindBase i) = rbind (ok_or (dec i) e) (\<lambda>b. Ok (Standard b))"
| "policies_try_from dec e (KindAnd qs) =
     (if qs = [] then Err e else rbind (try_map (policies_try_from dec e) qs) (\<lambda>ps. Ok (AndCondition ps)))"
| "policies_try_from dec e (KindAny qs) =
     (if qs = [] then Err e else rbind (try_map (policies_try_from dec e) qs) (\<lambda>ps. Ok (AnyCondition ps)))"

subsection \<open>Metadata policies\<close>

datatype metadata_base_policies = MAllow | MDeny | MAllowIfActorAdminOrSuperAdmin | MAllowIfActorSuperAdmin

type_synonym metadata_policies = "metadata_base_policies policies"

fun MetadataBasePolicies_evaluate :: "metadata_base_policies \<Rightarrow> commit_participant \<Rightarrow> bool" where
  "MetadataBasePolicies_evaluate MAllow actor = True"
| "MetadataBasePolicies_evaluate MDeny actor = False"
| "MetadataBasePolicies_evaluate MAllowIfActorAdminOrSuperAdmin actor = (cp_is_admin actor \<or> cp_is_super_admin actor)"
| "MetadataBasePolicies_evaluate MAllowIfActorSuperAdmin actor = cp_is_super_admin actor"

fun MetadataBasePolicies_code :: "metadata_base_policies \<Rightarrow> (policy_error, int) result" where
  "MetadataBasePolicies_code MAllow = Ok 1"
| "MetadataBasePolicies_code MDeny = Ok 2"
| "MetadataBasePolicies_code MAllowIfActorAdminOrSuperAdmin = Ok 3"
| "MetadataBasePolicies_code MAllowIfActorSuperAdmin = Ok 4"

definition metadata_decode :: "int \<Rightarrow> metadata_base_policies option" where
  "metadata_decode i =
     (if i = 1 then Some MAllow else if i = 2 then Some MDeny
      else if i = 3 then Some MAllowIfActorAdminOrSuperAdmin
      else if i = 4 then Some MAllowIfActorSuperAdmin else None)"

definition metadata_allow :: metadata_policies where "metadata_allow = Standard MAllow"
definition metadata_deny :: metadata_policies where "metadata_deny = Standard MDeny"
definition metadata_allow_if_actor_admin :: metadata_policies where
  "metadata_allow_if_actor_admin = Standard MAllowIfActorAdminOrSuperAdmin"
definition metadata_allow_if_actor_super_admin :: metadata_policies where
  "metadata_allow_if_actor_super_admin = Standard MAllowIfActorSuperAdmin"

definition MetadataPolicies_evaluate :: "metadata_policies \<Rightarrow> commit_participant \<Rightarrow> metadata_field_change \<Rightarrow> bool" where
  "MetadataPolicies_evaluate p actor change = policies_evaluate (\<lambda>b. MetadataBasePolicies_evaluate b actor) p"

definition MetadataPolicies_to_proto :: "metadata_policies \<Rightarrow> (policy_error, policy_proto) result" where
  "MetadataPolicies_to_proto p = policies_to_proto MetadataBasePolicies_code p"

definition MetadataPolicies_try_from :: "policy_proto \<Rightarrow> (policy_error, metadata_policies) result" where
  "MetadataPolicies_try_from q = policies_try_from metadata_decode InvalidMetadataPolicy q"

definition field_policy :: "metadata_policies \<Rightarrow> metadata_field \<Rightarrow> metadata_policies" where
  "field_policy p field =
     (case field of
        MessageDisappearInNS \<Rightarrow> metadata_allow_if_actor_admin
      | MessageDisappearFromNS \<Rightarrow> metadata_allow_if_actor_admin
      | MinimumSupportedProtocolVersion \<Rightarrow> metadata_allow_if_actor_super_admin
      | _ \<Rightarrow> p)"

definition MetadataPolicies_default_map :: "metadata_policies \<Rightarrow> (string, metadata_policies) hash_map" where
  "MetadataPolicies_default_map p =
     fold (\<lambda>field m. hm_insert (=) (field_str field) (field_policy p field) m) supported_fields []"

definition MetadataPolicies_dm_map :: "(string, metadata_policies) hash_map" where
  "MetadataPolicies_dm_map = fold (\<lambda>field m. hm_insert (=) (field_str field) metadata_allow m) supported_fields []"

subsection \<open>Permissions policies\<close>

datatype permissions_base_policies = PDeny | PAllowIfActorAdminOrSuperAdmin | PAllowIfActorSuperAdmin

type_synonym permissions_policies = "permissions_base_policies policies"

fun PermissionsBasePolicies_evaluate :: "permissions_base_policies \<Rightarrow> commit_participant \<Rightarrow> bool" where
  "PermissionsBasePolicies_evaluate PDeny actor = False"
| "PermissionsBasePolicies_evaluate PAllowIfActorAdminOrSuperAdmin actor = (cp_is_admin actor \<or> cp_is_super_admin actor)"
| "PermissionsBasePolicies_evaluate PAllowIfActorSuperAdmin actor = cp_is_super_admin actor"

fun PermissionsBasePolicies_code :: "permissions_base_policies \<Rightarrow> (policy_error, int) result" where
  "PermissionsBasePolicies_code PDeny = Ok 1"
| "PermissionsBasePolicies_code PAllowIfActorAdminOrSuperAdmin = Ok 2"
| "PermissionsBasePolicies_code PAllowIfActorSuperAdmin = Ok 3"

definition permissions_decode :: "int \<Rightarrow> permissions_base_policies option" where
  "permissions_decode i =
     (if i = 1 then Some PDeny else if i = 2 then Some PAllowIfActorAdminOrSuperAdmin
      else if i = 3 then Some PAllowIfActorSuperAdmin else None)"

definition permissions_deny :: permissions_policies where "permissions_deny = Standard PDeny"
definition permissions_allow_if_actor_admin :: permissions_policies where
  "permissions_allow_if_actor_admin = Standard PAllowIfActorAdminOrSuperAdmin"
definition permissions_allow_if_actor_super_admin :: permissions_policies where
  "permissions_allow_if_actor_super_admin = Standard PAllowIfActorSuperAdmin"

definition PermissionsPolicies_evaluate :: "permissions_policies \<Rightarrow> commit_participant \<Rightarrow> bool" where
  "PermissionsPolicies_evaluate p actor = policies_evaluate (\<lambda>b. PermissionsBasePolicies_evaluate b actor) p"

definition PermissionsPolicies_to_proto :: "permissions_policies \<Rightarrow> (policy_error, policy_proto) result" where
  "PermissionsPolicies_to_proto p = policies_to_proto PermissionsBasePolicies_code p"

definition PermissionsPolicies_try_from :: "policy_proto \<Rightarrow> (policy_error, permissions_policies) result" where
  "PermissionsPolicies_try_from q = policies_try_from permissions_decode InvalidPermissionsPolicy q"

subsection \<open>Membership policies\<close>

datatype base_policies = Allow | Deny | AllowSameMember | AllowIfAdminOrSuperAdmin | AllowIfSuperAdmin

type_synonym membership_policies = "base_policies policies"

fun BasePolicies_evaluate :: "base_policies \<Rightarrow> commit_participant \<Rightarrow> inbox \<Rightarrow> bool" where
  "BasePolicies_evaluate Allow actor i = True"
| "BasePolicies_evaluate Deny actor i = False"
| "BasePolicies_evaluate AllowSameMember actor i = (ib_inbox_id i = cp_inbox_id actor)"
| "BasePolicies_evaluate AllowIfAdminOrSuperAdmin actor i = (cp_is_admin actor \<or> cp_is_super_admin actor)"
| "BasePolicies_evaluate AllowIfSuperAdmin actor i = cp_is_super_admin actor"

fun BasePolicies_code :: "base_policies \<Rightarrow> (policy_error, int) result" where
  "BasePolicies_code Allow = Ok 1"
| "BasePolicies_code Deny = Ok 2"
| "BasePolicies_code AllowSameMember = Err InvalidPolicy"
| "BasePolicies_code AllowIfAdminOrSuperAdmin = Ok 3"
| "BasePolicies_code AllowIfSuperAdmin = Ok 4"

definition membership_decode :: "int \<Rightarrow> base_policies option" where
  "membership_decode i =
     (if i = 1 then Some Allow else if i = 2 then Some Deny
      else if i = 3 then Some AllowIfAdminOrSuperAdmin
      else if i = 4 then Some AllowIfSuperAdmin else None)"

definition membership_allow :: membership_policies where "membership_allow = Standard Allow"
definition membership_deny :: membership_policies where "membership_deny = Standard Deny"
definition membership_allow_if_actor_admin :: membership_policies where
  "membership_allow_if_actor_admin = Standard AllowIfAdminOrSuperAdmin"
definition membership_allow_if_actor_super_admin :: membership_policies where
  "membership_allow_if_actor_super_admin = Standard AllowIfSuperAdmin"

definition MembershipPolicies_evaluate :: "membership_policies \<Rightarrow> commit_participant \<Rightarrow> inbox \<Rightarrow> bool" where
  "MembershipPolicies_evaluate p actor i = policies_evaluate (\<lambda>b. BasePolicies_evaluate b actor i) p"

definition MembershipPolicies_to_proto :: "membership_policies \<Rightarrow> (policy_error, policy_proto) result" where
  "MembershipPolicies_to_proto p = policies_to_proto BasePolicies_code p"

definition MembershipPolicies_try_from :: "policy_proto \<Rightarrow> (policy_error, membership_policies) result" where
  "MembershipPolicies_try_from q = policies_try_from membership_decode InvalidMembershipPolicy q"

section \<open>Policy sets\<close>

record policy_set =
  add_member_policy :: membership_policies
  remove_member_policy :: membership_policies
  update_metadata_policy :: "(string, metadata_policies) hash_map"
  add_admin_policy :: permissions_policies
  remove_admin_policy :: permissions_policies
  update_permissions_policy :: permissions_policies

definition PolicySet_new_dm :: policy_set where
  "PolicySet_new_dm = \<lparr> add_member_policy = membership_deny, remove_member_policy = membership_deny,
     update_metadata_policy = MetadataPolicies_dm_map, add_admin_policy = permissions_deny,
     remove_admin_policy = permissions_deny, update_permissions_policy = permissions_deny \<rparr>"

definition evaluate_policy_with_proposer ::
    "inbox list \<Rightarrow> membership_policies \<Rightarrow> commit_participant \<Rightarrow> bool" where
  "evaluate_policy_with_proposer changes policy default_actor =
     list_all (\<lambda>change.
       let actor = (case ib_proposer change of Some p \<Rightarrow> p | None \<Rightarrow> default_actor)
       in MembershipPolicies_evaluate policy actor change) changes"

definition evaluate_metadata_policy ::
    "metadata_field_change list \<Rightarrow> (string, metadata_policies) hash_map \<Rightarrow> commit_participant \<Rightarrow> bool" where
  "evaluate_metadata_policy changes policies actor =
     list_all (\<lambda>change.
       case hm_get (=) policies (field_name change) of
         Some policy \<Rightarrow> MetadataPolicies_evaluate policy actor change
       | None \<Rightarrow>
           (let policy_for_unrecognized_field =
              (if take (length SUPER_ADMIN_METADATA_PREFIX) (field_name change) = SUPER_ADMIN_METADATA_PREFIX
               then metadata_allow_if_actor_super_admin else metadata_allow_if_actor_admin)
            in MetadataPolicies_evaluate policy_for_unrecognized_field actor change)) changes"

definition dm_addition_allowed :: "validated_commit \<Rightarrow> bool" where
  "dm_addition_allowed commit =
     (case vc_dm_members commit of
        None \<Rightarrow> False
      | Some d \<Rightarrow>
          (case added_inboxes commit of
             [added] \<Rightarrow>
               (ib_inbox_id added = member_one_inbox_id d \<or> ib_inbox_id added = member_two_inbox_id d) \<and>
               ib_inbox_id added \<noteq> cp_inbox_id (vc_actor commit)
           | _ \<Rightarrow> False))"

definition evaluate_commit :: "policy_set \<Rightarrow> validated_commit \<Rightarrow> bool" where
  "evaluate_commit ps commit =
     (let info = metadata_validation_info commit;
          admin_actor = vc_actor commit;
          added_inboxes_valid =
            (if dm_addition_allowed commit then True
             else evaluate_policy_with_proposer (added_inboxes commit) (add_member_policy ps) (vc_actor commit));
          removed_inboxes_valid =
            (evaluate_policy_with_proposer (removed_inboxes commit) (remove_member_policy ps) (vc_actor commit) \<and>
             \<not> list_ex ib_is_super_admin (removed_inboxes commit));
          metadata_changes_valid =
            evaluate_metadata_policy (metadata_field_changes info) (update_metadata_policy ps) (vc_actor commit);
          added_admins_valid =
            (admins_added info = [] \<or> PermissionsPolicies_evaluate (add_admin_policy ps) admin_actor);
          removed_admins_valid =
            (admins_removed info = [] \<or> PermissionsPolicies_evaluate (remove_admin_policy ps) admin_actor);
          super_admin_add_valid = (super_admins_added info = [] \<or> cp_is_super_admin admin_actor);
          super_admin_remove_valid =
            (super_admins_removed info = [] \<or> cp_is_super_admin admin_actor \<and> num_super_admins info > 0);
          permissions_changes_valid = (\<not> permissions_changed commit \<or> cp_is_super_admin admin_actor)
      in added_inboxes_valid \<and> removed_inboxes_valid \<and> metadata_changes_valid \<and> added_admins_valid \<and>
         removed_admins_valid \<and> super_admin_add_valid \<and> super_admin_remove_valid \<and> permissions_changes_valid)"

record policy_set_proto =
  p_add_member_policy :: "policy_proto option"
  p_remove_member_policy :: "policy_proto option"
  p_update_metadata_policy :: "(string, policy_proto) hash_map"
  p_add_admin_policy :: "policy_proto option"
  p_remove_admin_policy :: "policy_proto option"
  p_update_permissions_policy :: "policy_proto option"

definition PolicySet_to_proto :: "policy_set \<Rightarrow> (policy_error, policy_set_proto) result" where
  "PolicySet_to_proto ps =
     rbind (MembershipPolicies_to_proto (add_member_policy ps)) (\<lambda>am.
     rbind (MembershipPolicies_to_proto (remove_member_policy ps)) (\<lambda>rm.
     rbind (try_map (\<lambda>(k, p). rbind (MetadataPolicies_to_proto p) (\<lambda>q. Ok (k, q))) (update_metadata_policy ps)) (\<lambda>md.
     rbind (PermissionsPolicies_to_proto (add_admin_policy ps)) (\<lambda>aa.
     rbind (PermissionsPolicies_to_proto (remove_admin_policy ps)) (\<lambda>ra.
     rbind (PermissionsPolicies_to_proto (update_permissions_policy ps)) (\<lambda>up.
     Ok \<lparr> p_add_member_policy = Some am, p_remove_member_policy = Some rm,
          p_update_metadata_policy = hm_from_iter (=) md, p_add_admin_policy = Some aa,
          p_remove_admin_policy = Some ra, p_update_permissions_policy = Some up \<rparr>))))))"

definition PolicySet_from_proto :: "policy_set_proto \<Rightarrow> (policy_error, policy_set) result" where
  "PolicySet_from_proto pr =
     rbind (ok_or (p_add_member_policy pr) FromProtoAddMemberInvalidPolicy) (\<lambda>q.
     rbind (MembershipPolicies_try_from q) (\<lambda>am.
     rbind (ok_or (p_remove_member_policy pr) FromProtoRemoveMemberInvalidPolicy) (\<lambda>q.
     rbind (MembershipPolicies_try_from q) (\<lambda>rm.
     rbind (ok_or (p_add_admin_policy pr) FromProtoAddAdminInvalidPolicy) (\<lambda>q.
     rbind (PermissionsPolicies_try_from q) (\<lambda>aa.
     rbind (ok_or (p_remove_admin_policy pr) FromProtoRemoveAdminInvalidPolicy) (\<lambda>q.
     rbind (PermissionsPolicies_try_from q) (\<lambda>ra.
     rbind (ok_or (p_update_permissions_policy pr) FromProtoUpdatePermissionsInvalidPolicy) (\<lambda>q.
     rbind (PermissionsPolicies_try_from q) (\<lambda>up.
     rbind (try_map (\<lambda>(k, q). rbind (MetadataPolicies_try_from q) (\<lambda>p. Ok (k, p))) (p_update_metadata_policy pr)) (\<lambda>md.
     Ok \<lparr> add_member_policy = am, remove_member_policy = rm, update_metadata_policy = hm_from_iter (=) md,
          add_admin_policy = aa, remove_admin_policy = ra, update_permissions_policy = up \<rparr>)))))))))))"

datatype group_mutable_permissions_error =
    PermSerialization
  | PermDeserialization
  | PolicyErr policy_error
  | PermInvalidConversationType
  | MissingPolicies
  | MissingExtension
  | InvalidPermissionPolicyOption

record group_mutable_permissions = gmp_policies :: policy_set

definition GroupMutablePermissions_from_proto ::
    "policy_set_proto option \<Rightarrow> (group_mutable_permissions_error, group_mutable_permissions) result" where
  "GroupMutablePermissions_from_proto pr =
     (case pr of
        None \<Rightarrow> Err MissingPolicies
      | Some policies \<Rightarrow> rbind (map_err PolicyErr (PolicySet_from_proto policies)) (\<lambda>ps. Ok \<lparr> gmp_policies = ps \<rparr>))"

definition GroupMutablePermissions_to_proto ::
    "group_mutable_permissions \<Rightarrow> (group_mutable_permissions_error, policy_set_proto option) result" where
  "GroupMutablePermissions_to_proto g =
     rbind (map_err PolicyErr (PolicySet_to_proto (gmp_policies g))) (\<lambda>pr. Ok (Some pr))"

section \<open>Preconfigured policies\<close>

text \<open>The lookup in the loops of the source never misses: it is of a key of the map itself.\<close>

definition is_policy_default :: "policy_set \<Rightarrow> (policy_error, bool) result" where
  "is_policy_default ps =
     rbind (try_map (\<lambda>k. rbind (ok_or (hm_get (=) (update_metadata_policy ps) k) (MissingMetadataPolicyField k)) (\<lambda>p.
         Ok (if k = field_str MessageDisappearInNS \<or> k = field_str MessageDisappearFromNS
             then p = metadata_allow_if_actor_admin
             else if k = field_str MinimumSupportedProtocolVersion
             then p = metadata_allow_if_actor_super_admin
             else p = metadata_allow)))
       (map fst (update_metadata_policy ps))) (\<lambda>oks.
     Ok (list_all id oks \<and> add_member_policy ps = membership_allow \<and>
         remove_member_policy ps = membership_allow_if_actor_admin \<and>
         add_admin_policy ps = permissions_allow_if_actor_super_admin \<and>
         remove_admin_policy ps = permissions_allow_if_actor_super_admin \<and>
         update_permissions_policy ps = permissions_allow_if_actor_super_admin))"

definition is_policy_admin_only :: "policy_set \<Rightarrow> (policy_error, bool) result" where
  "is_policy_admin_only ps =
     rbind (try_map (\<lambda>k. rbind (ok_or (hm_get (=) (update_metadata_policy ps) k) (MissingMetadataPolicyField k)) (\<lambda>p.
         Ok (if k = field_str MinimumSupportedProtocolVersion
             then p = metadata_allow_if_actor_super_admin
             else p = metadata_allow_if_actor_admin)))
       (map fst (update_metadata_policy ps))) (\<lambda>oks.
     Ok (list_all id oks \<and> add_member_policy ps = membership_allow_if_actor_admin \<and>
         remove_member_policy ps = membership_allow_if_actor_admin \<and>
         add_admin_policy ps = permissions_allow_if_actor_super_admin \<and>
         remove_admin_policy ps = permissions_allow_if_actor_super_admin \<and>
         update_permissions_policy ps = permissions_allow_if_actor_super_admin))"

definition default_policy :: policy_set where
  "default_policy = \<lparr> add_member_policy = membership_allow,
     remove_member_policy = membership_allow_if_actor_admin,
     update_metadata_policy =
       fold (\<lambda>field m. hm_insert (=) (field_str field) (field_policy metadata_allow field) m) supported_fields [],
     add_admin_policy = permissions_allow_if_actor_super_admin,
     remove_admin_policy = permissions_allow_if_actor_super_admin,
     update_permissions_policy = permissions_allow_if_actor_super_admin \<rparr>"

definition policy_admin_only :: policy_set where
  "policy_admin_only = \<lparr> add_member_policy = membership_allow_if_actor_admin,
     remove_member_policy = membership_allow_if_actor_admin,
     update_metadata_policy =
       fold (\<lambda>field m. hm_insert (=) (field_str field) (field_policy metadata_allow_if_actor_admin field) m)
         supported_fields [],
     add_admin_policy = permissions_allow_if_actor_super_admin,
     remove_admin_policy = permissions_allow_if_actor_super_admin,
     update_permissions_policy = permissions_allow_if_actor_super_admin \<rparr>"

datatype preconfigured_policies = Default | AdminsOnly

fun to_policy_set :: "preconfigured_policies \<Rightarrow> policy_set" where
  "to_policy_set Default = default_policy"
| "to_policy_set AdminsOnly = policy_admin_only"

definition from_policy_set :: "policy_set \<Rightarrow> (policy_error, preconfigured_policies) result" where
  "from_policy_set ps =
     rbind (is_policy_default ps) (\<lambda>d.
       if d then Ok Default
       else rbind (is_policy_admin_only ps) (\<lambda>a.
         if a then Ok AdminsOnly else Err InvalidPresetPolicy))"

definition preconfigured_policy ::
    "group_mutable_permissions \<Rightarrow> (group_mutable_permissions_error, preconfigured_policies) result" where
  "preconfigured_policy g = map_err PolicyErr (from_policy_set (gmp_policies g))"

section \<open>Codes of base policies\<close>

locale policy_codec =
  fixes code :: "'b \<Rightarrow> (policy_error, int) result"
    and dec :: "int \<Rightarrow> 'b option"
    and err :: policy_error
  assumes decode_code: "code b = Ok i \<longleftrightarrow> dec i = Some b"
begin

text \<open>No \<open>And\<close> or \<open>Any\<close> without policies, and only base policies that have a code.\<close>

fun encodable :: "'b policies \<Rightarrow> bool" where
  "encodable (Standard b) = is_ok (code b)"
| "encodable (AndCondition ps) = (ps \<noteq> [] \<and> (\<forall>p \<in> set ps. encodable p))"
| "encodable (AnyCondition ps) = (ps \<noteq> [] \<and> (\<forall>p \<in> set ps. encodable p))"

lemma roundtrip_to: "encodable p \<Longrightarrow> \<exists>q. policies_to_proto code p = Ok q \<and> policies_try_from dec err q = Ok p"
proof (induction p)
  case (Standard b)
  then obtain i where i: "code b = Ok i" by (auto simp: is_ok_iff)
  moreover from this have "dec i = Some b" by (simp add: decode_code)
  ultimately show ?case by simp
next
  case (AndCondition ps)
  then have "\<exists>qs. try_map (policies_to_proto code) ps = Ok qs \<and> try_map (policies_try_from dec err) qs = Ok ps \<and> (ps \<noteq> [] \<longrightarrow> qs \<noteq> [])"
    by (induction ps) fastforce+
  with AndCondition.prems show ?case by auto
next
  case (AnyCondition ps)
  then have "\<exists>qs. try_map (policies_to_proto code) ps = Ok qs \<and> try_map (policies_try_from dec err) qs = Ok ps \<and> (ps \<noteq> [] \<longrightarrow> qs \<noteq> [])"
    by (induction ps) fastforce+
  with AnyCondition.prems show ?case by auto
qed

lemma roundtrip_from: "policies_try_from dec err q = Ok p \<Longrightarrow> policies_to_proto code p = Ok q \<and> encodable p"
proof (induction q arbitrary: p)
  case KindNone
  then show ?case by simp
next
  case (KindBase i)
  then obtain b where "p = Standard b" "dec i = Some b" by (auto simp: rbind_eq_Ok)
  moreover from this have "code b = Ok i" by (simp add: decode_code)
  ultimately show ?case by simp
next
  case (KindAnd qs)
  then obtain ps where ps: "p = AndCondition ps" "try_map (policies_try_from dec err) qs = Ok ps" "qs \<noteq> []"
    by (auto simp: rbind_eq_Ok split: if_splits)
  have "try_map (policies_to_proto code) ps = Ok qs \<and> (\<forall>p \<in> set ps. encodable p) \<and> length ps = length qs"
    using ps(2) KindAnd.IH by (induction qs arbitrary: ps) (auto simp: rbind_eq_Ok, blast+)
  with ps show ?case by auto
next
  case (KindAny qs)
  then obtain ps where ps: "p = AnyCondition ps" "try_map (policies_try_from dec err) qs = Ok ps" "qs \<noteq> []"
    by (auto simp: rbind_eq_Ok split: if_splits)
  have "try_map (policies_to_proto code) ps = Ok qs \<and> (\<forall>p \<in> set ps. encodable p) \<and> length ps = length qs"
    using ps(2) KindAny.IH by (induction qs arbitrary: ps) (auto simp: rbind_eq_Ok, blast+)
  with ps show ?case by auto
qed

end

interpretation membership: policy_codec BasePolicies_code membership_decode InvalidMembershipPolicy
proof unfold_locales
  fix b i
  show "BasePolicies_code b = Ok i \<longleftrightarrow> membership_decode i = Some b"
    by (cases b) (auto simp: membership_decode_def)
qed

interpretation metadata: policy_codec MetadataBasePolicies_code metadata_decode InvalidMetadataPolicy
proof unfold_locales
  fix b i
  show "MetadataBasePolicies_code b = Ok i \<longleftrightarrow> metadata_decode i = Some b"
    by (cases b) (auto simp: metadata_decode_def)
qed

interpretation permissions: policy_codec PermissionsBasePolicies_code permissions_decode InvalidPermissionsPolicy
proof unfold_locales
  fix b i
  show "PermissionsBasePolicies_code b = Ok i \<longleftrightarrow> permissions_decode i = Some b"
    by (cases b) (auto simp: permissions_decode_def)
qed

section \<open>Round trips\<close>

definition policy_set_encodable :: "policy_set \<Rightarrow> bool" where
  "policy_set_encodable ps \<longleftrightarrow>
     membership.encodable (add_member_policy ps) \<and> membership.encodable (remove_member_policy ps) \<and>
     list_all (\<lambda>(k, p). metadata.encodable p) (update_metadata_policy ps) \<and>
     distinct (map fst (update_metadata_policy ps)) \<and>
     permissions.encodable (add_admin_policy ps) \<and> permissions.encodable (remove_admin_policy ps) \<and>
     permissions.encodable (update_permissions_policy ps)"

lemma metadata_map_roundtrip:
  "list_all (\<lambda>(k, p). metadata.encodable p) m \<Longrightarrow>
   \<exists>md. try_map (\<lambda>(k, p). rbind (MetadataPolicies_to_proto p) (\<lambda>q. Ok (k, q))) m = Ok md \<and> map fst md = map fst m \<and>
     try_map (\<lambda>(k, q). rbind (MetadataPolicies_try_from q) (\<lambda>p. Ok (k, p))) md = Ok m"
proof (induction m)
  case Nil
  then show ?case by simp
next
  case (Cons e m)
  obtain k p where e: "e = (k, p)" by (cases e)
  obtain q where "MetadataPolicies_to_proto p = Ok q" "MetadataPolicies_try_from q = Ok p"
    using metadata.roundtrip_to [of p] Cons.prems
    by (auto simp: e MetadataPolicies_to_proto_def MetadataPolicies_try_from_def)
  with Cons show ?case by (auto simp: e)
qed

lemma hm_from_iter_keep: "distinct (map fst m) \<Longrightarrow> hm_from_iter (=) m = m"
  unfolding hm_from_iter_def using hm_from_iter_distinct [of m "[]"] by simp

text \<open>
  A group's permissions survive the protobuf format: a policy set whose conditions are
  not empty and whose base policies have a wire code encodes, and decoding gives the same policy
  set back.
\<close>

theorem permissions_roundtrip:
  assumes "policy_set_encodable (gmp_policies g)"
  shows "\<exists>pr. GroupMutablePermissions_to_proto g = Ok pr \<and> GroupMutablePermissions_from_proto pr = Ok g"
proof -
  let ?ps = "gmp_policies g"
  note enc = assms [unfolded policy_set_encodable_def]
  obtain am rm aa ra up where m:
    "MembershipPolicies_to_proto (add_member_policy ?ps) = Ok am" "MembershipPolicies_try_from am = Ok (add_member_policy ?ps)"
    "MembershipPolicies_to_proto (remove_member_policy ?ps) = Ok rm" "MembershipPolicies_try_from rm = Ok (remove_member_policy ?ps)"
    "PermissionsPolicies_to_proto (add_admin_policy ?ps) = Ok aa" "PermissionsPolicies_try_from aa = Ok (add_admin_policy ?ps)"
    "PermissionsPolicies_to_proto (remove_admin_policy ?ps) = Ok ra" "PermissionsPolicies_try_from ra = Ok (remove_admin_policy ?ps)"
    "PermissionsPolicies_to_proto (update_permissions_policy ?ps) = Ok up"
    "PermissionsPolicies_try_from up = Ok (update_permissions_policy ?ps)"
    using enc membership.roundtrip_to permissions.roundtrip_to
    unfolding MembershipPolicies_to_proto_def MembershipPolicies_try_from_def
      PermissionsPolicies_to_proto_def PermissionsPolicies_try_from_def by metis
  obtain md where md: "try_map (\<lambda>(k, p). rbind (MetadataPolicies_to_proto p) (\<lambda>q. Ok (k, q))) (update_metadata_policy ?ps) = Ok md"
    "map fst md = map fst (update_metadata_policy ?ps)"
    "try_map (\<lambda>(k, q). rbind (MetadataPolicies_try_from q) (\<lambda>p. Ok (k, p))) md = Ok (update_metadata_policy ?ps)"
    using metadata_map_roundtrip enc by blast
  have keep: "hm_from_iter (=) md = md" "hm_from_iter (=) (update_metadata_policy ?ps) = update_metadata_policy ?ps"
    using enc md(2) by (simp_all add: hm_from_iter_keep)
  show ?thesis
    by (cases g) (use m md keep in \<open>auto simp: GroupMutablePermissions_to_proto_def
        GroupMutablePermissions_from_proto_def PolicySet_to_proto_def PolicySet_from_proto_def\<close>)
qed

text \<open>
  The decoder of each policy enum accepts only canonical messages: whatever it accepts
  encodes back to the same message, so nothing outside the encodable policies is ever read, and an
  empty condition or an unknown code is refused.
\<close>

theorem policy_decoding_canonical:
  "(MembershipPolicies_try_from q = Ok p \<longrightarrow> MembershipPolicies_to_proto p = Ok q \<and> membership.encodable p) \<and>
   (MetadataPolicies_try_from q = Ok r \<longrightarrow> MetadataPolicies_to_proto r = Ok q \<and> metadata.encodable r) \<and>
   (PermissionsPolicies_try_from q = Ok t \<longrightarrow> PermissionsPolicies_to_proto t = Ok q \<and> permissions.encodable t)"
  unfolding MembershipPolicies_to_proto_def MembershipPolicies_try_from_def MetadataPolicies_to_proto_def
    MetadataPolicies_try_from_def PermissionsPolicies_to_proto_def PermissionsPolicies_try_from_def
  using membership.roundtrip_from metadata.roundtrip_from permissions.roundtrip_from by blast

lemmas preset_defs = default_policy_def policy_admin_only_def supported_fields_def field_policy_def
  membership_allow_def membership_allow_if_actor_admin_def metadata_allow_def
  metadata_allow_if_actor_admin_def metadata_allow_if_actor_super_admin_def
  permissions_allow_if_actor_super_admin_def

lemma preset_runs:
  "from_policy_set default_policy = Ok Default" "from_policy_set policy_admin_only = Ok AdminsOnly"
  "from_policy_set PolicySet_new_dm = Err InvalidPresetPolicy"
  by code_simp+

lemma presets_encodable: "policy_set_encodable (to_policy_set p)"
  by (cases p) (simp_all add: policy_set_encodable_def preset_defs)

text \<open>
  A preconfigured policy is recognised in the policy set it makes, which is one the
  protobuf format can carry; the policy set of a DM is no preconfigured policy.
\<close>

theorem presets_recognised:
  "from_policy_set (to_policy_set p) = Ok p \<and> policy_set_encodable (to_policy_set p) \<and>
   from_policy_set PolicySet_new_dm = Err InvalidPresetPolicy"
  using presets_encodable [of p] by (cases p) (simp_all add: preset_runs)

section \<open>Authority\<close>

lemma policies_evaluate_mono:
  "policies_evaluate f p \<Longrightarrow> (\<And>b. f b \<Longrightarrow> g b) \<Longrightarrow> policies_evaluate g p"
  by (induction p) auto

definition promote :: "commit_participant \<Rightarrow> commit_participant" where
  "promote a = a\<lparr> cp_is_admin := True, cp_is_super_admin := True \<rparr>"

lemma promote_fields [simp]:
  "cp_inbox_id (promote a) = cp_inbox_id a" "cp_is_admin (promote a)" "cp_is_super_admin (promote a)"
  by (simp_all add: promote_def)

lemma membership_promote: "MembershipPolicies_evaluate p a i \<Longrightarrow> MembershipPolicies_evaluate p (promote a) i"
  unfolding MembershipPolicies_evaluate_def
proof (erule policies_evaluate_mono)
  show "BasePolicies_evaluate b a i \<Longrightarrow> BasePolicies_evaluate b (promote a) i" for b by (cases b) simp_all
qed

lemma metadata_promote: "MetadataPolicies_evaluate p a c \<Longrightarrow> MetadataPolicies_evaluate p (promote a) c"
  unfolding MetadataPolicies_evaluate_def
proof (erule policies_evaluate_mono)
  show "MetadataBasePolicies_evaluate b a \<Longrightarrow> MetadataBasePolicies_evaluate b (promote a)" for b
    by (cases b) simp_all
qed

lemma permissions_promote: "PermissionsPolicies_evaluate p a \<Longrightarrow> PermissionsPolicies_evaluate p (promote a)"
  unfolding PermissionsPolicies_evaluate_def
proof (erule policies_evaluate_mono)
  show "PermissionsBasePolicies_evaluate b a \<Longrightarrow> PermissionsBasePolicies_evaluate b (promote a)" for b
    by (cases b) simp_all
qed

lemma with_proposer_promote:
  "evaluate_policy_with_proposer is p a \<Longrightarrow> evaluate_policy_with_proposer is p (promote a)"
  by (auto simp: evaluate_policy_with_proposer_def list_all_iff Let_def split: option.splits
      intro: membership_promote)

lemma metadata_changes_promote:
  "evaluate_metadata_policy cs m a \<Longrightarrow> evaluate_metadata_policy cs m (promote a)"
  by (auto simp: evaluate_metadata_policy_def list_all_iff Let_def split: option.splits if_splits
      intro: metadata_promote)

text \<open>
  More authority never takes a right away: under any policy set, a commit that is
  accepted from an actor is accepted from the same actor as admin and super admin.
\<close>

theorem authority_monotone:
  assumes "evaluate_commit ps c"
  shows "evaluate_commit ps (c\<lparr> vc_actor := promote (vc_actor c) \<rparr>)"
proof -
  have "dm_addition_allowed (c\<lparr> vc_actor := promote (vc_actor c) \<rparr>) = dm_addition_allowed c"
    by (simp add: dm_addition_allowed_def split: option.splits list.splits)
  with assms show ?thesis
    unfolding evaluate_commit_def Let_def
    by (auto intro: with_proposer_promote metadata_changes_promote permissions_promote split: if_splits)
qed


text \<open>The commits of a member without any role that no proposer stands behind.\<close>

definition plain_commit :: "validated_commit \<Rightarrow> bool" where
  "plain_commit c \<longleftrightarrow> \<not> cp_is_admin (vc_actor c) \<and> \<not> cp_is_super_admin (vc_actor c) \<and>
     list_all (\<lambda>i. ib_proposer i = None) (added_inboxes c @ removed_inboxes c) \<and> vc_dm_members c = None"

definition no_role_changes :: "validated_commit \<Rightarrow> bool" where
  "no_role_changes c \<longleftrightarrow> admins_added (metadata_validation_info c) = [] \<and>
     admins_removed (metadata_validation_info c) = [] \<and> super_admins_added (metadata_validation_info c) = [] \<and>
     super_admins_removed (metadata_validation_info c) = [] \<and> \<not> permissions_changed c"

lemma plain_with_proposer:
  assumes "list_all (\<lambda>i. ib_proposer i = None) is"
  shows "evaluate_policy_with_proposer is p a \<longleftrightarrow> list_all (MembershipPolicies_evaluate p a) is"
  using assms by (simp add: evaluate_policy_with_proposer_def list_all_iff)

lemma preset_fields:
  "hm_get (=) (update_metadata_policy default_policy) k =
     (if k \<in> {field_str GroupName, field_str Description, field_str GroupImageUrlSquare, field_str AppData}
      then Some metadata_allow
      else if k \<in> {field_str MessageDisappearFromNS, field_str MessageDisappearInNS}
      then Some metadata_allow_if_actor_admin
      else if k = field_str MinimumSupportedProtocolVersion
      then Some metadata_allow_if_actor_super_admin else None)"
  "hm_get (=) (update_metadata_policy policy_admin_only) k =
     (if k \<in> field_str ` {GroupName, Description, GroupImageUrlSquare, AppData, MessageDisappearFromNS, MessageDisappearInNS}
      then Some metadata_allow_if_actor_admin
      else if k = field_str MinimumSupportedProtocolVersion
      then Some metadata_allow_if_actor_super_admin else None)"
  by (simp_all add: preset_defs)

lemma plain_metadata:
  assumes "\<not> cp_is_admin a" "\<not> cp_is_super_admin a"
  shows "evaluate_metadata_policy cs (update_metadata_policy default_policy) a \<longleftrightarrow>
      list_all (\<lambda>c. field_name c \<in> field_str ` {GroupName, Description, GroupImageUrlSquare, AppData}) cs"
    and "evaluate_metadata_policy cs (update_metadata_policy policy_admin_only) a \<longleftrightarrow> cs = []"
proof -
  have base: "MetadataPolicies_evaluate metadata_allow a c" "\<not> MetadataPolicies_evaluate metadata_allow_if_actor_admin a c"
    "\<not> MetadataPolicies_evaluate metadata_allow_if_actor_super_admin a c" for c
    using assms by (simp_all add: MetadataPolicies_evaluate_def metadata_allow_def
        metadata_allow_if_actor_admin_def metadata_allow_if_actor_super_admin_def)
  show "evaluate_metadata_policy cs (update_metadata_policy default_policy) a \<longleftrightarrow>
      list_all (\<lambda>c. field_name c \<in> field_str ` {GroupName, Description, GroupImageUrlSquare, AppData}) cs"
    unfolding evaluate_metadata_policy_def preset_fields
    by (intro list.pred_cong refl) (auto simp: base Let_def)
  show "evaluate_metadata_policy cs (update_metadata_policy policy_admin_only) a \<longleftrightarrow> cs = []"
    unfolding evaluate_metadata_policy_def preset_fields
    by (cases cs) (auto simp: base Let_def split: if_splits)
qed


text \<open>
  The members of a DM are fixed: under the policies of a DM an accepted commit removes
  nobody and changes no admin, and it adds nobody except, alone, the one of the two members of the
  DM that is not the actor.
\<close>

theorem dm_members_fixed:
  assumes "evaluate_commit PolicySet_new_dm c"
  shows "removed_inboxes c = [] \<and> admins_added (metadata_validation_info c) = [] \<and>
    admins_removed (metadata_validation_info c) = [] \<and>
    (added_inboxes c = [] \<or>
     (\<exists>i d. added_inboxes c = [i] \<and> vc_dm_members c = Some d \<and>
        ib_inbox_id i \<in> {member_one_inbox_id d, member_two_inbox_id d} \<and>
        ib_inbox_id i \<noteq> cp_inbox_id (vc_actor c)))"
proof -
  have none: "evaluate_policy_with_proposer xs membership_deny a \<longleftrightarrow> xs = []" for xs a
    by (cases xs) (simp_all add: evaluate_policy_with_proposer_def MembershipPolicies_evaluate_def membership_deny_def Let_def)
  have "\<not> PermissionsPolicies_evaluate permissions_deny a" for a
    by (simp add: PermissionsPolicies_evaluate_def permissions_deny_def)
  with assms show ?thesis
    by (auto simp: evaluate_commit_def Let_def PolicySet_new_dm_def none dm_addition_allowed_def
        split: if_splits option.splits list.splits)
qed

section \<open>Concrete commits\<close>

definition demo_actor :: commit_participant where
  "demo_actor = \<lparr> cp_inbox_id = ''alice'', cp_installation_id = [], cp_is_creator = False,
     cp_is_admin = False, cp_is_super_admin = False \<rparr>"

definition demo_inbox :: inbox where
  "demo_inbox = \<lparr> ib_inbox_id = ''bob'', ib_is_creator = False, ib_is_admin = False,
     ib_is_super_admin = False, ib_proposer = None \<rparr>"

definition demo_commit :: validated_commit where
  "demo_commit = \<lparr> vc_actor = demo_actor, vc_proposers = [], added_inboxes = [demo_inbox],
     removed_inboxes = [], readded_installations = [],
     metadata_validation_info = \<lparr> metadata_field_changes = [], admins_added = [], admins_removed = [],
       super_admins_added = [], super_admins_removed = [], num_super_admins = 1,
       minimum_supported_protocol_version = None \<rparr>,
     installations_changed = True, permissions_changed = False, vc_dm_members = None \<rparr>"

definition demo_dm_commit :: validated_commit where
  "demo_dm_commit = demo_commit\<lparr> vc_dm_members :=
     Some \<lparr> member_one_inbox_id = ''alice'', member_two_inbox_id = ''bob'' \<rparr> \<rparr>"

lemma demo_commits: "evaluate_commit default_policy demo_commit" "evaluate_commit PolicySet_new_dm demo_dm_commit"
  by code_simp+

theorem permissions_roundtrip_witness:
  "\<exists>pr. GroupMutablePermissions_to_proto \<lparr> gmp_policies = default_policy \<rparr> = Ok pr \<and>
     GroupMutablePermissions_from_proto pr = Ok \<lparr> gmp_policies = default_policy \<rparr>"
  using permissions_roundtrip [of "\<lparr> gmp_policies = default_policy \<rparr>"] presets_encodable [of Default] by simp

theorem policy_decoding_canonical_witness:
  "MembershipPolicies_try_from (KindBase 3) = Ok (Standard AllowIfAdminOrSuperAdmin) \<and>
   MembershipPolicies_to_proto (Standard AllowIfAdminOrSuperAdmin) = Ok (KindBase 3)"
proof -
  have "MembershipPolicies_try_from (KindBase 3) = Ok (Standard AllowIfAdminOrSuperAdmin)"
    by (simp add: MembershipPolicies_try_from_def membership_decode_def)
  then show ?thesis using policy_decoding_canonical by blast
qed

theorem authority_monotone_witness:
  "evaluate_commit default_policy (demo_commit\<lparr> vc_actor := promote demo_actor \<rparr>)"
  using authority_monotone [OF demo_commits(1)] by (simp add: demo_commit_def)



theorem dm_members_fixed_witness: "removed_inboxes demo_dm_commit = []"
  using dm_members_fixed [OF demo_commits(2)] by blast

end
