(* ===== verification/Members.thy ===== *)
theory Members
  imports Collections
begin

text \<open>
  Identifiers and members of an inbox: \<open>xmtp_id/src/associations/ident/*.rs\<close>, \<open>member.rs\<close>, the
  address helpers of \<open>xmtp_cryptography/src/signature.rs\<close>, and the kinds of signatures
  (\<open>signature.rs\<close>, \<open>verified_signature.rs\<close>).

  Strings are lists of the bytes of their UTF-8 encoding. The hexadecimal encoder and the SHA-256
  hash come from libraries: they are the fields of \<open>id_crypto\<close>, an argument of what uses them. The
  equality of identifiers is \<open>mi_eq\<close>: two passkeys are equal when their keys are, whatever
  their relying parties, as the source's \<open>PartialEq\<close> says.
\<close>

section \<open>Library functions\<close>

record id_crypto =
  hex_encode :: "bytes \<Rightarrow> string"
  hex_decode :: "string \<Rightarrow> bytes option"
  sha256_hex :: "string \<Rightarrow> string"

fun show_nat :: "nat \<Rightarrow> string" where
  "show_nat n = (if n < 10 then [char_of (48 + n)] else show_nat (n div 10) @ [char_of (48 + n mod 10)])"

declare show_nat.simps [simp del]

definition show_u64 :: "u64 \<Rightarrow> string" where
  "show_u64 n = show_nat (unat n)"

definition is_ascii_hexdigit :: "char \<Rightarrow> bool" where
  "is_ascii_hexdigit c \<longleftrightarrow>
     (let n = (of_char c :: nat) in 48 \<le> n \<and> n \<le> 57 \<or> 65 \<le> n \<and> n \<le> 70 \<or> 97 \<le> n \<and> n \<le> 102)"

definition ascii_lower :: "char \<Rightarrow> char" where
  "ascii_lower c = (let n = (of_char c :: nat) in if 65 \<le> n \<and> n \<le> 90 then char_of (n + 32) else c)"

section \<open>Addresses\<close>

datatype identifier_validation_error = InvalidAddresses "string list" | HexDecode | GenericIdent string

definition strip_prefix :: "string \<Rightarrow> string \<Rightarrow> string option" where
  "strip_prefix p s = (if take (length p) s = p then Some (drop (length p) s) else None)"

definition is_valid_ethereum_address :: "string \<Rightarrow> bool" where
  "is_valid_ethereum_address address =
     (let address = (case strip_prefix ''0x'' address of Some a \<Rightarrow> a | None \<Rightarrow> address)
      in if length address \<noteq> 40 then False else list_all is_ascii_hexdigit address)"

definition sanitize_evm_addresses :: "string list \<Rightarrow> (identifier_validation_error, string list) result" where
  "sanitize_evm_addresses account_addresses =
     (let invalid = filter (\<lambda>a. \<not> is_valid_ethereum_address a) account_addresses
      in if invalid \<noteq> [] then Err (InvalidAddresses invalid)
         else Ok (map (map ascii_lower) account_addresses))"

section \<open>Identifiers\<close>

datatype passkey = Passkey_mk (pk_key: bytes) (relying_party: "string option")

datatype member_identifier = Installation bytes | Ethereum string | Passkey passkey

datatype public_identifier = IdEthereum string | IdPasskey passkey

datatype member_kind = KInstallation | KEthereum | KPasskey

definition passkey_eq :: "passkey \<Rightarrow> passkey \<Rightarrow> bool" where
  "passkey_eq a b \<longleftrightarrow> pk_key a = pk_key b"

fun mi_eq :: "member_identifier \<Rightarrow> member_identifier \<Rightarrow> bool" where
  "mi_eq (Installation a) (Installation b) = (a = b)"
| "mi_eq (Ethereum a) (Ethereum b) = (a = b)"
| "mi_eq (Passkey a) (Passkey b) = passkey_eq a b"
| "mi_eq _ _ = False"

fun id_eq_member :: "public_identifier \<Rightarrow> member_identifier \<Rightarrow> bool" where
  "id_eq_member (IdEthereum a) (Ethereum b) = (a = b)"
| "id_eq_member (IdPasskey a) (Passkey b) = passkey_eq a b"
| "id_eq_member _ _ = False"

fun mi_kind :: "member_identifier \<Rightarrow> member_kind" where
  "mi_kind (Installation _) = KInstallation"
| "mi_kind (Ethereum _) = KEthereum"
| "mi_kind (Passkey _) = KPasskey"

fun id_kind :: "public_identifier \<Rightarrow> member_kind" where
  "id_kind (IdEthereum _) = KEthereum"
| "id_kind (IdPasskey _) = KPasskey"

fun kind_string :: "member_kind \<Rightarrow> string" where
  "kind_string KInstallation = ''installation''"
| "kind_string KEthereum = ''ethereum''"
| "kind_string KPasskey = ''passkey''"

fun mi_of_id :: "public_identifier \<Rightarrow> member_identifier" where
  "mi_of_id (IdEthereum addr) = Ethereum addr"
| "mi_of_id (IdPasskey p) = Passkey p"

fun id_of_mi :: "member_identifier \<Rightarrow> public_identifier option" where
  "id_of_mi (Passkey p) = Some (IdPasskey p)"
| "id_of_mi (Ethereum e) = Some (IdEthereum e)"
| "id_of_mi (Installation _) = None"

fun mi_display :: "id_crypto \<Rightarrow> member_identifier \<Rightarrow> string" where
  "mi_display H (Ethereum a) = a"
| "mi_display H (Installation k) = hex_encode H k"
| "mi_display H (Passkey p) = hex_encode H (pk_key p)"

fun id_display :: "id_crypto \<Rightarrow> public_identifier \<Rightarrow> string" where
  "id_display H (IdEthereum a) = a"
| "id_display H (IdPasskey p) = hex_encode H (pk_key p)"

definition Ethereum_sanitize :: "string \<Rightarrow> (identifier_validation_error, string) result" where
  "Ethereum_sanitize a = rbind (sanitize_evm_addresses [a]) (\<lambda>sanitized. Ok (last sanitized))"

fun mi_sanitize :: "member_identifier \<Rightarrow> (identifier_validation_error, member_identifier) result" where
  "mi_sanitize (Ethereum addr) = rbind (Ethereum_sanitize addr) (\<lambda>a. Ok (Ethereum a))"
| "mi_sanitize i = Ok i"

fun id_sanitize :: "public_identifier \<Rightarrow> (identifier_validation_error, public_identifier) result" where
  "id_sanitize (IdEthereum addr) = rbind (Ethereum_sanitize addr) (\<lambda>a. Ok (IdEthereum a))"
| "id_sanitize i = Ok i"

definition Identifier_eth :: "string \<Rightarrow> (identifier_validation_error, public_identifier) result" where
  "Identifier_eth addr = id_sanitize (IdEthereum addr)"

definition mi_eth :: "string \<Rightarrow> (identifier_validation_error, member_identifier) result" where
  "mi_eth addr = rbind (Identifier_eth addr) (\<lambda>i. Ok (mi_of_id i))"

definition Identifier_passkey_str ::
    "id_crypto \<Rightarrow> string \<Rightarrow> string option \<Rightarrow> (identifier_validation_error, public_identifier) result" where
  "Identifier_passkey_str H key rp =
     rbind (ok_or (hex_decode H key) HexDecode) (\<lambda>k. Ok (IdPasskey (Passkey_mk k rp)))"

fun installation_key :: "member_identifier \<Rightarrow> bytes option" where
  "installation_key (Installation k) = Some k"
| "installation_key _ = None"

fun eth_address :: "member_identifier \<Rightarrow> string option" where
  "eth_address (Ethereum a) = Some a"
| "eth_address _ = None"

fun is_valid_address :: "public_identifier \<Rightarrow> bool" where
  "is_valid_address (IdEthereum addr) =
     (length addr = 42 \<and> take 2 addr = ''0x'' \<and> list_all is_ascii_hexdigit (drop 2 addr))"
| "is_valid_address _ = True"

section \<open>Signatures\<close>

datatype signature_kind = Erc191 | Erc1271 | InstallationKey | LegacyDelegated | P256

fun signature_kind_string :: "signature_kind \<Rightarrow> string" where
  "signature_kind_string Erc191 = ''erc-191''"
| "signature_kind_string Erc1271 = ''erc-1271''"
| "signature_kind_string InstallationKey = ''installation-key''"
| "signature_kind_string LegacyDelegated = ''legacy-delegated''"
| "signature_kind_string P256 = ''p256''"

record verified_signature =
  signer :: member_identifier
  sig_kind :: signature_kind
  raw_bytes :: bytes
  sig_chain_id :: "u64 option"

section \<open>Errors of the association log\<close>

datatype association_error =
    Generic string
  | MultipleCreate
  | NotCreated
  | SignatureErr
  | MemberNotAllowed member_kind member_kind
  | MissingExistingMember
  | LegacySignatureReuse
  | NewMemberIdSignatureMismatch
  | WrongInboxId
  | SignatureNotAllowed string string
  | Replay
  | Deserialization
  | MissingIdentityUpdate
  | ChainIdMismatch u64 u64
  | InvalidAccountAddress
  | NotIdentifier string

definition Identifier_try_from :: "member_identifier \<Rightarrow> (association_error, public_identifier) result" where
  "Identifier_try_from i =
     (case i of
        Ethereum e \<Rightarrow> Ok (IdEthereum e)
      | Passkey p \<Rightarrow> Ok (IdPasskey p)
      | Installation _ \<Rightarrow> Err (NotIdentifier ''Installation Keys''))"

definition inbox_id_of :: "id_crypto \<Rightarrow> public_identifier \<Rightarrow> u64 \<Rightarrow> (association_error, string) result" where
  "inbox_id_of H i nonce =
     (if \<not> is_valid_address i then Err InvalidAccountAddress
      else Ok (sha256_hex H (mi_display H (mi_of_id i) @ show_u64 nonce)))"

section \<open>Members\<close>

record member =
  m_identifier :: member_identifier
  added_by_entity :: "member_identifier option"
  client_timestamp_ns :: "u64 option"
  added_on_chain_id :: "u64 option"

definition Member_new ::
    "member_identifier \<Rightarrow> member_identifier option \<Rightarrow> u64 option \<Rightarrow> u64 option \<Rightarrow> member" where
  "Member_new i by ts chain =
     \<lparr> m_identifier = i, added_by_entity = by, client_timestamp_ns = ts, added_on_chain_id = chain \<rparr>"

definition Member_kind :: "member \<Rightarrow> member_kind" where
  "Member_kind m = mi_kind (m_identifier m)"

section \<open>Lemmas\<close>

lemma mi_eq_refl [simp]: "mi_eq a a"
  by (cases a) (simp_all add: passkey_eq_def)

lemma mi_eq_sym: "mi_eq a b \<Longrightarrow> mi_eq b a"
  by (cases a; cases b) (simp_all add: passkey_eq_def)

lemma mi_eq_trans: "mi_eq a b \<Longrightarrow> mi_eq b c \<Longrightarrow> mi_eq a c"
  by (cases a; cases b; cases c) (simp_all add: passkey_eq_def)

interpretation mi: key_eq mi_eq
  by unfold_locales (auto intro: mi_eq_sym mi_eq_trans)

lemma mi_eq_kind: "mi_eq a b \<Longrightarrow> mi_kind a = mi_kind b"
  by (cases a; cases b) simp_all

lemma id_eq_member_iff: "id_eq_member i m \<longleftrightarrow> mi_eq (mi_of_id i) m"
  by (cases i; cases m) simp_all

lemma mi_of_id_not_installation [simp]: "mi_kind (mi_of_id i) \<noteq> KInstallation"
  by (cases i) simp_all

lemma mi_eq_display: "mi_eq a b \<Longrightarrow> mi_display H a = mi_display H b"
  by (cases a; cases b) (simp_all add: passkey_eq_def)

lemma id_of_mi_of_id [simp]: "id_of_mi (mi_of_id i) = Some i"
  by (cases i) simp_all

lemma of_char_ascii_lower:
  "(of_char (ascii_lower c) :: nat) =
     (if 65 \<le> (of_char c :: nat) \<and> (of_char c :: nat) \<le> 90 then of_char c + 32 else of_char c)"
  by (simp add: ascii_lower_def Let_def)

lemma hexdigit_lower [simp]: "is_ascii_hexdigit c \<Longrightarrow> is_ascii_hexdigit (ascii_lower c)"
  unfolding is_ascii_hexdigit_def Let_def of_char_ascii_lower by auto

lemma ascii_lower_idem [simp]: "ascii_lower (ascii_lower c) = ascii_lower c"
  by (auto simp: ascii_lower_def Let_def)

lemma Ethereum_sanitize_Ok:
  "Ethereum_sanitize a = Ok b \<longleftrightarrow> is_valid_ethereum_address a \<and> b = map ascii_lower a"
  by (auto simp: Ethereum_sanitize_def sanitize_evm_addresses_def Let_def)

lemma take_two: "take 2 a = [x, y] \<longleftrightarrow> (\<exists>r. a = x # y # r)"
  by (cases a; cases "tl a") (auto simp: numeral_2_eq_2)

lemma valid_ethereum_cases:
  "is_valid_ethereum_address a \<longleftrightarrow>
     (if take 2 a = ''0x'' then length a = 42 \<and> list_all is_ascii_hexdigit (drop 2 a)
      else length a = 40 \<and> list_all is_ascii_hexdigit a)"
  by (auto simp: is_valid_ethereum_address_def strip_prefix_def Let_def numeral_2_eq_2)

lemma lower_prefix:
  assumes "is_valid_ethereum_address a"
  shows "take 2 (map ascii_lower a) = ''0x'' \<longleftrightarrow> take 2 a = ''0x''"
proof
  assume "take 2 a = ''0x''"
  then show "take 2 (map ascii_lower a) = ''0x''"
    unfolding take_two by (auto simp: ascii_lower_def)
next
  assume low: "take 2 (map ascii_lower a) = ''0x''"
  show "take 2 a = ''0x''"
  proof (rule ccontr)
    assume no: "take 2 a \<noteq> ''0x''"
    with assms have hex: "list_all is_ascii_hexdigit a" by (simp add: valid_ethereum_cases)
    from low [unfolded take_two] obtain r where r: "map ascii_lower a = CHR ''0'' # CHR ''x'' # r" by (elim exE)
    then obtain c d a' where a: "a = c # d # a'" "ascii_lower d = CHR ''x''"
      by (cases a; cases "tl a") auto
    have "is_ascii_hexdigit CHR ''x''" using hex a hexdigit_lower [of d] by simp
    then show False by (simp add: is_ascii_hexdigit_def)
  qed
qed

text \<open>
  Sanitizing an address accepts exactly 40 hexadecimal digits with or without the
  prefix \<open>0x\<close> and lowers them; sanitizing again changes nothing. The sanitized identifier yields
  an inbox id exactly when the prefix was there.
\<close>

theorem eth_sanitize:
  "is_ok (Identifier_eth a) = is_valid_ethereum_address a \<and>
   (Identifier_eth a = Ok i \<longrightarrow>
      i = IdEthereum (map ascii_lower a) \<and> id_sanitize i = Ok i \<and>
      is_ok (inbox_id_of H i nonce) = (take 2 a = ''0x''))"
proof -
  have "is_ok (Identifier_eth a) = is_valid_ethereum_address a"
    by (auto simp: Identifier_eth_def is_ok_iff rbind_eq_Ok Ethereum_sanitize_Ok)
  moreover have "i = IdEthereum (map ascii_lower a) \<and> id_sanitize i = Ok i \<and>
      is_ok (inbox_id_of H i nonce) = (take 2 a = ''0x'')" if "Identifier_eth a = Ok i"
  proof -
    from that have v: "is_valid_ethereum_address a" and i: "i = IdEthereum (map ascii_lower a)"
      by (auto simp: Identifier_eth_def rbind_eq_Ok Ethereum_sanitize_Ok)
    note prefix = lower_prefix [OF v]
    have hex: "list_all is_ascii_hexdigit (map ascii_lower b)" if "list_all is_ascii_hexdigit b" for b
      using that by (simp add: list_all_iff)
    have v': "is_valid_ethereum_address (map ascii_lower a) \<and> (is_valid_address i \<longleftrightarrow> take 2 a = ''0x'')"
    proof (cases "take 2 a = ''0x''")
      case True
      with v have "length a = 42" "list_all is_ascii_hexdigit (drop 2 a)"
        unfolding valid_ethereum_cases by simp_all
      with hex [of "drop 2 a"] prefix True show ?thesis
        unfolding valid_ethereum_cases i is_valid_address.simps by (simp add: drop_map)
    next
      case False
      with v have "length a = 40" "list_all is_ascii_hexdigit a"
        unfolding valid_ethereum_cases by simp_all
      with hex [of a] prefix False show ?thesis
        unfolding valid_ethereum_cases i is_valid_address.simps by simp
    qed
    then show ?thesis using v' by (auto simp: i inbox_id_of_def Ethereum_sanitize_Ok rbind_eq_Ok)
  qed
  ultimately show ?thesis by blast
qed

theorem eth_sanitize_witness:
  "Identifier_eth (''0x'' @ replicate 40 CHR ''A'') = Ok (IdEthereum (''0x'' @ replicate 40 CHR ''a'')) \<and>
   is_ok (inbox_id_of \<lparr> hex_encode = (\<lambda>_. []), hex_decode = (\<lambda>_. None), sha256_hex = id \<rparr>
     (IdEthereum (''0x'' @ replicate 40 CHR ''a'')) 0)"
proof -
  have run: "Identifier_eth (''0x'' @ replicate 40 CHR ''A'') = Ok (IdEthereum (''0x'' @ replicate 40 CHR ''a''))"
    by code_simp
  from eth_sanitize [of "''0x'' @ replicate 40 CHR ''A''" "IdEthereum (''0x'' @ replicate 40 CHR ''a'')"
      "\<lparr> hex_encode = (\<lambda>_. []), hex_decode = (\<lambda>_. None), sha256_hex = id \<rparr>" 0] run
  have "is_ok (inbox_id_of \<lparr> hex_encode = (\<lambda>_. []), hex_decode = (\<lambda>_. None), sha256_hex = id \<rparr>
     (IdEthereum (''0x'' @ replicate 40 CHR ''a'')) 0) = (take 2 (''0x'' @ replicate 40 CHR ''A'') = ''0x'')"
    by blast
  with run show ?thesis by (simp add: numeral_2_eq_2)
qed

end
