(* ===== verification/Association_State.thy ===== *)
theory Association_State
  imports Members
begin

text \<open>
  The state of an inbox at a point in time: \<open>xmtp_id/src/associations/state.rs\<close>. Members are a hash
  map keyed by identifier up to \<open>mi_eq\<close>; its list order stands for the unspecified iteration
  order. Every operation returns a new state, as the source's do.
\<close>

section \<open>State and operations\<close>

record association_state =
  inbox_id :: string
  members :: "(member_identifier, member) hash_map"
  recovery_identifier :: public_identifier
  seen_signatures :: "bytes list"

record association_state_diff =
  new_members :: "member_identifier list"
  removed_members :: "member_identifier list"

record installation =
  inst_id :: bytes
  inst_client_timestamp_ns :: "u64 option"

definition new_installations :: "association_state_diff \<Rightarrow> bytes list" where
  "new_installations d = List.map_filter (\<lambda>m. case m of Installation k \<Rightarrow> Some k | _ \<Rightarrow> None) (new_members d)"

definition removed_installations :: "association_state_diff \<Rightarrow> bytes list" where
  "removed_installations d = List.map_filter (\<lambda>m. case m of Installation k \<Rightarrow> Some k | _ \<Rightarrow> None) (removed_members d)"

definition st_add :: "association_state \<Rightarrow> member \<Rightarrow> association_state" where
  "st_add s m = s\<lparr> members := hm_insert mi_eq (m_identifier m) m (members s) \<rparr>"

definition st_remove :: "association_state \<Rightarrow> member_identifier \<Rightarrow> association_state" where
  "st_remove s i = s\<lparr> members := hm_remove mi_eq i (members s) \<rparr>"

definition set_recovery_identifier :: "association_state \<Rightarrow> public_identifier \<Rightarrow> association_state" where
  "set_recovery_identifier s r = s\<lparr> recovery_identifier := r \<rparr>"

definition st_get :: "association_state \<Rightarrow> member_identifier \<Rightarrow> member option" where
  "st_get s i = hm_get mi_eq (members s) i"

definition add_seen_signatures :: "association_state \<Rightarrow> bytes list \<Rightarrow> association_state" where
  "add_seen_signatures s sigs = s\<lparr> seen_signatures := hs_extend (=) (seen_signatures s) sigs \<rparr>"

definition has_seen :: "association_state \<Rightarrow> bytes \<Rightarrow> bool" where
  "has_seen s sig = hs_contains (=) (seen_signatures s) sig"

abbreviation (input) u64_MAX :: u64 where "u64_MAX \<equiv> - 1"

definition timestamp_key :: "member \<Rightarrow> u64" where
  "timestamp_key m = (case client_timestamp_ns m of Some t \<Rightarrow> t | None \<Rightarrow> u64_MAX)"

definition st_members :: "association_state \<Rightarrow> member list" where
  "st_members s = sort_key timestamp_key (map snd (members s))"

definition opt_mi_eq :: "member_identifier option \<Rightarrow> member_identifier option \<Rightarrow> bool" where
  "opt_mi_eq a b = (case (a, b) of (Some x, Some y) \<Rightarrow> mi_eq x y | (None, None) \<Rightarrow> True | _ \<Rightarrow> False)"

definition members_by_parent :: "association_state \<Rightarrow> member_identifier \<Rightarrow> member list" where
  "members_by_parent s parent_id = filter (\<lambda>e. opt_mi_eq (added_by_entity e) (Some parent_id)) (map snd (members s))"

definition members_by_kind :: "association_state \<Rightarrow> member_kind \<Rightarrow> member list" where
  "members_by_kind s k = filter (\<lambda>e. Member_kind e = k) (map snd (members s))"

definition st_identifiers :: "association_state \<Rightarrow> public_identifier list" where
  "st_identifiers s =
     (let address_members = sort_key timestamp_key (map snd (members s))
      in List.map_filter (\<lambda>m. case m_identifier m of
           Ethereum e \<Rightarrow> Some (IdEthereum e) | Passkey p \<Rightarrow> Some (IdPasskey p) | _ \<Rightarrow> None) address_members)"

definition installation_ids :: "association_state \<Rightarrow> bytes list" where
  "installation_ids s =
     List.map_filter (\<lambda>m. case m_identifier m of Installation k \<Rightarrow> Some k | _ \<Rightarrow> None)
       (members_by_kind s KInstallation)"

definition installations :: "association_state \<Rightarrow> installation list" where
  "installations s =
     List.map_filter (\<lambda>m. case m_identifier m of
         Installation i \<Rightarrow> Some \<lparr> inst_id = i, inst_client_timestamp_ns = client_timestamp_ns m \<rparr>
       | _ \<Rightarrow> None) (st_members s)"

definition st_diff :: "association_state \<Rightarrow> association_state \<Rightarrow> association_state_diff" where
  "st_diff s new_state =
     \<lparr> new_members = filter (\<lambda>i. \<not> hm_contains_key mi_eq (members s) i) (map fst (members new_state)),
       removed_members = filter (\<lambda>i. \<not> hm_contains_key mi_eq (members new_state) i) (map fst (members s)) \<rparr>"

definition as_diff :: "association_state \<Rightarrow> association_state_diff" where
  "as_diff s = \<lparr> new_members = map fst (members s), removed_members = [] \<rparr>"

definition AssociationState_new ::
    "id_crypto \<Rightarrow> public_identifier \<Rightarrow> u64 \<Rightarrow> u64 option \<Rightarrow> (association_error, association_state) result" where
  "AssociationState_new H account_identifier nonce chain_id =
     (let member_identifier = mi_of_id account_identifier in
      rbind (inbox_id_of H account_identifier nonce) (\<lambda>i.
        let new_member = Member_new member_identifier None None chain_id
        in Ok \<lparr> inbox_id = i,
                members = hm_from_iter mi_eq [(member_identifier, new_member)],
                recovery_identifier = account_identifier,
                seen_signatures = [] \<rparr>))"

section \<open>Invariant\<close>

text \<open>
  The members are a well-formed hash map, every entry is stored under its own identifier, every
  installation was added by a member that is not an installation, and the set of seen signatures has
  no duplicates.
\<close>

definition entry_ok :: "member_identifier \<times> member \<Rightarrow> bool" where
  "entry_ok p \<longleftrightarrow> mi_eq (fst p) (m_identifier (snd p)) \<and>
     (Member_kind (snd p) = KInstallation \<longrightarrow>
        (\<exists>parent. added_by_entity (snd p) = Some parent \<and> mi_kind parent \<noteq> KInstallation))"

definition state_ok :: "association_state \<Rightarrow> bool" where
  "state_ok s \<longleftrightarrow> hm_wf mi_eq (members s) \<and> list_all entry_ok (members s) \<and> distinct (seen_signatures s)"

lemma st_get_add: "st_get (st_add s m) i = (if mi_eq (m_identifier m) i then Some m else st_get s i)"
  by (simp add: st_get_def st_add_def mi.hm_get_insert)

lemma st_get_remove: "st_get (st_remove s k) i = (if mi_eq k i then None else st_get s i)"
  by (simp add: st_get_def st_remove_def mi.hm_get_remove)

lemma st_fields [simp]:
  "inbox_id (st_add s m) = inbox_id s" "inbox_id (st_remove s i) = inbox_id s"
  "inbox_id (set_recovery_identifier s r) = inbox_id s" "inbox_id (add_seen_signatures s g) = inbox_id s"
  "seen_signatures (st_add s m) = seen_signatures s" "seen_signatures (st_remove s i) = seen_signatures s"
  "seen_signatures (set_recovery_identifier s r) = seen_signatures s"
  "recovery_identifier (st_add s m) = recovery_identifier s"
  "recovery_identifier (st_remove s i) = recovery_identifier s"
  "recovery_identifier (add_seen_signatures s g) = recovery_identifier s"
  "recovery_identifier (set_recovery_identifier s r) = r"
  "members (set_recovery_identifier s r) = members s" "members (add_seen_signatures s g) = members s"
  by (simp_all add: st_add_def st_remove_def set_recovery_identifier_def add_seen_signatures_def)

lemma has_seen_add: "has_seen (add_seen_signatures s sigs) g \<longleftrightarrow> has_seen s g \<or> g \<in> set sigs"
  by (auto simp: has_seen_def add_seen_signatures_def plain.hs_contains_extend)

lemma has_seen_fields [simp]:
  "has_seen (st_add s m) = has_seen s" "has_seen (st_remove s i) = has_seen s"
  "has_seen (set_recovery_identifier s r) = has_seen s"
  by (simp_all add: has_seen_def fun_eq_iff)

lemma state_ok_add:
  assumes "state_ok s" and "entry_ok (m_identifier m, m)"
  shows "state_ok (st_add s m)"
proof -
  have "entry_ok q" if "q \<in> set (hm_insert mi_eq (m_identifier m) m (members s))" for q
  proof -
    from hm_insert_elem [OF that] consider "q \<in> set (members s)" | "snd q = m" "mi_eq (fst q) (m_identifier m)"
      by (cases q) auto
    then show ?thesis
      using assms by cases (auto simp: state_ok_def list_all_iff entry_ok_def)
  qed
  then show ?thesis
    using assms(1) by (simp add: state_ok_def st_add_def list_all_iff mi.hm_wf_insert)
qed

lemma state_ok_remove: "state_ok s \<Longrightarrow> state_ok (st_remove s i)"
  by (auto simp: state_ok_def st_remove_def list_all_iff mi.hm_wf_remove)

lemma state_ok_fields [simp]:
  "state_ok (set_recovery_identifier s r) = state_ok s" "state_ok s \<Longrightarrow> state_ok (add_seen_signatures s g)"
  by (simp_all add: state_ok_def add_seen_signatures_def hs_extend_keeps_distinct)

lemma state_ok_new: "AssociationState_new H i n c = Ok s \<Longrightarrow> state_ok s"
  by (auto simp: AssociationState_new_def Let_def rbind_eq_Ok state_ok_def hm_from_iter_def entry_ok_def
      Member_new_def Member_kind_def)

lemma st_get_identifier:
  assumes "state_ok s" and "st_get s i = Some m"
  shows "mi_eq (m_identifier m) i"
proof -
  from hm_get_SomeD [OF assms(2) [unfolded st_get_def]]
  obtain p where p: "p \<in> set (members s)" "mi_eq (fst p) i" "snd p = m" by blast
  with assms(1) have "mi_eq (fst p) (m_identifier m)" by (auto simp: state_ok_def list_all_iff entry_ok_def)
  from mi_eq_trans [OF mi_eq_sym [OF this] p(2)] show ?thesis .
qed

text \<open>In a state that satisfies the invariant a member is what its identifier looks up.\<close>

lemma state_ok_lookup:
  assumes "state_ok s"
  shows "m \<in> set (map snd (members s)) \<longleftrightarrow> st_get s (m_identifier m) = Some m"
proof
  assume "m \<in> set (map snd (members s))"
  then obtain k where k: "(k, m) \<in> set (members s)" by auto
  with assms show "st_get s (m_identifier m) = Some m"
    using mi.hm_get_mem [of "members s" "(k, m)" "m_identifier m"]
    by (auto simp: state_ok_def list_all_iff entry_ok_def st_get_def)
next
  assume "st_get s (m_identifier m) = Some m"
  from hm_get_SomeD [OF this [unfolded st_get_def]] show "m \<in> set (map snd (members s))" by auto
qed

text \<open>
  The difference of two states lists exactly the identifiers that one state has and
  the other has not, and every member of the new state is new or was there before.
\<close>

theorem st_diff_exact:
  "(i \<in> set (new_members (st_diff s t))) = (i \<in> fst ` set (members t) \<and> st_get s i = None) \<and>
   (i \<in> set (removed_members (st_diff s t))) = (i \<in> fst ` set (members s) \<and> st_get t i = None) \<and>
   new_members (st_diff s s) = [] \<and> removed_members (st_diff s s) = []"
proof -
  have "hm_contains_key mi_eq (members s) k" if "k \<in> fst ` set (members s)" for k
    using that by (force simp: hm_contains_key_def list_ex_iff)
  then show ?thesis
    by (auto simp: st_diff_def st_get_def hm_contains_key_iff filter_empty_conv)
qed

text \<open>
  \<open>members()\<close> returns every member once, ordered by timestamp with members that have
  none at the end.
\<close>

lemma st_members_sorted:
  "mset (st_members s) = mset (map snd (members s)) \<and> sorted (map timestamp_key (st_members s))"
  by (simp add: st_members_def)

end
