(* ===== verification/Association_Log.thy ===== *)
theory Association_Log
  imports Association_State
begin

text \<open>
  The identity log: \<open>xmtp_id/src/associations/association_log.rs\<close> with \<open>apply_update\<close> and
  \<open>get_state\<close> of \<open>mod.rs\<close>. Each action's \<open>update_state\<close> is translated guard by guard, in the order
  of the source, with the error each guard returns. Signatures have been verified before they
  reach this code (\<open>verified_signature\<close>).
\<close>

section \<open>Guards\<close>

definition is_legacy_signature :: "verified_signature \<Rightarrow> bool" where
  "is_legacy_signature sig \<longleftrightarrow> sig_kind sig = LegacyDelegated"

definition allowed_association :: "member_kind \<Rightarrow> member_kind \<Rightarrow> (association_error, unit) result" where
  "allowed_association existing_member_kind new_member_kind =
     (if existing_member_kind = KInstallation \<and> new_member_kind = KInstallation
      then Err (MemberNotAllowed existing_member_kind new_member_kind) else Ok ())"

definition allowed_signature_for_kind :: "member_kind \<Rightarrow> signature_kind \<Rightarrow> (association_error, unit) result" where
  "allowed_signature_for_kind role kind =
     (let is_ok = (case role of
          KEthereum \<Rightarrow> kind \<in> {Erc191, Erc1271, LegacyDelegated}
        | KInstallation \<Rightarrow> kind = InstallationKey
        | KPasskey \<Rightarrow> kind = P256)
      in if \<not> is_ok then Err (SignatureNotAllowed (kind_string role) (signature_kind_string kind)) else Ok ())"

definition verify_chain_id_matches :: "member \<Rightarrow> verified_signature \<Rightarrow> (association_error, unit) result" where
  "verify_chain_id_matches m sig =
     (if added_on_chain_id m \<noteq> sig_chain_id sig
      then Err (ChainIdMismatch (case added_on_chain_id m of Some c \<Rightarrow> c | None \<Rightarrow> 0)
                                (case sig_chain_id sig of Some c \<Rightarrow> c | None \<Rightarrow> 0))
      else Ok ())"

definition replay_check :: "bytes list \<Rightarrow> association_state \<Rightarrow> (association_error, unit) result" where
  "replay_check sigs s = (if list_ex (has_seen s) sigs then Err Replay else Ok ())"

section \<open>Actions\<close>

record create_inbox =
  ci_nonce :: u64
  ci_account_identifier :: public_identifier
  initial_identifier_signature :: verified_signature

record add_association =
  new_member_signature :: verified_signature
  new_member_identifier :: member_identifier
  existing_member_signature :: verified_signature

record revoke_association =
  ra_recovery_identifier_signature :: verified_signature
  revoked_member :: member_identifier

record change_recovery_identity =
  cr_recovery_identifier_signature :: verified_signature
  new_recovery_identifier :: public_identifier

datatype action =
    CreateInbox create_inbox
  | AddAssociation add_association
  | RevokeAssociation revoke_association
  | ChangeRecoveryIdentity change_recovery_identity

definition CreateInbox_update_state ::
    "id_crypto \<Rightarrow> create_inbox \<Rightarrow> association_state option \<Rightarrow> u64 \<Rightarrow> (association_error, association_state) result" where
  "CreateInbox_update_state H a existing_state ts =
     (if existing_state \<noteq> None then Err MultipleCreate
      else
        (let account_address = ci_account_identifier a;
             recovered_signer = signer (initial_identifier_signature a)
         in if \<not> id_eq_member account_address recovered_signer then Err MissingExistingMember
            else
              rbind (allowed_signature_for_kind (id_kind (ci_account_identifier a))
                       (sig_kind (initial_identifier_signature a))) (\<lambda>_.
              if sig_kind (initial_identifier_signature a) = LegacyDelegated \<and> ci_nonce a \<noteq> 0
              then Err LegacySignatureReuse
              else AssociationState_new H account_address (ci_nonce a)
                     (sig_chain_id (initial_identifier_signature a)))))"

definition CreateInbox_signatures :: "create_inbox \<Rightarrow> bytes list" where
  "CreateInbox_signatures a = [raw_bytes (initial_identifier_signature a)]"

definition AddAssociation_signatures :: "add_association \<Rightarrow> bytes list" where
  "AddAssociation_signatures a = [raw_bytes (existing_member_signature a), raw_bytes (new_member_signature a)]"

definition legacy_reuse_check ::
    "id_crypto \<Rightarrow> add_association \<Rightarrow> association_state \<Rightarrow> (association_error, unit) result" where
  "legacy_reuse_check H a existing_state =
     (case id_of_mi (signer (existing_member_signature a)) of
        None \<Rightarrow> Ok ()
      | Some i \<Rightarrow>
          if is_legacy_signature (new_member_signature a) \<or> is_legacy_signature (existing_member_signature a)
          then rbind (inbox_id_of H i 0) (\<lambda>expected.
                 if inbox_id existing_state \<noteq> expected then Err LegacySignatureReuse else Ok ())
          else Ok ())"

definition existing_entity ::
    "add_association \<Rightarrow> association_state \<Rightarrow> (association_error, member_identifier) result" where
  "existing_entity a existing_state =
     (let existing_member_identifier = signer (existing_member_signature a) in
      case st_get existing_state existing_member_identifier of
        Some m \<Rightarrow> Ok (m_identifier m)
      | None \<Rightarrow>
          (let recovery = mi_of_id (recovery_identifier existing_state) in
           if \<not> mi_eq existing_member_identifier recovery then Err MissingExistingMember
           else if is_legacy_signature (existing_member_signature a) then Err LegacySignatureReuse
           else Ok recovery))"

definition chain_check ::
    "association_state \<Rightarrow> verified_signature \<Rightarrow> (association_error, unit) result" where
  "chain_check existing_state sig =
     (case st_get existing_state (signer sig) of
        Some m \<Rightarrow> verify_chain_id_matches m sig
      | None \<Rightarrow> Ok ())"

definition AddAssociation_update_state ::
    "id_crypto \<Rightarrow> add_association \<Rightarrow> association_state option \<Rightarrow> u64 \<Rightarrow> (association_error, association_state) result" where
  "AddAssociation_update_state H a maybe_existing_state ts =
     rbind (ok_or maybe_existing_state NotCreated) (\<lambda>existing_state.
     rbind (replay_check (AddAssociation_signatures a) existing_state) (\<lambda>_.
     let new_member_address = signer (new_member_signature a);
         existing_member_identifier = signer (existing_member_signature a)
     in
     rbind (guard_err (\<not> mi_eq new_member_address (new_member_identifier a)) NewMemberIdSignatureMismatch) (\<lambda>_.
     rbind (guard_err (mi_eq new_member_address existing_member_identifier) (Generic ''tried to add self'')) (\<lambda>_.
     rbind (legacy_reuse_check H a existing_state) (\<lambda>_.
     rbind (allowed_signature_for_kind (mi_kind (new_member_identifier a)) (sig_kind (new_member_signature a))) (\<lambda>_.
     rbind (chain_check existing_state (existing_member_signature a)) (\<lambda>_.
     rbind (existing_entity a existing_state) (\<lambda>existing_entity_id.
     rbind (allowed_signature_for_kind (mi_kind existing_entity_id) (sig_kind (existing_member_signature a))) (\<lambda>_.
     rbind (allowed_association (mi_kind existing_member_identifier) (mi_kind (new_member_identifier a))) (\<lambda>_.
     let new_member = Member_new new_member_address (Some existing_entity_id) (Some ts)
                        (sig_chain_id (new_member_signature a))
     in Ok (st_add existing_state new_member)))))))))))"

definition RevokeAssociation_signatures :: "revoke_association \<Rightarrow> bytes list" where
  "RevokeAssociation_signatures a = [raw_bytes (ra_recovery_identifier_signature a)]"

definition legacy_not_allowed :: association_error where
  "legacy_not_allowed = SignatureNotAllowed (kind_string KEthereum) (signature_kind_string LegacyDelegated)"

definition RevokeAssociation_update_state ::
    "revoke_association \<Rightarrow> association_state option \<Rightarrow> u64 \<Rightarrow> (association_error, association_state) result" where
  "RevokeAssociation_update_state a maybe_existing_state ts =
     rbind (ok_or maybe_existing_state NotCreated) (\<lambda>existing_state.
     rbind (replay_check (RevokeAssociation_signatures a) existing_state) (\<lambda>_.
     rbind (chain_check existing_state (ra_recovery_identifier_signature a)) (\<lambda>_.
     rbind (guard_err (is_legacy_signature (ra_recovery_identifier_signature a)) legacy_not_allowed) (\<lambda>_.
     let recovery_signer = signer (ra_recovery_identifier_signature a);
         state_recovery_identifier = mi_of_id (recovery_identifier existing_state)
     in
     rbind (guard_err (\<not> mi_eq recovery_signer state_recovery_identifier) MissingExistingMember) (\<lambda>_.
     let installations_to_remove =
           filter (\<lambda>child. Member_kind child = KInstallation) (members_by_parent existing_state (revoked_member a));
         new_state = st_remove existing_state (revoked_member a)
     in Ok (fold (\<lambda>i s. st_remove s (m_identifier i)) installations_to_remove new_state))))))"

definition ChangeRecoveryIdentity_signatures :: "change_recovery_identity \<Rightarrow> bytes list" where
  "ChangeRecoveryIdentity_signatures a = [raw_bytes (cr_recovery_identifier_signature a)]"

definition ChangeRecoveryIdentity_update_state ::
    "change_recovery_identity \<Rightarrow> association_state option \<Rightarrow> u64 \<Rightarrow> (association_error, association_state) result" where
  "ChangeRecoveryIdentity_update_state a maybe_existing_state ts =
     rbind (ok_or maybe_existing_state NotCreated) (\<lambda>existing_state.
     rbind (replay_check (ChangeRecoveryIdentity_signatures a) existing_state) (\<lambda>_.
     rbind (chain_check existing_state (cr_recovery_identifier_signature a)) (\<lambda>_.
     rbind (guard_err (is_legacy_signature (cr_recovery_identifier_signature a)) legacy_not_allowed) (\<lambda>_.
     rbind (guard_err (\<not> id_eq_member (recovery_identifier existing_state)
                (signer (cr_recovery_identifier_signature a))) MissingExistingMember) (\<lambda>_.
     Ok (set_recovery_identifier existing_state (new_recovery_identifier a)))))))"

definition Action_update_state ::
    "id_crypto \<Rightarrow> action \<Rightarrow> association_state option \<Rightarrow> u64 \<Rightarrow> (association_error, association_state) result" where
  "Action_update_state H act existing_state ts =
     (case act of
        CreateInbox e \<Rightarrow> CreateInbox_update_state H e existing_state ts
      | AddAssociation e \<Rightarrow> AddAssociation_update_state H e existing_state ts
      | RevokeAssociation e \<Rightarrow> RevokeAssociation_update_state e existing_state ts
      | ChangeRecoveryIdentity e \<Rightarrow> ChangeRecoveryIdentity_update_state e existing_state ts)"

definition Action_signatures :: "action \<Rightarrow> bytes list" where
  "Action_signatures act =
     (case act of
        CreateInbox e \<Rightarrow> CreateInbox_signatures e
      | AddAssociation e \<Rightarrow> AddAssociation_signatures e
      | RevokeAssociation e \<Rightarrow> RevokeAssociation_signatures e
      | ChangeRecoveryIdentity e \<Rightarrow> ChangeRecoveryIdentity_signatures e)"

section \<open>Identity updates\<close>

record identity_update =
  iu_inbox_id :: string
  iu_client_timestamp_ns :: u64
  actions :: "action list"

definition creation_signature_kind :: "identity_update \<Rightarrow> signature_kind option" where
  "creation_signature_kind u =
     (case List.map_filter (\<lambda>a. case a of
          CreateInbox c \<Rightarrow> Some (sig_kind (initial_identifier_signature c)) | _ \<Rightarrow> None) (actions u) of
        [] \<Rightarrow> None | k # _ \<Rightarrow> Some k)"

definition IdentityUpdate_signatures :: "identity_update \<Rightarrow> bytes list" where
  "IdentityUpdate_signatures u = concat (map Action_signatures (actions u))"

fun apply_actions ::
    "id_crypto \<Rightarrow> u64 \<Rightarrow> action list \<Rightarrow> association_state option \<Rightarrow> (association_error, association_state option) result" where
  "apply_actions H ts [] state = Ok state"
| "apply_actions H ts (a # as) state =
     rbind (Action_update_state H a state ts) (\<lambda>s. apply_actions H ts as (Some s))"

definition IdentityUpdate_update_state ::
    "id_crypto \<Rightarrow> identity_update \<Rightarrow> association_state option \<Rightarrow> (association_error, association_state) result" where
  "IdentityUpdate_update_state H u existing_state =
     rbind (apply_actions H (iu_client_timestamp_ns u) (actions u) existing_state) (\<lambda>state.
     rbind (ok_or state NotCreated) (\<lambda>new_state.
       if inbox_id new_state \<noteq> iu_inbox_id u then Err WrongInboxId
       else Ok (add_seen_signatures new_state (IdentityUpdate_signatures u))))"

definition apply_update ::
    "id_crypto \<Rightarrow> association_state \<Rightarrow> identity_update \<Rightarrow> (association_error, association_state) result" where
  "apply_update H initial_state u = IdentityUpdate_update_state H u (Some initial_state)"

fun get_state_from ::
    "id_crypto \<Rightarrow> identity_update list \<Rightarrow> association_state option \<Rightarrow> (association_error, association_state option) result" where
  "get_state_from H [] state = Ok state"
| "get_state_from H (u # us) state =
     rbind (IdentityUpdate_update_state H u state) (\<lambda>s. get_state_from H us (Some s))"

definition get_state :: "id_crypto \<Rightarrow> identity_update list \<Rightarrow> (association_error, association_state) result" where
  "get_state H updates = rbind (get_state_from H updates None) (\<lambda>state. ok_or state NotCreated)"

section \<open>The contract of an identity action\<close>

locale identity_action =
  fixes update :: "association_state option \<Rightarrow> u64 \<Rightarrow> (association_error, association_state) result"
    and sigs :: "bytes list"
  assumes update_ok: "pred_option state_ok st \<Longrightarrow> update st ts = Ok s' \<Longrightarrow> state_ok s'"
    and update_inbox: "update (Some s) ts = Ok s' \<Longrightarrow> inbox_id s' = inbox_id s"
    and update_seen: "update (Some s) ts = Ok s' \<Longrightarrow> has_seen s' = has_seen s"
    and update_fresh: "update (Some s) ts = Ok s' \<Longrightarrow> list_all (\<lambda>g. \<not> has_seen s g) sigs"
begin

lemma replayed: "has_seen s g \<Longrightarrow> g \<in> set sigs \<Longrightarrow> update (Some s) ts \<noteq> Ok s'"
  using update_fresh by (fastforce simp: list_all_iff)

end

lemmas action_elims = rbind_eq_Ok Let_def

lemma replay_check_Ok: "replay_check sigs s = Ok u \<longleftrightarrow> list_all (\<lambda>g. \<not> has_seen s g) sigs"
  by (simp add: replay_check_def list_ex_iff list_all_iff)

interpretation create: identity_action "CreateInbox_update_state H c" "CreateInbox_signatures c" for H c
  by unfold_locales
    (auto simp: CreateInbox_update_state_def action_elims split: if_splits dest: state_ok_new)

text \<open>What a successful \<open>AddAssociation\<close> tells.\<close>

lemma existing_entity_kind:
  "state_ok s \<Longrightarrow> existing_entity a s = Ok e \<Longrightarrow> mi_eq e (signer (existing_member_signature a))"
  by (auto simp: existing_entity_def Let_def split: option.splits if_splits
      intro: st_get_identifier mi_eq_sym)

lemma AddAssociation_Ok:
  assumes "AddAssociation_update_state H a st ts = Ok s'"
  obtains s e where "st = Some s" "list_all (\<lambda>g. \<not> has_seen s g) (AddAssociation_signatures a)"
    "mi_eq (signer (new_member_signature a)) (new_member_identifier a)"
    "\<not> mi_eq (signer (new_member_signature a)) (signer (existing_member_signature a))"
    "existing_entity a s = Ok e"
    "\<not> (mi_kind (signer (existing_member_signature a)) = KInstallation \<and>
        mi_kind (new_member_identifier a) = KInstallation)"
    "s' = st_add s (Member_new (signer (new_member_signature a)) (Some e) (Some ts)
            (sig_chain_id (new_member_signature a)))"
  using assms
  by (fastforce simp: AddAssociation_update_state_def action_elims replay_check_Ok allowed_association_def
      split: if_splits)

interpretation add: identity_action "AddAssociation_update_state H a" "AddAssociation_signatures a" for H a
proof unfold_locales
  fix st ts s'
  assume ok: "pred_option state_ok st" and upd: "AddAssociation_update_state H a st ts = Ok s'"
  from upd show "state_ok s'"
  proof (rule AddAssociation_Ok)
    fix s e
    assume st: "st = Some s" and sg: "mi_eq (signer (new_member_signature a)) (new_member_identifier a)"
      and e: "existing_entity a s = Ok e"
      and kinds: "\<not> (mi_kind (signer (existing_member_signature a)) = KInstallation \<and>
        mi_kind (new_member_identifier a) = KInstallation)"
      and s': "s' = st_add s (Member_new (signer (new_member_signature a)) (Some e) (Some ts)
            (sig_chain_id (new_member_signature a)))"
    from ok st have s: "state_ok s" by simp
    have "mi_kind e = mi_kind (signer (existing_member_signature a))"
      using existing_entity_kind [OF s e] by (rule mi_eq_kind)
    with kinds mi_eq_kind [OF sg] show "state_ok s'"
      unfolding s' by (intro state_ok_add [OF s]) (auto simp: entry_ok_def Member_new_def Member_kind_def)
  qed
qed (auto elim: AddAssociation_Ok)

text \<open>What a successful \<open>RevokeAssociation\<close> tells.\<close>

definition revocation :: "association_state \<Rightarrow> member_identifier \<Rightarrow> association_state" where
  "revocation s i =
     fold (\<lambda>c s. st_remove s (m_identifier c))
       (filter (\<lambda>child. Member_kind child = KInstallation) (members_by_parent s i)) (st_remove s i)"

lemma RevokeAssociation_Ok:
  assumes "RevokeAssociation_update_state a st ts = Ok s'"
  obtains s where "st = Some s" "list_all (\<lambda>g. \<not> has_seen s g) (RevokeAssociation_signatures a)"
    "\<not> is_legacy_signature (ra_recovery_identifier_signature a)"
    "mi_eq (signer (ra_recovery_identifier_signature a)) (mi_of_id (recovery_identifier s))"
    "s' = revocation s (revoked_member a)"
  using assms
  by (fastforce simp: RevokeAssociation_update_state_def action_elims replay_check_Ok revocation_def)

lemma removals_fields:
  "inbox_id (fold (\<lambda>c s. st_remove s (m_identifier c)) cs s) = inbox_id s"
  "has_seen (fold (\<lambda>c s. st_remove s (m_identifier c)) cs s) = has_seen s"
  "recovery_identifier (fold (\<lambda>c s. st_remove s (m_identifier c)) cs s) = recovery_identifier s"
  "state_ok s \<Longrightarrow> state_ok (fold (\<lambda>c s. st_remove s (m_identifier c)) cs s)"
  by (induction cs arbitrary: s) (simp_all add: state_ok_remove)

lemma removals_get:
  "st_get (fold (\<lambda>c s. st_remove s (m_identifier c)) cs s) i =
     (if \<exists>c \<in> set cs. mi_eq (m_identifier c) i then None else st_get s i)"
  by (induction cs arbitrary: s) (auto simp: st_get_remove)

interpretation revoke: identity_action "RevokeAssociation_update_state a" "RevokeAssociation_signatures a" for a
  by unfold_locales
    (auto elim!: RevokeAssociation_Ok simp: revocation_def removals_fields state_ok_remove)

lemma ChangeRecoveryIdentity_Ok:
  assumes "ChangeRecoveryIdentity_update_state a st ts = Ok s'"
  obtains s where "st = Some s" "list_all (\<lambda>g. \<not> has_seen s g) (ChangeRecoveryIdentity_signatures a)"
    "\<not> is_legacy_signature (cr_recovery_identifier_signature a)"
    "mi_eq (mi_of_id (recovery_identifier s)) (signer (cr_recovery_identifier_signature a))"
    "s' = set_recovery_identifier s (new_recovery_identifier a)"
  using assms
  by (fastforce simp: ChangeRecoveryIdentity_update_state_def action_elims replay_check_Ok id_eq_member_iff)

interpretation change: identity_action "ChangeRecoveryIdentity_update_state a" "ChangeRecoveryIdentity_signatures a" for a
  by unfold_locales (auto elim!: ChangeRecoveryIdentity_Ok)

interpretation act: identity_action "Action_update_state H a" "Action_signatures a" for H a
proof unfold_locales
  fix st ts s'
  show "pred_option state_ok st \<Longrightarrow> Action_update_state H a st ts = Ok s' \<Longrightarrow> state_ok s'"
    by (cases a) (auto simp: Action_update_state_def
        intro: create.update_ok add.update_ok revoke.update_ok change.update_ok)
next
  fix s ts s'
  assume "Action_update_state H a (Some s) ts = Ok s'"
  then show "inbox_id s' = inbox_id s" and "has_seen s' = has_seen s"
    and "list_all (\<lambda>g. \<not> has_seen s g) (Action_signatures a)"
    by (cases a; simp add: Action_update_state_def Action_signatures_def
        create.update_inbox add.update_inbox revoke.update_inbox change.update_inbox
        create.update_seen add.update_seen revoke.update_seen change.update_seen
        create.update_fresh add.update_fresh revoke.update_fresh change.update_fresh)+
qed

section \<open>Runs of actions\<close>

lemma apply_actions_keep:
  assumes "apply_actions H ts as (Some s) = Ok st"
  shows "\<exists>s'. st = Some s' \<and> inbox_id s' = inbox_id s \<and> has_seen s' = has_seen s \<and>
    list_all (\<lambda>g. \<not> has_seen s g) (concat (map Action_signatures as))"
  using assms
proof (induction as arbitrary: s)
  case Nil
  then show ?case by auto
next
  case (Cons a as)
  then obtain t where t: "Action_update_state H a (Some s) ts = Ok t" "apply_actions H ts as (Some t) = Ok st"
    by (auto simp: rbind_eq_Ok)
  note act = act.update_inbox [OF t(1)] act.update_seen [OF t(1)] act.update_fresh [OF t(1)]
  from Cons.IH [OF t(2)] act show ?case by auto
qed

lemma apply_actions_state_ok:
  "apply_actions H ts as st = Ok st' \<Longrightarrow> pred_option state_ok st \<Longrightarrow> pred_option state_ok st'"
proof (induction as arbitrary: st)
  case Nil
  then show ?case by simp
next
  case (Cons a as)
  then obtain t where t: "Action_update_state H a st ts = Ok t" "apply_actions H ts as (Some t) = Ok st'"
    by (auto simp: rbind_eq_Ok)
  have "state_ok t" by (rule act.update_ok [OF Cons.prems(2) t(1)])
  with Cons.IH [OF t(2)] show ?case by simp
qed

lemma update_state_Ok:
  assumes "IdentityUpdate_update_state H u st = Ok s'"
  obtains t where "apply_actions H (iu_client_timestamp_ns u) (actions u) st = Ok (Some t)"
    "inbox_id t = iu_inbox_id u" "s' = add_seen_signatures t (IdentityUpdate_signatures u)"
  using assms by (auto simp: IdentityUpdate_update_state_def rbind_eq_Ok split: if_splits)

lemma apply_update_Ok:
  assumes "apply_update H s u = Ok s'"
  shows "inbox_id s' = inbox_id s" and "inbox_id s = iu_inbox_id u"
    and "has_seen s' g \<longleftrightarrow> has_seen s g \<or> g \<in> set (IdentityUpdate_signatures u)"
    and "g \<in> set (IdentityUpdate_signatures u) \<Longrightarrow> \<not> has_seen s g"
proof -
  from assms obtain t where t: "apply_actions H (iu_client_timestamp_ns u) (actions u) (Some s) = Ok (Some t)"
    "inbox_id t = iu_inbox_id u" "s' = add_seen_signatures t (IdentityUpdate_signatures u)"
    unfolding apply_update_def by (rule update_state_Ok)
  from apply_actions_keep [OF t(1)] t(2,3)
  show "inbox_id s' = inbox_id s" and "inbox_id s = iu_inbox_id u"
    and "has_seen s' g \<longleftrightarrow> has_seen s g \<or> g \<in> set (IdentityUpdate_signatures u)"
    and "g \<in> set (IdentityUpdate_signatures u) \<Longrightarrow> \<not> has_seen s g"
    by (auto simp: has_seen_add list_all_iff IdentityUpdate_signatures_def)
qed

lemma get_state_cases:
  assumes "get_state H us = Ok s"
  obtains u us' s1 where "us = u # us'" "IdentityUpdate_update_state H u None = Ok s1"
    "get_state_from H us' (Some s1) = Ok (Some s)"
  using assms by (cases us) (auto simp: get_state_def rbind_eq_Ok)

lemma get_state_from_keep:
  assumes "get_state_from H us (Some s) = Ok (Some s')"
  shows "inbox_id s' = inbox_id s" and "list_all (\<lambda>u. iu_inbox_id u = inbox_id s) us"
    and "has_seen s' g \<longleftrightarrow> has_seen s g \<or> g \<in> set (concat (map IdentityUpdate_signatures us))"
    and "state_ok s \<Longrightarrow> state_ok s'"
  using assms
proof (induction us arbitrary: s)
  case Nil
  { case 1 then show ?case by simp next case 2 then show ?case by simp
  next case 3 then show ?case by simp next case 4 then show ?case by simp }
next
  case (Cons u us)
  have step: "\<exists>t. apply_update H s u = Ok t \<and> get_state_from H us (Some t) = Ok (Some s')"
    if "get_state_from H (u # us) (Some s) = Ok (Some s')" for s
    using that by (auto simp: rbind_eq_Ok apply_update_def)
  {
    case 1
    from step [OF this] show ?case using Cons.IH(1) apply_update_Ok(1) by fastforce
  next
    case 2
    from step [OF this] show ?case using Cons.IH(2) apply_update_Ok(1,2) by fastforce
  next
    case 3
    from step [OF this] show ?case using Cons.IH(3) apply_update_Ok(3) by fastforce
  next
    case 4
    from step [OF this(2)] obtain t where t: "apply_update H s u = Ok t" "get_state_from H us (Some t) = Ok (Some s')"
      by blast
    have "state_ok t"
      using t(1) 4(1) apply_actions_state_ok unfolding apply_update_def
      by (elim update_state_Ok) fastforce
    with Cons.IH(4) t(2) show ?case by blast
  }
qed

section \<open>Properties of the identity log\<close>

text \<open>
  A log is accepted only when it starts by creating the inbox: the inbox id is the one
  derived from the creating identifier and nonce, every update of the log names that inbox id, and
  no later update changes it.
\<close>

theorem get_state_inbox_id:
  assumes "get_state H us = Ok s"
  shows "\<exists>u us' c as. us = u # us' \<and> actions u = CreateInbox c # as \<and>
    inbox_id_of H (ci_account_identifier c) (ci_nonce c) = Ok (inbox_id s) \<and>
    list_all (\<lambda>u. iu_inbox_id u = inbox_id s) us"
proof -
  from assms obtain u us' s1 where us: "us = u # us'" and u: "IdentityUpdate_update_state H u None = Ok s1"
    and rest: "get_state_from H us' (Some s1) = Ok (Some s)"
    by (rule get_state_cases)
  from u obtain t where t: "apply_actions H (iu_client_timestamp_ns u) (actions u) None = Ok (Some t)"
    "inbox_id t = iu_inbox_id u" "s1 = add_seen_signatures t (IdentityUpdate_signatures u)"
    by (rule update_state_Ok)
  from t(1) obtain a as s0 where a: "actions u = a # as"
    "Action_update_state H a None (iu_client_timestamp_ns u) = Ok s0"
    "apply_actions H (iu_client_timestamp_ns u) as (Some s0) = Ok (Some t)"
    by (cases "actions u") (auto simp: rbind_eq_Ok)
  obtain c where c: "a = CreateInbox c"
    using a(2) by (cases a) (auto simp: Action_update_state_def
        elim: AddAssociation_Ok RevokeAssociation_Ok ChangeRecoveryIdentity_Ok)
  have "inbox_id_of H (ci_account_identifier c) (ci_nonce c) = Ok (inbox_id s0)"
    using a(2) by (auto simp: c Action_update_state_def CreateInbox_update_state_def action_elims
        AssociationState_new_def split: if_splits)
  moreover have "inbox_id s0 = inbox_id s1" using apply_actions_keep [OF a(3)] t(3) by simp
  ultimately show ?thesis
    using us a(1) c t(2,3) get_state_from_keep(1,2) [OF rest] by auto
qed

lemma get_state_ok:
  assumes "get_state H us = Ok s"
  shows "state_ok s"
proof -
  from assms obtain u us' s1 where u: "IdentityUpdate_update_state H u None = Ok s1"
    and rest: "get_state_from H us' (Some s1) = Ok (Some s)"
    by (rule get_state_cases)
  have "state_ok s1"
    using u apply_actions_state_ok by (elim update_state_Ok) fastforce
  with rest show ?thesis by (rule get_state_from_keep(4))
qed

text \<open>
  In every state the log can produce, the members are a proper map under their own
  identifiers, no installation stands there without a parent that is not an installation, and no
  seen signature is recorded twice.
\<close>

theorem get_state_invariant:
  assumes "get_state H us = Ok s"
  shows "state_ok s"
  using assms by (rule get_state_ok)

text \<open>
  Property C4. Signatures are used once: when an update is accepted, all its signatures are new,
  they are all recorded and none is forgotten; afterwards every update that carries any of them is
  refused, in particular the same update again.
\<close>

theorem signatures_used_once:
  assumes "apply_update H s u = Ok s'"
  shows "list_all (\<lambda>g. \<not> has_seen s g \<and> has_seen s' g) (IdentityUpdate_signatures u) \<and>
    (\<forall>g. has_seen s g \<longrightarrow> has_seen s' g) \<and>
    (\<forall>v. (\<exists>g \<in> set (IdentityUpdate_signatures v). has_seen s' g) \<longrightarrow> \<not> is_ok (apply_update H s' v)) \<and>
    (actions u \<noteq> [] \<longrightarrow> \<not> is_ok (apply_update H s' u))"
proof -
  have refused: "\<not> is_ok (apply_update H s' v)"
    if "g \<in> set (IdentityUpdate_signatures v)" "has_seen s' g" for g v
    using that apply_update_Ok(4) [of H s' v] by (auto simp: is_ok_iff)
  have "\<exists>g. g \<in> set (IdentityUpdate_signatures u)" if "actions u \<noteq> []"
  proof -
    have "Action_signatures a \<noteq> []" for a
      by (cases a) (simp_all add: Action_signatures_def CreateInbox_signatures_def AddAssociation_signatures_def
          RevokeAssociation_signatures_def ChangeRecoveryIdentity_signatures_def)
    then have "Action_signatures (hd (actions u)) \<noteq> []" .
    with that show ?thesis
      by (cases "actions u") (auto simp: IdentityUpdate_signatures_def neq_Nil_conv)
  qed
  then show ?thesis
    using refused apply_update_Ok(3,4) [OF assms] by (auto simp: list_all_iff)
qed

lemma revocation_get:
  assumes "state_ok s"
  shows "st_get (revocation s k) i =
    (if mi_eq k i \<or> (\<exists>m. st_get s i = Some m \<and> Member_kind m = KInstallation \<and>
          opt_mi_eq (added_by_entity m) (Some k)) then None else st_get s i)"
proof -
  let ?cs = "filter (\<lambda>child. Member_kind child = KInstallation) (members_by_parent s k)"
  have "(\<exists>c \<in> set ?cs. mi_eq (m_identifier c) i) \<longleftrightarrow>
      (\<exists>m. st_get s i = Some m \<and> Member_kind m = KInstallation \<and> opt_mi_eq (added_by_entity m) (Some k))"
  proof
    assume "\<exists>c \<in> set ?cs. mi_eq (m_identifier c) i"
    then obtain c where c: "c \<in> set (map snd (members s))" "Member_kind c = KInstallation"
        "opt_mi_eq (added_by_entity c) (Some k)" "mi_eq (m_identifier c) i"
      by (auto simp: members_by_parent_def)
    from c(1) have "st_get s (m_identifier c) = Some c" using state_ok_lookup [OF assms] by blast
    then have "st_get s i = Some c" using mi.hm_get_cong [OF c(4), of "members s"] by (simp add: st_get_def)
    with c show "\<exists>m. st_get s i = Some m \<and> Member_kind m = KInstallation \<and>
        opt_mi_eq (added_by_entity m) (Some k)" by blast
  next
    assume "\<exists>m. st_get s i = Some m \<and> Member_kind m = KInstallation \<and> opt_mi_eq (added_by_entity m) (Some k)"
    then obtain m where m: "st_get s i = Some m" "Member_kind m = KInstallation"
        "opt_mi_eq (added_by_entity m) (Some k)" by blast
    have "m \<in> set (map snd (members s))" using hm_get_SomeD [OF m(1) [unfolded st_get_def]] by auto
    with m st_get_identifier [OF assms m(1)] show "\<exists>c \<in> set ?cs. mi_eq (m_identifier c) i"
      by (auto simp: members_by_parent_def)
  qed
  then show ?thesis
    unfolding revocation_def removals_get st_get_remove by auto
qed

text \<open>
  Revocation is accepted exactly when the inbox exists, the signature is new, comes
  from the current recovery identifier, is not a legacy one and matches the chain the recovery
  member was added on. It then removes the revoked member and the installations that member added,
  and nothing else; the recovery identifier, the inbox id and the seen signatures stay.
\<close>

theorem revoke_exact:
  assumes "state_ok s"
  shows "is_ok (RevokeAssociation_update_state a (Some s) ts) =
      (\<not> has_seen s (raw_bytes (ra_recovery_identifier_signature a)) \<and>
       mi_eq (signer (ra_recovery_identifier_signature a)) (mi_of_id (recovery_identifier s)) \<and>
       sig_kind (ra_recovery_identifier_signature a) \<noteq> LegacyDelegated \<and>
       is_ok (chain_check s (ra_recovery_identifier_signature a))) \<and>
    (\<forall>s' i. RevokeAssociation_update_state a (Some s) ts = Ok s' \<longrightarrow>
       st_get s' i = (if mi_eq (revoked_member a) i \<or>
           (\<exists>m. st_get s i = Some m \<and> Member_kind m = KInstallation \<and>
              opt_mi_eq (added_by_entity m) (Some (revoked_member a))) then None else st_get s i) \<and>
       recovery_identifier s' = recovery_identifier s \<and> inbox_id s' = inbox_id s \<and> has_seen s' = has_seen s)"
proof (intro conjI allI impI)
  show "is_ok (RevokeAssociation_update_state a (Some s) ts) =
      (\<not> has_seen s (raw_bytes (ra_recovery_identifier_signature a)) \<and>
       mi_eq (signer (ra_recovery_identifier_signature a)) (mi_of_id (recovery_identifier s)) \<and>
       sig_kind (ra_recovery_identifier_signature a) \<noteq> LegacyDelegated \<and>
       is_ok (chain_check s (ra_recovery_identifier_signature a)))"
    by (auto simp: is_ok_iff RevokeAssociation_update_state_def action_elims replay_check_Ok
        RevokeAssociation_signatures_def is_legacy_signature_def)
next
  fix s' i
  assume upd: "RevokeAssociation_update_state a (Some s) ts = Ok s'"
  then have s': "s' = revocation s (revoked_member a)" by (auto elim: RevokeAssociation_Ok)
  show "st_get s' i = (if mi_eq (revoked_member a) i \<or>
           (\<exists>m. st_get s i = Some m \<and> Member_kind m = KInstallation \<and>
              opt_mi_eq (added_by_entity m) (Some (revoked_member a))) then None else st_get s i)"
    unfolding s' by (rule revocation_get [OF assms])
  show "recovery_identifier s' = recovery_identifier s"
    by (simp add: s' revocation_def removals_fields)
  show "inbox_id s' = inbox_id s" "has_seen s' = has_seen s"
    using revoke.update_inbox [OF upd] revoke.update_seen [OF upd] by simp_all
qed

text \<open>
  An association is added only by someone entitled to: the new member signed for
  itself and is not the existing signer; the existing signer is a member, or the recovery
  identifier with a signature that is not a legacy one; an installation never adds an installation.
  The new member then looks up with its parent and timestamp, and every other member is untouched.
\<close>

theorem add_authorized:
  assumes "AddAssociation_update_state H a (Some s) ts = Ok s'"
  shows "mi_eq (signer (new_member_signature a)) (new_member_identifier a) \<and>
    \<not> mi_eq (signer (new_member_signature a)) (signer (existing_member_signature a)) \<and>
    (st_get s (signer (existing_member_signature a)) \<noteq> None \<or>
       mi_eq (signer (existing_member_signature a)) (mi_of_id (recovery_identifier s)) \<and>
       sig_kind (existing_member_signature a) \<noteq> LegacyDelegated) \<and>
    \<not> (mi_kind (signer (existing_member_signature a)) = KInstallation \<and>
       mi_kind (new_member_identifier a) = KInstallation) \<and>
    (\<exists>parent. existing_entity a s = Ok parent \<and>
       (\<forall>i. st_get s' i = (if mi_eq (signer (new_member_signature a)) i
          then Some (Member_new (signer (new_member_signature a)) (Some parent) (Some ts)
                       (sig_chain_id (new_member_signature a)))
          else st_get s i)))"
  using assms
proof (rule AddAssociation_Ok)
  fix t e
  assume t: "Some s = Some t" and e: "existing_entity a t = Ok e"
    and g: "mi_eq (signer (new_member_signature a)) (new_member_identifier a)"
      "\<not> mi_eq (signer (new_member_signature a)) (signer (existing_member_signature a))"
      "\<not> (mi_kind (signer (existing_member_signature a)) = KInstallation \<and>
        mi_kind (new_member_identifier a) = KInstallation)"
    and s': "s' = st_add t (Member_new (signer (new_member_signature a)) (Some e) (Some ts)
            (sig_chain_id (new_member_signature a)))"
  have "st_get s (signer (existing_member_signature a)) \<noteq> None \<or>
       mi_eq (signer (existing_member_signature a)) (mi_of_id (recovery_identifier s)) \<and>
       sig_kind (existing_member_signature a) \<noteq> LegacyDelegated"
    using e t by (auto simp: existing_entity_def Let_def is_legacy_signature_def split: option.splits if_splits)
  moreover have "existing_entity a s = Ok e" using e t by simp
  moreover have "st_get s' i = (if mi_eq (signer (new_member_signature a)) i
      then Some (Member_new (signer (new_member_signature a)) (Some e) (Some ts) (sig_chain_id (new_member_signature a)))
      else st_get s i)" for i
    using t by (simp add: s' st_get_add Member_new_def)
  ultimately show ?thesis using g by blast
qed

text \<open>Whoever enters or leaves the member set of an inbox, or takes over its recovery, does so by a signature.\<close>

lemma apply_actions_signed:
  assumes "apply_actions H ts as (Some s) = Ok (Some s')" and "state_ok s"
  shows "(st_get s i = None \<and> st_get s' i \<noteq> None \<longrightarrow>
        (\<exists>a. AddAssociation a \<in> set as \<and> mi_eq (signer (new_member_signature a)) i)) \<and>
    (st_get s i \<noteq> None \<and> st_get s' i = None \<longrightarrow>
        (\<exists>a. RevokeAssociation a \<in> set as \<and> (mi_eq (revoked_member a) i \<or> mi_kind i = KInstallation))) \<and>
    (recovery_identifier s' \<noteq> recovery_identifier s \<longrightarrow> (\<exists>a. ChangeRecoveryIdentity a \<in> set as \<and>
        mi_eq (mi_of_id (recovery_identifier s)) (signer (cr_recovery_identifier_signature a))))"
  using assms
proof (induction as arbitrary: s)
  case Nil
  then show ?case by auto
next
  case (Cons a as)
  then obtain t where t: "Action_update_state H a (Some s) ts = Ok t" "apply_actions H ts as (Some t) = Ok (Some s')"
    by (auto simp: rbind_eq_Ok)
  have ok: "state_ok t" using act.update_ok [OF _ t(1)] Cons.prems(2) by simp
  note IH = Cons.IH [OF t(2) ok]
  show ?case
  proof (cases a)
    case (CreateInbox c)
    with t(1) show ?thesis by (simp add: Action_update_state_def CreateInbox_update_state_def)
  next
    case (AddAssociation c)
    with t(1) have u: "AddAssociation_update_state H c (Some s) ts = Ok t" by (simp add: Action_update_state_def)
    obtain e where e: "t = st_add s (Member_new (signer (new_member_signature c)) (Some e) (Some ts)
        (sig_chain_id (new_member_signature c)))"
      using u by (elim AddAssociation_Ok) blast
    then have get: "st_get t i = (if mi_eq (signer (new_member_signature c)) i
          then Some (Member_new (signer (new_member_signature c)) (Some e) (Some ts)
                       (sig_chain_id (new_member_signature c))) else st_get s i)"
      by (simp add: st_get_add Member_new_def)
    have "recovery_identifier t = recovery_identifier s" by (simp add: e)
    with IH get show ?thesis
      by (cases "mi_eq (signer (new_member_signature c)) i") (auto simp: AddAssociation)
  next
    case (RevokeAssociation c)
    with t(1) have "RevokeAssociation_update_state c (Some s) ts = Ok t" by (simp add: Action_update_state_def)
    then have e: "t = revocation s (revoked_member c)" by (auto elim: RevokeAssociation_Ok)
    have "st_get s i = None \<Longrightarrow> st_get t i = None"
      by (simp add: e revocation_get [OF Cons.prems(2)])
    moreover have "mi_eq (revoked_member c) i \<or> mi_kind i = KInstallation"
      if "st_get s i \<noteq> None" "st_get t i = None"
    proof -
      obtain m where m: "st_get s i = Some m" using \<open>st_get s i \<noteq> None\<close> by auto
      have "Member_kind m = mi_kind i"
        using mi_eq_kind [OF st_get_identifier [OF Cons.prems(2) m]] by (simp add: Member_kind_def)
      with that m show ?thesis unfolding e revocation_get [OF Cons.prems(2)] by (auto split: if_splits)
    qed
    moreover have "recovery_identifier t = recovery_identifier s"
      by (simp add: e revocation_def removals_fields)
    ultimately show ?thesis using IH by (cases "st_get t i") (auto simp: RevokeAssociation)
  next
    case (ChangeRecoveryIdentity c)
    with t(1) have u: "ChangeRecoveryIdentity_update_state c (Some s) ts = Ok t" by (simp add: Action_update_state_def)
    then have e: "t = set_recovery_identifier s (new_recovery_identifier c)"
      and sg: "mi_eq (mi_of_id (recovery_identifier s)) (signer (cr_recovery_identifier_signature c))"
      by (auto elim: ChangeRecoveryIdentity_Ok)
    have "st_get t i = st_get s i" by (simp add: e st_get_def)
    with IH sg show ?thesis by (auto simp: ChangeRecoveryIdentity)
  qed
qed


section \<open>A concrete log\<close>

definition plain_crypto :: id_crypto where
  "plain_crypto = \<lparr> hex_encode = map (\<lambda>b. char_of (unat b)), hex_decode = (\<lambda>s. Some (map (\<lambda>c. of_char c) s)), sha256_hex = id \<rparr>"

definition demo_address :: string where
  "demo_address = ''0x'' @ replicate 40 CHR ''a''"

definition demo_sig :: "member_identifier \<Rightarrow> signature_kind \<Rightarrow> u8 \<Rightarrow> verified_signature" where
  "demo_sig i k b = \<lparr> signer = i, sig_kind = k, raw_bytes = [b], sig_chain_id = None \<rparr>"

definition demo_create :: identity_update where
  "demo_create = \<lparr> iu_inbox_id = demo_address @ ''0'', iu_client_timestamp_ns = 1,
     actions = [CreateInbox \<lparr> ci_nonce = 0, ci_account_identifier = IdEthereum demo_address,
                  initial_identifier_signature = demo_sig (Ethereum demo_address) Erc191 1 \<rparr>,
                AddAssociation \<lparr> new_member_signature = demo_sig (Installation [7]) InstallationKey 2,
                  new_member_identifier = Installation [7],
                  existing_member_signature = demo_sig (Ethereum demo_address) Erc191 3 \<rparr>] \<rparr>"

definition demo_revoke :: identity_update where
  "demo_revoke = \<lparr> iu_inbox_id = demo_address @ ''0'', iu_client_timestamp_ns = 2,
     actions = [RevokeAssociation \<lparr> ra_recovery_identifier_signature = demo_sig (Ethereum demo_address) Erc191 4,
                  revoked_member = Ethereum demo_address \<rparr>] \<rparr>"

definition demo_state :: association_state where
  "demo_state = \<lparr> inbox_id = demo_address @ ''0'',
     members = [(Ethereum demo_address, Member_new (Ethereum demo_address) None None None),
                (Installation [7], Member_new (Installation [7]) (Some (Ethereum demo_address)) (Some 1) None)],
     recovery_identifier = IdEthereum demo_address, seen_signatures = [[1], [3], [2]] \<rparr>"

definition demo_revoked :: association_state where
  "demo_revoked = demo_state\<lparr> members := [], seen_signatures := [[1], [3], [2], [4]] \<rparr>"

lemma demo_log: "get_state plain_crypto [demo_create] = Ok demo_state"
  by code_simp

lemma demo_revocation: "apply_update plain_crypto demo_state demo_revoke = Ok demo_revoked"
  by code_simp

lemma demo_state_ok: "state_ok demo_state"
  by (simp add: demo_state_def state_ok_def entry_ok_def Member_new_def Member_kind_def)

theorem get_state_inbox_id_witness:
  "list_all (\<lambda>u. iu_inbox_id u = inbox_id demo_state) [demo_create]"
  using get_state_inbox_id [OF demo_log] by blast

theorem get_state_invariant_witness: "state_ok demo_state"
  by (rule get_state_invariant [OF demo_log])

theorem signatures_used_once_witness:
  "\<not> is_ok (apply_update plain_crypto demo_revoked demo_revoke) \<and> has_seen demo_revoked [4]"
  using signatures_used_once [OF demo_revocation]
  by (simp add: demo_revoke_def demo_revoked_def has_seen_def hs_contains_def)

definition demo_revoke_action :: revoke_association where
  "demo_revoke_action = \<lparr> ra_recovery_identifier_signature = demo_sig (Ethereum demo_address) Erc191 4,
     revoked_member = Ethereum demo_address \<rparr>"

theorem revoke_exact_witness:
  "is_ok (RevokeAssociation_update_state demo_revoke_action (Some demo_state) 2)"
proof -
  have "\<not> has_seen demo_state [4]" by (simp add: has_seen_def demo_state_def hs_contains_def)
  moreover have "is_ok (chain_check demo_state (demo_sig (Ethereum demo_address) Erc191 4))"
    by (simp add: chain_check_def st_get_def demo_state_def demo_sig_def verify_chain_id_matches_def Member_new_def)
  ultimately show ?thesis
    using revoke_exact [OF demo_state_ok, of demo_revoke_action 2]
    by (simp add: demo_revoke_action_def demo_sig_def demo_state_def)
qed

definition demo_add_action :: add_association where
  "demo_add_action = \<lparr> new_member_signature = demo_sig (Installation [8]) InstallationKey 5,
     new_member_identifier = Installation [8],
     existing_member_signature = demo_sig (Ethereum demo_address) Erc191 6 \<rparr>"

definition demo_added :: association_state where
  "demo_added = st_add demo_state (Member_new (Installation [8]) (Some (Ethereum demo_address)) (Some 9) None)"

lemma demo_addition: "AddAssociation_update_state plain_crypto demo_add_action (Some demo_state) 9 = Ok demo_added"
  by code_simp

theorem add_authorized_witness:
  "st_get demo_state (Ethereum demo_address) \<noteq> None \<and> st_get demo_added (Installation [8]) \<noteq> None"
  using add_authorized [OF demo_addition] by (auto simp: demo_add_action_def demo_sig_def st_get_def demo_state_def)


end
