(* ===== verification/Signatures.thy ===== *)
theory Signatures
  imports Association_Log
begin

text \<open>
  Signatures of an identity update, from bytes on the wire to \<open>VerifiedSignature\<close>:
  \<open>xmtp_id/src/associations/verified_signature.rs\<close> and the account ids, legacy keys and \<open>to_lower_s\<close>
  of \<open>signature.rs\<close>.

  The cryptography is in other crates: \<open>sig_crypto\<close> has one field per library call the sources make
  (curve arithmetic, hashes, base64, the JSON of a passkey, the protobuf decoder of a legacy key, the
  formatting of a date and the smart contract verifier, which is an RPC service). A call that can fail
  returns an option; the sources turn its failure into the error written here.
\<close>

section \<open>Account ids\<close>

record account_id =
  chain_id :: string
  account_address :: string

datatype account_id_error = InvalidChainId | MissingEip155Prefix

definition AccountId_new_evm :: "u64 \<Rightarrow> string \<Rightarrow> account_id" where
  "AccountId_new_evm n a = \<lparr> chain_id = ''eip155:'' @ show_u64 n, account_address = a \<rparr>"

definition is_evm_chain :: "account_id \<Rightarrow> bool" where
  "is_evm_chain a \<longleftrightarrow> strip_prefix ''eip155'' (chain_id a) \<noteq> None"

definition digit_value :: "char \<Rightarrow> nat option" where
  "digit_value c = (let n = (of_char c :: nat) in if 48 \<le> n \<and> n \<le> 57 then Some (n - 48) else None)"

text \<open>
  \<open>str::parse::<u64>\<close> of the standard library: an optional plus sign, then at least one decimal digit
  and nothing else, with a value below \<open>2 ^ 64\<close>.
\<close>

fun parse_digits :: "nat \<Rightarrow> string \<Rightarrow> nat option" where
  "parse_digits acc [] = Some acc"
| "parse_digits acc (c # cs) =
     (case digit_value c of None \<Rightarrow> None | Some d \<Rightarrow> parse_digits (10 * acc + d) cs)"

definition parse_u64 :: "string \<Rightarrow> u64 option" where
  "parse_u64 s =
     (let ds = (case s of c # cs \<Rightarrow> if c = CHR ''+'' then cs else s | [] \<Rightarrow> []) in
      if ds = [] then None
      else case parse_digits 0 ds of
             Some n \<Rightarrow> if n < 2 ^ 64 then Some (of_nat n) else None
           | None \<Rightarrow> None)"

definition get_chain_id_u64 :: "account_id \<Rightarrow> (account_id_error, u64) result" where
  "get_chain_id_u64 a =
     rbind (ok_or (strip_prefix ''eip155:'' (chain_id a)) MissingEip155Prefix) (\<lambda>stripped.
     ok_or (parse_u64 stripped) InvalidChainId)"

section \<open>The libraries and the errors\<close>

datatype signature_error =
    MalformedLegacyKey string
  | CryptoSignatureError
  | VerifierError
  | Ed25519Error
  | TryFromSliceError
  | SigInvalid
  | AddressValidationError identifier_validation_error
  | UrlParseError
  | DecodeError
  | AccountIdErr account_id_error
  | SignerErr
  | InvalidPublicKeyErr
  | InvalidClientData
  | AlloySignerErr
  | AlloySignatureErr

record validation_response =
  is_valid :: bool
  response_block_number :: "u64 option"

record sig_crypto = id_crypto +
  k256_normalize_s :: "bytes \<Rightarrow> bytes option option"
  recover_address_from_msg :: "bytes \<Rightarrow> string \<Rightarrow> bytes option"
  ed25519_verify_prehashed :: "bytes \<Rightarrow> string \<Rightarrow> bytes \<Rightarrow> bool"
  client_data_of_json :: "bytes \<Rightarrow> (string \<times> string) option"
  base64_url :: "string \<Rightarrow> string"
  p256_key_ok :: "bytes \<Rightarrow> bool"
  p256_sig_of_der :: "bytes \<Rightarrow> bytes option"
  p256_verify :: "bytes \<Rightarrow> bytes \<Rightarrow> bytes \<Rightarrow> bool"
  sha256_bytes :: "bytes \<Rightarrow> bytes"
  address_of_sec1 :: "bytes \<Rightarrow> bytes option"
  decode_unsigned_public_key :: "bytes \<Rightarrow> (bytes option \<times> u64) option"
  eip191_hash_message :: "string \<Rightarrow> bytes"
  is_valid_signature :: "account_id \<Rightarrow> bytes \<Rightarrow> bytes \<Rightarrow> u64 option \<Rightarrow> validation_response option"
  pretty_timestamp :: "u64 \<Rightarrow> string"

abbreviation (input) libs :: "sig_crypto \<Rightarrow> id_crypto" where
  "libs K \<equiv> id_crypto.truncate K"

section \<open>Verified signatures\<close>

definition to_lower_s :: "sig_crypto \<Rightarrow> bytes \<Rightarrow> (signature_error, bytes) result" where
  "to_lower_s K sig_bytes =
     rbind (if length sig_bytes = 64 then Ok (sig_bytes, None)
            else if length sig_bytes = 65 then Ok (take 64 sig_bytes, Some (sig_bytes ! 64))
            else Err SigInvalid) (\<lambda>(sig_data, recovery_id).
     rbind (ok_or (k256_normalize_s K sig_data) Ed25519Error) (\<lambda>s.
     let normalized = (case s of None \<Rightarrow> sig_data | Some n \<Rightarrow> n) in
     case recovery_id of
       Some rid \<Rightarrow> Ok (normalized @ [rid])
     | None \<Rightarrow> Ok normalized))"

definition h160addr_to_string :: "sig_crypto \<Rightarrow> bytes \<Rightarrow> string" where
  "h160addr_to_string K b = map ascii_lower (''0x'' @ hex_encode K b)"

definition from_recoverable_ecdsa :: "sig_crypto \<Rightarrow> string \<Rightarrow> bytes \<Rightarrow> (signature_error, verified_signature) result" where
  "from_recoverable_ecdsa K signature_text signature_bytes =
     rbind (to_lower_s K signature_bytes) (\<lambda>normalized.
     rbind (ok_or (recover_address_from_msg K normalized signature_text) AlloySignatureErr) (\<lambda>address.
     rbind (map_err AddressValidationError (mi_eth (h160addr_to_string K address))) (\<lambda>i.
     Ok \<lparr> signer = i, sig_kind = Erc191, raw_bytes = normalized, sig_chain_id = None \<rparr>)))"

definition from_installation_key :: "sig_crypto \<Rightarrow> string \<Rightarrow> bytes \<Rightarrow> bytes \<Rightarrow> (signature_error, verified_signature) result" where
  "from_installation_key K signature_text signature_bytes verifying_key =
     (if length signature_bytes \<noteq> 64 then Err TryFromSliceError
      else if \<not> ed25519_verify_prehashed K verifying_key signature_text signature_bytes then Err Ed25519Error
      else Ok \<lparr> signer = Installation verifying_key, sig_kind = InstallationKey, raw_bytes = signature_bytes,
                sig_chain_id = None \<rparr>)"

definition from_passkey ::
    "sig_crypto \<Rightarrow> string \<Rightarrow> bytes \<Rightarrow> bytes \<Rightarrow> bytes \<Rightarrow> bytes \<Rightarrow> (signature_error, verified_signature) result" where
  "from_passkey K signature_text public_key sig authenticator_data client_data_json =
     rbind (ok_or (client_data_of_json K client_data_json) InvalidClientData) (\<lambda>(origin, challenge).
     if base64_url K signature_text \<noteq> challenge then Err InvalidClientData
     else if \<not> p256_key_ok K public_key then Err InvalidPublicKeyErr
     else
     rbind (ok_or (p256_sig_of_der K sig) SigInvalid) (\<lambda>signature.
     let verification_data = authenticator_data @ sha256_bytes K client_data_json in
     if \<not> p256_verify K public_key verification_data signature then Err Ed25519Error
     else Ok \<lparr> signer = Passkey (Passkey_mk public_key (Some origin)), sig_kind = P256, raw_bytes = signature,
               sig_chain_id = None \<rparr>))"

text \<open>The legacy key a wallet delegated to: the protobuf message and its validation.\<close>

datatype ecdsa_union = WalletEcdsaCompact bytes u32 | EcdsaCompact bytes u32

record legacy_signed_public_key_proto =
  key_bytes :: bytes
  lpk_signature :: "ecdsa_union option option"

record validated_legacy_signed_public_key =
  vl_account_address :: string
  serialized_key_data :: bytes
  wallet_signature :: verified_signature
  public_key_bytes :: bytes
  created_ns :: u64

definition legacy_key_text :: "sig_crypto \<Rightarrow> bytes \<Rightarrow> string" where
  "legacy_key_text K serialized =
     ''XMTP : Create Identity'' @ [CHR 0x0A] @ hex_encode K serialized @ [CHR 0x0A, CHR 0x0A] @
     ''For more info: https://xmtp.org/signatures/''"

definition ValidatedLegacySignedPublicKey_try_from ::
    "sig_crypto \<Rightarrow> legacy_signed_public_key_proto \<Rightarrow> (signature_error, validated_legacy_signed_public_key) result" where
  "ValidatedLegacySignedPublicKey_try_from K proto =
     rbind (ok_or (lpk_signature proto) SigInvalid) (\<lambda>u.
     rbind (ok_or u SigInvalid) (\<lambda>union.
     let (b, recovery) = (case union of WalletEcdsaCompact b r \<Rightarrow> (b, r) | EcdsaCompact b r \<Rightarrow> (b, r));
         sig = b @ [ucast recovery]
     in
     if length sig \<noteq> 65 then Err SigInvalid
     else
     rbind (from_recoverable_ecdsa K (legacy_key_text K (key_bytes proto)) sig) (\<lambda>v.
     rbind (map_err AddressValidationError (sanitize_evm_addresses [mi_display (libs K) (signer v)])) (\<lambda>sanitized.
     rbind (ok_or (decode_unsigned_public_key K (key_bytes proto)) SigInvalid) (\<lambda>(pk, created).
     rbind (ok_or pk SigInvalid) (\<lambda>pk_bytes.
     Ok \<lparr> vl_account_address = hd sanitized, serialized_key_data = key_bytes proto, wallet_signature = v,
          public_key_bytes = pk_bytes, created_ns = created \<rparr>))))))"

definition from_legacy_delegated ::
    "sig_crypto \<Rightarrow> string \<Rightarrow> bytes \<Rightarrow> legacy_signed_public_key_proto \<Rightarrow> (signature_error, verified_signature) result" where
  "from_legacy_delegated K signature_text signature_bytes proto =
     rbind (from_recoverable_ecdsa K signature_text signature_bytes) (\<lambda>verified_legacy.
     rbind (ValidatedLegacySignedPublicKey_try_from K proto) (\<lambda>key.
     rbind (ok_or (address_of_sec1 K (public_key_bytes key)) Ed25519Error) (\<lambda>address.
     rbind (map_err AddressValidationError (mi_eth (h160addr_to_string K address))) (\<lambda>i.
     if \<not> mi_eq i (signer verified_legacy) then Err SigInvalid
     else
     rbind (map_err AddressValidationError (mi_eth (vl_account_address key))) (\<lambda>a.
     Ok \<lparr> signer = a, sig_kind = LegacyDelegated, raw_bytes = raw_bytes (wallet_signature key),
          sig_chain_id = None \<rparr>)))))"

text \<open>
  The block number is a mutable argument: the second component is its value afterwards. It is
  overwritten before the address and the chain id of the account are read.
\<close>

definition from_smart_contract_wallet ::
    "sig_crypto \<Rightarrow> string \<Rightarrow> bytes \<Rightarrow> account_id \<Rightarrow> u64 option \<Rightarrow>
     (signature_error, verified_signature) result \<times> u64 option" where
  "from_smart_contract_wallet K signature_text signature_bytes account block_number =
     (case is_valid_signature K account (eip191_hash_message K signature_text) signature_bytes block_number of
        None \<Rightarrow> (Err VerifierError, block_number)
      | Some response \<Rightarrow>
          if is_valid response then
            (rbind (map_err AddressValidationError (mi_eth (account_address account))) (\<lambda>i.
             rbind (map_err AccountIdErr (get_chain_id_u64 account)) (\<lambda>chain.
             Ok \<lparr> signer = i, sig_kind = Erc1271, raw_bytes = signature_bytes, sig_chain_id = Some chain \<rparr>)),
             response_block_number response)
          else (Err SigInvalid, block_number))"

section \<open>Decimal numbers\<close>

lemma digit_value_show: "d < 10 \<Longrightarrow> digit_value (char_of (48 + d)) = Some d"
  by (simp add: digit_value_def Let_def of_char_of)

lemma parse_digits_append:
  "parse_digits acc (xs @ ys) = Option.bind (parse_digits acc xs) (\<lambda>a. parse_digits a ys)"
  by (induction xs arbitrary: acc) (simp_all split: option.splits)

lemma parse_show_nat: "parse_digits 0 (show_nat n) = Some n"
proof (induction n rule: show_nat.induct)
  case (1 n)
  show ?case
  proof (cases "n < 10")
    case True
    then show ?thesis by (simp add: show_nat.simps [of n] digit_value_show)
  next
    case False
    with 1 show ?thesis by (simp add: show_nat.simps [of n] parse_digits_append digit_value_show)
  qed
qed

lemma show_nat_digits: "c \<in> set (show_nat n) \<Longrightarrow> of_char c \<in> {48..57::nat}"
proof (induction n rule: show_nat.induct)
  case (1 n)
  show ?case
  proof (cases "n < 10")
    case True
    with 1 show ?thesis by (simp add: show_nat.simps [of n] of_char_of)
  next
    case False
    with 1 show ?thesis by (auto simp: show_nat.simps [of n] of_char_of)
  qed
qed

lemma show_nat_length: "n < 10 ^ Suc k \<Longrightarrow> length (show_nat n) \<le> Suc k \<and> show_nat n \<noteq> []"
proof (induction n arbitrary: k rule: show_nat.induct)
  case (1 n)
  show ?case
  proof (cases "n < 10")
    case True
    with 1 show ?thesis by (simp add: show_nat.simps [of n])
  next
    case False
    with 1(2) obtain j where j: "k = Suc j" by (cases k) auto
    have "n div 10 < 10 ^ Suc j" using 1(2) by (simp add: j less_mult_imp_div_less mult.commute)
    from 1(1) [OF False this] False j show ?thesis by (simp add: show_nat.simps [of n])
  qed
qed

lemma show_u64_digits: "c \<in> set (show_u64 n) \<Longrightarrow> of_char c \<in> {48..57::nat}"
  unfolding show_u64_def by (rule show_nat_digits)

lemma u64_bound: "unat (n :: u64) < 2 ^ 64"
proof -
  have "unat n < 2 ^ LENGTH(64)" by (rule unsigned_less)
  then show ?thesis by simp
qed

lemma show_u64_length: "length (show_u64 n) \<le> 20" "show_u64 n \<noteq> []"
proof -
  have "unat n < 10 ^ Suc 19" using u64_bound [of n] by simp
  from show_nat_length [OF this] show "length (show_u64 n) \<le> 20" "show_u64 n \<noteq> []"
    by (simp_all add: show_u64_def)
qed

lemma parse_show_u64: "parse_u64 (show_u64 n) = Some n"
proof -
  obtain c cs where c: "show_u64 n = c # cs" using show_u64_length(2) [of n] by (cases "show_u64 n") auto
  have "c \<noteq> CHR ''+''" using show_u64_digits [of c n] by (auto simp: c)
  then have "parse_u64 (show_u64 n) = (case parse_digits 0 (show_u64 n) of
      Some m \<Rightarrow> if m < 2 ^ 64 then Some (of_nat m) else None | None \<Rightarrow> None)"
    by (simp add: parse_u64_def c)
  moreover have "parse_digits 0 (show_u64 n) = Some (unat n)" unfolding show_u64_def by (rule parse_show_nat)
  ultimately show ?thesis using u64_bound [of n] by simp
qed

end
