(* ===== verification/Signature_Request.thy ===== *)
theory Signature_Request
  imports Signatures
begin

text \<open>
  The life of an identity update before it is published: the text that is signed
  (\<open>unsigned_actions.rs\<close>), the update with its unverified signatures (\<open>unverified.rs\<close>), and the request
  that collects the signatures (\<open>builder.rs\<close>).

  A \<open>SignatureRequest\<close> goes through steps that add one signature each. The lemmas show that a
  request only ever holds signatures of the identifiers it asked for over its own text, so that the
  update built from a ready request passes verification with exactly the signers that were asked for.
\<close>

section \<open>The text that is signed\<close>

record unsigned_create_inbox =
  uc_nonce :: u64
  uc_account_identifier :: public_identifier

record unsigned_add_association =
  ua_new_member_identifier :: member_identifier

record unsigned_revoke_association =
  ur_revoked_member :: member_identifier

record unsigned_change_recovery_address =
  uh_new_recovery_identifier :: public_identifier

datatype unsigned_action =
    UCreateInbox unsigned_create_inbox
  | UAddAssociation unsigned_add_association
  | URevokeAssociation unsigned_revoke_association
  | UChangeRecoveryAddress unsigned_change_recovery_address

record unsigned_identity_update =
  ui_inbox_id :: string
  ui_client_timestamp_ns :: u64
  ui_actions :: "unsigned_action list"

abbreviation (input) newline :: string where "newline \<equiv> [CHR 0x0A]"

fun get_identifier_text :: "member_kind \<Rightarrow> string" where
  "get_identifier_text KEthereum = ''Address''"
| "get_identifier_text KInstallation = ''ID''"
| "get_identifier_text KPasskey = ''Passkey''"

definition CreateInbox_text :: "sig_crypto \<Rightarrow> unsigned_create_inbox \<Rightarrow> string" where
  "CreateInbox_text K a =
     ''- Create inbox'' @ newline @ ''  (Owner: '' @ id_display (libs K) (uc_account_identifier a) @ '')''"

definition AddAssociation_text :: "sig_crypto \<Rightarrow> unsigned_add_association \<Rightarrow> string" where
  "AddAssociation_text K a =
     (let kind = mi_kind (ua_new_member_identifier a);
          prefix = (case kind of
              KInstallation \<Rightarrow> ''Grant messaging access to app''
            | KEthereum \<Rightarrow> ''Link address to inbox''
            | KPasskey \<Rightarrow> ''Link passkey to inbox'')
      in ''- '' @ prefix @ newline @ ''  ('' @ get_identifier_text kind @ '': '' @
         mi_display (libs K) (ua_new_member_identifier a) @ '')'')"

definition RevokeAssociation_text :: "sig_crypto \<Rightarrow> unsigned_revoke_association \<Rightarrow> string" where
  "RevokeAssociation_text K a =
     (let kind = mi_kind (ur_revoked_member a);
          prefix = (case kind of
              KInstallation \<Rightarrow> ''Revoke messaging access from app''
            | KEthereum \<Rightarrow> ''Unlink address from inbox''
            | KPasskey \<Rightarrow> ''Unlink passkey from inbox'')
      in ''- '' @ prefix @ newline @ ''  ('' @ get_identifier_text kind @ '': '' @
         mi_display (libs K) (ur_revoked_member a) @ '')'')"

definition ChangeRecoveryAddress_text :: "sig_crypto \<Rightarrow> unsigned_change_recovery_address \<Rightarrow> string" where
  "ChangeRecoveryAddress_text K a =
     ''- Change inbox recovery address'' @ newline @ ''  (Address: '' @
     id_display (libs K) (uh_new_recovery_identifier a) @ '')''"

fun UnsignedAction_text :: "sig_crypto \<Rightarrow> unsigned_action \<Rightarrow> string" where
  "UnsignedAction_text K (UCreateInbox a) = CreateInbox_text K a"
| "UnsignedAction_text K (UAddAssociation a) = AddAssociation_text K a"
| "UnsignedAction_text K (URevokeAssociation a) = RevokeAssociation_text K a"
| "UnsignedAction_text K (UChangeRecoveryAddress a) = ChangeRecoveryAddress_text K a"

fun join_lines :: "string list \<Rightarrow> string" where
  "join_lines [] = []"
| "join_lines [x] = x"
| "join_lines (x # xs) = x @ newline @ join_lines xs"

definition signature_text :: "sig_crypto \<Rightarrow> unsigned_identity_update \<Rightarrow> string" where
  "signature_text K u =
     ''XMTP : Authenticate to inbox'' @ newline @ newline @ ''Inbox ID: '' @ ui_inbox_id u @ newline @
     ''Current time: '' @ pretty_timestamp K (ui_client_timestamp_ns u) @ newline @ newline @
     join_lines (map (UnsignedAction_text K) (ui_actions u)) @ newline @ newline @
     ''For more info: https://xmtp.org/signatures''"

section \<open>Updates with unverified signatures\<close>

datatype unverified_signature =
    UInstallationKey bytes bytes
  | URecoverableEcdsa bytes
  | USmartContractWallet bytes account_id u64
  | ULegacyDelegated bytes legacy_signed_public_key_proto
  | UPasskey (upk_public_key: bytes) (upk_signature: bytes) (upk_authenticator_data: bytes) (upk_client_data_json: bytes)

record unverified_create_inbox =
  vc_unsigned :: unsigned_create_inbox
  vc_initial_signature :: unverified_signature

record unverified_add_association =
  va_unsigned :: unsigned_add_association
  va_new_signature :: unverified_signature
  va_existing_signature :: unverified_signature

record unverified_revoke_association =
  vr_unsigned :: unsigned_revoke_association
  vr_recovery_signature :: unverified_signature

record unverified_change_recovery_address =
  vh_unsigned :: unsigned_change_recovery_address
  vh_recovery_signature :: unverified_signature

datatype unverified_action =
    VCreateInbox unverified_create_inbox
  | VAddAssociation unverified_add_association
  | VRevokeAssociation unverified_revoke_association
  | VChangeRecoveryAddress unverified_change_recovery_address

record unverified_identity_update =
  vi_inbox_id :: string
  vi_client_timestamp_ns :: u64
  vi_actions :: "unverified_action list"

fun unsigned_action_of :: "unverified_action \<Rightarrow> unsigned_action" where
  "unsigned_action_of (VCreateInbox a) = UCreateInbox (vc_unsigned a)"
| "unsigned_action_of (VAddAssociation a) = UAddAssociation (va_unsigned a)"
| "unsigned_action_of (VRevokeAssociation a) = URevokeAssociation (vr_unsigned a)"
| "unsigned_action_of (VChangeRecoveryAddress a) = UChangeRecoveryAddress (vh_unsigned a)"

fun UnverifiedAction_signatures :: "unverified_action \<Rightarrow> unverified_signature list" where
  "UnverifiedAction_signatures (VCreateInbox a) = [vc_initial_signature a]"
| "UnverifiedAction_signatures (VAddAssociation a) = [va_existing_signature a, va_new_signature a]"
| "UnverifiedAction_signatures (VRevokeAssociation a) = [vr_recovery_signature a]"
| "UnverifiedAction_signatures (VChangeRecoveryAddress a) = [vh_recovery_signature a]"

definition UnverifiedIdentityUpdate_signatures :: "unverified_identity_update \<Rightarrow> unverified_signature list" where
  "UnverifiedIdentityUpdate_signatures u = concat (map UnverifiedAction_signatures (vi_actions u))"

definition UnverifiedIdentityUpdate_text :: "sig_crypto \<Rightarrow> unverified_identity_update \<Rightarrow> string" where
  "UnverifiedIdentityUpdate_text K u =
     signature_text K \<lparr> ui_inbox_id = vi_inbox_id u, ui_client_timestamp_ns = vi_client_timestamp_ns u,
       ui_actions = map unsigned_action_of (vi_actions u) \<rparr>"

fun UnverifiedSignature_to_verified ::
    "sig_crypto \<Rightarrow> string \<Rightarrow> unverified_signature \<Rightarrow> (signature_error, verified_signature) result" where
  "UnverifiedSignature_to_verified K text (UInstallationKey sig key) = from_installation_key K text sig key"
| "UnverifiedSignature_to_verified K text (URecoverableEcdsa sig) = from_recoverable_ecdsa K text sig"
| "UnverifiedSignature_to_verified K text (USmartContractWallet sig account block) =
     fst (from_smart_contract_wallet K text sig account (Some block))"
| "UnverifiedSignature_to_verified K text (ULegacyDelegated sig key) = from_legacy_delegated K text sig key"
| "UnverifiedSignature_to_verified K text (UPasskey pk sig auth_data json) = from_passkey K text pk sig auth_data json"

fun UnverifiedAction_to_verified ::
    "sig_crypto \<Rightarrow> string \<Rightarrow> unverified_action \<Rightarrow> (signature_error, action) result" where
  "UnverifiedAction_to_verified K text (VCreateInbox a) =
     rbind (UnverifiedSignature_to_verified K text (vc_initial_signature a)) (\<lambda>s.
     Ok (CreateInbox \<lparr> ci_nonce = uc_nonce (vc_unsigned a), ci_account_identifier = uc_account_identifier (vc_unsigned a),
       initial_identifier_signature = s \<rparr>))"
| "UnverifiedAction_to_verified K text (VAddAssociation a) =
     rbind (UnverifiedSignature_to_verified K text (va_new_signature a)) (\<lambda>n.
     rbind (UnverifiedSignature_to_verified K text (va_existing_signature a)) (\<lambda>e.
     Ok (AddAssociation \<lparr> new_member_signature = n, new_member_identifier = ua_new_member_identifier (va_unsigned a),
       existing_member_signature = e \<rparr>)))"
| "UnverifiedAction_to_verified K text (VRevokeAssociation a) =
     rbind (UnverifiedSignature_to_verified K text (vr_recovery_signature a)) (\<lambda>s.
     Ok (RevokeAssociation \<lparr> ra_recovery_identifier_signature = s, revoked_member = ur_revoked_member (vr_unsigned a) \<rparr>))"
| "UnverifiedAction_to_verified K text (VChangeRecoveryAddress a) =
     rbind (UnverifiedSignature_to_verified K text (vh_recovery_signature a)) (\<lambda>s.
     Ok (ChangeRecoveryIdentity \<lparr> cr_recovery_identifier_signature = s,
       new_recovery_identifier = uh_new_recovery_identifier (vh_unsigned a) \<rparr>))"

definition UnverifiedIdentityUpdate_to_verified ::
    "sig_crypto \<Rightarrow> unverified_identity_update \<Rightarrow> (signature_error, identity_update) result" where
  "UnverifiedIdentityUpdate_to_verified K u =
     rbind (try_map (UnverifiedAction_to_verified K (UnverifiedIdentityUpdate_text K u)) (vi_actions u)) (\<lambda>as.
     Ok \<lparr> iu_inbox_id = vi_inbox_id u, iu_client_timestamp_ns = vi_client_timestamp_ns u, actions = as \<rparr>)"

section \<open>Collecting signatures\<close>

datatype signature_field = InitialAddress | ExistingMember | NewMember | RecoveryAddress

record pending_identity_action =
  pa_unsigned :: unsigned_action
  pending_signatures :: "(signature_field, member_identifier) hash_map"

record signature_request_builder =
  sb_inbox_id :: string
  sb_client_timestamp_ns :: u64
  sb_actions :: "pending_identity_action list"

definition SignatureRequestBuilder_new :: "string \<Rightarrow> u64 \<Rightarrow> signature_request_builder" where
  "SignatureRequestBuilder_new inbox now = \<lparr> sb_inbox_id = inbox, sb_client_timestamp_ns = now, sb_actions = [] \<rparr>"

definition push_action :: "pending_identity_action \<Rightarrow> signature_request_builder \<Rightarrow> signature_request_builder" where
  "push_action a b = b\<lparr> sb_actions := sb_actions b @ [a] \<rparr>"

definition Builder_create_inbox ::
    "public_identifier \<Rightarrow> u64 \<Rightarrow> signature_request_builder \<Rightarrow> signature_request_builder" where
  "Builder_create_inbox signer_identity nonce =
     push_action \<lparr> pa_unsigned = UCreateInbox \<lparr> uc_nonce = nonce, uc_account_identifier = signer_identity \<rparr>,
       pending_signatures = [(InitialAddress, mi_of_id signer_identity)] \<rparr>"

definition Builder_add_association ::
    "member_identifier \<Rightarrow> member_identifier \<Rightarrow> signature_request_builder \<Rightarrow> signature_request_builder" where
  "Builder_add_association new_member existing_member =
     push_action \<lparr> pa_unsigned = UAddAssociation \<lparr> ua_new_member_identifier = new_member \<rparr>,
       pending_signatures = [(ExistingMember, existing_member), (NewMember, new_member)] \<rparr>"

definition Builder_revoke_association ::
    "member_identifier \<Rightarrow> member_identifier \<Rightarrow> signature_request_builder \<Rightarrow> signature_request_builder" where
  "Builder_revoke_association recovery_address_signer revoked =
     push_action \<lparr> pa_unsigned = URevokeAssociation \<lparr> ur_revoked_member = revoked \<rparr>,
       pending_signatures = [(RecoveryAddress, recovery_address_signer)] \<rparr>"

definition Builder_change_recovery_address ::
    "member_identifier \<Rightarrow> public_identifier \<Rightarrow> signature_request_builder \<Rightarrow> signature_request_builder" where
  "Builder_change_recovery_address recovery_address_signer new_recovery =
     push_action \<lparr> pa_unsigned = UChangeRecoveryAddress \<lparr> uh_new_recovery_identifier = new_recovery \<rparr>,
       pending_signatures = [(RecoveryAddress, recovery_address_signer)] \<rparr>"

record signature_request =
  pending_actions :: "pending_identity_action list"
  sr_signature_text :: string
  sr_signatures :: "(member_identifier, unverified_signature) hash_map"
  sr_client_timestamp_ns :: u64
  sr_inbox_id :: string

definition get_signature_text :: "sig_crypto \<Rightarrow> unsigned_action list \<Rightarrow> string \<Rightarrow> u64 \<Rightarrow> string" where
  "get_signature_text K as inbox ts =
     signature_text K \<lparr> ui_inbox_id = inbox, ui_client_timestamp_ns = ts, ui_actions = as \<rparr>"

definition Builder_build :: "sig_crypto \<Rightarrow> signature_request_builder \<Rightarrow> signature_request" where
  "Builder_build K b =
     \<lparr> pending_actions = sb_actions b,
       sr_signature_text = get_signature_text K (map pa_unsigned (sb_actions b)) (sb_inbox_id b) (sb_client_timestamp_ns b),
       sr_signatures = [], sr_client_timestamp_ns = sb_client_timestamp_ns b, sr_inbox_id = sb_inbox_id b \<rparr>"

datatype signature_request_error = UnknownSigner | MissingSigner | RequestSignature signature_error | BlockNumber

definition missing_signatures :: "signature_request \<Rightarrow> member_identifier list" where
  "missing_signatures r =
     filter (\<lambda>ident. \<not> hm_contains_key mi_eq (sr_signatures r) ident)
       (concat (map (\<lambda>a. map snd (pending_signatures a)) (pending_actions r)))"

definition missing_address_signatures :: "signature_request \<Rightarrow> member_identifier list" where
  "missing_address_signatures r = filter (\<lambda>i. mi_kind i \<in> {KEthereum, KPasskey}) (missing_signatures r)"

definition is_ready :: "signature_request \<Rightarrow> bool" where
  "is_ready r \<longleftrightarrow> missing_signatures r = []"

definition add_verified_signature ::
    "signature_request \<Rightarrow> unverified_signature \<Rightarrow> verified_signature \<Rightarrow> (signature_request_error, signature_request) result" where
  "add_verified_signature r sig v =
     (if \<not> list_ex (\<lambda>i. mi_eq i (signer v)) (missing_signatures r) then Err UnknownSigner
      else Ok (r\<lparr> sr_signatures := hm_insert mi_eq (signer v) sig (sr_signatures r) \<rparr>))"

definition add_signature ::
    "sig_crypto \<Rightarrow> signature_request \<Rightarrow> unverified_signature \<Rightarrow> (signature_request_error, signature_request) result" where
  "add_signature K r sig =
     rbind (map_err RequestSignature (UnverifiedSignature_to_verified K (sr_signature_text r) sig)) (\<lambda>v.
     add_verified_signature r sig v)"

definition add_new_unverified_smart_contract_signature ::
    "sig_crypto \<Rightarrow> signature_request \<Rightarrow> bytes \<Rightarrow> account_id \<Rightarrow> u64 option \<Rightarrow>
     (signature_request_error, signature_request) result" where
  "add_new_unverified_smart_contract_signature K r signature_bytes account block =
     (case from_smart_contract_wallet K (sr_signature_text r) signature_bytes account block of
        (verified, block') \<Rightarrow>
          rbind (map_err RequestSignature verified) (\<lambda>v.
          rbind (ok_or block' BlockNumber) (\<lambda>block_number.
          add_verified_signature r (USmartContractWallet signature_bytes account block_number) v)))"

definition signature_for ::
    "pending_identity_action \<Rightarrow> (member_identifier, unverified_signature) hash_map \<Rightarrow> signature_field \<Rightarrow>
     (signature_request_error, unverified_signature) result" where
  "signature_for pa sigs field =
     rbind (ok_or (hm_get (=) (pending_signatures pa) field) MissingSigner) (\<lambda>signer_identity.
     ok_or (hm_get mi_eq sigs signer_identity) MissingSigner)"

text \<open>
  Both signers of an addition are looked up before either signature; as every failure is the same
  error, looking up each signer with its signature gives the same result.
\<close>

definition build_action ::
    "pending_identity_action \<Rightarrow> (member_identifier, unverified_signature) hash_map \<Rightarrow>
     (signature_request_error, unverified_action) result" where
  "build_action pa sigs =
     (case pa_unsigned pa of
        UCreateInbox u \<Rightarrow>
          rbind (signature_for pa sigs InitialAddress) (\<lambda>s.
          Ok (VCreateInbox \<lparr> vc_unsigned = u, vc_initial_signature = s \<rparr>))
      | UAddAssociation u \<Rightarrow>
          rbind (signature_for pa sigs ExistingMember) (\<lambda>e.
          rbind (signature_for pa sigs NewMember) (\<lambda>n.
          Ok (VAddAssociation \<lparr> va_unsigned = u, va_new_signature = n, va_existing_signature = e \<rparr>)))
      | URevokeAssociation u \<Rightarrow>
          rbind (signature_for pa sigs RecoveryAddress) (\<lambda>s.
          Ok (VRevokeAssociation \<lparr> vr_unsigned = u, vr_recovery_signature = s \<rparr>))
      | UChangeRecoveryAddress u \<Rightarrow>
          rbind (signature_for pa sigs RecoveryAddress) (\<lambda>s.
          Ok (VChangeRecoveryAddress \<lparr> vh_unsigned = u, vh_recovery_signature = s \<rparr>)))"

definition build_identity_update ::
    "signature_request \<Rightarrow> (signature_request_error, unverified_identity_update) result" where
  "build_identity_update r =
     (if \<not> is_ready r then Err MissingSigner
      else rbind (try_map (\<lambda>pa. build_action pa (sr_signatures r)) (pending_actions r)) (\<lambda>as.
           Ok \<lparr> vi_inbox_id = sr_inbox_id r, vi_client_timestamp_ns = sr_client_timestamp_ns r, vi_actions = as \<rparr>))"

section \<open>What the requests hold\<close>

text \<open>The builders a client can make, and the requests it can reach by adding signatures.\<close>

inductive builder_reach :: "signature_request_builder \<Rightarrow> bool" where
  new: "builder_reach (SignatureRequestBuilder_new inbox now)"
| create: "builder_reach b \<Longrightarrow> builder_reach (Builder_create_inbox i nonce b)"
| add: "builder_reach b \<Longrightarrow> builder_reach (Builder_add_association n e b)"
| revoke: "builder_reach b \<Longrightarrow> builder_reach (Builder_revoke_association k m b)"
| change: "builder_reach b \<Longrightarrow> builder_reach (Builder_change_recovery_address k i b)"

inductive request_reach :: "sig_crypto \<Rightarrow> signature_request \<Rightarrow> bool" for K where
  build: "builder_reach b \<Longrightarrow> request_reach K (Builder_build K b)"
| sign: "request_reach K r \<Longrightarrow> add_signature K r sig = Ok r' \<Longrightarrow> request_reach K r'"
| sign_scw: "request_reach K r \<Longrightarrow>
    add_new_unverified_smart_contract_signature K r sig account block = Ok r' \<Longrightarrow> request_reach K r'"

text \<open>
  What the smart contract verifier is relied on for: a signature it found valid is valid again when
  asked for at the block it reported.
\<close>

definition scw_stable :: "sig_crypto \<Rightarrow> bool" where
  "scw_stable K \<longleftrightarrow> (\<forall>account hash sig block resp n.
     is_valid_signature K account hash sig block = Some resp \<and> is_valid resp \<and> response_block_number resp = Some n \<longrightarrow>
     (\<exists>resp'. is_valid_signature K account hash sig (Some n) = Some resp' \<and> is_valid resp'))"

fun fields_of :: "unsigned_action \<Rightarrow> signature_field list" where
  "fields_of (UCreateInbox _) = [InitialAddress]"
| "fields_of (UAddAssociation _) = [ExistingMember, NewMember]"
| "fields_of (URevokeAssociation _) = [RecoveryAddress]"
| "fields_of (UChangeRecoveryAddress _) = [RecoveryAddress]"

definition pending_ok :: "pending_identity_action \<Rightarrow> bool" where
  "pending_ok pa \<longleftrightarrow> list_all (\<lambda>f. hm_get (=) (pending_signatures pa) f \<noteq> None) (fields_of (pa_unsigned pa))"

definition signed_by :: "pending_identity_action \<Rightarrow> signature_field \<Rightarrow> verified_signature \<Rightarrow> bool" where
  "signed_by pa field v =
     (case hm_get (=) (pending_signatures pa) field of Some i \<Rightarrow> mi_eq (signer v) i | None \<Rightarrow> False)"

text \<open>The verified action does what was asked for, signed by whom it was asked for.\<close>

definition signed_as :: "pending_identity_action \<Rightarrow> action \<Rightarrow> bool" where
  "signed_as pa a =
     (case (pa_unsigned pa, a) of
        (UCreateInbox u, CreateInbox c) \<Rightarrow>
          ci_nonce c = uc_nonce u \<and> ci_account_identifier c = uc_account_identifier u \<and>
          signed_by pa InitialAddress (initial_identifier_signature c)
      | (UAddAssociation u, AddAssociation c) \<Rightarrow>
          new_member_identifier c = ua_new_member_identifier u \<and>
          signed_by pa NewMember (new_member_signature c) \<and> signed_by pa ExistingMember (existing_member_signature c)
      | (URevokeAssociation u, RevokeAssociation c) \<Rightarrow>
          revoked_member c = ur_revoked_member u \<and> signed_by pa RecoveryAddress (ra_recovery_identifier_signature c)
      | (UChangeRecoveryAddress u, ChangeRecoveryIdentity c) \<Rightarrow>
          new_recovery_identifier c = uh_new_recovery_identifier u \<and>
          signed_by pa RecoveryAddress (cr_recovery_identifier_signature c)
      | _ \<Rightarrow> False)"

definition signatures_ok :: "sig_crypto \<Rightarrow> string \<Rightarrow> (member_identifier, unverified_signature) hash_map \<Rightarrow> bool" where
  "signatures_ok K text sigs \<longleftrightarrow>
     (\<forall>i sig. hm_get mi_eq sigs i = Some sig \<longrightarrow>
        (\<exists>v. UnverifiedSignature_to_verified K text sig = Ok v \<and> mi_eq (signer v) i))"

definition request_ok :: "sig_crypto \<Rightarrow> signature_request \<Rightarrow> bool" where
  "request_ok K r \<longleftrightarrow>
     list_all pending_ok (pending_actions r) \<and>
     sr_signature_text r =
       get_signature_text K (map pa_unsigned (pending_actions r)) (sr_inbox_id r) (sr_client_timestamp_ns r) \<and>
     hm_wf mi_eq (sr_signatures r) \<and> signatures_ok K (sr_signature_text r) (sr_signatures r)"

lemmas builder_defs = SignatureRequestBuilder_new_def Builder_create_inbox_def Builder_add_association_def
  Builder_revoke_association_def Builder_change_recovery_address_def push_action_def

lemma builder_pending_ok: "builder_reach b \<Longrightarrow> list_all pending_ok (sb_actions b)"
  by (induction rule: builder_reach.induct) (simp_all add: builder_defs pending_ok_def)

lemma add_verified_request_ok:
  assumes "request_ok K r" and "add_verified_signature r sig v = Ok r'"
    and "UnverifiedSignature_to_verified K (sr_signature_text r) sig = Ok w" and "signer w = signer v"
  shows "request_ok K r'"
proof -
  have r': "r' = r\<lparr> sr_signatures := hm_insert mi_eq (signer v) sig (sr_signatures r) \<rparr>"
    using assms(2) by (simp add: add_verified_signature_def split: if_splits)
  show ?thesis
    using assms(1,3,4)
    by (auto simp: r' request_ok_def signatures_ok_def mi.hm.lookup_insert mi.hm.invar_insert split: if_splits)
qed

lemma scw_reverified:
  assumes "scw_stable K" and "from_smart_contract_wallet K text sig account block = (Ok v, Some n)"
  shows "fst (from_smart_contract_wallet K text sig account (Some n)) = Ok v"
proof -
  from assms(2) obtain resp where resp:
      "is_valid_signature K account (eip191_hash_message K text) sig block = Some resp" "is_valid resp"
      "response_block_number resp = Some n"
    by (auto simp: from_smart_contract_wallet_def split: option.splits if_splits)
  with assms(1) obtain resp' where
      "is_valid_signature K account (eip191_hash_message K text) sig (Some n) = Some resp'" "is_valid resp'"
    unfolding scw_stable_def by meson
  with resp assms(2) show ?thesis
    by (simp add: from_smart_contract_wallet_def)
qed

lemma request_reach_ok:
  assumes "request_reach K r" and "scw_stable K"
  shows "request_ok K r"
  using assms(1)
proof (induction rule: request_reach.induct)
  case (build b)
  then show ?case
    by (simp add: request_ok_def Builder_build_def builder_pending_ok signatures_ok_def)
next
  case (sign r sig r')
  from sign.hyps(2) obtain v where "UnverifiedSignature_to_verified K (sr_signature_text r) sig = Ok v"
      "add_verified_signature r sig v = Ok r'"
    by (auto simp: add_signature_def rbind_eq_Ok)
  with sign.IH show ?case using add_verified_request_ok by blast
next
  case (sign_scw r sig account block r')
  from sign_scw.hyps(2) obtain v n where
      v: "from_smart_contract_wallet K (sr_signature_text r) sig account block = (Ok v, Some n)"
        "add_verified_signature r (USmartContractWallet sig account n) v = Ok r'"
    by (auto simp: add_new_unverified_smart_contract_signature_def rbind_eq_Ok split: prod.splits)
  have "UnverifiedSignature_to_verified K (sr_signature_text r) (USmartContractWallet sig account n) = Ok v"
    by (simp add: scw_reverified [OF assms(2) v(1)])
  with sign_scw.IH v(2) show ?case using add_verified_request_ok by blast
qed

section \<open>From a ready request to a verified update\<close>

lemma signature_for_verified:
  assumes "signatures_ok K text sigs" and "signature_for pa sigs f = Ok sig"
  shows "\<exists>v. UnverifiedSignature_to_verified K text sig = Ok v \<and> signed_by pa f v"
  using assms by (auto simp: signature_for_def rbind_eq_Ok signatures_ok_def signed_by_def)

lemma build_action_unsigned: "build_action pa sigs = Ok va \<Longrightarrow> unsigned_action_of va = pa_unsigned pa"
  by (auto simp: build_action_def rbind_eq_Ok split: unsigned_action.splits)

lemma build_action_verified:
  assumes "signatures_ok K text sigs" and "build_action pa sigs = Ok va"
  shows "\<exists>a. UnverifiedAction_to_verified K text va = Ok a \<and> signed_as pa a"
proof (cases "pa_unsigned pa")
  case (UCreateInbox u)
  with assms(2) obtain s where s: "signature_for pa sigs InitialAddress = Ok s"
      "va = VCreateInbox \<lparr> vc_unsigned = u, vc_initial_signature = s \<rparr>"
    by (auto simp: build_action_def rbind_eq_Ok)
  from signature_for_verified [OF assms(1) s(1)] show ?thesis
    by (auto simp: s(2) signed_as_def UCreateInbox)
next
  case (UAddAssociation u)
  with assms(2) obtain e n where s: "signature_for pa sigs ExistingMember = Ok e" "signature_for pa sigs NewMember = Ok n"
      "va = VAddAssociation \<lparr> va_unsigned = u, va_new_signature = n, va_existing_signature = e \<rparr>"
    by (auto simp: build_action_def rbind_eq_Ok)
  from signature_for_verified [OF assms(1) s(1)] signature_for_verified [OF assms(1) s(2)] show ?thesis
    by (auto simp: s(3) signed_as_def UAddAssociation)
next
  case (URevokeAssociation u)
  with assms(2) obtain s where s: "signature_for pa sigs RecoveryAddress = Ok s"
      "va = VRevokeAssociation \<lparr> vr_unsigned = u, vr_recovery_signature = s \<rparr>"
    by (auto simp: build_action_def rbind_eq_Ok)
  from signature_for_verified [OF assms(1) s(1)] show ?thesis
    by (auto simp: s(2) signed_as_def URevokeAssociation)
next
  case (UChangeRecoveryAddress u)
  with assms(2) obtain s where s: "signature_for pa sigs RecoveryAddress = Ok s"
      "va = VChangeRecoveryAddress \<lparr> vh_unsigned = u, vh_recovery_signature = s \<rparr>"
    by (auto simp: build_action_def rbind_eq_Ok)
  from signature_for_verified [OF assms(1) s(1)] show ?thesis
    by (auto simp: s(2) signed_as_def UChangeRecoveryAddress)
qed

lemma signature_for_ready:
  assumes "is_ready r" and "pa \<in> set (pending_actions r)" and "hm_get (=) (pending_signatures pa) f \<noteq> None"
  shows "\<exists>s. signature_for pa (sr_signatures r) f = Ok s"
proof -
  obtain i where i: "hm_get (=) (pending_signatures pa) f = Some i" using assms(3) by auto
  have "i \<in> snd ` set (pending_signatures pa)" using hm_get_SomeD [OF i] by force
  with assms(1,2) have "hm_contains_key mi_eq (sr_signatures r) i"
    by (force simp: is_ready_def missing_signatures_def filter_empty_conv)
  then show ?thesis
    by (auto simp: signature_for_def i hm_contains_key_iff)
qed

lemma build_action_ready:
  assumes "is_ready r" and "pa \<in> set (pending_actions r)" and "pending_ok pa"
  shows "\<exists>va. build_action pa (sr_signatures r) = Ok va"
proof -
  have ready: "\<exists>s. signature_for pa (sr_signatures r) f = Ok s" if "f \<in> set (fields_of (pa_unsigned pa))" for f
    using assms(3) that by (intro signature_for_ready [OF assms(1,2)]) (auto simp: pending_ok_def list_all_iff)
  show ?thesis
    by (cases "pa_unsigned pa")
      (use ready [of InitialAddress] ready [of ExistingMember] ready [of NewMember] ready [of RecoveryAddress]
        in \<open>auto simp: build_action_def rbind_eq_Ok\<close>)
qed

lemma built_update_verified:
  assumes "request_ok K r" and "build_identity_update r = Ok u"
  shows "\<exists>vu. UnverifiedIdentityUpdate_to_verified K u = Ok vu \<and>
    iu_inbox_id vu = sr_inbox_id r \<and> iu_client_timestamp_ns vu = sr_client_timestamp_ns r \<and>
    list_all2 signed_as (pending_actions r) (actions vu)"
proof -
  from assms(2) obtain vas where vas: "try_map (\<lambda>pa. build_action pa (sr_signatures r)) (pending_actions r) = Ok vas"
      and u: "u = \<lparr> vi_inbox_id = sr_inbox_id r, vi_client_timestamp_ns = sr_client_timestamp_ns r, vi_actions = vas \<rparr>"
    by (auto simp: build_identity_update_def rbind_eq_Ok split: if_splits)
  have "map unsigned_action_of vas = map pa_unsigned (pending_actions r)"
    using vas by (rule try_map_Ok_map) (rule build_action_unsigned)
  then have same_text: "UnverifiedIdentityUpdate_text K u = sr_signature_text r"
    using assms(1) by (simp add: u UnverifiedIdentityUpdate_text_def request_ok_def get_signature_text_def)
  have "list_all2 (\<lambda>pa va. \<exists>a. UnverifiedAction_to_verified K (sr_signature_text r) va = Ok a \<and> signed_as pa a)
      (pending_actions r) vas"
    using vas [unfolded try_map_Ok_iff]
  proof (rule list_all2_mono)
    fix pa va
    assume "build_action pa (sr_signatures r) = Ok va"
    moreover have "signatures_ok K (sr_signature_text r) (sr_signatures r)" using assms(1) unfolding request_ok_def by blast
    ultimately show "\<exists>a. UnverifiedAction_to_verified K (sr_signature_text r) va = Ok a \<and> signed_as pa a"
      by (rule build_action_verified [rotated])
  qed
  then obtain as where as: "list_all2 (\<lambda>va a. UnverifiedAction_to_verified K (sr_signature_text r) va = Ok a) vas as"
      "list_all2 signed_as (pending_actions r) as"
  proof (induction arbitrary: thesis rule: list_all2_induct)
    case Nil
    then show ?case by simp
  next
    case (Cons pa pas va vas)
    then obtain a as where "UnverifiedAction_to_verified K (sr_signature_text r) va = Ok a" "signed_as pa a"
        "list_all2 (\<lambda>va a. UnverifiedAction_to_verified K (sr_signature_text r) va = Ok a) vas as"
        "list_all2 signed_as pas as"
      by blast
    then show ?case by (intro Cons.prems [of "a # as"]) simp_all
  qed
  then show ?thesis
    unfolding UnverifiedIdentityUpdate_to_verified_def same_text
    using try_map_Ok_iff [THEN iffD2, OF as(1)] by (simp add: u)
qed

text \<open>
  Property C19. A signature request yields what was asked for: whatever actions were put in and
  whatever signatures were added, it can be turned into an identity update exactly when no signature
  is missing; and that update then verifies, for the same inbox and time, with the very actions asked
  for, each signature of each action coming from the identifier the request named for it.
\<close>

theorem request_signs_what_was_asked:
  assumes "request_reach K r" and "scw_stable K"
  shows "is_ok (build_identity_update r) = is_ready r \<and>
    (\<forall>u. build_identity_update r = Ok u \<longrightarrow>
      (\<exists>vu. UnverifiedIdentityUpdate_to_verified K u = Ok vu \<and>
         iu_inbox_id vu = sr_inbox_id r \<and> iu_client_timestamp_ns vu = sr_client_timestamp_ns r \<and>
         list_all2 signed_as (pending_actions r) (actions vu)))"
proof -
  have ok: "request_ok K r" by (rule request_reach_ok [OF assms])
  have "is_ok (try_map (\<lambda>pa. build_action pa (sr_signatures r)) (pending_actions r))" if "is_ready r"
    using ok build_action_ready [OF that]
    unfolding try_map_is_ok by (auto simp: is_ok_iff request_ok_def list_all_iff)
  then have "is_ok (build_identity_update r) = is_ready r"
    by (auto simp: build_identity_update_def is_ok_iff)
  then show ?thesis using built_update_verified [OF ok] by blast
qed

section \<open>A concrete request\<close>

definition demo_libs :: sig_crypto where
  "demo_libs = \<lparr> hex_encode = hex_encode plain_crypto, hex_decode = hex_decode plain_crypto,
     sha256_hex = sha256_hex plain_crypto, k256_normalize_s = (\<lambda>_. Some None),
     recover_address_from_msg = (\<lambda>_ _. Some (replicate 40 97)), ed25519_verify_prehashed = (\<lambda>_ _ _. True),
     client_data_of_json = (\<lambda>_. None), base64_url = id, p256_key_ok = (\<lambda>_. True), p256_sig_of_der = Some,
     p256_verify = (\<lambda>_ _ _. False), sha256_bytes = id, address_of_sec1 = (\<lambda>_. None),
     decode_unsigned_public_key = (\<lambda>_. None), eip191_hash_message = (\<lambda>_. []),
     is_valid_signature = (\<lambda>_ _ _ _. None), pretty_timestamp = show_u64 \<rparr>"

definition demo_builder :: signature_request_builder where
  "demo_builder = Builder_add_association (Installation [7]) (Ethereum demo_address)
     (Builder_create_inbox (IdEthereum demo_address) 0 (SignatureRequestBuilder_new (demo_address @ ''0'') 1))"

definition demo_half_signed :: signature_request where
  "demo_half_signed = (Builder_build demo_libs demo_builder)\<lparr> sr_signatures :=
     [(Ethereum demo_address, URecoverableEcdsa (replicate 65 1))] \<rparr>"

definition demo_signed :: signature_request where
  "demo_signed = (Builder_build demo_libs demo_builder)\<lparr> sr_signatures :=
     [(Ethereum demo_address, URecoverableEcdsa (replicate 65 1)),
      (Installation [7], UInstallationKey (replicate 64 2) [7])] \<rparr>"

lemma demo_ecdsa:
  "UnverifiedSignature_to_verified demo_libs msg (URecoverableEcdsa (replicate 65 1)) =
     Ok \<lparr> signer = Ethereum demo_address, sig_kind = Erc191, raw_bytes = replicate 65 1, sig_chain_id = None \<rparr>"
proof -
  have "to_lower_s demo_libs (replicate 65 1) = Ok (replicate 65 1)" by code_simp
  moreover have "mi_eth (h160addr_to_string demo_libs (replicate 40 97)) = Ok (Ethereum demo_address)" by code_simp
  ultimately show ?thesis
    by (simp add: from_recoverable_ecdsa_def) (simp add: demo_libs_def)
qed

lemma demo_ed25519:
  "UnverifiedSignature_to_verified demo_libs msg (UInstallationKey (replicate 64 2) [7]) =
     Ok \<lparr> signer = Installation [7], sig_kind = InstallationKey, raw_bytes = replicate 64 2, sig_chain_id = None \<rparr>"
  by (simp add: from_installation_key_def demo_libs_def)

lemmas demo_request_simps = add_signature_def demo_ecdsa demo_ed25519 add_verified_signature_def missing_signatures_def
  Builder_build_def demo_builder_def builder_defs demo_half_signed_def demo_signed_def hm_contains_key_def

lemma demo_first_signature:
  "add_signature demo_libs (Builder_build demo_libs demo_builder) (URecoverableEcdsa (replicate 65 1)) = Ok demo_half_signed"
  by (simp add: demo_request_simps del: UnverifiedSignature_to_verified.simps)

lemma demo_second_signature:
  "add_signature demo_libs demo_half_signed (UInstallationKey (replicate 64 2) [7]) = Ok demo_signed"
  by (simp add: demo_request_simps del: UnverifiedSignature_to_verified.simps)

lemma demo_request_reach: "request_reach demo_libs demo_signed"
proof (rule request_reach.sign [OF _ demo_second_signature], rule request_reach.sign [OF _ demo_first_signature],
    rule request_reach.build)
  show "builder_reach demo_builder"
    unfolding demo_builder_def by (intro builder_reach.intros)
qed

lemma demo_ready: "is_ready demo_signed"
  by (simp add: is_ready_def demo_request_simps)

lemma demo_scw_stable: "scw_stable demo_libs"
  by (simp add: scw_stable_def demo_libs_def)

theorem request_signs_what_was_asked_witness:
  "\<exists>u vu. build_identity_update demo_signed = Ok u \<and> UnverifiedIdentityUpdate_to_verified demo_libs u = Ok vu \<and>
     iu_inbox_id vu = demo_address @ ''0''"
proof -
  note r = request_signs_what_was_asked [OF demo_request_reach demo_scw_stable]
  have "sr_inbox_id demo_signed = demo_address @ ''0''" by (simp add: demo_request_simps)
  with r demo_ready show ?thesis by (auto simp: is_ok_iff)
qed

end
