(* ===== verification/Serialization.thy ===== *)
theory Serialization
  imports Signature_Request Cursors
begin

text \<open>
  The protobuf form of identity data: \<open>xmtp_id/src/associations/serialization.rs\<close> (identity updates
  with their signatures, members, association states, CAIP-10 account ids) and
  \<open>Identifier::from_proto\<close> of \<open>member.rs\<close>.

  Messages are modelled as the generated structs the sources convert from and to; the bytes prost
  writes for a struct are outside. A getter of an enumeration field returns \<open>Unspecified\<close> for a
  number it does not know, as prost documents. The parser of Ed25519 keys is the argument
  \<open>key_ok\<close>: a \<open>VerifyingKey\<close> is its 32 bytes, and \<open>try_from\<close> refuses the others.
\<close>

section \<open>Round trips\<close>

locale wire_codec =
  fixes wf :: "'a \<Rightarrow> bool"
    and enc :: "'a \<Rightarrow> 'p"
    and dec :: "'p \<Rightarrow> ('e, 'a) result"
  assumes roundtrip: "wf x \<Longrightarrow> dec (enc x) = Ok x"
begin

lemma vec_roundtrip: "list_all wf xs \<Longrightarrow> try_map dec (map enc xs) = Ok xs"
  by (induction xs) (simp_all add: roundtrip)

lemma transposed_roundtrip: "pred_option wf x \<Longrightarrow> map_option dec (map_option enc x) = map_option Ok x"
  by (cases x) (simp_all add: roundtrip)

end

section \<open>Account ids\<close>

fun split_colon :: "string \<Rightarrow> string list" where
  "split_colon [] = [[]]"
| "split_colon (c # cs) =
     (if c = CHR '':'' then [] # split_colon cs
      else case split_colon cs of p # ps \<Rightarrow> (c # p) # ps | [] \<Rightarrow> [[c]])"

definition is_lower_or_digit :: "char \<Rightarrow> bool" where
  "is_lower_or_digit c \<longleftrightarrow> (let n = (of_char c :: nat) in 97 \<le> n \<and> n \<le> 122 \<or> 48 \<le> n \<and> n \<le> 57)"

definition is_upper :: "char \<Rightarrow> bool" where
  "is_upper c \<longleftrightarrow> (let n = (of_char c :: nat) in 65 \<le> n \<and> n \<le> 90)"

text \<open>The three character classes of the two regular expressions, with their repetition counts.\<close>

definition namespace_ok :: "string \<Rightarrow> bool" where
  "namespace_ok s \<longleftrightarrow> 3 \<le> length s \<and> length s \<le> 8 \<and> list_all (\<lambda>c. c = CHR ''-'' \<or> is_lower_or_digit c) s"

definition reference_ok :: "string \<Rightarrow> bool" where
  "reference_ok s \<longleftrightarrow> 1 \<le> length s \<and> length s \<le> 32 \<and>
     list_all (\<lambda>c. c = CHR ''-'' \<or> c = CHR ''_'' \<or> is_lower_or_digit c \<or> is_upper c) s"

definition account_address_ok :: "string \<Rightarrow> bool" where
  "account_address_ok s \<longleftrightarrow> 1 \<le> length s \<and> length s \<le> 128 \<and>
     list_all (\<lambda>c. c = CHR ''-'' \<or> c = CHR ''.'' \<or> c = CHR ''%'' \<or> is_lower_or_digit c \<or> is_upper c) s"

definition AccountId_try_from :: "string \<Rightarrow> (conversion_error, account_id) result" where
  "AccountId_try_from s =
     (case split_colon s of
        [p0, p1, p2] \<Rightarrow>
          if \<not> (namespace_ok p0 \<and> reference_ok p1) \<or> \<not> account_address_ok p2
          then Err (InvalidValue ''eth account_id'' ''well-formed chain_id & address'')
          else Ok \<lparr> chain_id = p0 @ '':'' @ p1, account_address = p2 \<rparr>
      | parts \<Rightarrow> Err (InvalidLength ''account_id'' 3 (length parts)))"

definition AccountId_to_string :: "account_id \<Rightarrow> string" where
  "AccountId_to_string a = chain_id a @ '':'' @ account_address a"

section \<open>Identifiers\<close>

datatype identifier_kind = KindUnspecified | KindEthereum | KindPasskey

fun identifier_kind_i32 :: "identifier_kind \<Rightarrow> int" where
  "identifier_kind_i32 KindUnspecified = 0"
| "identifier_kind_i32 KindEthereum = 1"
| "identifier_kind_i32 KindPasskey = 2"

definition identifier_kind_of_i32 :: "int \<Rightarrow> identifier_kind" where
  "identifier_kind_of_i32 n = (if n = 1 then KindEthereum else if n = 2 then KindPasskey else KindUnspecified)"

fun identifier_kind_of :: "public_identifier \<Rightarrow> identifier_kind" where
  "identifier_kind_of (IdEthereum _) = KindEthereum"
| "identifier_kind_of (IdPasskey _) = KindPasskey"

fun relying_party_of :: "public_identifier \<Rightarrow> string option" where
  "relying_party_of (IdPasskey p) = relying_party p"
| "relying_party_of _ = None"

definition Identifier_from_proto ::
    "id_crypto \<Rightarrow> string \<Rightarrow> identifier_kind \<Rightarrow> string option \<Rightarrow> (conversion_error, public_identifier) result" where
  "Identifier_from_proto H ident kind rp =
     (case kind of
        KindPasskey \<Rightarrow>
          rbind (ok_or (hex_decode H ident) (InvalidPublicKey ''passkey'')) (\<lambda>key. Ok (IdPasskey (Passkey_mk key rp)))
      | _ \<Rightarrow> Ok (IdEthereum ident))"

text \<open>The defaulting of the kind that every caller of \<open>from_proto\<close> writes out.\<close>

definition or_ethereum :: "identifier_kind \<Rightarrow> identifier_kind" where
  "or_ethereum k = (case k of KindUnspecified \<Rightarrow> KindEthereum | _ \<Rightarrow> k)"

datatype member_identifier_kind_proto =
    PEthereumAddress string
  | PInstallationPublicKey bytes
  | PPasskey bytes "string option"

type_synonym member_identifier_proto = "member_identifier_kind_proto option"

fun MemberIdentifier_to_proto :: "member_identifier \<Rightarrow> member_identifier_proto" where
  "MemberIdentifier_to_proto (Ethereum a) = Some (PEthereumAddress a)"
| "MemberIdentifier_to_proto (Installation k) = Some (PInstallationPublicKey k)"
| "MemberIdentifier_to_proto (Passkey p) = Some (PPasskey (pk_key p) (relying_party p))"

fun MemberIdentifier_try_from :: "member_identifier_proto \<Rightarrow> (conversion_error, member_identifier) result" where
  "MemberIdentifier_try_from (Some (PEthereumAddress a)) = Ok (Ethereum a)"
| "MemberIdentifier_try_from (Some (PInstallationPublicKey k)) = Ok (Installation k)"
| "MemberIdentifier_try_from (Some (PPasskey k rp)) = Ok (Passkey (Passkey_mk k rp))"
| "MemberIdentifier_try_from None = Err (Missing ''member_identifier'' ''MemberIdentifierKindProto'')"

definition required :: "'p option \<Rightarrow> string \<Rightarrow> string \<Rightarrow> ('p \<Rightarrow> (conversion_error, 'a) result) \<Rightarrow> (conversion_error, 'a) result" where
  "required m item ty conv = rbind (ok_or m (Missing item ty)) conv"

definition transposed :: "('p \<Rightarrow> (conversion_error, 'a) result) \<Rightarrow> 'p option \<Rightarrow> (conversion_error, 'a option) result" where
  "transposed conv m = (case m of None \<Rightarrow> Ok None | Some p \<Rightarrow> rbind (conv p) (\<lambda>x. Ok (Some x)))"

section \<open>Members and association states\<close>

record member_proto =
  mp_identifier :: "member_identifier_proto option"
  mp_added_by_entity :: "member_identifier_proto option"
  mp_client_timestamp_ns :: "u64 option"
  mp_added_on_chain_id :: "u64 option"

definition Member_to_proto :: "member \<Rightarrow> member_proto" where
  "Member_to_proto m =
     \<lparr> mp_identifier = Some (MemberIdentifier_to_proto (m_identifier m)),
       mp_added_by_entity = map_option MemberIdentifier_to_proto (added_by_entity m),
       mp_client_timestamp_ns = client_timestamp_ns m, mp_added_on_chain_id = added_on_chain_id m \<rparr>"

definition Member_try_from :: "member_proto \<Rightarrow> (conversion_error, member) result" where
  "Member_try_from p =
     rbind (required (mp_identifier p) ''member_identifier'' ''MemberIdentifierProto'' MemberIdentifier_try_from) (\<lambda>i.
     rbind (transposed MemberIdentifier_try_from (mp_added_by_entity p)) (\<lambda>by.
     Ok \<lparr> m_identifier = i, added_by_entity = by, client_timestamp_ns = mp_client_timestamp_ns p,
          added_on_chain_id = mp_added_on_chain_id p \<rparr>))"

record member_map_proto =
  mm_key :: "member_identifier_proto option"
  mm_value :: "member_proto option"

record association_state_proto =
  asp_inbox_id :: string
  asp_members :: "member_map_proto list"
  asp_recovery_identifier :: string
  asp_recovery_identifier_kind :: int
  asp_seen_signatures :: "bytes list"
  asp_relying_party :: "string option"

definition entry_to_proto :: "member_identifier \<times> member \<Rightarrow> member_map_proto" where
  "entry_to_proto p =
     \<lparr> mm_key = Some (MemberIdentifier_to_proto (fst p)), mm_value = Some (Member_to_proto (snd p)) \<rparr>"

definition entry_try_from :: "member_map_proto \<Rightarrow> (conversion_error, member_identifier \<times> member) result" where
  "entry_try_from p =
     rbind (required (mm_key p) ''member_identifier'' ''MemberIdentifierProto'' MemberIdentifier_try_from) (\<lambda>k.
     rbind (required (mm_value p) ''member'' ''MemberProto'' Member_try_from) (\<lambda>v. Ok (k, v)))"

definition AssociationState_to_proto :: "id_crypto \<Rightarrow> association_state \<Rightarrow> association_state_proto" where
  "AssociationState_to_proto H s =
     \<lparr> asp_inbox_id = inbox_id s, asp_members = map entry_to_proto (members s),
       asp_recovery_identifier = id_display H (recovery_identifier s),
       asp_recovery_identifier_kind = identifier_kind_i32 (identifier_kind_of (recovery_identifier s)),
       asp_seen_signatures = seen_signatures s, asp_relying_party = relying_party_of (recovery_identifier s) \<rparr>"

definition AssociationState_try_from ::
    "id_crypto \<Rightarrow> association_state_proto \<Rightarrow> (conversion_error, association_state) result" where
  "AssociationState_try_from H p =
     rbind (Identifier_from_proto H (asp_recovery_identifier p)
              (or_ethereum (identifier_kind_of_i32 (asp_recovery_identifier_kind p))) (asp_relying_party p)) (\<lambda>i.
     rbind (try_map entry_try_from (asp_members p)) (\<lambda>ms.
     Ok \<lparr> inbox_id = asp_inbox_id p, members = hm_from_iter mi_eq ms, recovery_identifier = i,
          seen_signatures = hs_extend (=) [] (asp_seen_signatures p) \<rparr>))"

record association_state_diff_proto =
  dp_new_members :: "member_identifier_proto list"
  dp_removed_members :: "member_identifier_proto list"

definition AssociationStateDiff_to_proto :: "association_state_diff \<Rightarrow> association_state_diff_proto" where
  "AssociationStateDiff_to_proto d =
     \<lparr> dp_new_members = map MemberIdentifier_to_proto (new_members d),
       dp_removed_members = map MemberIdentifier_to_proto (removed_members d) \<rparr>"

section \<open>Signatures and identity updates\<close>

datatype signature_kind_proto =
    PErc191 bytes
  | PDelegatedErc191 "legacy_signed_public_key_proto option" "bytes option"
  | PInstallationKey bytes bytes
  | PErc6492 string u64 bytes
  | PPasskeySignature bytes bytes bytes bytes

type_synonym signature_wrapper_proto = "signature_kind_proto option"

fun UnverifiedSignature_to_proto :: "unverified_signature \<Rightarrow> signature_wrapper_proto" where
  "UnverifiedSignature_to_proto (USmartContractWallet sig account block) =
     Some (PErc6492 (AccountId_to_string account) block sig)"
| "UnverifiedSignature_to_proto (UInstallationKey sig key) = Some (PInstallationKey sig key)"
| "UnverifiedSignature_to_proto (ULegacyDelegated sig key) = Some (PDelegatedErc191 (Some key) (Some sig))"
| "UnverifiedSignature_to_proto (URecoverableEcdsa sig) = Some (PErc191 sig)"
| "UnverifiedSignature_to_proto (UPasskey pk sig auth_data json) = Some (PPasskeySignature pk sig auth_data json)"

fun UnverifiedSignature_try_from ::
    "(bytes \<Rightarrow> bool) \<Rightarrow> signature_wrapper_proto \<Rightarrow> (conversion_error, unverified_signature) result" where
  "UnverifiedSignature_try_from key_ok None = Err (Missing ''signature'' ''SignatureKindProto'')"
| "UnverifiedSignature_try_from key_ok (Some (PErc191 b)) = Ok (URecoverableEcdsa b)"
| "UnverifiedSignature_try_from key_ok (Some (PDelegatedErc191 key sig)) =
     rbind (ok_or sig (Missing ''signature'' ''RecoverableEcdsaSignatureProto'')) (\<lambda>b.
     rbind (ok_or key (Missing ''delegated_key'' ''SignedPublicKeyProto'')) (\<lambda>k.
     Ok (ULegacyDelegated b k)))"
| "UnverifiedSignature_try_from key_ok (Some (PInstallationKey b pk)) =
     (if key_ok pk then Ok (UInstallationKey b pk) else Err EdSignature)"
| "UnverifiedSignature_try_from key_ok (Some (PErc6492 account block b)) =
     rbind (AccountId_try_from account) (\<lambda>a. Ok (USmartContractWallet b a block))"
| "UnverifiedSignature_try_from key_ok (Some (PPasskeySignature pk sig auth_data json)) =
     Ok (UPasskey pk sig auth_data json)"

definition signature_field_try_from ::
    "(bytes \<Rightarrow> bool) \<Rightarrow> signature_wrapper_proto option \<Rightarrow> (conversion_error, unverified_signature) result" where
  "signature_field_try_from key_ok s =
     required s ''signature'' ''SignatureWrapperProto'' (UnverifiedSignature_try_from key_ok)"

record create_inbox_proto =
  cip_nonce :: u64
  cip_initial_identifier :: string
  cip_initial_identifier_kind :: int
  cip_initial_identifier_signature :: "signature_wrapper_proto option"
  cip_relying_party :: "string option"

record add_association_proto =
  aap_new_member_identifier :: "member_identifier_proto option"
  aap_existing_member_signature :: "signature_wrapper_proto option"
  aap_new_member_signature :: "signature_wrapper_proto option"
  aap_relying_party :: "string option"

record change_recovery_address_proto =
  crp_new_recovery_identifier :: string
  crp_new_recovery_identifier_kind :: int
  crp_existing_recovery_identifier_signature :: "signature_wrapper_proto option"
  crp_relying_party :: "string option"

record revoke_association_proto =
  rap_recovery_identifier_signature :: "signature_wrapper_proto option"
  rap_member_to_revoke :: "member_identifier_proto option"

datatype identity_action_kind_proto =
    PCreateInbox create_inbox_proto
  | PAdd add_association_proto
  | PChangeRecoveryAddress change_recovery_address_proto
  | PRevoke revoke_association_proto

type_synonym identity_action_proto = "identity_action_kind_proto option"

record identity_update_proto =
  iup_inbox_id :: string
  iup_client_timestamp_ns :: u64
  iup_actions :: "identity_action_proto list"

fun mi_relying_party :: "member_identifier \<Rightarrow> string option" where
  "mi_relying_party (Passkey p) = relying_party p"
| "mi_relying_party _ = None"

definition UnverifiedAction_to_proto :: "id_crypto \<Rightarrow> unverified_action \<Rightarrow> identity_action_proto" where
  "UnverifiedAction_to_proto H v = Some (case v of
     VCreateInbox a \<Rightarrow>
       (let i = uc_account_identifier (vc_unsigned a) in
        PCreateInbox \<lparr> cip_nonce = uc_nonce (vc_unsigned a), cip_initial_identifier = id_display H i,
          cip_initial_identifier_kind = identifier_kind_i32 (identifier_kind_of i),
          cip_initial_identifier_signature = Some (UnverifiedSignature_to_proto (vc_initial_signature a)),
          cip_relying_party = relying_party_of i \<rparr>)
   | VAddAssociation a \<Rightarrow>
       PAdd \<lparr> aap_new_member_identifier = Some (MemberIdentifier_to_proto (ua_new_member_identifier (va_unsigned a))),
          aap_existing_member_signature = Some (UnverifiedSignature_to_proto (va_existing_signature a)),
          aap_new_member_signature = Some (UnverifiedSignature_to_proto (va_new_signature a)),
          aap_relying_party = mi_relying_party (ua_new_member_identifier (va_unsigned a)) \<rparr>
   | VChangeRecoveryAddress a \<Rightarrow>
       (let i = uh_new_recovery_identifier (vh_unsigned a) in
        PChangeRecoveryAddress \<lparr> crp_new_recovery_identifier = id_display H i,
          crp_new_recovery_identifier_kind = identifier_kind_i32 (identifier_kind_of i),
          crp_existing_recovery_identifier_signature = Some (UnverifiedSignature_to_proto (vh_recovery_signature a)),
          crp_relying_party = relying_party_of i \<rparr>)
   | VRevokeAssociation a \<Rightarrow>
       PRevoke \<lparr> rap_recovery_identifier_signature = Some (UnverifiedSignature_to_proto (vr_recovery_signature a)),
          rap_member_to_revoke = Some (MemberIdentifier_to_proto (ur_revoked_member (vr_unsigned a))) \<rparr>)"

definition UnverifiedAction_try_from ::
    "id_crypto \<Rightarrow> (bytes \<Rightarrow> bool) \<Rightarrow> identity_action_kind_proto \<Rightarrow> (conversion_error, unverified_action) result" where
  "UnverifiedAction_try_from H key_ok p = (case p of
     PAdd a \<Rightarrow>
       rbind (signature_field_try_from key_ok (aap_new_member_signature a)) (\<lambda>n.
       rbind (signature_field_try_from key_ok (aap_existing_member_signature a)) (\<lambda>e.
       rbind (required (aap_new_member_identifier a) ''member_identifier'' ''MemberIdentifierProto''
                MemberIdentifier_try_from) (\<lambda>i.
       Ok (VAddAssociation \<lparr> va_unsigned = \<lparr> ua_new_member_identifier = i \<rparr>, va_new_signature = n,
             va_existing_signature = e \<rparr>))))
   | PCreateInbox a \<Rightarrow>
       rbind (Identifier_from_proto H (cip_initial_identifier a)
                (or_ethereum (identifier_kind_of_i32 (cip_initial_identifier_kind a))) (cip_relying_party a)) (\<lambda>i.
       rbind (signature_field_try_from key_ok (cip_initial_identifier_signature a)) (\<lambda>s.
       Ok (VCreateInbox \<lparr> vc_unsigned = \<lparr> uc_nonce = cip_nonce a, uc_account_identifier = i \<rparr>,
             vc_initial_signature = s \<rparr>)))
   | PChangeRecoveryAddress a \<Rightarrow>
       rbind (Identifier_from_proto H (crp_new_recovery_identifier a)
                (or_ethereum (identifier_kind_of_i32 (crp_new_recovery_identifier_kind a))) (crp_relying_party a)) (\<lambda>i.
       rbind (signature_field_try_from key_ok (crp_existing_recovery_identifier_signature a)) (\<lambda>s.
       Ok (VChangeRecoveryAddress \<lparr> vh_unsigned = \<lparr> uh_new_recovery_identifier = i \<rparr>, vh_recovery_signature = s \<rparr>)))
   | PRevoke a \<Rightarrow>
       rbind (signature_field_try_from key_ok (rap_recovery_identifier_signature a)) (\<lambda>s.
       rbind (required (rap_member_to_revoke a) ''member_to_revoke'' ''MemberIdentifierProto''
                MemberIdentifier_try_from) (\<lambda>i.
       Ok (VRevokeAssociation \<lparr> vr_unsigned = \<lparr> ur_revoked_member = i \<rparr>, vr_recovery_signature = s \<rparr>))))"

definition UnverifiedIdentityUpdate_to_proto :: "id_crypto \<Rightarrow> unverified_identity_update \<Rightarrow> identity_update_proto" where
  "UnverifiedIdentityUpdate_to_proto H u =
     \<lparr> iup_inbox_id = vi_inbox_id u, iup_client_timestamp_ns = vi_client_timestamp_ns u,
       iup_actions = map (UnverifiedAction_to_proto H) (vi_actions u) \<rparr>"

text \<open>All actions are unwrapped before the first one is converted.\<close>

definition UnverifiedIdentityUpdate_try_from ::
    "id_crypto \<Rightarrow> (bytes \<Rightarrow> bool) \<Rightarrow> identity_update_proto \<Rightarrow> (conversion_error, unverified_identity_update) result" where
  "UnverifiedIdentityUpdate_try_from H key_ok p =
     rbind (try_map (\<lambda>a. ok_or a (Missing ''action'' ''IdentityActionKindProto'')) (iup_actions p)) (\<lambda>kinds.
     rbind (try_map (UnverifiedAction_try_from H key_ok) kinds) (\<lambda>as.
     Ok \<lparr> vi_inbox_id = iup_inbox_id p, vi_client_timestamp_ns = iup_client_timestamp_ns p, vi_actions = as \<rparr>))"

section \<open>What survives the wire\<close>

text \<open>What the hexadecimal library promises.\<close>

definition hex_lossless :: "id_crypto \<Rightarrow> bool" where
  "hex_lossless H \<longleftrightarrow> (\<forall>b. hex_decode H (hex_encode H b) = Some b)"

fun signature_wf :: "(bytes \<Rightarrow> bool) \<Rightarrow> unverified_signature \<Rightarrow> bool" where
  "signature_wf key_ok (UInstallationKey _ key) = key_ok key"
| "signature_wf key_ok (USmartContractWallet _ a _) = (AccountId_try_from (AccountId_to_string a) = Ok a)"
| "signature_wf key_ok _ = True"

definition action_wf :: "(bytes \<Rightarrow> bool) \<Rightarrow> unverified_action \<Rightarrow> bool" where
  "action_wf key_ok a \<longleftrightarrow> list_all (signature_wf key_ok) (UnverifiedAction_signatures a)"

lemmas wire_defs = required_def transposed_def signature_field_try_from_def

interpretation mi_wire: wire_codec "\<lambda>_. True" MemberIdentifier_to_proto MemberIdentifier_try_from
proof
  show "MemberIdentifier_try_from (MemberIdentifier_to_proto i) = Ok i" for i by (cases i) simp_all
qed

interpretation member_wire: wire_codec "\<lambda>_. True" Member_to_proto Member_try_from
proof
  show "Member_try_from (Member_to_proto m) = Ok m" for m
    by (cases "added_by_entity m") (simp_all add: Member_try_from_def Member_to_proto_def wire_defs mi_wire.roundtrip)
qed

interpretation entry_wire: wire_codec "\<lambda>_. True" entry_to_proto entry_try_from
  by unfold_locales
    (simp add: entry_try_from_def entry_to_proto_def wire_defs mi_wire.roundtrip member_wire.roundtrip)

interpretation signature_wire: wire_codec "signature_wf key_ok" UnverifiedSignature_to_proto
    "UnverifiedSignature_try_from key_ok" for key_ok
proof
  show "UnverifiedSignature_try_from key_ok (UnverifiedSignature_to_proto s) = Ok s" if "signature_wf key_ok s" for s
    using that by (cases s) simp_all
qed

lemma identifier_roundtrip:
  assumes "hex_lossless H"
  shows "Identifier_from_proto H (id_display H i)
    (or_ethereum (identifier_kind_of_i32 (identifier_kind_i32 (identifier_kind_of i)))) (relying_party_of i) = Ok i"
  using assms
  by (cases i) (simp_all add: Identifier_from_proto_def or_ethereum_def identifier_kind_of_i32_def hex_lossless_def)

lemma action_roundtrip:
  assumes "hex_lossless H" and "action_wf key_ok a"
  shows "rbind (ok_or (UnverifiedAction_to_proto H a) e) (UnverifiedAction_try_from H key_ok) = Ok a"
  using assms(2)
  by (cases a) (simp_all add: UnverifiedAction_to_proto_def UnverifiedAction_try_from_def action_wf_def Let_def
      wire_defs mi_wire.roundtrip signature_wire.roundtrip identifier_roundtrip [OF assms(1)])

text \<open>Account ids: splitting at colons, and decimal numbers.\<close>

lemma split_colon_plain: "CHR '':'' \<notin> set p \<Longrightarrow> split_colon p = [p]"
  by (induction p) auto

lemma split_colon_append: "CHR '':'' \<notin> set p \<Longrightarrow> split_colon (p @ CHR '':'' # q) = p # split_colon q"
  by (induction p) auto

fun join_colon :: "string list \<Rightarrow> string" where
  "join_colon [] = []"
| "join_colon [p] = p"
| "join_colon (p # ps) = p @ CHR '':'' # join_colon ps"

lemma split_colon_nonempty: "split_colon s \<noteq> []"
  by (cases s) (auto split: list.splits)

lemma join_split_colon: "join_colon (split_colon s) = s"
proof (induction s)
  case Nil
  then show ?case by simp
next
  case (Cons c s)
  obtain p ps where ps: "split_colon s = p # ps" using split_colon_nonempty [of s] by (cases "split_colon s") auto
  with Cons show ?case by (cases ps) auto
qed

lemma show_u64_reference: "reference_ok (show_u64 n)" and show_u64_no_colon: "CHR '':'' \<notin> set (show_u64 n)"
proof -
  note digits = show_u64_digits [of _ n]
  have len: "length (show_u64 n) \<le> 20" "show_u64 n \<noteq> []" by (rule show_u64_length)+
  then have "1 \<le> length (show_u64 n)" by (cases "show_u64 n") simp_all
  moreover have "is_lower_or_digit c" if "c \<in> set (show_u64 n)" for c
    using digits [OF that] by (simp add: is_lower_or_digit_def)
  ultimately show "reference_ok (show_u64 n)"
    using len(1) by (simp add: reference_ok_def list_all_iff)
  show "CHR '':'' \<notin> set (show_u64 n)" using digits [of "CHR '':''"] by auto
qed

lemma account_address_no_colon: "account_address_ok a \<Longrightarrow> CHR '':'' \<notin> set a"
  by (fastforce simp: account_address_ok_def list_all_iff is_lower_or_digit_def is_upper_def)

text \<open>
  CAIP-10 account ids: a parsed account id prints as the string it was read from, and
  the account id of an EVM chain with a well-formed address survives printing and parsing, with the
  chain id it was made of.
\<close>

theorem account_id_roundtrip:
  "(AccountId_try_from s = Ok a \<longrightarrow> AccountId_to_string a = s) \<and>
   (account_address_ok addr \<longrightarrow>
     AccountId_try_from (AccountId_to_string (AccountId_new_evm n addr)) = Ok (AccountId_new_evm n addr) \<and>
     get_chain_id_u64 (AccountId_new_evm n addr) = Ok n)"
proof (intro conjI impI)
  assume "AccountId_try_from s = Ok a"
  then obtain p q r where "split_colon s = [p, q, r]" "a = \<lparr> chain_id = p @ '':'' @ q, account_address = r \<rparr>"
    by (auto simp: AccountId_try_from_def split: list.splits if_splits)
  then show "AccountId_to_string a = s"
    using join_split_colon [of s] by (simp add: AccountId_to_string_def)
next
  assume addr: "account_address_ok addr"
  have "split_colon (AccountId_to_string (AccountId_new_evm n addr)) = [''eip155'', show_u64 n, addr]"
    using split_colon_append [of "''eip155''" "show_u64 n @ CHR '':'' # addr"]
      split_colon_append [OF show_u64_no_colon, of n addr] split_colon_plain [OF account_address_no_colon [OF addr]]
    by (simp add: AccountId_to_string_def AccountId_new_evm_def)
  moreover have "namespace_ok ''eip155''"
    by (simp add: namespace_ok_def is_lower_or_digit_def)
  ultimately show "AccountId_try_from (AccountId_to_string (AccountId_new_evm n addr)) = Ok (AccountId_new_evm n addr)"
    using addr show_u64_reference [of n] by (simp add: AccountId_try_from_def AccountId_new_evm_def)
  show "get_chain_id_u64 (AccountId_new_evm n addr) = Ok n"
    by (simp add: get_chain_id_u64_def AccountId_new_evm_def strip_prefix_def parse_show_u64)
qed

theorem account_id_roundtrip_witness:
  "AccountId_try_from (AccountId_to_string (AccountId_new_evm 1 ''0xab'')) = Ok (AccountId_new_evm 1 ''0xab'') \<and>
   AccountId_to_string \<lparr> chain_id = ''eip155:1'', account_address = ''0xab'' \<rparr> = ''eip155:1:0xab''"
proof -
  have "account_address_ok ''0xab''" by code_simp
  moreover have "AccountId_try_from ''eip155:1:0xab'' = Ok \<lparr> chain_id = ''eip155:1'', account_address = ''0xab'' \<rparr>"
    by code_simp
  ultimately show ?thesis
    using account_id_roundtrip [of "''eip155:1:0xab''" _ "''0xab''" 1] by blast
qed

text \<open>
  An identity update survives the protobuf form: with a lossless hexadecimal codec,
  decoding what was encoded gives the same update, provided its installation keys and account ids
  are ones the decoder accepts.
\<close>

theorem identity_update_roundtrip:
  assumes "hex_lossless H" and "list_all (action_wf key_ok) (vi_actions u)"
  shows "UnverifiedIdentityUpdate_try_from H key_ok (UnverifiedIdentityUpdate_to_proto H u) = Ok u"
proof -
  let ?e = "Missing ''action'' ''IdentityActionKindProto''"
  have kinds: "try_map (\<lambda>a. ok_or a e) (map (UnverifiedAction_to_proto H) as) = Ok (map (the \<circ> UnverifiedAction_to_proto H) as)"
    for e and as
    by (induction as) (simp_all add: UnverifiedAction_to_proto_def)
  have "UnverifiedAction_try_from H key_ok (the (UnverifiedAction_to_proto H a)) = Ok a" if "a \<in> set (vi_actions u)" for a
    using action_roundtrip [OF assms(1), of key_ok a ?e] assms(2) that
    by (simp add: list_all_iff UnverifiedAction_to_proto_def)
  then have "try_map (UnverifiedAction_try_from H key_ok) (map (the \<circ> UnverifiedAction_to_proto H) (vi_actions u)) =
      Ok (vi_actions u)"
    by (intro try_map_inverse) simp
  with kinds [of ?e "vi_actions u"] show ?thesis
    by (simp add: UnverifiedIdentityUpdate_try_from_def UnverifiedIdentityUpdate_to_proto_def del: map_map)
qed

lemma state_proto_roundtrip:
  assumes "hex_lossless H" and "state_ok s"
  shows "AssociationState_try_from H (AssociationState_to_proto H s) = Ok s"
proof -
  have "hs_extend (=) [] (seen_signatures s) = seen_signatures s"
    using assms(2) by (intro hs_extend_distinct) (simp add: state_ok_def)
  moreover have "hm_from_iter mi_eq (members s) = members s"
    using assms(2) mi.hm_from_iter_wf [of "[]" "members s"] by (simp add: state_ok_def hm_from_iter_def)
  moreover have "try_map entry_try_from (map entry_to_proto (members s)) = Ok (members s)"
    by (rule entry_wire.vec_roundtrip) (simp add: list_all_iff)
  ultimately show ?thesis
    by (simp add: AssociationState_try_from_def AssociationState_to_proto_def identifier_roundtrip [OF assms(1)])
qed

text \<open>
  The cached form of an association state loses nothing: every state a log can produce
  survives the conversion to its protobuf message and back.
\<close>

theorem association_state_roundtrip:
  assumes "hex_lossless H" and "get_state H us = Ok s"
  shows "AssociationState_try_from H (AssociationState_to_proto H s) = Ok s"
  using assms(1) get_state_ok [OF assms(2)] by (rule state_proto_roundtrip)

lemma of_char_of_u8: "(of_char (char_of (unat b)) :: u8) = b"
proof -
  have "(of_char (char_of (unat b)) :: u8) = of_nat (of_char (char_of (unat b)))" by (rule of_nat_of_char [symmetric])
  also have "\<dots> = of_nat (unat b mod 256)" by (simp add: of_char_of)
  also have "unat b mod 256 = unat b"
  proof -
    have "unat b < 2 ^ LENGTH(8)" by (rule unsigned_less)
    then show ?thesis by simp
  qed
  finally show ?thesis by simp
qed

lemma plain_hex_lossless: "hex_lossless plain_crypto"
  by (simp add: hex_lossless_def plain_crypto_def comp_def of_char_of_u8)

theorem association_state_roundtrip_witness:
  "AssociationState_try_from plain_crypto (AssociationState_to_proto plain_crypto demo_state) = Ok demo_state"
  by (rule association_state_roundtrip [OF plain_hex_lossless demo_log])

definition demo_update :: unverified_identity_update where
  "demo_update = \<lparr> vi_inbox_id = ''inbox'', vi_client_timestamp_ns = 5, vi_actions =
     [VAddAssociation \<lparr> va_unsigned = \<lparr> ua_new_member_identifier = Passkey (Passkey_mk [1, 2] (Some ''rp'')) \<rparr>,
        va_new_signature = UPasskey [1, 2] [3] [4] [5],
        va_existing_signature = USmartContractWallet [6] \<lparr> chain_id = ''eip155:1'', account_address = ''0xab'' \<rparr> 9 \<rparr>] \<rparr>"

theorem identity_update_roundtrip_witness:
  "UnverifiedIdentityUpdate_try_from plain_crypto (\<lambda>k. length k = 32)
     (UnverifiedIdentityUpdate_to_proto plain_crypto demo_update) = Ok demo_update"
proof (rule identity_update_roundtrip [OF plain_hex_lossless])
  show "list_all (action_wf (\<lambda>k. length k = 32)) (vi_actions demo_update)" by code_simp
qed

end
