(* ===== verification/Group_Membership.thy ===== *)
theory Group_Membership
  imports Collections
begin

text \<open>
  The membership of a group, \<open>xmtp_mls/src/groups/group_membership.rs\<close>: which inboxes belong to it, up
  to which sequence id of their identity log, and which installations could not be added. The
  lemmas say that the difference of two memberships lists each inbox once and in the right class.
\<close>

record group_membership =
  gm_members :: "(string, u64) hash_map"
  failed_installations :: "bytes list"

record membership_diff =
  md_added_inboxes :: "string list"
  md_removed_inboxes :: "string list"
  md_updated_inboxes :: "string list"

definition GroupMembership_new :: group_membership where
  "GroupMembership_new = \<lparr> gm_members = [], failed_installations = [] \<rparr>"

definition gm_add :: "group_membership \<Rightarrow> string \<Rightarrow> u64 \<Rightarrow> group_membership" where
  "gm_add g i n = g\<lparr> gm_members := hm_insert (=) i n (gm_members g) \<rparr>"

definition gm_remove :: "group_membership \<Rightarrow> string \<Rightarrow> group_membership" where
  "gm_remove g i = g\<lparr> gm_members := hm_remove (=) i (gm_members g) \<rparr>"

definition gm_get :: "group_membership \<Rightarrow> string \<Rightarrow> u64 option" where
  "gm_get g i = hm_get (=) (gm_members g) i"

definition inbox_ids :: "group_membership \<Rightarrow> string list" where
  "inbox_ids g = map fst (gm_members g)"

definition to_filters :: "group_membership \<Rightarrow> (string \<times> int) list" where
  "to_filters g = map (\<lambda>(i, n). (i, sint n)) (gm_members g)"

definition gm_diff :: "group_membership \<Rightarrow> group_membership \<Rightarrow> membership_diff" where
  "gm_diff old new =
     (let step = (\<lambda>(i, n) (removed, updated).
            case gm_get new i of
              Some n' \<Rightarrow> if n' \<noteq> n then (removed, updated @ [i]) else (removed, updated)
            | None \<Rightarrow> (removed @ [i], updated));
          (removed, updated) = fold step (gm_members old) ([], [])
      in \<lparr> md_added_inboxes = filter (\<lambda>i. \<not> hm_contains_key (=) (gm_members old) i) (map fst (gm_members new)),
           md_removed_inboxes = removed, md_updated_inboxes = updated \<rparr>)"

definition gm_wf :: "group_membership \<Rightarrow> bool" where
  "gm_wf g \<longleftrightarrow> hm_wf (=) (gm_members g)"

lemma gm_wf_ops:
  "gm_wf GroupMembership_new" "gm_wf g \<Longrightarrow> gm_wf (gm_add g i n)" "gm_wf g \<Longrightarrow> gm_wf (gm_remove g i)"
  by (simp_all add: gm_wf_def GroupMembership_new_def gm_add_def gm_remove_def plain.hm_wf_insert plain.hm_wf_remove)

lemma gm_get_ops:
  "gm_get (gm_add g i n) j = (if i = j then Some n else gm_get g j)"
  "gm_get (gm_remove g i) j = (if i = j then None else gm_get g j)"
  by (simp_all add: gm_get_def gm_add_def gm_remove_def plain.hm_get_insert plain.hm_get_remove)

lemma hm_wf_plain: "hm_wf (=) m \<longleftrightarrow> distinct (map fst m)"
  by (induction m) (force simp: list_all_iff)+

lemma hm_get_plain: "hm_get (=) m k = map_of m k"
  by (induction m) auto

lemma gm_get_iff: "gm_wf g \<Longrightarrow> gm_get g i = Some n \<longleftrightarrow> (i, n) \<in> set (gm_members g)"
  by (simp add: gm_wf_def hm_wf_plain gm_get_def hm_get_plain)

lemma gm_get_None: "gm_get g i = None \<longleftrightarrow> i \<notin> set (inbox_ids g)"
  by (simp add: gm_get_def hm_get_plain map_of_eq_None_iff inbox_ids_def)

lemma gm_diff_removed: "md_removed_inboxes (gm_diff old new) = filter (\<lambda>i. gm_get new i = None) (inbox_ids old)"
  and gm_diff_updated: "md_updated_inboxes (gm_diff old new) =
    map fst (filter (\<lambda>(i, n). \<exists>n'. gm_get new i = Some n' \<and> n' \<noteq> n) (gm_members old))"
proof -
  let ?step = "\<lambda>(i, n) (removed, updated).
            case gm_get new i of
              Some n' \<Rightarrow> if n' \<noteq> n then (removed, updated @ [i]) else (removed, updated)
            | None \<Rightarrow> (removed @ [i], updated)"
  have fold: "fold ?step ms (r, u) =
      (r @ filter (\<lambda>i. gm_get new i = None) (map fst ms),
       u @ map fst (filter (\<lambda>(i, n). \<exists>n'. gm_get new i = Some n' \<and> n' \<noteq> n) ms))" for ms r u
    by (induction ms arbitrary: r u) (auto split: option.splits)
  show "md_removed_inboxes (gm_diff old new) = filter (\<lambda>i. gm_get new i = None) (inbox_ids old)"
    "md_updated_inboxes (gm_diff old new) =
       map fst (filter (\<lambda>(i, n). \<exists>n'. gm_get new i = Some n' \<and> n' \<noteq> n) (gm_members old))"
    by (simp_all only: gm_diff_def Let_def fold) (simp_all add: inbox_ids_def)
qed

lemma gm_diff_added: "md_added_inboxes (gm_diff old new) = filter (\<lambda>i. gm_get old i = None) (inbox_ids new)"
  by (simp add: gm_diff_def Let_def hm_contains_key_iff gm_get_def inbox_ids_def split: prod.splits)

text \<open>
  The difference of two memberships is exact: an inbox is reported as added, removed
  or updated exactly when only the new membership has it, only the old one has it, or both have it
  with different sequence ids; each is reported once and in one class only.
\<close>

theorem membership_diff_exact:
  assumes "gm_wf old" and "gm_wf new"
  shows "(i \<in> set (md_added_inboxes (gm_diff old new))) = (gm_get old i = None \<and> gm_get new i \<noteq> None) \<and>
    (i \<in> set (md_removed_inboxes (gm_diff old new))) = (gm_get old i \<noteq> None \<and> gm_get new i = None) \<and>
    (i \<in> set (md_updated_inboxes (gm_diff old new))) =
      (\<exists>n n'. gm_get old i = Some n \<and> gm_get new i = Some n' \<and> n \<noteq> n') \<and>
    distinct (md_added_inboxes (gm_diff old new) @ md_removed_inboxes (gm_diff old new) @
      md_updated_inboxes (gm_diff old new))"
proof -
  have dist: "distinct (map fst (gm_members old))" "distinct (map fst (gm_members new))"
    using assms by (simp_all add: gm_wf_def hm_wf_plain)
  have added: "set (md_added_inboxes (gm_diff old new)) = {i. gm_get old i = None \<and> gm_get new i \<noteq> None}"
    by (auto simp: gm_diff_added gm_get_None)
  have removed: "set (md_removed_inboxes (gm_diff old new)) = {i. gm_get old i \<noteq> None \<and> gm_get new i = None}"
    by (auto simp: gm_diff_removed gm_get_None)
  have updated: "set (md_updated_inboxes (gm_diff old new)) =
      {i. \<exists>n n'. gm_get old i = Some n \<and> gm_get new i = Some n' \<and> n \<noteq> n'}"
    unfolding gm_diff_updated gm_get_iff [OF assms(1)] by (auto simp: image_iff)
  have "distinct (md_added_inboxes (gm_diff old new))" "distinct (md_removed_inboxes (gm_diff old new))"
    using dist by (simp_all add: gm_diff_added gm_diff_removed inbox_ids_def)
  moreover have "distinct (md_updated_inboxes (gm_diff old new))"
    unfolding gm_diff_updated using dist(1) by (rule distinct_map_filter)
  ultimately show ?thesis
    by (auto simp: added removed updated)
qed

definition demo_old_membership :: group_membership where
  "demo_old_membership = gm_add (gm_add GroupMembership_new ''alice'' 1) ''bob'' 2"

definition demo_new_membership :: group_membership where
  "demo_new_membership = gm_add (gm_add GroupMembership_new ''alice'' 5) ''carol'' 3"

theorem membership_diff_exact_witness:
  "''carol'' \<in> set (md_added_inboxes (gm_diff demo_old_membership demo_new_membership)) \<and>
   ''bob'' \<in> set (md_removed_inboxes (gm_diff demo_old_membership demo_new_membership)) \<and>
   ''alice'' \<in> set (md_updated_inboxes (gm_diff demo_old_membership demo_new_membership))"
proof -
  have wf: "gm_wf demo_old_membership" "gm_wf demo_new_membership"
    by (simp_all add: demo_old_membership_def demo_new_membership_def gm_wf_ops)
  have "gm_get demo_old_membership ''carol'' = None" "gm_get demo_new_membership ''carol'' = Some 3"
    "gm_get demo_old_membership ''bob'' = Some 2" "gm_get demo_new_membership ''bob'' = None"
    "gm_get demo_old_membership ''alice'' = Some 1" "gm_get demo_new_membership ''alice'' = Some 5"
    by code_simp+
  then show ?thesis
    using membership_diff_exact [OF wf, of "''carol''"] membership_diff_exact [OF wf, of "''bob''"]
      membership_diff_exact [OF wf, of "''alice''"] by simp
qed

end
