(* ===== verification/Identity_Updates.thy ===== *)
theory Identity_Updates
  imports Serialization Group_Membership
begin

text \<open>
  Identity updates in the local database and the association states computed from them:
  \<open>xmtp_mls/src/identity_updates.rs\<close>, the queries of \<open>xmtp_db/src/encrypted_store/identity_update.rs\<close> and
  the cache of \<open>association_state.rs\<close>.

  The two tables are lists of rows; a query is what its SQL says of the rows. A connection that
  fails is not modelled. The network is an argument; so are the prost codec of an update and the
  verification libraries (the fields of \<open>identity_env\<close>). The cache stores the protobuf message of a
  state. Lookups that run concurrently in the source are run here one after the other: their only
  shared effect is to fill the cache.

  \<open>replay\<close> is the reference: the state that the stored updates give, without any cache. The lemmas
  show that the cache never changes a result (\<open>cached_lookup\<close>), and that the incremental difference
  is the difference of two replays.
\<close>

section \<open>Tables\<close>

record stored_identity_update =
  si_inbox_id :: string
  si_sequence_id :: int
  si_server_timestamp_ns :: int
  si_payload :: bytes
  si_originator_id :: int

record identity_db =
  idb_updates :: "stored_identity_update list"
  idb_cache :: "((string \<times> int) \<times> association_state_proto) list"

definition in_range :: "int option \<Rightarrow> int option \<Rightarrow> stored_identity_update \<Rightarrow> bool" where
  "in_range from_sequence_id to_sequence_id r \<longleftrightarrow>
     (case from_sequence_id of Some n \<Rightarrow> si_sequence_id r > n | None \<Rightarrow> True) \<and>
     (case to_sequence_id of Some n \<Rightarrow> si_sequence_id r \<le> n | None \<Rightarrow> True)"

definition get_identity_updates ::
    "identity_db \<Rightarrow> string \<Rightarrow> int option \<Rightarrow> int option \<Rightarrow> stored_identity_update list" where
  "get_identity_updates db inbox from_sequence_id to_sequence_id =
     sort_key si_sequence_id
       (filter (\<lambda>r. si_inbox_id r = inbox \<and> in_range from_sequence_id to_sequence_id r) (idb_updates db))"

definition same_key :: "stored_identity_update \<Rightarrow> stored_identity_update \<Rightarrow> bool" where
  "same_key a b \<longleftrightarrow> si_inbox_id a = si_inbox_id b \<and> si_sequence_id a = si_sequence_id b"

definition insert_or_ignore_identity_updates :: "identity_db \<Rightarrow> stored_identity_update list \<Rightarrow> identity_db" where
  "insert_or_ignore_identity_updates db rows =
     db\<lparr> idb_updates := fold (\<lambda>r t. if list_ex (same_key r) t then t else t @ [r]) rows (idb_updates db) \<rparr>"

definition get_latest_sequence_id :: "identity_db \<Rightarrow> string list \<Rightarrow> (string \<times> int) list" where
  "get_latest_sequence_id db ids =
     map (\<lambda>i. (i, Max (set (map si_sequence_id (filter (\<lambda>r. si_inbox_id r = i) (idb_updates db))))))
       (filter (\<lambda>i. i \<in> set ids) (remdups (map si_inbox_id (idb_updates db))))"

definition read_from_cache :: "identity_db \<Rightarrow> string \<Rightarrow> int \<Rightarrow> association_state_proto option" where
  "read_from_cache db inbox n = map_of (idb_cache db) (inbox, n)"

definition write_to_cache :: "identity_db \<Rightarrow> string \<Rightarrow> int \<Rightarrow> association_state_proto \<Rightarrow> identity_db" where
  "write_to_cache db inbox n p =
     (if map_of (idb_cache db) (inbox, n) \<noteq> None then db
      else db\<lparr> idb_cache := ((inbox, n), p) # idb_cache db \<rparr>)"

section \<open>Association states\<close>

datatype client_error =
    CStorage conversion_error
  | CApi
  | CAssociation association_error
  | CSignatureValidation signature_error

record identity_env =
  env_libs :: sig_crypto
  env_key_ok :: "bytes \<Rightarrow> bool"
  prost_decode :: "bytes \<Rightarrow> identity_update_proto option"
  prost_encode :: "identity_update_proto \<Rightarrow> bytes"

abbreviation (input) env_hex :: "identity_env \<Rightarrow> id_crypto" where
  "env_hex E \<equiv> libs (env_libs E)"

definition to_unverified :: "identity_env \<Rightarrow> stored_identity_update \<Rightarrow> (association_error, unverified_identity_update) result" where
  "to_unverified E r =
     map_err (\<lambda>_. Deserialization)
       (rbind (ok_or (prost_decode E (si_payload r)) Decode) (UnverifiedIdentityUpdate_try_from (env_hex E) (env_key_ok E)))"

definition verify_updates ::
    "identity_env \<Rightarrow> unverified_identity_update list \<Rightarrow> (signature_error, identity_update list) result" where
  "verify_updates E us = try_map (UnverifiedIdentityUpdate_to_verified (env_libs E)) us"

text \<open>Deserialising all rows, then verifying all updates, as both readers do.\<close>

definition verified_log :: "identity_env \<Rightarrow> stored_identity_update list \<Rightarrow> (client_error, identity_update list) result" where
  "verified_log E rows =
     rbind (map_err CAssociation (try_map (to_unverified E) rows)) (\<lambda>us.
     map_err CSignatureValidation (verify_updates E us))"

definition get_association_state ::
    "identity_env \<Rightarrow> identity_db \<Rightarrow> string \<Rightarrow> int option \<Rightarrow> (client_error, association_state) result \<times> identity_db" where
  "get_association_state E db inbox to_sequence_id =
     (let updates = get_identity_updates db inbox None to_sequence_id in
      if updates = [] then (Err (CAssociation MissingIdentityUpdate), db)
      else
      let last_sequence_id = si_sequence_id (last updates) in
      if to_sequence_id \<noteq> None \<and> to_sequence_id \<noteq> Some last_sequence_id
      then (Err (CAssociation MissingIdentityUpdate), db)
      else
      case read_from_cache db inbox last_sequence_id of
        Some p \<Rightarrow> (map_err CStorage (AssociationState_try_from (env_hex E) p), db)
      | None \<Rightarrow>
          (case rbind (verified_log E updates) (\<lambda>us. map_err CAssociation (get_state (env_hex E) us)) of
             Err e \<Rightarrow> (Err e, db)
           | Ok s \<Rightarrow> (Ok s, write_to_cache db inbox last_sequence_id (AssociationState_to_proto (env_hex E) s))))"

fun apply_updates ::
    "id_crypto \<Rightarrow> identity_update list \<Rightarrow> association_state \<Rightarrow> (association_error, association_state) result" where
  "apply_updates H [] s = Ok s"
| "apply_updates H (u # us) s = rbind (apply_update H s u) (apply_updates H us)"

definition get_association_state_diff ::
    "identity_env \<Rightarrow> identity_db \<Rightarrow> string \<Rightarrow> int option \<Rightarrow> int option \<Rightarrow>
     (client_error, association_state_diff) result \<times> identity_db" where
  "get_association_state_diff E db inbox starting_sequence_id ending_sequence_id =
     (if starting_sequence_id = None then
        (case get_association_state E db inbox ending_sequence_id of
           (r, db1) \<Rightarrow> (rbind r (\<lambda>s. Ok (as_diff s)), db1))
      else
      case get_association_state E db inbox starting_sequence_id of
        (Err e, db1) \<Rightarrow> (Err e, db1)
      | (Ok initial_state, db1) \<Rightarrow>
          (let incremental_updates = get_identity_updates db1 inbox starting_sequence_id ending_sequence_id;
               last_sequence_id =
                 (if incremental_updates = [] then None else Some (si_sequence_id (last incremental_updates)))
           in
           if ending_sequence_id \<noteq> None \<and> last_sequence_id \<noteq> None \<and> last_sequence_id \<noteq> ending_sequence_id
           then (Err (CAssociation MissingIdentityUpdate), db1)
           else
           case rbind (verified_log E incremental_updates) (\<lambda>us.
                  map_err CAssociation (apply_updates (env_hex E) us initial_state)) of
             Err e \<Rightarrow> (Err e, db1)
           | Ok final_state \<Rightarrow>
               (Ok (st_diff initial_state final_state),
                case last_sequence_id of
                  Some n \<Rightarrow> write_to_cache db1 inbox n (AssociationState_to_proto (env_hex E) final_state)
                | None \<Rightarrow> db1)))"

section \<open>Loading from the network\<close>

record inbox_update =
  ib_sequence_id :: u64
  ib_server_timestamp_ns :: u64
  ib_update :: unverified_identity_update

type_synonym identity_network = "(string \<times> u64 option) list \<Rightarrow> (string \<times> inbox_update list) list option"

definition filter_inbox_ids_needing_updates :: "identity_db \<Rightarrow> (string \<times> int) list \<Rightarrow> string list" where
  "filter_inbox_ids_needing_updates db filters =
     (let existing = get_latest_sequence_id db (map fst filters) in
      map fst (filter (\<lambda>(i, n). \<not> (case map_of existing i of Some s \<Rightarrow> s \<ge> n | None \<Rightarrow> False)) filters))"

definition stored_of :: "identity_env \<Rightarrow> string \<Rightarrow> inbox_update \<Rightarrow> stored_identity_update" where
  "stored_of E inbox u =
     \<lparr> si_inbox_id = inbox, si_sequence_id = sint (ib_sequence_id u),
       si_server_timestamp_ns = sint (ib_server_timestamp_ns u),
       si_payload = prost_encode E (UnverifiedIdentityUpdate_to_proto (env_hex E) (ib_update u)),
       si_originator_id = sint INBOX_LOG \<rparr>"

definition load_identity_updates ::
    "identity_env \<Rightarrow> identity_network \<Rightarrow> identity_db \<Rightarrow> string list \<Rightarrow>
     (client_error, (string, inbox_update list) hash_map) result \<times> identity_db" where
  "load_identity_updates E net db ids =
     (if ids = [] then (Ok [], db)
      else
      let existing = get_latest_sequence_id db ids;
          filters = map (\<lambda>i. (i, map_option word_of_int (map_of existing i))) ids
      in case net filters of
           None \<Rightarrow> (Err CApi, db)
         | Some pairs \<Rightarrow>
             (let updates = hm_from_iter (=) pairs;
                  to_store = concat (map (\<lambda>(i, us). map (stored_of E i) us) updates)
              in (Ok updates, insert_or_ignore_identity_updates db to_store)))"

section \<open>Installations between two memberships\<close>

record installation_diff =
  added_installations :: "bytes list"
  removed_installations_set :: "bytes list"

definition starting_sequence_id :: "group_membership \<Rightarrow> string \<Rightarrow> int option" where
  "starting_sequence_id old i =
     (case gm_get old i of Some n \<Rightarrow> if n = 0 then None else Some (sint n) | None \<Rightarrow> None)"

definition ending_sequence_id :: "group_membership \<Rightarrow> string \<Rightarrow> int option" where
  "ending_sequence_id new i = map_option sint (gm_get new i)"

fun state_diffs ::
    "identity_env \<Rightarrow> group_membership \<Rightarrow> group_membership \<Rightarrow> string list \<Rightarrow> identity_db \<Rightarrow>
     (client_error, association_state_diff list) result \<times> identity_db" where
  "state_diffs E old new [] db = (Ok [], db)"
| "state_diffs E old new (i # is) db =
     (case get_association_state_diff E db i (starting_sequence_id old i) (ending_sequence_id new i) of
        (Err e, db1) \<Rightarrow> (Err e, db1)
      | (Ok d, db1) \<Rightarrow>
          (case state_diffs E old new is db1 of
             (r, db2) \<Rightarrow> (rbind r (\<lambda>ds. Ok (d # ds)), db2)))"

fun removed_states ::
    "identity_env \<Rightarrow> group_membership \<Rightarrow> string list \<Rightarrow> identity_db \<Rightarrow>
     (client_error, association_state_diff list) result \<times> identity_db" where
  "removed_states E old [] db = (Ok [], db)"
| "removed_states E old (i # is) db =
     (case get_association_state E db i (map_option sint (gm_get old i)) of
        (Err e, db1) \<Rightarrow> (Err e, db1)
      | (Ok s, db1) \<Rightarrow>
          (case removed_states E old is db1 of
             (r, db2) \<Rightarrow> (rbind r (\<lambda>ds. Ok (as_diff s # ds)), db2)))"

definition get_installation_diff ::
    "identity_env \<Rightarrow> identity_network \<Rightarrow> identity_db \<Rightarrow> group_membership \<Rightarrow> group_membership \<Rightarrow> membership_diff \<Rightarrow>
     (client_error, installation_diff) result \<times> identity_db" where
  "get_installation_diff E net db old new mdiff =
     (let changed = md_added_inboxes mdiff @ md_updated_inboxes mdiff;
          filters = map (\<lambda>i. (i, case gm_get new i of Some n \<Rightarrow> sint n | None \<Rightarrow> 0)) changed
      in case load_identity_updates E net db (filter_inbox_ids_needing_updates db filters) of
           (Err e, db1) \<Rightarrow> (Err e, db1)
         | (Ok _, db1) \<Rightarrow>
        (case state_diffs E old new changed db1 of
           (Err e, db2) \<Rightarrow> (Err e, db2)
         | (Ok diffs, db2) \<Rightarrow>
        (case removed_states E old (md_removed_inboxes mdiff) db2 of
           (Err e, db3) \<Rightarrow> (Err e, db3)
         | (Ok gone, db3) \<Rightarrow>
             (Ok \<lparr> added_installations = fold (\<lambda>d s. hs_extend (=) s (new_installations d)) diffs [],
                   removed_installations_set =
                     fold (\<lambda>d s. hs_extend (=) s (new_installations d)) gone
                       (fold (\<lambda>d s. hs_extend (=) s (removed_installations d)) diffs []) \<rparr>, db3))))"

section \<open>The reference: replaying the stored updates\<close>

definition replay :: "identity_env \<Rightarrow> identity_db \<Rightarrow> string \<Rightarrow> int option \<Rightarrow> (client_error, association_state) result" where
  "replay E db inbox to_sequence_id =
     (let rows = get_identity_updates db inbox None to_sequence_id in
      if rows = [] \<or> to_sequence_id \<noteq> None \<and> to_sequence_id \<noteq> Some (si_sequence_id (last rows))
      then Err (CAssociation MissingIdentityUpdate)
      else rbind (verified_log E rows) (\<lambda>us. map_err CAssociation (get_state (env_hex E) us)))"

definition cache_ok :: "identity_env \<Rightarrow> identity_db \<Rightarrow> bool" where
  "cache_ok E db \<longleftrightarrow> (\<forall>inbox n p. read_from_cache db inbox n = Some p \<longrightarrow>
     (\<exists>s. replay E db inbox (Some n) = Ok s \<and> p = AssociationState_to_proto (env_hex E) s))"

text \<open>Queries return the rows in the order of their sequence ids.\<close>

lemma insort_split:
  assumes "\<And>y. y \<in> set A \<Longrightarrow> f y \<le> a" and "\<And>y. y \<in> set B \<Longrightarrow> a < f y"
  shows "insort_key f x (A @ B) = (if f x \<le> (a :: int) then insort_key f x A @ B else A @ insort_key f x B)"
  using assms
proof (induction A)
  case Nil
  show ?case
  proof (cases B)
    case (Cons y ys)
    then have "a < f y" using Nil(2) by simp
    with Cons show ?thesis by simp
  qed simp
next
  case (Cons y A)
  have y: "f y \<le> a" using Cons.prems(1) [of y] by simp
  have IH: "insort_key f x (A @ B) = (if f x \<le> a then insort_key f x A @ B else A @ insort_key f x B)"
    by (rule Cons.IH) (use Cons.prems in auto)
  show ?case
  proof (cases "f x \<le> f y")
    case True
    then have "f x \<le> a" using y by simp
    with True show ?thesis by simp
  next
    case False
    with IH show ?thesis by simp
  qed
qed

lemma sort_key_split:
  "sort_key f xs = sort_key f (filter (\<lambda>x. f x \<le> a) xs) @ sort_key f (filter (\<lambda>x. (a :: int) < f x) xs)"
proof (induction xs)
  case Nil
  then show ?case by simp
next
  case (Cons x xs)
  have "insort_key f x (sort_key f (filter (\<lambda>x. f x \<le> a) xs) @ sort_key f (filter (\<lambda>x. a < f x) xs)) =
      (if f x \<le> a then insort_key f x (sort_key f (filter (\<lambda>x. f x \<le> a) xs)) @ sort_key f (filter (\<lambda>x. a < f x) xs)
       else sort_key f (filter (\<lambda>x. f x \<le> a) xs) @ insort_key f x (sort_key f (filter (\<lambda>x. a < f x) xs)))"
    by (rule insort_split) simp_all
  with Cons show ?case by simp
qed

lemma sorted_key_last: "sorted (map f xs) \<Longrightarrow> x \<in> set xs \<Longrightarrow> f x \<le> f (last xs)"
  by (induction xs rule: rev_induct) (auto simp: sorted_append)

lemma updates_split:
  assumes "\<And>b. to_sequence_id = Some b \<Longrightarrow> a \<le> b"
  shows "get_identity_updates db inbox None to_sequence_id =
    get_identity_updates db inbox None (Some a) @ get_identity_updates db inbox (Some a) to_sequence_id"
proof -
  have f: "filter (\<lambda>r. si_sequence_id r \<le> a) (filter (\<lambda>r. si_inbox_id r = inbox \<and> in_range None to_sequence_id r) rs) =
      filter (\<lambda>r. si_inbox_id r = inbox \<and> in_range None (Some a) r) rs" for rs
    using assms by (induction rs) (force simp: in_range_def split: option.splits)+
  have g: "filter (\<lambda>r. a < si_sequence_id r) (filter (\<lambda>r. si_inbox_id r = inbox \<and> in_range None to_sequence_id r) rs) =
      filter (\<lambda>r. si_inbox_id r = inbox \<and> in_range (Some a) to_sequence_id r) rs" for rs
    by (induction rs) (auto simp: in_range_def split: option.splits)
  show ?thesis
    unfolding get_identity_updates_def
    using sort_key_split [of si_sequence_id "filter (\<lambda>r. si_inbox_id r = inbox \<and> in_range None to_sequence_id r) (idb_updates db)" a]
    by (simp add: f g del: filter_filter)
qed

lemma get_identity_updates_sorted: "sorted (map si_sequence_id (get_identity_updates db inbox a b))"
  by (simp add: get_identity_updates_def)

lemma get_identity_updates_set:
  "set (get_identity_updates db inbox a b) = {r \<in> set (idb_updates db). si_inbox_id r = inbox \<and> in_range a b r}"
  by (auto simp: get_identity_updates_def)

lemma updates_upto_last:
  assumes "get_identity_updates db inbox None to_sequence_id = rows" and "rows \<noteq> []"
  shows "get_identity_updates db inbox None (Some (si_sequence_id (last rows))) = rows"
proof -
  have "si_sequence_id r \<le> si_sequence_id (last rows)" if "r \<in> set rows" for r
    using get_identity_updates_sorted [of db inbox None to_sequence_id] that unfolding assms(1) by (rule sorted_key_last)
  note upper = this
  have mem: "r \<in> set rows \<longleftrightarrow> r \<in> set (idb_updates db) \<and> si_inbox_id r = inbox \<and> in_range None to_sequence_id r" for r
    using get_identity_updates_set [of db inbox None to_sequence_id] unfolding assms(1) by blast
  have "in_range None to_sequence_id (last rows)" using mem last_in_set [OF assms(2)] by blast
  then have below: "in_range None (Some (si_sequence_id (last rows))) r \<Longrightarrow> in_range None to_sequence_id r" for r
    by (auto simp: in_range_def split: option.splits)
  have "(si_inbox_id r = inbox \<and> in_range None (Some (si_sequence_id (last rows))) r) =
      (si_inbox_id r = inbox \<and> in_range None to_sequence_id r)" if "r \<in> set (idb_updates db)" for r
    using below [of r] upper [of r] mem [of r] that by (auto simp: in_range_def)
  then have "filter (\<lambda>r. si_inbox_id r = inbox \<and> in_range None (Some (si_sequence_id (last rows))) r) (idb_updates db) =
      filter (\<lambda>r. si_inbox_id r = inbox \<and> in_range None to_sequence_id r) (idb_updates db)"
    by (intro filter_cong refl)
  then show ?thesis using assms(1) by (simp add: get_identity_updates_def)
qed

section \<open>The cache never changes a result\<close>

lemma write_to_cache_updates [simp]: "idb_updates (write_to_cache db inbox n p) = idb_updates db"
  by (simp add: write_to_cache_def)

lemma replay_cong: "idb_updates db = idb_updates db' \<Longrightarrow> replay E db = replay E db'"
  by (intro ext) (simp add: replay_def get_identity_updates_def)

lemma cache_ok_write:
  assumes "cache_ok E db" and "replay E db inbox (Some n) = Ok s"
  shows "cache_ok E (write_to_cache db inbox n (AssociationState_to_proto (env_hex E) s))"
proof -
  let ?db = "write_to_cache db inbox n (AssociationState_to_proto (env_hex E) s)"
  have r: "replay E ?db = replay E db" by (rule replay_cong) simp
  show ?thesis
    unfolding cache_ok_def r
  proof (intro allI impI)
    fix i m p
    assume "read_from_cache ?db i m = Some p"
    then have "read_from_cache db i m = Some p \<or>
        (i, m) = (inbox, n) \<and> p = AssociationState_to_proto (env_hex E) s"
      by (auto simp: read_from_cache_def write_to_cache_def split: if_splits)
    then show "\<exists>s. replay E db i (Some m) = Ok s \<and> p = AssociationState_to_proto (env_hex E) s"
      using assms by (auto simp: cache_ok_def)
  qed
qed

lemma replay_state_ok: "replay E db inbox n = Ok s \<Longrightarrow> state_ok s"
  by (auto simp: replay_def Let_def rbind_eq_Ok split: if_splits dest: get_state_ok)

lemma replay_at_last:
  assumes "get_identity_updates db inbox None to_sequence_id = rows" and "rows \<noteq> []"
    and "to_sequence_id = None \<or> to_sequence_id = Some (si_sequence_id (last rows))"
  shows "replay E db inbox to_sequence_id = replay E db inbox (Some (si_sequence_id (last rows)))"
    and "replay E db inbox to_sequence_id =
      rbind (verified_log E rows) (\<lambda>us. map_err CAssociation (get_state (env_hex E) us))"
  using assms updates_upto_last [OF assms(1,2)] by (auto simp: replay_def)

lemma cached_lookup:
  assumes "hex_lossless (env_hex E)" and "cache_ok E db"
  shows "fst (get_association_state E db inbox n) = replay E db inbox n"
    and "idb_updates (snd (get_association_state E db inbox n)) = idb_updates db"
    and "cache_ok E (snd (get_association_state E db inbox n))"
proof -
  let ?rows = "get_identity_updates db inbox None n"
  let ?l = "si_sequence_id (last ?rows)"
  let ?goal = "fst (get_association_state E db inbox n) = replay E db inbox n \<and>
    idb_updates (snd (get_association_state E db inbox n)) = idb_updates db \<and>
    cache_ok E (snd (get_association_state E db inbox n))"
  have ?goal
  proof (cases "?rows = [] \<or> n \<noteq> None \<and> n \<noteq> Some ?l")
    case True
    then show ?thesis using assms(2) by (auto simp: get_association_state_def replay_def Let_def)
  next
    case False
    then have rows: "?rows \<noteq> []" "n = None \<or> n = Some ?l" by auto
    note last = replay_at_last [OF refl rows, of E]
    show ?thesis
    proof (cases "read_from_cache db inbox ?l")
      case (Some p)
      with assms(2) obtain s where s: "replay E db inbox (Some ?l) = Ok s" "p = AssociationState_to_proto (env_hex E) s"
        unfolding cache_ok_def by blast
      with rows Some assms(2) last(1) state_proto_roundtrip [OF assms(1) replay_state_ok [OF s(1)]] show ?thesis
        by (auto simp: get_association_state_def Let_def)
    next
      case None
      show ?thesis
      proof (cases "replay E db inbox n")
        case (Inl e)
        with None rows assms(2) show ?thesis
          unfolding last(2) by (auto simp: get_association_state_def Let_def)
      next
        case (Inr s)
        with last(1) have "cache_ok E (write_to_cache db inbox ?l (AssociationState_to_proto (env_hex E) s))"
          by (intro cache_ok_write assms(2)) simp
        with Inr None rows show ?thesis
          unfolding last(2) by (auto simp: get_association_state_def Let_def)
      qed
    qed
  qed
  then show "fst (get_association_state E db inbox n) = replay E db inbox n"
    and "idb_updates (snd (get_association_state E db inbox n)) = idb_updates db"
    and "cache_ok E (snd (get_association_state E db inbox n))"
    by blast+
qed

text \<open>
  Property C11. The cache of association states is transparent: as long as it holds what a replay of
  the stored updates gives, a lookup returns, on every input and with every error, exactly what
  replaying the updates gives; it changes no update, and leaves the cache in that condition.
\<close>

theorem cached_lookup_is_replay:
  assumes "hex_lossless (env_hex E)" and "cache_ok E db"
  shows "fst (get_association_state E db inbox n) = replay E db inbox n \<and>
    idb_updates (snd (get_association_state E db inbox n)) = idb_updates db \<and>
    cache_ok E (snd (get_association_state E db inbox n))"
  using cached_lookup [OF assms] by blast

section \<open>Incremental differences\<close>

lemma get_state_from_apply:
  "get_state_from H us (Some s) = rbind (apply_updates H us s) (\<lambda>t. Ok (Some t))"
proof (induction us arbitrary: s)
  case Nil
  then show ?case by simp
next
  case (Cons u us)
  then show ?case by (cases "apply_update H s u") (simp_all add: apply_update_def)
qed

lemma get_state_from_append:
  "get_state_from H (us @ vs) st = rbind (get_state_from H us st) (get_state_from H vs)"
proof (induction us arbitrary: st)
  case Nil
  then show ?case by simp
next
  case (Cons u us)
  then show ?case by (cases "IdentityUpdate_update_state H u st") simp_all
qed

lemma get_state_append:
  "get_state H us = Ok s \<Longrightarrow> get_state H (us @ vs) = apply_updates H vs s"
proof -
  assume "get_state H us = Ok s"
  then have "get_state_from H us None = Ok (Some s)" by (auto simp: get_state_def rbind_eq_Ok)
  then show ?thesis
    by (cases "apply_updates H vs s") (simp_all add: get_state_def get_state_from_append get_state_from_apply)
qed

lemma verified_log_append:
  "verified_log E rows = Ok us \<Longrightarrow> verified_log E rows' = Ok vs \<Longrightarrow> verified_log E (rows @ rows') = Ok (us @ vs)"
  by (auto simp: verified_log_def verify_updates_def rbind_eq_Ok try_map_append)

lemma apply_updates_state_ok: "apply_updates H us s = Ok t \<Longrightarrow> state_ok s \<Longrightarrow> state_ok t"
proof (induction us arbitrary: s)
  case Nil
  then show ?case by simp
next
  case (Cons u us)
  then obtain r where r: "apply_update H s u = Ok r" "apply_updates H us r = Ok t" by (auto simp: rbind_eq_Ok)
  then have "get_state_from H [u] (Some s) = Ok (Some r)" by (simp add: apply_update_def)
  from get_state_from_keep(4) [OF this Cons.prems(2)] Cons.IH [OF r(2)] show ?case by simp
qed

text \<open>Applying the updates after \<open>a\<close> to the state at \<open>a\<close> is replaying up to the end.\<close>

lemma replay_extend:
  assumes "replay E db inbox (Some a) = Ok s" and "\<And>b. n = Some b \<Longrightarrow> a \<le> b"
    and "get_identity_updates db inbox (Some a) n = inc" and "inc \<noteq> []"
    and "n = None \<or> n = Some (si_sequence_id (last inc))"
    and "verified_log E inc = Ok vs" and "apply_updates (env_hex E) vs s = Ok t"
  shows "replay E db inbox n = Ok t"
proof -
  let ?rows = "get_identity_updates db inbox None (Some a)"
  from assms(1) obtain us where us: "verified_log E ?rows = Ok us" "get_state (env_hex E) us = Ok s" "?rows \<noteq> []"
    by (auto simp: replay_def Let_def rbind_eq_Ok split: if_splits)
  have rows: "get_identity_updates db inbox None n = ?rows @ inc"
    using updates_split [of n a db inbox] assms(2,3) by simp
  have "verified_log E (?rows @ inc) = Ok (us @ vs)" by (rule verified_log_append [OF us(1) assms(6)])
  moreover have "get_state (env_hex E) (us @ vs) = Ok t"
    using get_state_append [OF us(2)] assms(7) by simp
  ultimately show ?thesis
    using assms(4,5) by (auto simp: replay_def rows)
qed

lemma empty_range: "get_identity_updates db inbox (Some a) n \<noteq> [] \<Longrightarrow> n = Some b \<Longrightarrow> a < b"
  using get_identity_updates_set [of db inbox "Some a" n]
  by (cases "get_identity_updates db inbox (Some a) n") (auto simp: in_range_def)

lemma diff_is_replay_diff:
  assumes "hex_lossless (env_hex E)" and "cache_ok E db"
    and "get_association_state_diff E db inbox (Some a) n = (Ok d, db')"
  shows "\<exists>s t. replay E db inbox (Some a) = Ok s \<and> d = st_diff s t \<and>
      (if get_identity_updates db inbox (Some a) n = [] then t = s else replay E db inbox n = Ok t)"
    and "idb_updates db' = idb_updates db" and "cache_ok E db'"
proof -
  note look = cached_lookup [OF assms(1,2), of inbox "Some a"]
  obtain s db1 where get: "get_association_state E db inbox (Some a) = (Ok s, db1)"
    using assms(3) by (auto simp: get_association_state_diff_def split: prod.splits sum.splits)
  from look get have s: "replay E db inbox (Some a) = Ok s" and db1: "idb_updates db1 = idb_updates db" "cache_ok E db1"
    by simp_all
  have same: "get_identity_updates db1 = get_identity_updates db"
    by (intro ext) (simp add: get_identity_updates_def db1)
  define inc where "inc = get_identity_updates db inbox (Some a) n"
  define l where "l = (if inc = [] then None else Some (si_sequence_id (last inc)))"
  have "get_association_state_diff E db inbox (Some a) n =
      (if n \<noteq> None \<and> l \<noteq> None \<and> l \<noteq> n then (Err (CAssociation MissingIdentityUpdate), db1)
       else case rbind (verified_log E inc) (\<lambda>us. map_err CAssociation (apply_updates (env_hex E) us s)) of
              Err e \<Rightarrow> (Err e, db1)
            | Ok t \<Rightarrow> (Ok (st_diff s t), case l of
                  Some m \<Rightarrow> write_to_cache db1 inbox m (AssociationState_to_proto (env_hex E) t) | None \<Rightarrow> db1))"
    unfolding get_association_state_diff_def inc_def l_def
    by (simp only: get prod.case sum.case Let_def same option.distinct if_False)
  with assms(3) have no_gap: "\<not> (n \<noteq> None \<and> l \<noteq> None \<and> l \<noteq> n)"
    and "\<exists>us t. verified_log E inc = Ok us \<and> apply_updates (env_hex E) us s = Ok t \<and> d = st_diff s t \<and>
      db' = (case l of Some m \<Rightarrow> write_to_cache db1 inbox m (AssociationState_to_proto (env_hex E) t) | None \<Rightarrow> db1)"
    by (auto simp: rbind_eq_Ok split: if_splits sum.splits)
  then obtain us t where t: "verified_log E inc = Ok us" "apply_updates (env_hex E) us s = Ok t" "d = st_diff s t"
      "db' = (case l of Some m \<Rightarrow> write_to_cache db1 inbox m (AssociationState_to_proto (env_hex E) t) | None \<Rightarrow> db1)"
    by blast
  show "idb_updates db' = idb_updates db" using db1 by (simp add: t(4) split: option.splits)
  show "\<exists>s t. replay E db inbox (Some a) = Ok s \<and> d = st_diff s t \<and>
      (if get_identity_updates db inbox (Some a) n = [] then t = s else replay E db inbox n = Ok t)"
    and "cache_ok E db'"
  proof -
    have "cache_ok E db' \<and> (if inc = [] then t = s else replay E db inbox n = Ok t)"
    proof (cases "inc = []")
      case True
      then show ?thesis using t db1(2) by (simp add: l_def verified_log_def verify_updates_def)
    next
      case False
      with no_gap have n: "n = None \<or> n = Some (si_sequence_id (last inc))" by (auto simp: l_def)
      have r: "replay E db inbox n = Ok t"
        using False empty_range [of db inbox a n]
        by (intro replay_extend [OF s _ inc_def [symmetric] False n t(1,2)]) (auto simp: inc_def intro: less_imp_le)
      have ne: "get_identity_updates db inbox None n \<noteq> []"
        using r by (auto simp: replay_def Let_def split: if_splits)
      have "last (get_identity_updates db inbox None n) = last inc"
        using updates_split [of n a db inbox] False empty_range [of db inbox a n]
        by (fastforce simp: inc_def intro: less_imp_le)
      with replay_at_last(1) [OF refl ne, of E] n r have "replay E db inbox (Some (si_sequence_id (last inc))) = Ok t"
        by auto
      then have "replay E db1 inbox (Some (si_sequence_id (last inc))) = Ok t"
        using replay_cong [OF db1(1)] by simp
      from cache_ok_write [OF db1(2) this] False r show ?thesis by (simp add: t(4) l_def)
    qed
    then show "cache_ok E db'" and "\<exists>s t. replay E db inbox (Some a) = Ok s \<and> d = st_diff s t \<and>
      (if get_identity_updates db inbox (Some a) n = [] then t = s else replay E db inbox n = Ok t)"
      using s t(3) unfolding inc_def by blast+
  qed
qed

text \<open>
  The difference of an inbox between two sequence ids, computed by applying only the
  updates in between to a possibly cached state, is the difference of the two states that replaying
  the whole log gives; without stored updates after the start, it is the empty difference. The
  computation leaves the updates alone and the cache coherent.
\<close>

theorem incremental_diff_is_replay_diff:
  assumes "hex_lossless (env_hex E)" and "cache_ok E db"
    and "get_association_state_diff E db inbox (Some a) n = (Ok d, db')"
  shows "(\<exists>s t. replay E db inbox (Some a) = Ok s \<and> d = st_diff s t \<and>
      (if get_identity_updates db inbox (Some a) n = [] then t = s else replay E db inbox n = Ok t)) \<and>
    idb_updates db' = idb_updates db \<and> cache_ok E db'"
  using diff_is_replay_diff [OF assms] by blast

text \<open>
  Property C40. A difference that ends at a sequence id the database does not have is refused only
  when some update after the start is stored. With none at all, the difference is reported as empty,
  although the state at that end cannot be replayed.
\<close>

theorem missing_end_unnoticed:
  assumes "hex_lossless (env_hex E)" and "cache_ok E db" and "a < b"
    and "replay E db inbox (Some a) = Ok s" and "get_identity_updates db inbox (Some a) (Some b) = []"
  shows "fst (get_association_state_diff E db inbox (Some a) (Some b)) = Ok (st_diff s s) \<and>
    replay E db inbox (Some b) = Err (CAssociation MissingIdentityUpdate)"
proof
  obtain db1 where get: "get_association_state E db inbox (Some a) = (Ok s, db1)" "idb_updates db1 = idb_updates db"
    using cached_lookup [OF assms(1,2), of inbox "Some a"] assms(4)
    by (cases "get_association_state E db inbox (Some a)") simp
  then have "get_identity_updates db1 inbox (Some a) (Some b) = []"
    using assms(5) by (simp add: get_identity_updates_def)
  then show "fst (get_association_state_diff E db inbox (Some a) (Some b)) = Ok (st_diff s s)"
    by (simp add: get_association_state_diff_def get verified_log_def verify_updates_def)
next
  have "get_identity_updates db inbox None (Some b) = get_identity_updates db inbox None (Some a)"
    using updates_split [of "Some b" a db inbox] assms(3,5) by simp
  moreover have "si_sequence_id (last (get_identity_updates db inbox None (Some a))) = a"
    "get_identity_updates db inbox None (Some a) \<noteq> []"
    using assms(4) by (auto simp: replay_def Let_def split: if_splits)
  ultimately show "replay E db inbox (Some b) = Err (CAssociation MissingIdentityUpdate)"
    using assms(3) by (simp add: replay_def)
qed

section \<open>Which installations a membership change adds and removes\<close>

definition installed :: "association_state \<Rightarrow> bytes \<Rightarrow> bool" where
  "installed s k \<longleftrightarrow> st_get s (Installation k) \<noteq> None"

lemma installed_iff: "installed s k \<longleftrightarrow> Installation k \<in> fst ` set (members s)"
proof -
  have "mi_eq i (Installation k) \<longleftrightarrow> i = Installation k" for i by (cases i) simp_all
  then show ?thesis
    unfolding installed_def st_get_def hm_contains_key_iff [symmetric] by (force simp: hm_contains_key_def list_ex_iff)
qed

lemma installation_filter:
  "k \<in> set (List.map_filter (\<lambda>m. case m of Installation k \<Rightarrow> Some k | _ \<Rightarrow> None) ms) \<longleftrightarrow> Installation k \<in> set ms"
  by (auto simp: List.map_filter_def split: member_identifier.splits) (force split: member_identifier.splits)+

lemma diff_installations:
  "k \<in> set (new_installations (st_diff s t)) \<longleftrightarrow> installed t k \<and> \<not> installed s k"
  "k \<in> set (removed_installations (st_diff s t)) \<longleftrightarrow> installed s k \<and> \<not> installed t k"
  "k \<in> set (new_installations (as_diff s)) \<longleftrightarrow> installed s k"
  "k \<notin> set (removed_installations (as_diff s))"
proof -
  have *: "hm_contains_key mi_eq (members u) (Installation k) \<longleftrightarrow> installed u k" for u
    by (simp add: hm_contains_key_iff installed_def st_get_def)
  show "k \<in> set (new_installations (st_diff s t)) \<longleftrightarrow> installed t k \<and> \<not> installed s k"
    "k \<in> set (removed_installations (st_diff s t)) \<longleftrightarrow> installed s k \<and> \<not> installed t k"
    "k \<in> set (new_installations (as_diff s)) \<longleftrightarrow> installed s k"
    "k \<notin> set (removed_installations (as_diff s))"
    by (auto simp: new_installations_def removed_installations_def installation_filter st_diff_def as_diff_def *
        installed_iff [symmetric])
qed

text \<open>The states of an inbox before and after a membership change, as replaying its log gives them.\<close>

definition inbox_change ::
    "identity_env \<Rightarrow> identity_db \<Rightarrow> group_membership \<Rightarrow> group_membership \<Rightarrow> string \<Rightarrow>
     association_state option \<Rightarrow> association_state \<Rightarrow> bool" where
  "inbox_change E db old new i before after =
     (case starting_sequence_id old i of
        None \<Rightarrow> before = None \<and> replay E db i (ending_sequence_id new i) = Ok after
      | Some a \<Rightarrow>
          (\<exists>s. before = Some s \<and> replay E db i (Some a) = Ok s \<and>
             (if get_identity_updates db i (Some a) (ending_sequence_id new i) = [] then after = s
              else replay E db i (ending_sequence_id new i) = Ok after)))"

definition change_diff :: "association_state option \<Rightarrow> association_state \<Rightarrow> association_state_diff" where
  "change_diff before after = (case before of None \<Rightarrow> as_diff after | Some s \<Rightarrow> st_diff s after)"

lemma inbox_change_cong: "idb_updates db = idb_updates db' \<Longrightarrow> inbox_change E db = inbox_change E db'"
proof -
  assume same: "idb_updates db = idb_updates db'"
  have "get_identity_updates db = get_identity_updates db'" by (intro ext) (simp add: get_identity_updates_def same)
  with replay_cong [OF same] show ?thesis by (intro ext) (simp only: inbox_change_def)
qed

lemma state_diff_change:
  assumes "hex_lossless (env_hex E)" and "cache_ok E db"
    and "get_association_state_diff E db i (starting_sequence_id old i) (ending_sequence_id new i) = (Ok d, db')"
  shows "(\<exists>before after. inbox_change E db old new i before after \<and> d = change_diff before after) \<and>
    idb_updates db' = idb_updates db \<and> cache_ok E db'"
proof (cases "starting_sequence_id old i")
  case None
  then obtain s where s: "get_association_state E db i (ending_sequence_id new i) = (Ok s, db')" "d = as_diff s"
    using assms(3) by (auto simp: get_association_state_diff_def rbind_eq_Ok split: prod.splits)
  note look = cached_lookup [OF assms(1,2), of i "ending_sequence_id new i", unfolded s, simplified]
  have "inbox_change E db old new i None s" "d = change_diff None s"
    using None look(1) [symmetric] s(2) by (simp_all add: inbox_change_def change_diff_def)
  with look(2,3) show ?thesis by blast
next
  case (Some a)
  with diff_is_replay_diff [OF assms(1,2), of i a "ending_sequence_id new i" d db'] assms(3) show ?thesis
    unfolding inbox_change_def change_diff_def by fastforce
qed

lemma state_diffs_changes:
  assumes "hex_lossless (env_hex E)" and "cache_ok E db" and "state_diffs E old new is db = (Ok ds, db')"
  shows "list_all2 (\<lambda>i d. \<exists>before after. inbox_change E db old new i before after \<and> d = change_diff before after) is ds \<and>
    idb_updates db' = idb_updates db \<and> cache_ok E db'"
  using assms(2,3)
proof (induction "is" arbitrary: db ds)
  case Nil
  then show ?case by simp
next
  case (Cons i "is")
  obtain d db1 where d: "get_association_state_diff E db i (starting_sequence_id old i) (ending_sequence_id new i) = (Ok d, db1)"
    using Cons.prems(2) by (auto split: prod.splits sum.splits)
  obtain ds' where ds: "ds = d # ds'" "state_diffs E old new is db1 = (Ok ds', db')"
    using Cons.prems(2) by (auto simp: d rbind_eq_Ok split: prod.splits)
  note one = state_diff_change [OF assms(1) Cons.prems(1) d]
  have "cache_ok E db1" using one by blast
  from Cons.IH [OF this ds(2)] one inbox_change_cong [of db1 db E] show ?case by (auto simp: ds(1))
qed

lemma removed_states_replay:
  assumes "hex_lossless (env_hex E)" and "cache_ok E db" and "removed_states E old is db = (Ok ds, db')"
  shows "list_all2 (\<lambda>i d. \<exists>s. replay E db i (map_option sint (gm_get old i)) = Ok s \<and> d = as_diff s) is ds \<and>
    idb_updates db' = idb_updates db \<and> cache_ok E db'"
  using assms(2,3)
proof (induction "is" arbitrary: db ds)
  case Nil
  then show ?case by simp
next
  case (Cons i "is")
  obtain s db1 where s: "get_association_state E db i (map_option sint (gm_get old i)) = (Ok s, db1)"
    using Cons.prems(2) by (auto split: prod.splits sum.splits)
  obtain ds' where ds: "ds = as_diff s # ds'" "removed_states E old is db1 = (Ok ds', db')"
    using Cons.prems(2) by (auto simp: s rbind_eq_Ok split: prod.splits)
  note look = cached_lookup [OF assms(1) Cons.prems(1), of i "map_option sint (gm_get old i)", unfolded s, simplified]
  have "\<exists>t. replay E db i (map_option sint (gm_get old i)) = Ok t \<and> as_diff s = as_diff t"
    by (rule exI [of _ s]) (simp add: look(1) [symmetric])
  with Cons.IH [OF look(3) ds(2)] look(2) replay_cong [OF look(2), of E] show ?case by (simp add: ds(1))
qed

lemma fold_extend_set: "set (fold (\<lambda>d s. hs_extend (=) s (f d)) ds s0) = set s0 \<union> (\<Union>d \<in> set ds. set (f d))"
proof (induction ds arbitrary: s0)
  case Nil
  then show ?case by simp
next
  case (Cons d ds)
  have "set (hs_extend (=) s0 (f d)) = set s0 \<union> set (f d)"
    using hs_extend_set [of "(=)" s0 "f d"] plain.hs_contains_extend [of s0 "f d"]
    by (auto simp: hs_contains_iff)
  with Cons show ?case by auto
qed

text \<open>
  What the network is relied on for: it answers only for inboxes it was asked for, with updates newer
  than the sequence id given for the inbox. Stored sequence ids fit 64 bits, as the column does.
\<close>

definition network_newer :: "identity_network \<Rightarrow> bool" where
  "network_newer net \<longleftrightarrow> (\<forall>filters pairs i us u. net filters = Some pairs \<and> (i, us) \<in> set pairs \<and> u \<in> set us \<longrightarrow>
     (\<exists>f. (i, f) \<in> set filters) \<and>
     (\<forall>n. (i, Some n) \<in> set filters \<longrightarrow> sint n < sint (ib_sequence_id u)))"

definition db_ok :: "identity_db \<Rightarrow> bool" where
  "db_ok db \<longleftrightarrow> (\<forall>r \<in> set (idb_updates db). - (2 ^ 63) \<le> si_sequence_id r \<and> si_sequence_id r < 2 ^ 63)"

lemma sint_word_of_int64: "- (2 ^ 63) \<le> n \<Longrightarrow> n < 2 ^ 63 \<Longrightarrow> sint (word_of_int n :: u64) = n"
  by (simp add: sint_sbintrunc' signed_take_bit_int_eq_self_iff)

lemma latest_sequence_id:
  assumes "r \<in> set (idb_updates db)" and "si_inbox_id r \<in> set ids"
  shows "\<exists>m. map_of (get_latest_sequence_id db ids) (si_inbox_id r) = Some m \<and> si_sequence_id r \<le> m \<and>
    m \<in> si_sequence_id ` set (idb_updates db)"
proof -
  let ?S = "\<lambda>i. set (map si_sequence_id (filter (\<lambda>r. si_inbox_id r = i) (idb_updates db)))"
  have "map_of (get_latest_sequence_id db ids) (si_inbox_id r) = Some (Max (?S (si_inbox_id r)))"
    unfolding get_latest_sequence_id_def map_of_map_restrict using assms by (simp add: restrict_map_def)
  moreover have "si_sequence_id r \<in> ?S (si_inbox_id r)" using assms by auto
  then have "si_sequence_id r \<le> Max (?S (si_inbox_id r))" "Max (?S (si_inbox_id r)) \<in> ?S (si_inbox_id r)"
    by (auto intro: Max_ge Max_in)
  ultimately show ?thesis by auto
qed

lemma insert_or_ignore_rows:
  "\<exists>extra. idb_updates (insert_or_ignore_identity_updates db rows) = idb_updates db @ extra \<and> set extra \<subseteq> set rows"
proof -
  have "\<exists>extra. fold (\<lambda>r t. if list_ex (same_key r) t then t else t @ [r]) rows t = t @ extra \<and> set extra \<subseteq> set rows" for t
  proof (induction rows arbitrary: t)
    case Nil
    then show ?case by simp
  next
    case (Cons r rows)
    show ?case
    proof (cases "list_ex (same_key r) t")
      case True
      with Cons [of t] show ?thesis by auto
    next
      case False
      with Cons [of "t @ [r]"] show ?thesis by auto
    qed
  qed
  then show ?thesis by (simp add: insert_or_ignore_identity_updates_def)
qed

lemma hm_from_iter_plain_subset: "set (hm_from_iter (=) ps) \<subseteq> set ps"
proof -
  have ins: "set (hm_insert (=) k v m) \<subseteq> insert (k, v) (set m)" for k :: 'a and v :: 'b and m
    by (induction m) auto
  have "set (fold (\<lambda>(k, v). hm_insert (=) k v) ps m) \<subseteq> set ps \<union> set m" for m
  proof (induction ps arbitrary: m)
    case (Cons p ps)
    obtain k v where p: "p = (k, v)" by (cases p)
    show ?case using Cons [of "hm_insert (=) k v m"] ins [of k v m] by (auto simp: p)
  qed simp
  from this [of "[]"] show ?thesis by (simp add: hm_from_iter_def)
qed

lemma loaded_rows:
  assumes "network_newer net" and "db_ok db" and "load_identity_updates E net db ids = (Ok us, db')"
  obtains extra where "idb_updates db' = idb_updates db @ extra" "idb_cache db' = idb_cache db"
    "\<And>r q. r \<in> set extra \<Longrightarrow> q \<in> set (idb_updates db) \<Longrightarrow> si_inbox_id q = si_inbox_id r \<Longrightarrow> si_sequence_id q < si_sequence_id r"
    "db_ok db'"
proof (cases "ids = []")
  case True
  with assms that [of "[]"] show ?thesis by (simp add: load_identity_updates_def)
next
  case False
  let ?filters = "map (\<lambda>i. (i, map_option word_of_int (map_of (get_latest_sequence_id db ids) i))) ids"
  obtain pairs where net: "net ?filters = Some pairs"
    and db': "db' = insert_or_ignore_identity_updates db
        (concat (map (\<lambda>(i, us). map (stored_of E i) us) (hm_from_iter (=) pairs)))"
    using assms(3) False by (auto simp: load_identity_updates_def Let_def split: option.splits)
  obtain extra where extra: "idb_updates db' = idb_updates db @ extra"
    "set extra \<subseteq> set (concat (map (\<lambda>(i, us). map (stored_of E i) us) (hm_from_iter (=) pairs)))"
    using insert_or_ignore_rows [of db] unfolding db' by blast
  have row: "\<exists>us u. (si_inbox_id r, us) \<in> set pairs \<and> u \<in> set us \<and> r = stored_of E (si_inbox_id r) u" if "r \<in> set extra" for r
    using that extra(2) hm_from_iter_plain_subset [of pairs] by (force simp: stored_of_def)
  have newer: "si_sequence_id q < si_sequence_id r"
    if r: "r \<in> set extra" and q: "q \<in> set (idb_updates db)" "si_inbox_id q = si_inbox_id r" for r q
  proof -
    obtain us u where u: "(si_inbox_id r, us) \<in> set pairs" "u \<in> set us" "r = stored_of E (si_inbox_id r) u"
      using row [OF r] by blast
    have ids: "si_inbox_id r \<in> set ids"
      using assms(1) net u unfolding network_newer_def by fastforce
    obtain m where m: "map_of (get_latest_sequence_id db ids) (si_inbox_id r) = Some m" "si_sequence_id q \<le> m"
        "m \<in> si_sequence_id ` set (idb_updates db)"
      using latest_sequence_id [OF q(1), of ids] ids unfolding q(2) by blast
    have "(si_inbox_id r, Some (word_of_int m)) \<in> set ?filters" using ids m(1) by force
    then have "sint (word_of_int m :: u64) < sint (ib_sequence_id u)"
      using assms(1) net u unfolding network_newer_def by blast
    moreover have "sint (word_of_int m :: u64) = m"
      using assms(2) m(3) by (intro sint_word_of_int64) (auto simp: db_ok_def)
    moreover have "si_sequence_id r = sint (ib_sequence_id u)" by (subst u(3)) (simp add: stored_of_def)
    ultimately show ?thesis using m(2) by simp
  qed
  have range: "- (2 ^ 63) \<le> sint (w :: u64) \<and> sint w < 2 ^ 63" for w
    using sint_ge [of w] sint_lt [of w] by simp
  have "si_sequence_id r = sint (ib_sequence_id u)" if "r = stored_of E (si_inbox_id r) u" for r u
    by (subst that) (simp add: stored_of_def)
  then have "db_ok db'"
    using assms(2) row range unfolding db_ok_def extra(1) by fastforce
  with extra(1) newer that [of extra] show ?thesis by (simp add: db' insert_or_ignore_identity_updates_def)
qed

text \<open>Loading newer updates changes no state that could be replayed, so the cache stays right.\<close>

lemma load_keeps_replays:
  assumes "network_newer net" and "db_ok db" and "load_identity_updates E net db ids = (Ok us, db')"
    and "replay E db i (Some n) = Ok s"
  shows "replay E db' i (Some n) = Ok s"
proof -
  obtain extra where extra: "idb_updates db' = idb_updates db @ extra"
    "\<And>r q. r \<in> set extra \<Longrightarrow> q \<in> set (idb_updates db) \<Longrightarrow> si_inbox_id q = si_inbox_id r \<Longrightarrow> si_sequence_id q < si_sequence_id r"
    by (rule loaded_rows [OF assms(1-3)]) (rule that)
  let ?rows = "get_identity_updates db i None (Some n)"
  have rows: "?rows \<noteq> []" "si_sequence_id (last ?rows) = n"
    using assms(4) by (auto simp: replay_def Let_def split: if_splits)
  then have "last ?rows \<in> set (idb_updates db)" "si_inbox_id (last ?rows) = i"
    using last_in_set [OF rows(1)] get_identity_updates_set [of db i None "Some n"] by blast+
  with extra(2) rows(2) have "filter (\<lambda>r. si_inbox_id r = i \<and> in_range None (Some n) r) extra = []"
    by (fastforce simp: filter_empty_conv in_range_def)
  then have "get_identity_updates db' i None (Some n) = ?rows"
    by (simp add: get_identity_updates_def extra(1))
  with assms(4) show ?thesis by (simp add: replay_def)
qed

lemma load_keeps_cache:
  assumes "network_newer net" and "db_ok db" and "load_identity_updates E net db ids = (Ok us, db')" and "cache_ok E db"
  shows "cache_ok E db'" and "db_ok db'"
proof -
  have cache: "idb_cache db' = idb_cache db" and ok: "db_ok db'"
    by (rule loaded_rows [OF assms(1-3)], assumption)+
  show "db_ok db'" by (rule ok)
  have "read_from_cache db' = read_from_cache db" by (intro ext) (simp add: read_from_cache_def cache)
  then show "cache_ok E db'"
    using assms(4) load_keeps_replays [OF assms(1-3)] unfolding cache_ok_def by (simp only:) blast
qed

lemma inbox_change_unique:
  "inbox_change E db old new i b a \<Longrightarrow> inbox_change E db old new i b' a' \<Longrightarrow> b = b' \<and> a = a'"
  by (auto simp: inbox_change_def split: option.splits if_splits)

lemma change_diff_installations:
  "k \<in> set (new_installations (change_diff b a)) \<longleftrightarrow> installed a k \<and> \<not> (\<exists>s. b = Some s \<and> installed s k)"
  "k \<in> set (removed_installations (change_diff b a)) \<longleftrightarrow> \<not> installed a k \<and> (\<exists>s. b = Some s \<and> installed s k)"
  by (auto simp: change_diff_def diff_installations split: option.splits)

lemma list_all2_UN:
  assumes "list_all2 R xs ys"
  shows "k \<in> (\<Union>y \<in> set ys. f y) \<longleftrightarrow> (\<exists>x \<in> set xs. \<exists>y \<in> set ys. R x y \<and> k \<in> f y)"
  using assms by (induction rule: list_all2_induct) auto

lemma changed_installations:
  assumes "list_all2 (\<lambda>i d. \<exists>b a. inbox_change E db old new i b a \<and> d = change_diff b a) is ds"
  shows "k \<in> (\<Union>d \<in> set ds. set (f d)) \<longleftrightarrow>
    (\<exists>i \<in> set is. \<exists>b a. inbox_change E db old new i b a \<and> k \<in> set (f (change_diff b a)))"
  using assms
proof (induction rule: list_all2_induct)
  case (Cons i "is" d ds)
  then show ?case using inbox_change_unique [of E db old new i] by auto
qed simp

lemma removed_inbox_installations:
  assumes "list_all2 (\<lambda>i d. \<exists>s. replay E db i (n i) = Ok s \<and> d = as_diff s) is ds"
  shows "k \<in> (\<Union>d \<in> set ds. set (new_installations d)) \<longleftrightarrow>
    (\<exists>i \<in> set is. \<exists>s. replay E db i (n i) = Ok s \<and> installed s k)"
  using assms by (induction rule: list_all2_induct) (auto simp: diff_installations)

lemma installation_diff_states:
  assumes "hex_lossless (env_hex E)" and "network_newer net" and "db_ok db" and "cache_ok E db"
    and "get_installation_diff E net db old new md = (Ok d, db')"
  shows "(k \<in> set (added_installations d) \<longleftrightarrow>
      (\<exists>i \<in> set (md_added_inboxes md @ md_updated_inboxes md). \<exists>before after.
         inbox_change E db' old new i before after \<and> installed after k \<and> \<not> (\<exists>s. before = Some s \<and> installed s k))) \<and>
    (k \<in> set (removed_installations_set d) \<longleftrightarrow>
      (\<exists>i \<in> set (md_added_inboxes md @ md_updated_inboxes md). \<exists>before after.
         inbox_change E db' old new i before after \<and> \<not> installed after k \<and> (\<exists>s. before = Some s \<and> installed s k)) \<or>
      (\<exists>i \<in> set (md_removed_inboxes md). \<exists>s. replay E db' i (map_option sint (gm_get old i)) = Ok s \<and> installed s k)) \<and>
    cache_ok E db'"
proof -
  let ?changed = "md_added_inboxes md @ md_updated_inboxes md"
  let ?ids = "filter_inbox_ids_needing_updates db
      (map (\<lambda>i. (i, case gm_get new i of Some n \<Rightarrow> sint n | None \<Rightarrow> 0)) ?changed)"
  obtain us db1 ds db2 gone where load: "load_identity_updates E net db ?ids = (Ok us, db1)"
    and ds: "state_diffs E old new ?changed db1 = (Ok ds, db2)"
    and gone: "removed_states E old (md_removed_inboxes md) db2 = (Ok gone, db')"
    and d: "d = \<lparr> added_installations = fold (\<lambda>d s. hs_extend (=) s (new_installations d)) ds [],
                removed_installations_set =
                  fold (\<lambda>d s. hs_extend (=) s (new_installations d)) gone
                    (fold (\<lambda>d s. hs_extend (=) s (removed_installations d)) ds []) \<rparr>"
    using assms(5) by (auto simp: get_installation_diff_def Let_def simp del: map_append split: prod.splits sum.splits)
  note changes = state_diffs_changes [OF assms(1) load_keeps_cache(1) [OF assms(2,3) load assms(4)] ds]
  have cache2: "cache_ok E db2" using changes by blast
  note removed = removed_states_replay [OF assms(1) cache2 gone]
  have same: "idb_updates db1 = idb_updates db'" "idb_updates db2 = idb_updates db'"
    using changes removed by simp_all
  have diffs: "list_all2 (\<lambda>i d. \<exists>b a. inbox_change E db' old new i b a \<and> d = change_diff b a) ?changed ds"
    using changes unfolding inbox_change_cong [OF same(1), of E] by blast
  have goners: "list_all2 (\<lambda>i d. \<exists>s. replay E db' i (map_option sint (gm_get old i)) = Ok s \<and> d = as_diff s)
      (md_removed_inboxes md) gone"
    using removed unfolding replay_cong [OF same(2), of E] by blast
  have "k \<in> set (added_installations d) \<longleftrightarrow> k \<in> (\<Union>d \<in> set ds. set (new_installations d))"
    "k \<in> set (removed_installations_set d) \<longleftrightarrow>
       k \<in> (\<Union>d \<in> set ds. set (removed_installations d)) \<or> k \<in> (\<Union>d \<in> set gone. set (new_installations d))"
    unfolding d by (auto simp: fold_extend_set)
  then show ?thesis
    unfolding changed_installations [OF diffs] removed_inbox_installations [OF goners] change_diff_installations
    using removed by blast
qed

text \<open>
  Property C20. The installations a membership change adds are those of the states after the change
  that the states before it lack, over all added and updated inboxes; those it removes are the
  installations that updated inboxes lost and all installations of the removed inboxes. All states
  are the ones that replaying the updates stored after the load gives, whatever was cached.
\<close>

theorem installation_diff_exact:
  assumes "hex_lossless (env_hex E)" and "network_newer net" and "db_ok db" and "cache_ok E db"
    and "get_installation_diff E net db old new md = (Ok d, db')"
  shows "(k \<in> set (added_installations d) \<longleftrightarrow>
      (\<exists>i \<in> set (md_added_inboxes md @ md_updated_inboxes md). \<exists>before after.
         inbox_change E db' old new i before after \<and> installed after k \<and> \<not> (\<exists>s. before = Some s \<and> installed s k))) \<and>
    (k \<in> set (removed_installations_set d) \<longleftrightarrow>
      (\<exists>i \<in> set (md_added_inboxes md @ md_updated_inboxes md). \<exists>before after.
         inbox_change E db' old new i before after \<and> \<not> installed after k \<and> (\<exists>s. before = Some s \<and> installed s k)) \<or>
      (\<exists>i \<in> set (md_removed_inboxes md). \<exists>s. replay E db' i (map_option sint (gm_get old i)) = Ok s \<and> installed s k)) \<and>
    cache_ok E db'"
  by (rule installation_diff_states [OF assms])

section \<open>Two updates of one inbox\<close>

text \<open>The first update creates the inbox and is stored; the second adds an installation and is on the network.\<close>

definition demo_inbox :: string where
  "demo_inbox = demo_address @ ''0''"

definition demo_u1 :: unverified_identity_update where
  "demo_u1 = \<lparr> vi_inbox_id = demo_inbox, vi_client_timestamp_ns = 1, vi_actions =
     [VCreateInbox \<lparr> vc_unsigned = \<lparr> uc_nonce = 0, uc_account_identifier = IdEthereum demo_address \<rparr>,
        vc_initial_signature = URecoverableEcdsa (replicate 65 1) \<rparr>] \<rparr>"

definition demo_u2 :: unverified_identity_update where
  "demo_u2 = \<lparr> vi_inbox_id = demo_inbox, vi_client_timestamp_ns = 2, vi_actions =
     [VAddAssociation \<lparr> va_unsigned = \<lparr> ua_new_member_identifier = Installation [7] \<rparr>,
        va_new_signature = UInstallationKey (replicate 64 2) [7],
        va_existing_signature = URecoverableEcdsa (replicate 65 3) \<rparr>] \<rparr>"

definition demo_env :: identity_env where
  "demo_env = \<lparr> env_libs = demo_libs, env_key_ok = (\<lambda>_. True),
     prost_decode = (\<lambda>b. Some (UnverifiedIdentityUpdate_to_proto plain_crypto (if b = [1] then demo_u1 else demo_u2))),
     prost_encode = (\<lambda>_. [2]) \<rparr>"

definition demo_row1 :: stored_identity_update where
  "demo_row1 = \<lparr> si_inbox_id = demo_inbox, si_sequence_id = 1, si_server_timestamp_ns = 10, si_payload = [1],
     si_originator_id = 1 \<rparr>"

definition demo_row2 :: stored_identity_update where
  "demo_row2 = \<lparr> si_inbox_id = demo_inbox, si_sequence_id = 2, si_server_timestamp_ns = 20, si_payload = [2],
     si_originator_id = 1 \<rparr>"

definition demo_db :: identity_db where
  "demo_db = \<lparr> idb_updates = [demo_row1], idb_cache = [] \<rparr>"

definition demo_db2 :: identity_db where
  "demo_db2 = \<lparr> idb_updates = [demo_row1, demo_row2], idb_cache = [] \<rparr>"

definition demo_net :: identity_network where
  "demo_net filters =
     Some (if filters = [(demo_inbox, Some 1)]
           then [(demo_inbox, [\<lparr> ib_sequence_id = 2, ib_server_timestamp_ns = 20, ib_update = demo_u2 \<rparr>])] else [])"

definition demo_ecdsa_sig :: "u8 \<Rightarrow> verified_signature" where
  "demo_ecdsa_sig b = \<lparr> signer = Ethereum demo_address, sig_kind = Erc191, raw_bytes = replicate 65 b, sig_chain_id = None \<rparr>"

definition demo_v1 :: identity_update where
  "demo_v1 = \<lparr> iu_inbox_id = demo_inbox, iu_client_timestamp_ns = 1, actions =
     [CreateInbox \<lparr> ci_nonce = 0, ci_account_identifier = IdEthereum demo_address,
        initial_identifier_signature = demo_ecdsa_sig 1 \<rparr>] \<rparr>"

definition demo_v2 :: identity_update where
  "demo_v2 = \<lparr> iu_inbox_id = demo_inbox, iu_client_timestamp_ns = 2, actions =
     [AddAssociation \<lparr> new_member_signature = \<lparr> signer = Installation [7], sig_kind = InstallationKey,
          raw_bytes = replicate 64 2, sig_chain_id = None \<rparr>,
        new_member_identifier = Installation [7], existing_member_signature = demo_ecdsa_sig 3 \<rparr>] \<rparr>"

definition demo_s1 :: association_state where
  "demo_s1 = \<lparr> inbox_id = demo_inbox,
     members = [(Ethereum demo_address, Member_new (Ethereum demo_address) None None None)],
     recovery_identifier = IdEthereum demo_address, seen_signatures = [replicate 65 1] \<rparr>"

definition demo_s2 :: association_state where
  "demo_s2 = \<lparr> inbox_id = demo_inbox,
     members = [(Ethereum demo_address, Member_new (Ethereum demo_address) None None None),
                (Installation [7], Member_new (Installation [7]) (Some (Ethereum demo_address)) (Some 2) None)],
     recovery_identifier = IdEthereum demo_address, seen_signatures = [replicate 65 1, replicate 65 3, replicate 64 2] \<rparr>"

lemma demo_env_hex: "env_hex demo_env = plain_crypto"
  by (simp add: demo_env_def demo_libs_def id_crypto.defs plain_crypto_def)

lemma demo_lossless: "hex_lossless (env_hex demo_env)"
  unfolding demo_env_hex by (rule plain_hex_lossless)

lemma demo_cache_ok: "cache_ok demo_env demo_db" "cache_ok demo_env demo_db2"
  by (simp_all add: cache_ok_def read_from_cache_def demo_db_def demo_db2_def)

lemma demo_v: "UnverifiedIdentityUpdate_to_verified demo_libs demo_u1 = Ok demo_v1"
  "UnverifiedIdentityUpdate_to_verified demo_libs demo_u2 = Ok demo_v2"
proof -
  have "to_lower_s demo_libs (replicate 65 3) = Ok (replicate 65 3)" by code_simp
  moreover have "mi_eth (h160addr_to_string demo_libs (replicate 40 97)) = Ok (Ethereum demo_address)" by code_simp
  ultimately have e: "UnverifiedSignature_to_verified demo_libs msg (URecoverableEcdsa (replicate 65 3)) = Ok (demo_ecdsa_sig 3)" for msg
    by (simp add: from_recoverable_ecdsa_def) (simp add: demo_libs_def demo_ecdsa_sig_def)
  show "UnverifiedIdentityUpdate_to_verified demo_libs demo_u1 = Ok demo_v1"
    by (simp add: UnverifiedIdentityUpdate_to_verified_def demo_u1_def demo_v1_def demo_ecdsa demo_ecdsa_sig_def
        del: UnverifiedSignature_to_verified.simps)
  show "UnverifiedIdentityUpdate_to_verified demo_libs demo_u2 = Ok demo_v2"
    by (simp add: UnverifiedIdentityUpdate_to_verified_def demo_u2_def demo_v2_def e demo_ed25519
        del: UnverifiedSignature_to_verified.simps)
qed

lemma demo_unverified: "to_unverified demo_env demo_row1 = Ok demo_u1" "to_unverified demo_env demo_row2 = Ok demo_u2"
  by (simp_all only: to_unverified_def demo_env_hex) code_simp+

lemma demo_verified:
  "verified_log demo_env [demo_row1] = Ok [demo_v1]"
  "verified_log demo_env [demo_row2] = Ok [demo_v2]"
  "verified_log demo_env [demo_row1, demo_row2] = Ok [demo_v1, demo_v2]"
  by (simp_all add: verified_log_def verify_updates_def demo_unverified) (simp_all add: demo_env_def demo_v)

lemma demo_states: "get_state plain_crypto [demo_v1] = Ok demo_s1" "get_state plain_crypto [demo_v1, demo_v2] = Ok demo_s2"
  "apply_updates plain_crypto [demo_v2] demo_s1 = Ok demo_s2"
  by code_simp+

lemma demo_replay: "replay demo_env demo_db2 demo_inbox (Some 1) = Ok demo_s1"
  "replay demo_env demo_db2 demo_inbox (Some 2) = Ok demo_s2"
  "replay demo_env demo_db demo_inbox (Some 1) = Ok demo_s1"
proof -
  have "get_identity_updates demo_db2 demo_inbox None (Some 1) = [demo_row1]"
    "get_identity_updates demo_db2 demo_inbox None (Some 2) = [demo_row1, demo_row2]"
    "get_identity_updates demo_db demo_inbox None (Some 1) = [demo_row1]"
    by code_simp+
  moreover have "si_sequence_id demo_row1 = 1" "si_sequence_id demo_row2 = 2"
    by (simp_all add: demo_row1_def demo_row2_def)
  ultimately show "replay demo_env demo_db2 demo_inbox (Some 1) = Ok demo_s1"
    "replay demo_env demo_db2 demo_inbox (Some 2) = Ok demo_s2"
    "replay demo_env demo_db demo_inbox (Some 1) = Ok demo_s1"
    using demo_env_hex by (simp_all add: replay_def demo_verified demo_states)
qed

theorem cached_lookup_is_replay_witness:
  "fst (get_association_state demo_env (snd (get_association_state demo_env demo_db2 demo_inbox (Some 1)))
     demo_inbox (Some 1)) = Ok demo_s1"
proof -
  let ?db1 = "snd (get_association_state demo_env demo_db2 demo_inbox (Some 1))"
  note first = cached_lookup_is_replay [OF demo_lossless demo_cache_ok(2), of demo_inbox "Some 1"]
  have "cache_ok demo_env ?db1" using first by blast
  note second = cached_lookup_is_replay [OF demo_lossless this, of demo_inbox "Some 1"]
  have "replay demo_env ?db1 = replay demo_env demo_db2" using first by (intro replay_cong) blast
  with second demo_replay(1) show ?thesis by simp
qed

lemma demo_lookup:
  assumes "replay demo_env db demo_inbox n = Ok s" and "cache_ok demo_env db"
  obtains db1 where "get_association_state demo_env db demo_inbox n = (Ok s, db1)" "idb_updates db1 = idb_updates db"
    "cache_ok demo_env db1"
  using cached_lookup [OF demo_lossless assms(2), of demo_inbox n] assms(1) that by (metis prod.collapse)

lemma demo_diff:
  assumes "cache_ok demo_env db" and "idb_updates db = [demo_row1, demo_row2]"
  shows "\<exists>db'. get_association_state_diff demo_env db demo_inbox (Some 1) (Some 2) = (Ok (st_diff demo_s1 demo_s2), db')"
proof -
  have rep: "replay demo_env db demo_inbox (Some 1) = Ok demo_s1"
    using replay_cong [of db demo_db2 demo_env] assms(2) demo_replay(1) by (simp add: demo_db2_def)
  obtain db1 where db1: "get_association_state demo_env db demo_inbox (Some 1) = (Ok demo_s1, db1)"
      "idb_updates db1 = idb_updates db"
    by (rule demo_lookup [OF rep assms(1)])
  have "get_identity_updates demo_db2 demo_inbox (Some 1) (Some 2) = [demo_row2]" by code_simp
  then have "get_identity_updates db1 demo_inbox (Some 1) (Some 2) = [demo_row2]"
    using db1(2) assms(2) by (simp add: get_identity_updates_def demo_db2_def)
  moreover have "si_sequence_id demo_row2 = 2" by (simp add: demo_row2_def)
  ultimately show ?thesis
    using demo_env_hex demo_states(3) by (simp add: get_association_state_diff_def db1(1) demo_verified)
qed

theorem incremental_diff_is_replay_diff_witness:
  "\<exists>d db'. get_association_state_diff demo_env demo_db2 demo_inbox (Some 1) (Some 2) = (Ok d, db') \<and>
     d = st_diff demo_s1 demo_s2 \<and> cache_ok demo_env db'"
proof -
  obtain db' where d: "get_association_state_diff demo_env demo_db2 demo_inbox (Some 1) (Some 2) = (Ok (st_diff demo_s1 demo_s2), db')"
    using demo_diff [OF demo_cache_ok(2)] by (auto simp: demo_db2_def)
  with incremental_diff_is_replay_diff [OF demo_lossless demo_cache_ok(2) d] show ?thesis by blast
qed

theorem missing_end_unnoticed_witness:
  "fst (get_association_state_diff demo_env demo_db demo_inbox (Some 1) (Some 2)) = Ok (st_diff demo_s1 demo_s1) \<and>
   replay demo_env demo_db demo_inbox (Some 2) = Err (CAssociation MissingIdentityUpdate)"
proof -
  have none: "get_identity_updates demo_db demo_inbox (Some 1) (Some 2) = []" by code_simp
  show ?thesis by (rule missing_end_unnoticed [OF demo_lossless demo_cache_ok(1) _ demo_replay(3) none]) simp
qed

lemma demo_network: "network_newer demo_net"
  by (auto simp: network_newer_def demo_net_def split: if_splits)

lemma demo_load:
  "load_identity_updates demo_env demo_net demo_db [demo_inbox] =
     (Ok [(demo_inbox, [\<lparr> ib_sequence_id = 2, ib_server_timestamp_ns = 20, ib_update = demo_u2 \<rparr>])], demo_db2)"
proof -
  have "get_latest_sequence_id demo_db [demo_inbox] = [(demo_inbox, 1)]"
    by (simp add: get_latest_sequence_id_def demo_db_def demo_row1_def)
  moreover have "stored_of demo_env demo_inbox \<lparr> ib_sequence_id = 2, ib_server_timestamp_ns = 20, ib_update = demo_u2 \<rparr> = demo_row2"
    by (simp add: stored_of_def demo_row2_def demo_env_def INBOX_LOG_def)
  ultimately show ?thesis
    by (simp add: load_identity_updates_def demo_net_def hm_from_iter_def insert_or_ignore_identity_updates_def
        demo_db_def demo_db2_def same_key_def demo_row1_def demo_row2_def)
qed

definition demo_old :: group_membership where
  "demo_old = gm_add GroupMembership_new demo_inbox 1"

definition demo_new :: group_membership where
  "demo_new = gm_add GroupMembership_new demo_inbox 2"

theorem installation_diff_exact_witness:
  "\<exists>d db'. get_installation_diff demo_env demo_net demo_db demo_old demo_new (gm_diff demo_old demo_new) = (Ok d, db') \<and>
     [7] \<in> set (added_installations d)"
proof -
  have md: "gm_diff demo_old demo_new = \<lparr> md_added_inboxes = [], md_removed_inboxes = [], md_updated_inboxes = [demo_inbox] \<rparr>"
    by code_simp
  have seq: "gm_get demo_new demo_inbox = Some 2" "starting_sequence_id demo_old demo_inbox = Some 1"
    by code_simp+
  have need: "filter_inbox_ids_needing_updates demo_db [(demo_inbox, 2)] = [demo_inbox]"
    by (simp add: filter_inbox_ids_needing_updates_def get_latest_sequence_id_def demo_db_def demo_row1_def)
  obtain db' where diff: "get_association_state_diff demo_env demo_db2 demo_inbox (Some 1) (Some 2) = (Ok (st_diff demo_s1 demo_s2), db')"
    using demo_diff [OF demo_cache_ok(2)] by (auto simp: demo_db2_def)
  then obtain d where d: "get_installation_diff demo_env demo_net demo_db demo_old demo_new (gm_diff demo_old demo_new) = (Ok d, db')"
    by (simp add: get_installation_diff_def md seq need demo_load ending_sequence_id_def)
  have ok: "db_ok demo_db" by (simp add: db_ok_def demo_db_def demo_row1_def)
  have upd: "idb_updates db' = idb_updates demo_db2"
    by (rule diff_is_replay_diff(2) [OF demo_lossless demo_cache_ok(2) diff])
  have rows: "get_identity_updates demo_db2 demo_inbox (Some 1) (Some 2) \<noteq> []" by code_simp
  have "inbox_change demo_env demo_db2 demo_old demo_new demo_inbox (Some demo_s1) demo_s2"
    by (simp add: inbox_change_def seq rows demo_replay ending_sequence_id_def)
  then have "inbox_change demo_env db' demo_old demo_new demo_inbox (Some demo_s1) demo_s2"
    unfolding inbox_change_cong [OF upd] .
  moreover have "installed demo_s2 [7]" "\<not> installed demo_s1 [7]" by code_simp+
  moreover note installation_diff_exact [OF demo_lossless demo_network ok demo_cache_ok(1) d, of "[7]"]
  ultimately have "[7] \<in> set (added_installations d)" by (auto simp: md)
  with d show ?thesis by blast
qed

end
