(* ===== verification/Tls_Map.thy ===== *)
theory Tls_Map
  imports Prelude
begin

text \<open>
  \<open>xmtp_mls_common/src/tls_map.rs\<close>: a key-value map kept as a vector sorted by key, with batches of
  mutations that are applied atomically, and its TLS wire format.

  A method that takes \<open>&mut self\<close> returns its result paired with the map it leaves behind. The
  binary search of the standard library is written out, and proved to find the position in a
  sorted vector. The codecs of keys, values and vectors belong to the crate \<open>tls_codec\<close>: they are
  arguments, records of type \<open>codec\<close>, and the locale \<open>tls_codec\<close> says what is relied on.

  The lemmas relate every operation to a finite map (\<open>tm_map\<close>): a batch is applied completely or
  leaves the map as it was, although the code works in place with an undo stack; equal finite maps
  have equal vectors, so members of a group that agree on the contents agree on the bytes.
\<close>

section \<open>Binary search\<close>

datatype cmp_ordering = CmpLess | CmpEqual | CmpGreater

definition cmp :: "'k::linorder \<Rightarrow> 'k \<Rightarrow> cmp_ordering" where
  "cmp a b = (if a < b then CmpLess else if a = b then CmpEqual else CmpGreater)"

function binary_search_loop :: "('a \<Rightarrow> cmp_ordering) \<Rightarrow> 'a list \<Rightarrow> nat \<Rightarrow> nat \<Rightarrow> nat" where
  "binary_search_loop f xs base sz =
     (if sz \<le> 1 then base
      else let half = sz div 2; mid = base + half in
        binary_search_loop f xs (if f (xs ! mid) = CmpGreater then base else mid) (sz - half))"
  by pat_completeness auto
termination by (relation "measure (\<lambda>(_, _, _, sz). sz)") auto

declare binary_search_loop.simps [simp del]

text \<open>\<open>Ok\<close> holds the index of an equal element, \<open>Err\<close> the index where one could be inserted.\<close>

definition binary_search_by :: "('a \<Rightarrow> cmp_ordering) \<Rightarrow> 'a list \<Rightarrow> (nat, nat) result" where
  "binary_search_by f xs =
     (if xs = [] then Err 0
      else let base = binary_search_loop f xs 0 (length xs) in
        case f (xs ! base) of
          CmpEqual \<Rightarrow> Ok base
        | CmpLess \<Rightarrow> Err (base + 1)
        | CmpGreater \<Rightarrow> Err base)"

section \<open>The map\<close>

datatype tls_map_error = KeyExists | KeyNotFound | MapCodec

record ('k, 'v) tls_map_entry =
  e_key :: 'k
  e_value :: 'v

record ('k, 'v) tls_map =
  entries :: "('k, 'v) tls_map_entry list"

definition TlsMap_new :: "('k, 'v) tls_map" where
  "TlsMap_new = \<lparr> entries = [] \<rparr>"

abbreviation (input) find_key :: "('k::linorder, 'v) tls_map \<Rightarrow> 'k \<Rightarrow> (nat, nat) result" where
  "find_key m k \<equiv> binary_search_by (\<lambda>e. cmp (e_key e) k) (entries m)"

definition vec_insert :: "nat \<Rightarrow> 'a \<Rightarrow> 'a list \<Rightarrow> 'a list" where
  "vec_insert i x xs = take i xs @ x # drop i xs"

definition vec_remove :: "nat \<Rightarrow> 'a list \<Rightarrow> 'a list" where
  "vec_remove i xs = take i xs @ drop (i + 1) xs"

definition TlsMap_insert ::
    "('k::linorder, 'v) tls_map \<Rightarrow> 'k \<Rightarrow> 'v \<Rightarrow> (tls_map_error, unit) result \<times> ('k, 'v) tls_map" where
  "TlsMap_insert m k v =
     (case find_key m k of
        Ok _ \<Rightarrow> (Err KeyExists, m)
      | Err idx \<Rightarrow> (Ok (), m\<lparr> entries := vec_insert idx \<lparr> e_key = k, e_value = v \<rparr> (entries m) \<rparr>))"

definition TlsMap_update ::
    "('k::linorder, 'v) tls_map \<Rightarrow> 'k \<Rightarrow> 'v \<Rightarrow> (tls_map_error, unit) result \<times> ('k, 'v) tls_map" where
  "TlsMap_update m k v =
     (case find_key m k of
        Ok idx \<Rightarrow> (Ok (), m\<lparr> entries := (entries m)[idx := (entries m ! idx)\<lparr> e_value := v \<rparr>] \<rparr>)
      | Err _ \<Rightarrow> (Err KeyNotFound, m))"

definition TlsMap_set :: "('k::linorder, 'v) tls_map \<Rightarrow> 'k \<Rightarrow> 'v \<Rightarrow> ('k, 'v) tls_map" where
  "TlsMap_set m k v =
     (case find_key m k of
        Ok idx \<Rightarrow> m\<lparr> entries := (entries m)[idx := (entries m ! idx)\<lparr> e_value := v \<rparr>] \<rparr>
      | Err idx \<Rightarrow> m\<lparr> entries := vec_insert idx \<lparr> e_key = k, e_value = v \<rparr> (entries m) \<rparr>)"

definition TlsMap_remove ::
    "('k::linorder, 'v) tls_map \<Rightarrow> 'k \<Rightarrow> (tls_map_error, 'v) result \<times> ('k, 'v) tls_map" where
  "TlsMap_remove m k =
     (case find_key m k of
        Ok idx \<Rightarrow> (Ok (e_value (entries m ! idx)), m\<lparr> entries := vec_remove idx (entries m) \<rparr>)
      | Err _ \<Rightarrow> (Err KeyNotFound, m))"

definition TlsMap_get :: "('k::linorder, 'v) tls_map \<Rightarrow> 'k \<Rightarrow> 'v option" where
  "TlsMap_get m k = (case find_key m k of Ok idx \<Rightarrow> Some (e_value (entries m ! idx)) | Err _ \<Rightarrow> None)"

definition TlsMap_contains_key :: "('k::linorder, 'v) tls_map \<Rightarrow> 'k \<Rightarrow> bool" where
  "TlsMap_contains_key m k = is_ok (find_key m k)"

definition TlsMap_len :: "('k, 'v) tls_map \<Rightarrow> nat" where
  "TlsMap_len m = length (entries m)"

definition TlsMap_is_empty :: "('k, 'v) tls_map \<Rightarrow> bool" where
  "TlsMap_is_empty m \<longleftrightarrow> entries m = []"

definition TlsMap_iter :: "('k, 'v) tls_map \<Rightarrow> ('k \<times> 'v) list" where
  "TlsMap_iter m = map (\<lambda>e. (e_key e, e_value e)) (entries m)"

definition TlsMap_keys :: "('k, 'v) tls_map \<Rightarrow> 'k list" where
  "TlsMap_keys m = map e_key (entries m)"

definition TlsMap_values :: "('k, 'v) tls_map \<Rightarrow> 'v list" where
  "TlsMap_values m = map e_value (entries m)"

text \<open>\<open>BTreeMap::from_iter\<close> and its ordered iteration.\<close>

fun btree_insert :: "'k::linorder \<Rightarrow> 'v \<Rightarrow> ('k \<times> 'v) list \<Rightarrow> ('k \<times> 'v) list" where
  "btree_insert k v [] = [(k, v)]"
| "btree_insert k v ((k', v') # t) =
     (if k < k' then (k, v) # (k', v') # t
      else if k = k' then (k, v) # t
      else (k', v') # btree_insert k v t)"

definition TlsMap_from_pairs :: "('k::linorder \<times> 'v) list \<Rightarrow> ('k, 'v) tls_map" where
  "TlsMap_from_pairs ps =
     \<lparr> entries = map (\<lambda>(k, v). \<lparr> e_key = k, e_value = v \<rparr>) (fold (\<lambda>(k, v). btree_insert k v) ps []) \<rparr>"

section \<open>Batches of mutations\<close>

datatype ('k, 'v) undo_action = UndoRemove 'k | UndoRestore 'k 'v | UndoInsert 'k 'v

datatype ('k, 'v) tls_map_mutation = MInsert 'k 'v | MUpdate 'k 'v | MDelete 'k

record ('k, 'v) tls_map_delta =
  mutations :: "('k, 'v) tls_map_mutation list"

definition TlsMapDelta_new :: "('k, 'v) tls_map_delta" where
  "TlsMapDelta_new = \<lparr> mutations = [] \<rparr>"

definition TlsMapDelta_insert :: "('k, 'v) tls_map_delta \<Rightarrow> 'k \<Rightarrow> 'v \<Rightarrow> ('k, 'v) tls_map_delta" where
  "TlsMapDelta_insert d k v = d\<lparr> mutations := mutations d @ [MInsert k v] \<rparr>"

definition TlsMapDelta_update :: "('k, 'v) tls_map_delta \<Rightarrow> 'k \<Rightarrow> 'v \<Rightarrow> ('k, 'v) tls_map_delta" where
  "TlsMapDelta_update d k v = d\<lparr> mutations := mutations d @ [MUpdate k v] \<rparr>"

definition TlsMapDelta_delete :: "('k, 'v) tls_map_delta \<Rightarrow> 'k \<Rightarrow> ('k, 'v) tls_map_delta" where
  "TlsMapDelta_delete d k = d\<lparr> mutations := mutations d @ [MDelete k] \<rparr>"

fun undo :: "('k::linorder, 'v) undo_action \<Rightarrow> ('k, 'v) tls_map \<Rightarrow> ('k, 'v) tls_map" where
  "undo (UndoRemove k) m = snd (TlsMap_remove m k)"
| "undo (UndoRestore k v) m = TlsMap_set m k v"
| "undo (UndoInsert k v) m = TlsMap_set m k v"

definition rollback :: "('k::linorder, 'v) tls_map \<Rightarrow> ('k, 'v) undo_action list \<Rightarrow> ('k, 'v) tls_map" where
  "rollback m undo_stack = fold undo (rev undo_stack) m"

fun apply_mutations ::
    "('k::linorder, 'v) tls_map_mutation list \<Rightarrow> ('k, 'v) undo_action list \<Rightarrow> ('k, 'v) tls_map \<Rightarrow>
     (tls_map_error, unit) result \<times> ('k, 'v) tls_map" where
  "apply_mutations [] undo_stack m = (Ok (), m)"
| "apply_mutations (MInsert k v # ms) undo_stack m =
     (case TlsMap_insert m k v of
        (Err e, m') \<Rightarrow> (Err e, rollback m' undo_stack)
      | (Ok _, m') \<Rightarrow> apply_mutations ms (undo_stack @ [UndoRemove k]) m')"
| "apply_mutations (MUpdate k v # ms) undo_stack m =
     (case find_key m k of
        Ok idx \<Rightarrow>
          apply_mutations ms (undo_stack @ [UndoRestore k (e_value (entries m ! idx))])
            (m\<lparr> entries := (entries m)[idx := (entries m ! idx)\<lparr> e_value := v \<rparr>] \<rparr>)
      | Err _ \<Rightarrow> (Err KeyNotFound, rollback m undo_stack))"
| "apply_mutations (MDelete k # ms) undo_stack m =
     (case TlsMap_remove m k of
        (Ok old, m') \<Rightarrow> apply_mutations ms (undo_stack @ [UndoInsert k old]) m'
      | (Err e, m') \<Rightarrow> (Err e, rollback m' undo_stack))"

definition TlsMap_apply_delta ::
    "('k::linorder, 'v) tls_map \<Rightarrow> ('k, 'v) tls_map_delta \<Rightarrow> (tls_map_error, unit) result \<times> ('k, 'v) tls_map" where
  "TlsMap_apply_delta m d = apply_mutations (mutations d) [] m"

section \<open>Wire format\<close>

datatype codec_error = CodecError | DecodingError string

text \<open>The three traits \<open>Serialize\<close>, \<open>Deserialize\<close> and \<open>Size\<close> of a type. Reading leaves the unread bytes.\<close>

record 'a codec =
  tls_serialize :: "'a \<Rightarrow> (codec_error, bytes) result"
  tls_deserialize :: "bytes \<Rightarrow> (codec_error, 'a \<times> bytes) result"
  tls_serialized_len :: "'a \<Rightarrow> nat"

definition tls_deserialize_exact :: "'a codec \<Rightarrow> bytes \<Rightarrow> (codec_error, 'a) result" where
  "tls_deserialize_exact C bs =
     rbind (tls_deserialize C bs) (\<lambda>(x, rest). if rest = [] then Ok x else Err CodecError)"

definition TlsMapEntry_codec :: "'k codec \<Rightarrow> 'v codec \<Rightarrow> ('k, 'v) tls_map_entry codec" where
  "TlsMapEntry_codec K V =
     \<lparr> tls_serialize = (\<lambda>e.
         rbind (tls_serialize K (e_key e)) (\<lambda>kb. rbind (tls_serialize V (e_value e)) (\<lambda>vb. Ok (kb @ vb)))),
       tls_deserialize = (\<lambda>bs.
         rbind (tls_deserialize K bs) (\<lambda>(k, bs1).
         rbind (tls_deserialize V bs1) (\<lambda>(v, bs2). Ok (\<lparr> e_key = k, e_value = v \<rparr>, bs2)))),
       tls_serialized_len = (\<lambda>e. tls_serialized_len K (e_key e) + tls_serialized_len V (e_value e)) \<rparr>"

fun keys_ascending :: "('k::linorder, 'v) tls_map_entry list \<Rightarrow> bool" where
  "keys_ascending (l # r # es) = (if e_key l \<ge> e_key r then False else keys_ascending (r # es))"
| "keys_ascending es = True"

text \<open>\<open>vec\<close> turns the codec of an element into the codec of a vector, as \<open>tls_codec\<close> does.\<close>

definition TlsMap_codec ::
    "(('k, 'v) tls_map_entry codec \<Rightarrow> ('k, 'v) tls_map_entry list codec) \<Rightarrow> 'k::linorder codec \<Rightarrow> 'v codec \<Rightarrow>
     ('k, 'v) tls_map codec" where
  "TlsMap_codec vec K V =
     (let E = vec (TlsMapEntry_codec K V) in
      \<lparr> tls_serialize = (\<lambda>m. tls_serialize E (entries m)),
        tls_deserialize = (\<lambda>bs.
          rbind (tls_deserialize E bs) (\<lambda>(es, rest).
          if keys_ascending es then Ok (\<lparr> entries = es \<rparr>, rest)
          else Err (DecodingError ''TlsMap entries not sorted or contain duplicates''))),
        tls_serialized_len = (\<lambda>m. tls_serialized_len E (entries m)) \<rparr>)"

fun mutation_serialize :: "'k codec \<Rightarrow> 'v codec \<Rightarrow> ('k, 'v) tls_map_mutation \<Rightarrow> (codec_error, bytes) result" where
  "mutation_serialize K V (MInsert k v) =
     rbind (tls_serialize K k) (\<lambda>kb. rbind (tls_serialize V v) (\<lambda>vb. Ok (0 # kb @ vb)))"
| "mutation_serialize K V (MUpdate k v) =
     rbind (tls_serialize K k) (\<lambda>kb. rbind (tls_serialize V v) (\<lambda>vb. Ok (1 # kb @ vb)))"
| "mutation_serialize K V (MDelete k) = rbind (tls_serialize K k) (\<lambda>kb. Ok (2 # kb))"

definition mutation_deserialize ::
    "'k codec \<Rightarrow> 'v codec \<Rightarrow> bytes \<Rightarrow> (codec_error, ('k, 'v) tls_map_mutation \<times> bytes) result" where
  "mutation_deserialize K V bs =
     (case bs of
        [] \<Rightarrow> Err CodecError
      | tag # bs1 \<Rightarrow>
          if tag = 0 then
            rbind (tls_deserialize K bs1) (\<lambda>(k, bs2). rbind (tls_deserialize V bs2) (\<lambda>(v, bs3). Ok (MInsert k v, bs3)))
          else if tag = 1 then
            rbind (tls_deserialize K bs1) (\<lambda>(k, bs2). rbind (tls_deserialize V bs2) (\<lambda>(v, bs3). Ok (MUpdate k v, bs3)))
          else if tag = 2 then rbind (tls_deserialize K bs1) (\<lambda>(k, bs2). Ok (MDelete k, bs2))
          else Err (DecodingError ''unknown TlsMapMutation tag''))"

fun mutation_len :: "'k codec \<Rightarrow> 'v codec \<Rightarrow> ('k, 'v) tls_map_mutation \<Rightarrow> nat" where
  "mutation_len K V (MInsert k v) = 1 + (tls_serialized_len K k + tls_serialized_len V v)"
| "mutation_len K V (MUpdate k v) = 1 + (tls_serialized_len K k + tls_serialized_len V v)"
| "mutation_len K V (MDelete k) = 1 + tls_serialized_len K k"

definition TlsMapMutation_codec :: "'k codec \<Rightarrow> 'v codec \<Rightarrow> ('k, 'v) tls_map_mutation codec" where
  "TlsMapMutation_codec K V =
     \<lparr> tls_serialize = mutation_serialize K V, tls_deserialize = mutation_deserialize K V,
       tls_serialized_len = mutation_len K V \<rparr>"

definition TlsMapDelta_codec ::
    "(('k, 'v) tls_map_mutation codec \<Rightarrow> ('k, 'v) tls_map_mutation list codec) \<Rightarrow> 'k codec \<Rightarrow> 'v codec \<Rightarrow>
     ('k, 'v) tls_map_delta codec" where
  "TlsMapDelta_codec vec K V =
     (let M = vec (TlsMapMutation_codec K V) in
      \<lparr> tls_serialize = (\<lambda>d. tls_serialize M (mutations d)),
        tls_deserialize = (\<lambda>bs. rbind (tls_deserialize M bs) (\<lambda>(ms, rest). Ok (\<lparr> mutations = ms \<rparr>, rest))),
        tls_serialized_len = (\<lambda>d. tls_serialized_len M (mutations d)) \<rparr>)"

section \<open>Finding a key\<close>

named_theorems tls_map_laws \<open>how the operations of a sorted map act on the finite map it stands for\<close>

definition tm_wf :: "('k::linorder, 'v) tls_map \<Rightarrow> bool" where
  "tm_wf m \<longleftrightarrow> sorted_wrt (<) (map e_key (entries m))"

definition tm_map :: "('k, 'v) tls_map \<Rightarrow> 'k \<Rightarrow> 'v option" where
  "tm_map m = map_of (TlsMap_iter m)"

lemma cmp_simps [simp]: "cmp a b = CmpLess \<longleftrightarrow> a < b" "cmp a b = CmpEqual \<longleftrightarrow> a = b" "cmp a b = CmpGreater \<longleftrightarrow> b < a"
  by (auto simp: cmp_def)

text \<open>
  The loop keeps the searched position inside its window: the first element of the window is not
  greater than the key unless the window starts at the front, and everything after it is greater.
\<close>

lemma binary_search_window:
  assumes "\<And>i j. i < j \<Longrightarrow> j < length xs \<Longrightarrow> g (xs ! i) < g (xs ! j)" and "0 < sz" and "base + sz \<le> length xs"
    and "base = 0 \<or> g (xs ! base) \<le> (k :: 'k::linorder)"
    and "\<And>i. base + sz \<le> i \<Longrightarrow> i < length xs \<Longrightarrow> k < g (xs ! i)"
    and "r = binary_search_loop (\<lambda>x. cmp (g x) k) xs base sz"
  shows "r < length xs \<and> (r = 0 \<or> g (xs ! r) \<le> k) \<and> (\<forall>i. r < i \<and> i < length xs \<longrightarrow> k < g (xs ! i))"
  using assms(2-6)
proof (induction sz arbitrary: base rule: less_induct)
  case (less sz)
  show ?case
  proof (cases "sz \<le> 1")
    case True
    with less.prems have "sz = 1" "r = base" by (simp_all add: binary_search_loop.simps [of _ _ base sz])
    with less.prems show ?thesis by auto
  next
    case False
    let ?half = "sz div 2" let ?mid = "base + ?half"
    have half: "0 < ?half" "?half < sz" "?mid < length xs" using False less.prems by auto
    have step: "r = binary_search_loop (\<lambda>x. cmp (g x) k) xs (if k < g (xs ! ?mid) then base else ?mid) (sz - ?half)"
      using False less.prems(5) by (simp add: binary_search_loop.simps [of _ _ base sz] Let_def)
    show ?thesis
    proof (cases "k < g (xs ! ?mid)")
      case True
      have above: "k < g (xs ! i)" if "base + (sz - ?half) \<le> i" "i < length xs" for i
      proof -
        have "?mid \<le> i" using that by simp
        then show ?thesis using True assms(1) [of ?mid i] that by (cases "?mid = i") (auto intro: less_trans)
      qed
      show ?thesis
        using less.IH [of "sz - ?half" base, OF _ _ _ less.prems(3) above] less.prems(2) half step True by simp
    next
      case False
      then show ?thesis using less.IH [of "sz - ?half" ?mid] less.prems half step by auto
    qed
  qed
qed

lemma binary_search_sorted:
  assumes "sorted_wrt (<) (map g xs)"
  shows "case binary_search_by (\<lambda>x. cmp (g x) k) xs of
      Ok i \<Rightarrow> i < length xs \<and> g (xs ! i) = k
    | Err i \<Rightarrow> i \<le> length xs \<and> (\<forall>j < i. g (xs ! j) < k) \<and> (\<forall>j. i \<le> j \<and> j < length xs \<longrightarrow> k < g (xs ! j))"
proof (cases "xs = []")
  case True
  then show ?thesis by (simp add: binary_search_by_def)
next
  case False
  define r where "r = binary_search_loop (\<lambda>x. cmp (g x) k) xs 0 (length xs)"
  have lt: "g (xs ! i) < g (xs ! j)" if "i < j" "j < length xs" for i j
    using assms that by (simp add: sorted_wrt_iff_nth_less)
  have "r < length xs \<and> (r = 0 \<or> g (xs ! r) \<le> k) \<and> (\<forall>i. r < i \<and> i < length xs \<longrightarrow> k < g (xs ! i))"
    using False by (intro binary_search_window [OF lt _ _ _ _ r_def]) auto
  then have r: "r < length xs" "r = 0 \<or> g (xs ! r) \<le> k" "\<And>i. r < i \<Longrightarrow> i < length xs \<Longrightarrow> k < g (xs ! i)"
    by blast+
  have search: "binary_search_by (\<lambda>x. cmp (g x) k) xs =
      (case cmp (g (xs ! r)) k of CmpEqual \<Rightarrow> Ok r | CmpLess \<Rightarrow> Err (r + 1) | CmpGreater \<Rightarrow> Err r)"
    using False unfolding binary_search_by_def Let_def r_def by simp
  consider "g (xs ! r) < k" | "g (xs ! r) = k" | "k < g (xs ! r)" by fastforce
  then show ?thesis
  proof cases
    case 1
    then have "g (xs ! j) < k" if "j < r + 1" for j
      using that lt [of j r] r(1) by (cases "j = r") (auto intro: less_trans)
    with 1 r show ?thesis unfolding search by (simp add: cmp_def Suc_le_eq)
  next
    case 2
    with r show ?thesis unfolding search by (simp add: cmp_def)
  next
    case 3
    with r(2) have "r = 0" by auto
    with 3 r show ?thesis unfolding search by (auto simp: cmp_def) (metis gr0I)
  qed
qed

text \<open>An entry found splits the vector around it; a missing one splits it where it belongs.\<close>

lemma find_key_cases:
  assumes "tm_wf m"
  obtains (found) pre e post where "entries m = pre @ e # post" "e_key e = k" "find_key m k = Ok (length pre)"
      "\<And>x. x \<in> set pre \<Longrightarrow> e_key x < k" "\<And>x. x \<in> set post \<Longrightarrow> k < e_key x"
    | (missing) pre post where "entries m = pre @ post" "find_key m k = Err (length pre)"
      "\<And>x. x \<in> set pre \<Longrightarrow> e_key x < k" "\<And>x. x \<in> set post \<Longrightarrow> k < e_key x"
proof (cases "find_key m k")
  case (Inl i)
  have i: "i \<le> length (entries m)" "\<And>j. j < i \<Longrightarrow> e_key (entries m ! j) < k"
    "\<And>j. i \<le> j \<Longrightarrow> j < length (entries m) \<Longrightarrow> k < e_key (entries m ! j)"
    using binary_search_sorted [of e_key "entries m" k] assms Inl by (auto simp: tm_wf_def)
  show ?thesis
  proof (rule missing [of "take i (entries m)" "drop i (entries m)"])
    show "e_key x < k" if "x \<in> set (take i (entries m))" for x
      using that i(1,2) by (auto simp: in_set_conv_nth)
    show "k < e_key x" if "x \<in> set (drop i (entries m))" for x
      using that i(1) i(3) by (auto simp: in_set_conv_nth)
  qed (use i(1) Inl in auto)
next
  case (Inr i)
  let ?es = "entries m"
  have i: "i < length ?es" "e_key (?es ! i) = k"
    using binary_search_sorted [of e_key ?es k] assms Inr by (auto simp: tm_wf_def)
  have split: "?es = take i ?es @ ?es ! i # drop (Suc i) ?es" using i(1) by (rule id_take_nth_drop)
  have "sorted_wrt (<) (map e_key (take i ?es @ ?es ! i # drop (Suc i) ?es))"
    using assms split by (simp add: tm_wf_def)
  then have "e_key x < k" if "x \<in> set (take i ?es)" for x
    using that i(2) by (auto simp: sorted_wrt_append)
  moreover have "k < e_key x" if "x \<in> set (drop (Suc i) ?es)" for x
    using \<open>sorted_wrt (<) (map e_key (take i ?es @ ?es ! i # drop (Suc i) ?es))\<close> that i(2)
    by (auto simp: sorted_wrt_append)
  ultimately show ?thesis using found [of "take i ?es" "?es ! i" "drop (Suc i) ?es"] split i Inr by auto
qed

lemma map_of_split:
  assumes "\<And>x. x \<in> set pre \<Longrightarrow> e_key x \<noteq> k" "\<And>x. x \<in> set post \<Longrightarrow> e_key x \<noteq> k"
  shows "map_of (map (\<lambda>e. (e_key e, e_value e)) pre) k = None" "map_of (map (\<lambda>e. (e_key e, e_value e)) post) k = None"
  using assms by (force simp: map_of_eq_None_iff)+

lemma tm_wf_split:
  "tm_wf \<lparr> entries = pre @ e # post \<rparr> \<longleftrightarrow> tm_wf \<lparr> entries = pre @ post \<rparr> \<and>
     (\<forall>x \<in> set pre. e_key x < e_key e) \<and> (\<forall>x \<in> set post. e_key e < e_key x)"
  unfolding tm_wf_def by (auto simp: sorted_wrt_append)

lemma tm_map_split:
  assumes "\<And>x. x \<in> set pre \<Longrightarrow> e_key x \<noteq> e_key e" "\<And>x. x \<in> set post \<Longrightarrow> e_key x \<noteq> e_key e"
  shows "tm_map \<lparr> entries = pre @ e # post \<rparr> = (tm_map \<lparr> entries = pre @ post \<rparr>)(e_key e \<mapsto> e_value e)"
    "tm_map \<lparr> entries = pre @ post \<rparr> (e_key e) = None"
  using map_of_split [of pre "e_key e" post] assms
  by (auto simp: tm_map_def TlsMap_iter_def fun_eq_iff map_add_def split: option.splits)

lemma TlsMap_new_laws [tls_map_laws]: "tm_wf TlsMap_new" "tm_map TlsMap_new = Map.empty"
  by (simp_all add: TlsMap_new_def tm_wf_def tm_map_def TlsMap_iter_def)

lemma entries_upd: "(m :: ('k, 'v) tls_map)\<lparr> entries := es \<rparr> = \<lparr> entries = es \<rparr>"
  by (cases m) simp

lemma found_facts:
  assumes "tm_wf m" "entries m = pre @ e # post" "\<And>x. x \<in> set pre \<Longrightarrow> e_key x < e_key e" "\<And>x. x \<in> set post \<Longrightarrow> e_key e < e_key x"
  shows "tm_wf \<lparr> entries = pre @ post \<rparr>" "tm_map m = (tm_map \<lparr> entries = pre @ post \<rparr>)(e_key e \<mapsto> e_value e)"
    "tm_map \<lparr> entries = pre @ post \<rparr> (e_key e) = None"
    "e_key e' = e_key e \<Longrightarrow> tm_wf \<lparr> entries = pre @ e' # post \<rparr>"
    "e_key e' = e_key e \<Longrightarrow> tm_map \<lparr> entries = pre @ e' # post \<rparr> = (tm_map m)(e_key e \<mapsto> e_value e')"
proof -
  have m: "m = \<lparr> entries = pre @ e # post \<rparr>" using assms(2) by (cases m) simp
  have ne: "\<And>x. x \<in> set pre \<Longrightarrow> e_key x \<noteq> e_key e" "\<And>x. x \<in> set post \<Longrightarrow> e_key x \<noteq> e_key e"
    using assms(3,4) by force+
  show "tm_wf \<lparr> entries = pre @ post \<rparr>" using assms(1) unfolding m tm_wf_split by blast
  show map: "tm_map m = (tm_map \<lparr> entries = pre @ post \<rparr>)(e_key e \<mapsto> e_value e)"
    unfolding m by (rule tm_map_split(1) [OF ne])
  show "tm_map \<lparr> entries = pre @ post \<rparr> (e_key e) = None" by (rule tm_map_split(2) [OF ne])
  assume key: "e_key e' = e_key e"
  show "tm_wf \<lparr> entries = pre @ e' # post \<rparr>" using assms(1) unfolding m tm_wf_split key .
  show "tm_map \<lparr> entries = pre @ e' # post \<rparr> = (tm_map m)(e_key e \<mapsto> e_value e')"
    using tm_map_split(1) [of pre e' post] ne by (simp add: key map)
qed

lemma missing_facts:
  assumes "tm_wf m" "entries m = pre @ post" "\<And>x. x \<in> set pre \<Longrightarrow> e_key x < e_key e" "\<And>x. x \<in> set post \<Longrightarrow> e_key e < e_key x"
  shows "tm_map m (e_key e) = None" "tm_wf \<lparr> entries = pre @ e # post \<rparr>"
    "tm_map \<lparr> entries = pre @ e # post \<rparr> = (tm_map m)(e_key e \<mapsto> e_value e)"
proof -
  have m: "m = \<lparr> entries = pre @ post \<rparr>" using assms(2) by (cases m) simp
  have ne: "\<And>x. x \<in> set pre \<Longrightarrow> e_key x \<noteq> e_key e" "\<And>x. x \<in> set post \<Longrightarrow> e_key x \<noteq> e_key e"
    using assms(3,4) by force+
  show "tm_map m (e_key e) = None" unfolding m by (rule tm_map_split(2) [OF ne])
  show "tm_wf \<lparr> entries = pre @ e # post \<rparr>" using assms(1,3,4) unfolding m tm_wf_split by blast
  show "tm_map \<lparr> entries = pre @ e # post \<rparr> = (tm_map m)(e_key e \<mapsto> e_value e)"
    unfolding m by (rule tm_map_split(1) [OF ne])
qed

lemma find_key_laws:
  assumes "tm_wf m"
  shows "find_key m k = Ok i \<Longrightarrow> tm_map m k = Some (e_value (entries m ! i))"
    and "find_key m k = Ok i \<Longrightarrow> tm_wf (m\<lparr> entries := (entries m)[i := (entries m ! i)\<lparr> e_value := v \<rparr>] \<rparr>)"
    and "find_key m k = Ok i \<Longrightarrow> tm_map (m\<lparr> entries := (entries m)[i := (entries m ! i)\<lparr> e_value := v \<rparr>] \<rparr>) = (tm_map m)(k \<mapsto> v)"
    and "find_key m k = Ok i \<Longrightarrow> tm_wf (m\<lparr> entries := vec_remove i (entries m) \<rparr>)"
    and "find_key m k = Ok i \<Longrightarrow> tm_map (m\<lparr> entries := vec_remove i (entries m) \<rparr>) = (tm_map m)(k := None)"
    and "find_key m k = Err i \<Longrightarrow> tm_map m k = None"
    and "find_key m k = Err i \<Longrightarrow> tm_wf (m\<lparr> entries := vec_insert i \<lparr> e_key = k, e_value = v \<rparr> (entries m) \<rparr>)"
    and "find_key m k = Err i \<Longrightarrow> tm_map (m\<lparr> entries := vec_insert i \<lparr> e_key = k, e_value = v \<rparr> (entries m) \<rparr>) = (tm_map m)(k \<mapsto> v)"
proof -
  have "(find_key m k = Ok i \<longrightarrow> tm_map m k = Some (e_value (entries m ! i)) \<and>
       tm_wf (m\<lparr> entries := (entries m)[i := (entries m ! i)\<lparr> e_value := v \<rparr>] \<rparr>) \<and>
       tm_map (m\<lparr> entries := (entries m)[i := (entries m ! i)\<lparr> e_value := v \<rparr>] \<rparr>) = (tm_map m)(k \<mapsto> v) \<and>
       tm_wf (m\<lparr> entries := vec_remove i (entries m) \<rparr>) \<and>
       tm_map (m\<lparr> entries := vec_remove i (entries m) \<rparr>) = (tm_map m)(k := None)) \<and>
     (find_key m k = Err i \<longrightarrow> tm_map m k = None \<and>
       tm_wf (m\<lparr> entries := vec_insert i \<lparr> e_key = k, e_value = v \<rparr> (entries m) \<rparr>) \<and>
       tm_map (m\<lparr> entries := vec_insert i \<lparr> e_key = k, e_value = v \<rparr> (entries m) \<rparr>) = (tm_map m)(k \<mapsto> v))"
  proof (cases rule: find_key_cases [OF assms, of k, case_names found missing])
    case (found pre e post)
    note facts = found_facts(1-3) [OF assms found(1), unfolded found(2), OF found(4,5)]
      found_facts(4,5) [OF assms found(1), unfolded found(2), OF found(4,5), of "e\<lparr> e_value := v \<rparr>"]
    show ?thesis
      using facts found by (auto simp: vec_remove_def nth_append list_update_append fun_eq_iff entries_upd)
  next
    case (missing pre post)
    note facts = missing_facts [OF assms missing(1), of "\<lparr> e_key = k, e_value = v \<rparr>", simplified, OF missing(3,4)]
    show ?thesis using facts missing by (auto simp: vec_insert_def entries_upd)
  qed
  then show "find_key m k = Ok i \<Longrightarrow> tm_map m k = Some (e_value (entries m ! i))"
    and "find_key m k = Ok i \<Longrightarrow> tm_wf (m\<lparr> entries := (entries m)[i := (entries m ! i)\<lparr> e_value := v \<rparr>] \<rparr>)"
    and "find_key m k = Ok i \<Longrightarrow> tm_map (m\<lparr> entries := (entries m)[i := (entries m ! i)\<lparr> e_value := v \<rparr>] \<rparr>) = (tm_map m)(k \<mapsto> v)"
    and "find_key m k = Ok i \<Longrightarrow> tm_wf (m\<lparr> entries := vec_remove i (entries m) \<rparr>)"
    and "find_key m k = Ok i \<Longrightarrow> tm_map (m\<lparr> entries := vec_remove i (entries m) \<rparr>) = (tm_map m)(k := None)"
    and "find_key m k = Err i \<Longrightarrow> tm_map m k = None"
    and "find_key m k = Err i \<Longrightarrow> tm_wf (m\<lparr> entries := vec_insert i \<lparr> e_key = k, e_value = v \<rparr> (entries m) \<rparr>)"
    and "find_key m k = Err i \<Longrightarrow> tm_map (m\<lparr> entries := vec_insert i \<lparr> e_key = k, e_value = v \<rparr> (entries m) \<rparr>) = (tm_map m)(k \<mapsto> v)"
    by blast+
qed

text \<open>The operations, as operations on the finite map.\<close>

lemma TlsMap_get_laws [tls_map_laws]: "tm_wf m \<Longrightarrow> TlsMap_get m k = tm_map m k"
  using find_key_laws(1,6) [of m k] by (auto simp: TlsMap_get_def split: sum.splits)

lemma TlsMap_contains_laws [tls_map_laws]: "tm_wf m \<Longrightarrow> TlsMap_contains_key m k \<longleftrightarrow> k \<in> dom (tm_map m)"
  using find_key_laws(1,6) [of m k] by (cases "find_key m k") (auto simp: TlsMap_contains_key_def dom_def)

lemma TlsMap_insert_laws [tls_map_laws]:
  assumes "tm_wf m"
  shows "fst (TlsMap_insert m k v) = (if tm_map m k = None then Ok () else Err KeyExists)"
    and "tm_wf (snd (TlsMap_insert m k v))"
    and "tm_map (snd (TlsMap_insert m k v)) = (if tm_map m k = None then (tm_map m)(k \<mapsto> v) else tm_map m)"
  using find_key_laws [OF assms, of k] assms
  by (cases "find_key m k"; simp add: TlsMap_insert_def)+

lemma TlsMap_update_laws [tls_map_laws]:
  assumes "tm_wf m"
  shows "fst (TlsMap_update m k v) = (if tm_map m k = None then Err KeyNotFound else Ok ())"
    and "tm_wf (snd (TlsMap_update m k v))"
    and "tm_map (snd (TlsMap_update m k v)) = (if tm_map m k = None then tm_map m else (tm_map m)(k \<mapsto> v))"
  using find_key_laws [OF assms, of k] assms
  by (cases "find_key m k"; simp add: TlsMap_update_def)+

lemma TlsMap_set_laws [tls_map_laws]:
  assumes "tm_wf m"
  shows "tm_wf (TlsMap_set m k v)" and "tm_map (TlsMap_set m k v) = (tm_map m)(k \<mapsto> v)"
  using find_key_laws [OF assms, of k] assms
  by (cases "find_key m k"; simp add: TlsMap_set_def)+

lemma TlsMap_remove_laws [tls_map_laws]:
  assumes "tm_wf m"
  shows "fst (TlsMap_remove m k) = ok_or (tm_map m k) KeyNotFound"
    and "tm_wf (snd (TlsMap_remove m k))"
    and "tm_map (snd (TlsMap_remove m k)) = (tm_map m)(k := None)"
proof -
  have "fst (TlsMap_remove m k) = ok_or (tm_map m k) KeyNotFound \<and> tm_wf (snd (TlsMap_remove m k)) \<and>
      tm_map (snd (TlsMap_remove m k)) = (tm_map m)(k := None)"
  proof (cases "find_key m k")
    case (Inl i)
    then show ?thesis using find_key_laws(6) [OF assms Inl] assms by (auto simp: TlsMap_remove_def)
  next
    case (Inr i)
    then show ?thesis using find_key_laws(1,4,5) [OF assms Inr] by (simp add: TlsMap_remove_def)
  qed
  then show "fst (TlsMap_remove m k) = ok_or (tm_map m k) KeyNotFound"
    and "tm_wf (snd (TlsMap_remove m k))" and "tm_map (snd (TlsMap_remove m k)) = (tm_map m)(k := None)"
    by blast+
qed

text \<open>Contents determine the vector, so equal maps have equal bytes.\<close>

lemma sorted_assoc_unique:
  assumes "sorted_wrt (<) (map fst xs)" "sorted_wrt (<) (map fst ys)" "map_of xs = map_of ys"
  shows "xs = (ys :: ('k::linorder \<times> 'v) list)"
proof -
  have "set (map fst xs) = set (map fst ys)" using assms(3) by (metis dom_map_of_conv_image_fst list.set_map)
  with assms(1,2) have keys: "map fst xs = map fst ys" by (simp add: strict_sorted_iff sorted_distinct_set_unique)
  have table: "zs = map (\<lambda>k. (k, the (map_of zs k))) (map fst zs)" if "sorted_wrt (<) (map fst zs)" for zs :: "('k \<times> 'v) list"
  proof -
    have "map_of zs (fst p) = Some (snd p)" if "p \<in> set zs" for p
      using that \<open>sorted_wrt (<) (map fst zs)\<close> by (intro map_of_is_SomeI) (simp_all add: strict_sorted_iff)
    then have "(fst p, the (map_of zs (fst p))) = p" if "p \<in> set zs" for p using that by simp
    then show ?thesis by (simp add: map_idI)
  qed
  show ?thesis using table [OF assms(1)] table [OF assms(2)] keys assms(3) by metis
qed

lemma tm_ext: "tm_wf m \<Longrightarrow> tm_wf m' \<Longrightarrow> tm_map m = tm_map m' \<Longrightarrow> m = (m' :: ('k::linorder, 'v) tls_map)"
proof -
  assume wf: "tm_wf m" "tm_wf m'" and same: "tm_map m = tm_map m'"
  have "TlsMap_iter m = TlsMap_iter m'"
    using wf same by (intro sorted_assoc_unique) (simp_all add: tm_wf_def tm_map_def TlsMap_iter_def comp_def)
  then have "entries m = entries m'"
    unfolding TlsMap_iter_def by (rule map_injective) (auto intro!: injI tls_map_entry.equality)
  then show ?thesis by simp
qed

section \<open>Atomic batches\<close>

text \<open>The meaning of a batch: one mutation after the other on a finite map, or the first error.\<close>

fun mutate :: "('k, 'v) tls_map_mutation \<Rightarrow> ('k \<rightharpoonup> 'v) \<Rightarrow> (tls_map_error, 'k \<rightharpoonup> 'v) result" where
  "mutate (MInsert k v) f = (if f k = None then Ok (f(k \<mapsto> v)) else Err KeyExists)"
| "mutate (MUpdate k v) f = (if f k = None then Err KeyNotFound else Ok (f(k \<mapsto> v)))"
| "mutate (MDelete k) f = (if f k = None then Err KeyNotFound else Ok (f(k := None)))"

fun mutate_all :: "('k, 'v) tls_map_mutation list \<Rightarrow> ('k \<rightharpoonup> 'v) \<Rightarrow> (tls_map_error, 'k \<rightharpoonup> 'v) result" where
  "mutate_all [] f = Ok f"
| "mutate_all (x # xs) f = rbind (mutate x f) (mutate_all xs)"

lemma rollback_snoc: "rollback m (us @ [u]) = rollback (undo u m) us"
  by (simp add: rollback_def)

definition batch_ok :: "('k::linorder, 'v) tls_map \<Rightarrow> ('k, 'v) tls_map_mutation list \<Rightarrow> ('k, 'v) tls_map \<Rightarrow>
    (tls_map_error, unit) result \<times> ('k, 'v) tls_map \<Rightarrow> bool" where
  "batch_ok m0 ms m out \<longleftrightarrow>
     (case fst out of
        Ok _ \<Rightarrow> tm_wf (snd out) \<and> mutate_all ms (tm_map m) = Ok (tm_map (snd out))
      | Err e \<Rightarrow> snd out = m0 \<and> mutate_all ms (tm_map m) = Err e)"

lemma undo_restores:
  assumes "tm_wf m" "tm_wf m'" "tm_wf (undo u m')" "tm_map (undo u m') = tm_map m"
  shows "undo u m' = m"
  using tm_ext assms by blast

lemma apply_mutations_batch:
  "tm_wf m \<Longrightarrow> rollback m us = m0 \<Longrightarrow> batch_ok m0 ms m (apply_mutations ms us m)"
proof (induction ms arbitrary: us m)
  case Nil
  then show ?case by (simp add: batch_ok_def)
next
  case (Cons x ms)
  note wf = Cons.prems(1)
  have step: "batch_ok m0 (x # ms) m (apply_mutations ms (us @ [u]) m')"
    if "tm_wf m'" "undo u m' = m" "mutate x (tm_map m) = Ok (tm_map m')" for u m'
  proof -
    have "mutate_all (x # ms) (tm_map m) = mutate_all ms (tm_map m')" using that(3) by simp
    then have "batch_ok m0 (x # ms) m out \<longleftrightarrow> batch_ok m0 ms m' out" for out by (simp only: batch_ok_def)
    with Cons.IH [of m' "us @ [u]"] that Cons.prems(2) show ?thesis by (simp add: rollback_snoc)
  qed
  have stop: "batch_ok m0 (x # ms) m (Err e, rollback m us)" if "mutate x (tm_map m) = Err e" for e
    using that Cons.prems(2) by (simp add: batch_ok_def)
  show ?case
  proof (cases x)
    case (MInsert k v)
    obtain r m' where ins: "TlsMap_insert m k v = (r, m')" by fastforce
    note laws = TlsMap_insert_laws [OF wf, of k v, unfolded ins fst_conv snd_conv]
    show ?thesis
    proof (cases "tm_map m k")
      case None
      have "snd (TlsMap_remove m' k) = m"
        using None laws wf TlsMap_remove_laws(2,3) [OF laws(2), of k] by (intro tm_ext) auto
      with None laws step [of m' "UndoRemove k"] show ?thesis by (simp add: MInsert ins)
    next
      case (Some a)
      then have "m' = m" using laws wf by (intro tm_ext) auto
      with Some laws stop [of KeyExists] show ?thesis by (simp add: MInsert ins)
    qed
  next
    case (MUpdate k v)
    show ?thesis
    proof (cases "find_key m k")
      case (Inl i)
      with find_key_laws(6) [OF wf Inl] stop [of KeyNotFound] show ?thesis by (simp add: MUpdate)
    next
      case (Inr i)
      let ?m' = "m\<lparr> entries := (entries m)[i := (entries m ! i)\<lparr> e_value := v \<rparr>] \<rparr>"
      note laws = find_key_laws(1) [OF wf Inr] find_key_laws(2,3) [OF wf Inr, of v]
      have "TlsMap_set ?m' k (e_value (entries m ! i)) = m"
        using laws wf TlsMap_set_laws [OF laws(2), of k "e_value (entries m ! i)"]
        by (intro tm_ext) (simp_all add: map_upd_triv)
      with laws step [of ?m' "UndoRestore k (e_value (entries m ! i))"] show ?thesis by (simp add: MUpdate Inr)
    qed
  next
    case (MDelete k)
    obtain r m' where rem: "TlsMap_remove m k = (r, m')" by fastforce
    note laws = TlsMap_remove_laws [OF wf, of k, unfolded rem fst_conv snd_conv]
    show ?thesis
    proof (cases "tm_map m k")
      case None
      then have "m' = m" using laws wf by (intro tm_ext) auto
      with None laws stop [of KeyNotFound] show ?thesis by (simp add: MDelete rem)
    next
      case (Some old)
      have "TlsMap_set m' k old = m"
        using Some laws wf TlsMap_set_laws [OF laws(2), of k old] by (intro tm_ext) (simp_all add: map_upd_triv)
      with Some laws step [of m' "UndoInsert k old"] show ?thesis by (simp add: MDelete rem)
    qed
  qed
qed

lemma map_delta_batch:
  assumes "tm_wf m"
  shows "TlsMap_apply_delta m d = (r, m') \<Longrightarrow> (case r of
      Ok _ \<Rightarrow> tm_wf m' \<and> mutate_all (mutations d) (tm_map m) = Ok (tm_map m')
    | Err e \<Rightarrow> m' = m \<and> mutate_all (mutations d) (tm_map m) = Err e)"
  using apply_mutations_batch [OF assms, of "[]" m "mutations d"]
  by (cases r) (simp_all add: TlsMap_apply_delta_def batch_ok_def rollback_def)

text \<open>
  Property C22. A batch of mutations on a sorted map is atomic: either all of it takes effect, and the
  result is a sorted map with exactly the contents that applying the mutations in order gives, or
  the first failing mutation is reported and the map is the very vector it was before.
\<close>

theorem map_delta_atomic:
  assumes "tm_wf m"
  shows "case TlsMap_apply_delta m d of
      (Ok _, m') \<Rightarrow> tm_wf m' \<and> mutate_all (mutations d) (tm_map m) = Ok (tm_map m')
    | (Err e, m') \<Rightarrow> m' = m \<and> mutate_all (mutations d) (tm_map m) = Err e"
  using map_delta_batch [OF assms, of d] by (auto split: prod.splits sum.splits)

theorem map_delta_atomic_witness:
  "(let m = TlsMap_from_pairs [(3::nat, ''c''), (1, ''a'')] in
    TlsMap_apply_delta m \<lparr> mutations = [MInsert 2 ''b'', MDelete 1, MUpdate 9 ''x''] \<rparr> = (Err KeyNotFound, m))"
proof -
  define m where "m = TlsMap_from_pairs [(3::nat, ''c''), (1, ''a'')]"
  define d :: "(nat, string) tls_map_delta" where "d = \<lparr> mutations = [MInsert 2 ''b'', MDelete 1, MUpdate 9 ''x''] \<rparr>"
  have wf: "tm_wf m" unfolding m_def by code_simp
  have "fst (TlsMap_apply_delta m d) = Err KeyNotFound" unfolding m_def d_def by code_simp
  then obtain m' where "TlsMap_apply_delta m d = (Err KeyNotFound, m')" by (cases "TlsMap_apply_delta m d") simp
  with map_delta_atomic [OF wf, of d] have "TlsMap_apply_delta m d = (Err KeyNotFound, m)" by simp
  then show ?thesis unfolding m_def d_def Let_def .
qed

section \<open>Building a map\<close>

lemma btree_insert_laws:
  assumes "sorted_wrt (<) (map fst t)"
  shows "sorted_wrt (<) (map fst (btree_insert k v t))" "map_of (btree_insert k v t) = (map_of t)(k \<mapsto> v)"
proof -
  have keys: "set (map fst (btree_insert k v t)) = insert k (set (map fst t))"
    by (induction t rule: btree_insert.induct) auto
  show "sorted_wrt (<) (map fst (btree_insert k v t))"
    using assms
  proof (induction t)
    case (Cons p t)
    have "set (map fst (btree_insert k v t)) = insert k (set (map fst t))"
      by (induction t rule: btree_insert.induct) auto
    with Cons show ?case by (cases p) (auto simp: not_less)
  qed simp
  show "map_of (btree_insert k v t) = (map_of t)(k \<mapsto> v)" by (induction t) (auto simp: fun_eq_iff)
qed

lemma TlsMap_from_pairs_laws [tls_map_laws]:
  "tm_wf (TlsMap_from_pairs ps)" "tm_map (TlsMap_from_pairs ps) = map_of (rev ps)"
proof -
  have "sorted_wrt (<) (map fst (fold (\<lambda>(k, v). btree_insert k v) ps t)) \<and>
      map_of (fold (\<lambda>(k, v). btree_insert k v) ps t) = map_of t ++ map_of (rev ps)"
    if "sorted_wrt (<) (map fst t)" for t
    using that
  proof (induction ps arbitrary: t)
    case (Cons p ps)
    obtain k v where p: "p = (k, v)" by (cases p)
    show ?case using Cons.IH [of "btree_insert k v t"] btree_insert_laws [OF Cons.prems, of k v]
      by (simp add: p map_add_def fun_eq_iff split: option.splits)
  qed simp
  from this [of "[]"] show "tm_wf (TlsMap_from_pairs ps)" "tm_map (TlsMap_from_pairs ps) = map_of (rev ps)"
    by (simp_all add: tm_wf_def tm_map_def TlsMap_iter_def TlsMap_from_pairs_def comp_def case_prod_beta)
qed

section \<open>The wire format is lossless and canonical\<close>

text \<open>\<open>ok\<close> says which values of the HOL type are values of the Rust type.\<close>

locale tls_codec =
  fixes C :: "'a codec" and ok :: "'a \<Rightarrow> bool"
  assumes read_back: "ok x \<Longrightarrow> tls_serialize C x = Ok bs \<Longrightarrow> tls_deserialize C (bs @ rest) = Ok (x, rest)"
    and sized: "ok x \<Longrightarrow> tls_serialize C x = Ok bs \<Longrightarrow> length bs = tls_serialized_len C x"
begin

lemma read_exact: "ok x \<Longrightarrow> tls_serialize C x = Ok bs \<Longrightarrow> tls_deserialize_exact C bs = Ok x"
  using read_back [of x bs "[]"] by (simp add: tls_deserialize_exact_def)

lemma injective: "ok x \<Longrightarrow> ok y \<Longrightarrow> tls_serialize C x = Ok bs \<Longrightarrow> tls_serialize C y = Ok bs \<Longrightarrow> x = y"
  using read_exact [of x bs] read_exact [of y bs] by simp

end

text \<open>
  A vector is read until its length prefix is used up, so its elements must not be written as zero
  bytes. This is what \<open>tls_codec\<close> promises for vectors of such elements.
\<close>

locale nonempty_codec = tls_codec C ok for C :: "'a codec" and ok +
  assumes nonempty: "tls_serialize C x \<noteq> Ok []"

definition vec_lossless :: "('a codec \<Rightarrow> 'a list codec) \<Rightarrow> bool" where
  "vec_lossless vec \<longleftrightarrow> (\<forall>C ok. nonempty_codec C ok \<longrightarrow> tls_codec (vec C) (list_all ok))"

fun mutation_ok :: "('k \<Rightarrow> bool) \<Rightarrow> ('v \<Rightarrow> bool) \<Rightarrow> ('k, 'v) tls_map_mutation \<Rightarrow> bool" where
  "mutation_ok okK okV (MInsert k v) \<longleftrightarrow> okK k \<and> okV v"
| "mutation_ok okK okV (MUpdate k v) \<longleftrightarrow> okK k \<and> okV v"
| "mutation_ok okK okV (MDelete k) \<longleftrightarrow> okK k"

definition map_ok :: "('k::linorder \<Rightarrow> bool) \<Rightarrow> ('v \<Rightarrow> bool) \<Rightarrow> ('k, 'v) tls_map \<Rightarrow> bool" where
  "map_ok okK okV m \<longleftrightarrow> tm_wf m \<and> list_all (\<lambda>e. okK (e_key e) \<and> okV (e_value e)) (entries m)"

lemma keys_ascending_wf: "keys_ascending (entries m) \<longleftrightarrow> tm_wf m"
proof -
  have "keys_ascending es \<longleftrightarrow> sorted_wrt (<) (map e_key es)" for es :: "('a, 'b) tls_map_entry list"
  proof (induction es rule: keys_ascending.induct)
    case (1 l r es)
    then show ?case by (auto simp: not_le intro: less_trans)
  qed simp_all
  then show ?thesis by (simp add: tm_wf_def)
qed

locale tls_map_codecs = K: nonempty_codec K okK + V: tls_codec V okV
    for K :: "'k::linorder codec" and okK and V :: "'v codec" and okV +
  fixes vec_entry :: "('k, 'v) tls_map_entry codec \<Rightarrow> ('k, 'v) tls_map_entry list codec"
    and vec_mutation :: "('k, 'v) tls_map_mutation codec \<Rightarrow> ('k, 'v) tls_map_mutation list codec"
  assumes vec_entry: "vec_lossless vec_entry" and vec_mutation: "vec_lossless vec_mutation"
begin

lemma entry_codec: "nonempty_codec (TlsMapEntry_codec K V) (\<lambda>e. okK (e_key e) \<and> okV (e_value e))"
  by unfold_locales
    (auto simp: TlsMapEntry_codec_def rbind_eq_Ok K.read_back V.read_back K.sized V.sized K.nonempty)

lemma mutation_codec: "nonempty_codec (TlsMapMutation_codec K V) (mutation_ok okK okV)"
proof
  fix x bs rest assume ok: "mutation_ok okK okV x" and ser: "tls_serialize (TlsMapMutation_codec K V) x = Ok bs"
  show "tls_deserialize (TlsMapMutation_codec K V) (bs @ rest) = Ok (x, rest)"
    using ok ser by (cases x) (auto simp: TlsMapMutation_codec_def mutation_deserialize_def rbind_eq_Ok K.read_back V.read_back)
  show "length bs = tls_serialized_len (TlsMapMutation_codec K V) x"
    using ok ser by (cases x) (auto simp: TlsMapMutation_codec_def rbind_eq_Ok K.sized V.sized)
next
  fix x show "tls_serialize (TlsMapMutation_codec K V) x \<noteq> Ok []"
    by (cases x) (auto simp: TlsMapMutation_codec_def rbind_eq_Ok)
qed

lemma entries_codec: "tls_codec (vec_entry (TlsMapEntry_codec K V)) (list_all (\<lambda>e. okK (e_key e) \<and> okV (e_value e)))"
  using vec_entry entry_codec unfolding vec_lossless_def by blast

lemma mutations_codec: "tls_codec (vec_mutation (TlsMapMutation_codec K V)) (list_all (mutation_ok okK okV))"
  using vec_mutation mutation_codec unfolding vec_lossless_def by blast

lemma delta_codec: "tls_codec (TlsMapDelta_codec vec_mutation K V) (\<lambda>d. list_all (mutation_ok okK okV) (mutations d))"
  by unfold_locales (auto simp: TlsMapDelta_codec_def Let_def tls_codec.read_back [OF mutations_codec]
      tls_codec.sized [OF mutations_codec])

lemma map_codec: "tls_codec (TlsMap_codec vec_entry K V) (map_ok okK okV)"
  by unfold_locales (auto simp: TlsMap_codec_def Let_def map_ok_def keys_ascending_wf
      tls_codec.read_back [OF entries_codec] tls_codec.sized [OF entries_codec])

end

lemma TlsMap_reads_sorted: "tls_deserialize (TlsMap_codec vec K V) bs = Ok (m, rest) \<Longrightarrow> tm_wf m"
  unfolding keys_ascending_wf [symmetric]
  by (auto simp: TlsMap_codec_def Let_def rbind_eq_Ok split: if_splits)

end
