(* ===== verification/Tls_Set.thy ===== *)
theory Tls_Set
  imports Tls_Map "HOL-Library.List_Lexorder"
begin

text \<open>
  \<open>xmtp_mls_common/src/tls_set.rs\<close>: sets kept as sorted vectors, with atomic batches in which an
  element can also be named by the hash of its bytes; and \<open>inbox_id.rs\<close>: the versioned 32-byte inbox
  id that is the usual element.

  SHA-256, hexadecimal text, the QUIC variable-length integers and the vectors of \<open>tls_codec\<close> are
  arguments. The locale \<open>quic_vlen\<close> states what is relied on of the integers; it is interpreted on
  the encoding of RFC 9000, and the contracts of the codecs of this development are interpreted on
  that instance.
\<close>

section \<open>Hashes of keys\<close>

definition TlsKeyHash_of :: "(bytes \<Rightarrow> bytes) \<Rightarrow> 'k codec \<Rightarrow> 'k \<Rightarrow> (codec_error, bytes) result" where
  "TlsKeyHash_of sha256_array K key = rbind (tls_serialize K key) (\<lambda>bs. Ok (sha256_array bs))"

section \<open>The set\<close>

datatype tls_set_error = DuplicateHash | SetMap tls_map_error | SetCodec codec_error

record 'k tls_set =
  ts_inner :: "('k, unit) tls_map"

definition TlsSet_new :: "'k tls_set" where
  "TlsSet_new = \<lparr> ts_inner = TlsMap_new \<rparr>"

definition TlsSet_from_keys :: "'k::linorder list \<Rightarrow> 'k tls_set" where
  "TlsSet_from_keys ks = \<lparr> ts_inner = TlsMap_from_pairs (map (\<lambda>k. (k, ())) ks) \<rparr>"

definition TlsSet_insert :: "'k::linorder tls_set \<Rightarrow> 'k \<Rightarrow> (tls_set_error, unit) result \<times> 'k tls_set" where
  "TlsSet_insert s k = (case TlsMap_insert (ts_inner s) k () of (r, m) \<Rightarrow> (map_err SetMap r, s\<lparr> ts_inner := m \<rparr>))"

definition TlsSet_remove :: "'k::linorder tls_set \<Rightarrow> 'k \<Rightarrow> (tls_set_error, unit) result \<times> 'k tls_set" where
  "TlsSet_remove s k = (case TlsMap_remove (ts_inner s) k of (r, m) \<Rightarrow> (map_err SetMap r, s\<lparr> ts_inner := m \<rparr>))"

definition TlsSet_contains :: "'k::linorder tls_set \<Rightarrow> 'k \<Rightarrow> bool" where
  "TlsSet_contains s k = TlsMap_contains_key (ts_inner s) k"

definition TlsSet_len :: "'k tls_set \<Rightarrow> nat" where
  "TlsSet_len s = TlsMap_len (ts_inner s)"

definition TlsSet_is_empty :: "'k tls_set \<Rightarrow> bool" where
  "TlsSet_is_empty s \<longleftrightarrow> TlsMap_is_empty (ts_inner s)"

definition TlsSet_iter :: "'k tls_set \<Rightarrow> 'k list" where
  "TlsSet_iter s = TlsMap_keys (ts_inner s)"

section \<open>Batches of mutations\<close>

datatype 'k tls_set_mutation = SInsert 'k | SRemove 'k | SRemoveByHash bytes

record 'k tls_set_delta =
  set_mutations :: "'k tls_set_mutation list"

definition TlsSetDelta_new :: "'k tls_set_delta" where
  "TlsSetDelta_new = \<lparr> set_mutations = [] \<rparr>"

definition TlsSetDelta_insert :: "'k tls_set_delta \<Rightarrow> 'k \<Rightarrow> 'k tls_set_delta" where
  "TlsSetDelta_insert d k = d\<lparr> set_mutations := set_mutations d @ [SInsert k] \<rparr>"

definition TlsSetDelta_remove :: "'k tls_set_delta \<Rightarrow> 'k \<Rightarrow> 'k tls_set_delta" where
  "TlsSetDelta_remove d k = d\<lparr> set_mutations := set_mutations d @ [SRemove k] \<rparr>"

definition TlsSetDelta_remove_by_hash :: "'k tls_set_delta \<Rightarrow> bytes \<Rightarrow> 'k tls_set_delta" where
  "TlsSetDelta_remove_by_hash d h = d\<lparr> set_mutations := set_mutations d @ [SRemoveByHash h] \<rparr>"

fun is_by_hash :: "'k tls_set_mutation \<Rightarrow> bool" where
  "is_by_hash (SRemoveByHash _) = True"
| "is_by_hash _ = False"

fun build_hash_index ::
    "('k \<Rightarrow> (codec_error, bytes) result) \<Rightarrow> 'k list \<Rightarrow> (bytes \<times> 'k) list \<Rightarrow> (tls_set_error, (bytes \<times> 'k) list) result" where
  "build_hash_index h [] idx = Ok idx"
| "build_hash_index h (k # ks) idx =
     rbind (map_err SetCodec (h k)) (\<lambda>d.
     if map_of idx d \<noteq> None then Err DuplicateHash else build_hash_index h ks ((d, k) # idx))"

fun resolve_mutation :: "(bytes \<times> 'k) list \<Rightarrow> 'k tls_set_mutation \<Rightarrow> (tls_set_error, ('k, unit) tls_map_mutation) result" where
  "resolve_mutation idx (SInsert k) = Ok (MInsert k ())"
| "resolve_mutation idx (SRemove k) = Ok (MDelete k)"
| "resolve_mutation idx (SRemoveByHash t) = rbind (ok_or (map_of idx t) (SetMap KeyNotFound)) (\<lambda>k. Ok (MDelete k))"

definition TlsSet_apply_delta ::
    "('k \<Rightarrow> (codec_error, bytes) result) \<Rightarrow> 'k::linorder tls_set \<Rightarrow> 'k tls_set_delta \<Rightarrow>
     (tls_set_error, unit) result \<times> 'k tls_set" where
  "TlsSet_apply_delta h s d =
     (let has_hash_removal = list_ex is_by_hash (set_mutations d);
          hash_index = (if has_hash_removal then build_hash_index h (TlsMap_keys (ts_inner s)) [] else Ok [])
      in case rbind hash_index (\<lambda>idx. try_map (resolve_mutation idx) (set_mutations d)) of
           Err e \<Rightarrow> (Err e, s)
         | Ok resolved \<Rightarrow>
             (case TlsMap_apply_delta (ts_inner s) \<lparr> mutations = resolved \<rparr> of
                (r, m) \<Rightarrow> (map_err SetMap r, s\<lparr> ts_inner := m \<rparr>)))"

section \<open>Wire format of sets\<close>

definition unit_codec :: "unit codec" where
  "unit_codec = \<lparr> tls_serialize = (\<lambda>_. Ok []), tls_deserialize = (\<lambda>bs. Ok ((), bs)), tls_serialized_len = (\<lambda>_. 0) \<rparr>"

definition TlsSet_codec ::
    "(('k, unit) tls_map_entry codec \<Rightarrow> ('k, unit) tls_map_entry list codec) \<Rightarrow> 'k::linorder codec \<Rightarrow> 'k tls_set codec" where
  "TlsSet_codec vec K =
     (let M = TlsMap_codec vec K unit_codec in
      \<lparr> tls_serialize = (\<lambda>s. tls_serialize M (ts_inner s)),
        tls_deserialize = (\<lambda>bs. rbind (tls_deserialize M bs) (\<lambda>(m, rest). Ok (\<lparr> ts_inner = m \<rparr>, rest))),
        tls_serialized_len = (\<lambda>s. tls_serialized_len M (ts_inner s)) \<rparr>)"

text \<open>A hash is written as its 32 bytes, without a length.\<close>

fun set_mutation_serialize :: "'k codec \<Rightarrow> 'k tls_set_mutation \<Rightarrow> (codec_error, bytes) result" where
  "set_mutation_serialize K (SInsert k) = rbind (tls_serialize K k) (\<lambda>kb. Ok (0 # kb))"
| "set_mutation_serialize K (SRemove k) = rbind (tls_serialize K k) (\<lambda>kb. Ok (1 # kb))"
| "set_mutation_serialize K (SRemoveByHash h) = Ok (2 # h)"

definition set_mutation_deserialize :: "'k codec \<Rightarrow> bytes \<Rightarrow> (codec_error, 'k tls_set_mutation \<times> bytes) result" where
  "set_mutation_deserialize K bs =
     (case bs of
        [] \<Rightarrow> Err CodecError
      | tag # bs1 \<Rightarrow>
          if tag = 0 then rbind (tls_deserialize K bs1) (\<lambda>(k, bs2). Ok (SInsert k, bs2))
          else if tag = 1 then rbind (tls_deserialize K bs1) (\<lambda>(k, bs2). Ok (SRemove k, bs2))
          else if tag = 2 then
            (if length bs1 < 32 then Err (DecodingError ''read_exact'') else Ok (SRemoveByHash (take 32 bs1), drop 32 bs1))
          else Err (DecodingError ''unknown TlsSetMutation tag''))"

fun set_mutation_len :: "'k codec \<Rightarrow> 'k tls_set_mutation \<Rightarrow> nat" where
  "set_mutation_len K (SInsert k) = 1 + tls_serialized_len K k"
| "set_mutation_len K (SRemove k) = 1 + tls_serialized_len K k"
| "set_mutation_len K (SRemoveByHash _) = 1 + 32"

definition TlsSetMutation_codec :: "'k codec \<Rightarrow> 'k tls_set_mutation codec" where
  "TlsSetMutation_codec K =
     \<lparr> tls_serialize = set_mutation_serialize K, tls_deserialize = set_mutation_deserialize K,
       tls_serialized_len = set_mutation_len K \<rparr>"

definition TlsSetDelta_codec ::
    "('k tls_set_mutation codec \<Rightarrow> 'k tls_set_mutation list codec) \<Rightarrow> 'k codec \<Rightarrow> 'k tls_set_delta codec" where
  "TlsSetDelta_codec vec K =
     (let M = vec (TlsSetMutation_codec K) in
      \<lparr> tls_serialize = (\<lambda>d. tls_serialize M (set_mutations d)),
        tls_deserialize = (\<lambda>bs. rbind (tls_deserialize M bs) (\<lambda>(ms, rest). Ok (\<lparr> set_mutations = ms \<rparr>, rest))),
        tls_serialized_len = (\<lambda>d. tls_serialized_len M (set_mutations d)) \<rparr>)"

section \<open>Inbox ids\<close>

definition INBOX_ID_BYTE_LEN :: nat where "INBOX_ID_BYTE_LEN = 32"
definition INBOX_ID_VERSION :: nat where "INBOX_ID_VERSION = 0"

text \<open>The array of 32 bytes is a list of bytes; \<open>inbox_id_ok\<close> is its type.\<close>

datatype inbox_id = InboxId (InboxId_as_bytes: bytes)

definition inbox_id_ok :: "inbox_id \<Rightarrow> bool" where
  "inbox_id_ok i \<longleftrightarrow> length (InboxId_as_bytes i) = INBOX_ID_BYTE_LEN"

instantiation inbox_id :: linorder
begin

definition less_eq_inbox_id :: "inbox_id \<Rightarrow> inbox_id \<Rightarrow> bool" where
  "i \<le> j \<longleftrightarrow> InboxId_as_bytes i \<le> InboxId_as_bytes j"

definition less_inbox_id :: "inbox_id \<Rightarrow> inbox_id \<Rightarrow> bool" where
  "i < j \<longleftrightarrow> InboxId_as_bytes i < InboxId_as_bytes j"

instance
  by standard (auto simp: less_eq_inbox_id_def less_inbox_id_def inbox_id.expand)

end

datatype inbox_id_error = InvalidHex | InboxIdLength nat nat

definition InboxId_from_hex :: "(string \<Rightarrow> bytes option) \<Rightarrow> string \<Rightarrow> (inbox_id_error, inbox_id) result" where
  "InboxId_from_hex hex_dec s =
     rbind (ok_or (hex_dec s) InvalidHex) (\<lambda>raw.
     if length raw = INBOX_ID_BYTE_LEN then Ok (InboxId raw) else Err (InboxIdLength INBOX_ID_BYTE_LEN (length raw)))"

definition InboxId_to_hex :: "(bytes \<Rightarrow> string) \<Rightarrow> inbox_id \<Rightarrow> string" where
  "InboxId_to_hex hex_enc i = hex_enc (InboxId_as_bytes i)"

text \<open>Reading gives the value, the number of bytes it took, and the unread bytes.\<close>

record vlen =
  write_length :: "nat \<Rightarrow> (codec_error, bytes) result"
  read_length :: "bytes \<Rightarrow> (codec_error, nat \<times> nat \<times> bytes) result"

definition InboxId_codec :: "vlen \<Rightarrow> inbox_id codec" where
  "InboxId_codec W =
     \<lparr> tls_serialize = (\<lambda>i. rbind (write_length W INBOX_ID_VERSION) (\<lambda>v. Ok (v @ InboxId_as_bytes i))),
       tls_deserialize = (\<lambda>bs.
         rbind (read_length W bs) (\<lambda>(version, consumed, bs1).
         if consumed \<noteq> 1 \<or> version \<noteq> INBOX_ID_VERSION then Err (DecodingError ''unsupported InboxId version'')
         else if length bs1 < INBOX_ID_BYTE_LEN then Err (DecodingError ''read_exact'')
         else Ok (InboxId (take INBOX_ID_BYTE_LEN bs1), drop INBOX_ID_BYTE_LEN bs1))),
       tls_serialized_len = (\<lambda>_. 1 + INBOX_ID_BYTE_LEN) \<rparr>"

section \<open>Batches on sets are atomic\<close>

definition ts_wf :: "'k::linorder tls_set \<Rightarrow> bool" where
  "ts_wf s \<longleftrightarrow> tm_wf (ts_inner s)"

definition ts_set :: "'k tls_set \<Rightarrow> 'k set" where
  "ts_set s = dom (tm_map (ts_inner s))"

lemma ts_set_keys: "ts_set s = set (TlsMap_keys (ts_inner s))"
  by (force simp: ts_set_def tm_map_def TlsMap_iter_def TlsMap_keys_def dom_map_of_conv_image_fst)

lemma TlsSet_laws [tls_map_laws]:
  assumes "ts_wf s"
  shows "TlsSet_contains s k \<longleftrightarrow> k \<in> ts_set s"
    and "fst (TlsSet_insert s k) = (if k \<in> ts_set s then Err (SetMap KeyExists) else Ok ())"
    and "ts_wf (snd (TlsSet_insert s k))" and "ts_set (snd (TlsSet_insert s k)) = insert k (ts_set s)"
    and "is_ok (fst (TlsSet_remove s k)) \<longleftrightarrow> k \<in> ts_set s"
    and "ts_wf (snd (TlsSet_remove s k))" and "ts_set (snd (TlsSet_remove s k)) = ts_set s - {k}"
proof -
  have wf: "tm_wf (ts_inner s)" using assms by (simp add: ts_wf_def)
  note ins = TlsMap_insert_laws [OF wf, of k "()"] and rem = TlsMap_remove_laws [OF wf, of k]
  show "TlsSet_contains s k \<longleftrightarrow> k \<in> ts_set s"
    by (simp add: TlsSet_contains_def TlsMap_contains_laws [OF wf] ts_set_def)
  show "fst (TlsSet_insert s k) = (if k \<in> ts_set s then Err (SetMap KeyExists) else Ok ())"
    "ts_wf (snd (TlsSet_insert s k))" "ts_set (snd (TlsSet_insert s k)) = insert k (ts_set s)"
    using ins by (auto simp: TlsSet_insert_def ts_wf_def ts_set_def case_prod_beta dom_def split: if_splits)
  show "is_ok (fst (TlsSet_remove s k)) \<longleftrightarrow> k \<in> ts_set s"
    "ts_wf (snd (TlsSet_remove s k))" "ts_set (snd (TlsSet_remove s k)) = ts_set s - {k}"
    using rem by (auto simp: TlsSet_remove_def ts_wf_def ts_set_def case_prod_beta dom_def is_ok_iff ok_or_def
        split: option.splits if_splits)
qed

text \<open>The index holds every key under its hash, and no two keys share one.\<close>

lemma build_hash_index_spec:
  assumes "build_hash_index h ks idx = Ok idx'" and "distinct (map fst idx)"
  shows "distinct (map fst idx') \<and> set idx' = set idx \<union> {(d, k). k \<in> set ks \<and> h k = Ok d}"
  using assms
proof (induction ks arbitrary: idx)
  case Nil
  then show ?case by simp
next
  case (Cons k ks)
  obtain d where hk: "h k = Ok d" using Cons.prems(1) by (cases "h k") auto
  have d: "map_of idx d = None" "build_hash_index h ks ((d, k) # idx) = Ok idx'"
    using Cons.prems(1) hk by (simp_all split: if_splits)
  have "distinct (map fst ((d, k) # idx))" using d(1) Cons.prems(2) by (auto simp: map_of_eq_None_iff)
  from Cons.IH [OF d(2) this] hk show ?case by auto
qed

text \<open>What a mutation means for a set: a hash names the one element that has it.\<close>

fun resolves :: "('k \<Rightarrow> (codec_error, bytes) result) \<Rightarrow> 'k set \<Rightarrow> 'k tls_set_mutation \<Rightarrow> ('k, unit) tls_map_mutation \<Rightarrow> bool" where
  "resolves h S (SInsert k) r \<longleftrightarrow> r = MInsert k ()"
| "resolves h S (SRemove k) r \<longleftrightarrow> r = MDelete k"
| "resolves h S (SRemoveByHash t) r \<longleftrightarrow> (\<exists>k. r = MDelete k \<and> {k'. k' \<in> S \<and> h k' = Ok t} = {k})"

lemma resolve_mutation_resolves:
  assumes "distinct (map fst idx)" and "set idx = {(d, k). k \<in> S \<and> h k = Ok d}" and "resolve_mutation idx m = Ok r"
  shows "resolves h S m r"
proof (cases m)
  case (SRemoveByHash t)
  then obtain k where k: "map_of idx t = Some k" "r = MDelete k" using assms(3) by (auto simp: rbind_eq_Ok)
  have "k' = k" if "k' \<in> S" "h k' = Ok t" for k'
  proof -
    have "(t, k') \<in> set idx" using that assms(2) by blast
    then show ?thesis using assms(1) k(1) by simp
  qed
  moreover have "(t, k) \<in> set idx" using k(1) by (rule map_of_SomeD)
  ultimately show ?thesis using k(2) assms(2) SRemoveByHash by auto
qed (use assms(3) in auto)

lemma resolve_without_hash:
  "\<not> is_by_hash m \<Longrightarrow> resolve_mutation idx m = Ok r \<Longrightarrow> resolves h S m r"
  by (cases m) auto

lemma set_delta_batch:
  assumes "ts_wf s"
  shows "case TlsSet_apply_delta h s d of
      (Ok _, s') \<Rightarrow> ts_wf s' \<and> (\<exists>ms. list_all2 (resolves h (ts_set s)) (set_mutations d) ms \<and>
        mutate_all ms (tm_map (ts_inner s)) = Ok (tm_map (ts_inner s')))
    | (Err e, s') \<Rightarrow> s' = s"
proof -
  define idx where "idx = (if list_ex is_by_hash (set_mutations d) then build_hash_index h (TlsMap_keys (ts_inner s)) [] else Ok [])"
  show ?thesis
  proof (cases "rbind idx (\<lambda>i. try_map (resolve_mutation i) (set_mutations d))")
    case (Inl e)
    then show ?thesis by (simp add: TlsSet_apply_delta_def idx_def [symmetric] Let_def)
  next
    case (Inr ms)
    then obtain i where i: "idx = Ok i" "try_map (resolve_mutation i) (set_mutations d) = Ok ms" by (auto simp: rbind_eq_Ok)
    have "list_all2 (resolves h (ts_set s)) (set_mutations d) ms"
    proof (cases "list_ex is_by_hash (set_mutations d)")
      case True
      then have "distinct (map fst i) \<and> set i = {(d, k). k \<in> ts_set s \<and> h k = Ok d}"
        using build_hash_index_spec [of h "TlsMap_keys (ts_inner s)" "[]" i] i(1) by (simp add: idx_def ts_set_keys)
      then show ?thesis using i(2) resolve_mutation_resolves [of i "ts_set s" h]
        by (auto simp: try_map_Ok_iff elim: list_all2_mono)
    next
      case False
      then have "\<not> is_by_hash m" if "m \<in> set (set_mutations d)" for m using that by (auto simp: list_ex_iff)
      then show ?thesis using i(2) resolve_without_hash [of _ i _ h "ts_set s"]
        unfolding try_map_Ok_iff by (auto simp: list_all2_conv_all_nth)
    qed
    moreover obtain r m where out: "TlsMap_apply_delta (ts_inner s) \<lparr> mutations = ms \<rparr> = (r, m)" by fastforce
    moreover note map_delta_batch [of "ts_inner s" "\<lparr> mutations = ms \<rparr>"]
    ultimately show ?thesis
      using assms Inr by (cases r) (auto simp: TlsSet_apply_delta_def idx_def [symmetric] Let_def ts_wf_def)
  qed
qed

text \<open>
  A batch of mutations on a sorted set is atomic, also when elements are named by the
  hash of their bytes: if it succeeds, every hash named exactly one element of the set as it was
  before the batch, and the new set is what inserting and removing in order gives; if it fails, for
  whatever reason, the set is unchanged.
\<close>

theorem set_delta_atomic:
  assumes "ts_wf s"
  shows "case TlsSet_apply_delta h s d of
      (Ok _, s') \<Rightarrow> ts_wf s' \<and> (\<exists>ms. list_all2 (resolves h (ts_set s)) (set_mutations d) ms \<and>
        mutate_all ms (tm_map (ts_inner s)) = Ok (tm_map (ts_inner s')))
    | (Err e, s') \<Rightarrow> s' = s"
  by (rule set_delta_batch) (rule assms)

section \<open>Codecs of sets and inbox ids\<close>

fun set_mutation_ok :: "('k \<Rightarrow> bool) \<Rightarrow> 'k tls_set_mutation \<Rightarrow> bool" where
  "set_mutation_ok okK (SInsert k) \<longleftrightarrow> okK k"
| "set_mutation_ok okK (SRemove k) \<longleftrightarrow> okK k"
| "set_mutation_ok okK (SRemoveByHash h) \<longleftrightarrow> length h = 32"

definition set_ok :: "('k::linorder \<Rightarrow> bool) \<Rightarrow> 'k tls_set \<Rightarrow> bool" where
  "set_ok okK s \<longleftrightarrow> map_ok okK (\<lambda>_. True) (ts_inner s)"

interpretation unit: tls_codec unit_codec "\<lambda>_. True"
  by unfold_locales (simp_all add: unit_codec_def)

locale tls_set_codecs = K: nonempty_codec K okK
    for K :: "'k::linorder codec" and okK +
  fixes vec_entry :: "('k, unit) tls_map_entry codec \<Rightarrow> ('k, unit) tls_map_entry list codec"
    and vec_map_mutation :: "('k, unit) tls_map_mutation codec \<Rightarrow> ('k, unit) tls_map_mutation list codec"
    and vec_mutation :: "'k tls_set_mutation codec \<Rightarrow> 'k tls_set_mutation list codec"
  assumes vec_entry: "vec_lossless vec_entry" and vec_map_mutation: "vec_lossless vec_map_mutation"
    and vec_mutation: "vec_lossless vec_mutation"

sublocale tls_set_codecs \<subseteq> M: tls_map_codecs K okK unit_codec "\<lambda>_. True" vec_entry vec_map_mutation
  by unfold_locales (rule vec_entry vec_map_mutation)+

context tls_set_codecs
begin

lemma set_codec: "tls_codec (TlsSet_codec vec_entry K) (set_ok okK)"
  by unfold_locales (auto simp: TlsSet_codec_def Let_def set_ok_def
      tls_codec.read_back [OF M.map_codec] tls_codec.sized [OF M.map_codec])

lemma set_mutation_codec: "nonempty_codec (TlsSetMutation_codec K) (set_mutation_ok okK)"
proof
  fix x bs rest assume ok: "set_mutation_ok okK x" and ser: "tls_serialize (TlsSetMutation_codec K) x = Ok bs"
  show "tls_deserialize (TlsSetMutation_codec K) (bs @ rest) = Ok (x, rest)"
    using ok ser by (cases x) (auto simp: TlsSetMutation_codec_def set_mutation_deserialize_def rbind_eq_Ok K.read_back)
  show "length bs = tls_serialized_len (TlsSetMutation_codec K) x"
    using ok ser by (cases x) (auto simp: TlsSetMutation_codec_def rbind_eq_Ok K.sized)
next
  fix x show "tls_serialize (TlsSetMutation_codec K) x \<noteq> Ok []"
    by (cases x) (auto simp: TlsSetMutation_codec_def rbind_eq_Ok)
qed

lemma set_delta_codec:
  "tls_codec (TlsSetDelta_codec vec_mutation K) (\<lambda>d. list_all (set_mutation_ok okK) (set_mutations d))"
proof -
  have ms: "tls_codec (vec_mutation (TlsSetMutation_codec K)) (list_all (set_mutation_ok okK))"
    using vec_mutation set_mutation_codec unfolding vec_lossless_def by blast
  show ?thesis
    by unfold_locales (auto simp: TlsSetDelta_codec_def Let_def tls_codec.read_back [OF ms] tls_codec.sized [OF ms])
qed

end

locale quic_vlen =
  fixes W :: vlen
  assumes vlen_read_back: "write_length W n = Ok bs \<Longrightarrow> read_length W (bs @ rest) = Ok (n, length bs, rest)"
    and vlen_nonempty: "write_length W n \<noteq> Ok []"
    and vlen_small: "n < 64 \<Longrightarrow> write_length W n = Ok [word_of_nat n]"

sublocale quic_vlen \<subseteq> inbox: nonempty_codec "InboxId_codec W" inbox_id_ok
proof
  have zero: "write_length W INBOX_ID_VERSION = Ok [0]" using vlen_small [of 0] by (simp add: INBOX_ID_VERSION_def)
  have again: "read_length W (0 # r) = Ok (INBOX_ID_VERSION, 1, r)" for r
    using vlen_read_back [OF zero, of r] by simp
  fix x bs rest assume ok: "inbox_id_ok x" and ser: "tls_serialize (InboxId_codec W) x = Ok bs"
  show "tls_deserialize (InboxId_codec W) (bs @ rest) = Ok (x, rest)"
    "length bs = tls_serialized_len (InboxId_codec W) x"
    using ok ser again by (auto simp: InboxId_codec_def zero inbox_id_ok_def)
next
  fix x show "tls_serialize (InboxId_codec W) x \<noteq> Ok []"
    using vlen_nonempty [of INBOX_ID_VERSION] by (auto simp: InboxId_codec_def rbind_eq_Ok)
qed

section \<open>An instance: RFC 9000 integers\<close>

text \<open>Values up to 30 bits in one, two or four bytes, the length in the top two bits of the first.\<close>

definition rfc9000_write :: "nat \<Rightarrow> (codec_error, bytes) result" where
  "rfc9000_write n =
     (if n < 64 then Ok [word_of_nat n]
      else if n < 2 ^ 14 then Ok [word_of_nat (64 + n div 256), word_of_nat (n mod 256)]
      else if n < 2 ^ 30 then
        Ok [word_of_nat (128 + n div 2 ^ 24), word_of_nat (n div 2 ^ 16 mod 256),
            word_of_nat (n div 256 mod 256), word_of_nat (n mod 256)]
      else Err CodecError)"

fun rfc9000_read :: "bytes \<Rightarrow> (codec_error, nat \<times> nat \<times> bytes) result" where
  "rfc9000_read [] = Err CodecError"
| "rfc9000_read (b # bs) =
     (let v = unat b mod 64 in
      if unat b div 64 = 0 then Ok (v, 1, bs)
      else if unat b div 64 = 1 then
        (case bs of c # cs \<Rightarrow> Ok (v * 256 + unat c, 2, cs) | _ \<Rightarrow> Err CodecError)
      else if unat b div 64 = 2 then
        (case bs of c # d # e # cs \<Rightarrow> Ok (v * 2 ^ 24 + unat c * 2 ^ 16 + unat d * 256 + unat e, 4, cs) | _ \<Rightarrow> Err CodecError)
      else Err CodecError)"

definition rfc9000 :: vlen where
  "rfc9000 = \<lparr> write_length = rfc9000_write, read_length = rfc9000_read \<rparr>"

lemma unat_byte: "n < 256 \<Longrightarrow> unat (word_of_nat n :: u8) = n"
  by (simp add: unat_of_nat take_bit_nat_eq_self)

lemma base256:
  "x = a * 256 + m2 \<Longrightarrow> y = x * 256 + m1 \<Longrightarrow> n = y * 256 + m0 \<Longrightarrow>
   a * 2 ^ 24 + m2 * 2 ^ 16 + m1 * 256 + m0 = (n :: nat)"
  by simp

interpretation rfc: quic_vlen rfc9000
proof
  fix n bs rest assume w: "write_length rfc9000 n = Ok bs"
  consider "n < 64" | "64 \<le> n" "n < 2 ^ 14" | "2 ^ 14 \<le> n" "n < 2 ^ 30"
    using w by (auto simp: rfc9000_def rfc9000_write_def split: if_splits)
  then show "read_length rfc9000 (bs @ rest) = Ok (n, length bs, rest)"
  proof cases
    case 1
    with w show ?thesis by (auto simp: rfc9000_def rfc9000_write_def unat_byte)
  next
    case 2
    then have "(64 + n div 256) div 64 = 1" "(64 + n div 256) mod 64 = n div 256" "64 + n div 256 < 256" by auto
    moreover define b :: u8 where "b = word_of_nat (64 + n div 256)"
    ultimately have "unat b div 64 = 1" "unat b mod 64 = n div 256" by (simp_all only: b_def unat_byte)
    moreover have "bs = [b, word_of_nat (n mod 256)]"
      using w 2 unfolding b_def rfc9000_def rfc9000_write_def by (simp del: of_nat_add)
    ultimately show ?thesis by (simp add: rfc9000_def unat_byte)
  next
    case 3
    then have small: "n div 2 ^ 24 < 64" by (simp add: div_less_iff_less_mult)
    have "(128 + q) div 64 = 2 \<and> (128 + q) mod 64 = q \<and> 128 + q < 256" if "q < 64" for q :: nat
    proof -
      have "128 + q = 2 * 64 + q" by simp
      moreover have "(2 * 64 + q) div 64 = 2 + q div 64" "(2 * 64 + q) mod 64 = q mod 64"
        by (simp_all only: div_mult_self3 mod_mult_self3 zero_neq_numeral not_False_eq_True)
      ultimately show ?thesis using that by (simp only: div_less mod_less) simp
    qed
    from this [OF small] have top: "(128 + n div 2 ^ 24) div 64 = 2" "(128 + n div 2 ^ 24) mod 64 = n div 2 ^ 24" "128 + n div 2 ^ 24 < 256"
      by blast+
    have "n div 2 ^ 24 * 2 ^ 24 + n div 2 ^ 16 mod 256 * 2 ^ 16 + n div 256 mod 256 * 256 + n mod 256 = n"
    proof -
      have "n div 2 ^ 16 = n div 2 ^ 24 * 256 + n div 2 ^ 16 mod 256"
        using div_mult_mod_eq [of "n div 2 ^ 16" 256] by (simp add: div_mult2_eq [symmetric])
      moreover have "n div 256 = n div 2 ^ 16 * 256 + n div 256 mod 256"
        using div_mult_mod_eq [of "n div 256" 256] by (simp add: div_mult2_eq [symmetric])
      moreover have "n = n div 256 * 256 + n mod 256" by simp
      ultimately show ?thesis by (rule base256)
    qed
    moreover define b :: u8 where "b = word_of_nat (128 + n div 2 ^ 24)"
    moreover have "unat b div 64 = 2" "unat b mod 64 = n div 2 ^ 24"
      using top by (simp_all only: b_def unat_byte)
    moreover have "bs = [b, word_of_nat (n div 2 ^ 16 mod 256), word_of_nat (n div 256 mod 256), word_of_nat (n mod 256)]"
      using w 3 unfolding b_def rfc9000_def rfc9000_write_def by (simp del: of_nat_add)
    ultimately show ?thesis by (simp add: rfc9000_def unat_byte)
  qed
next
  fix n show "write_length rfc9000 n \<noteq> Ok []" by (simp add: rfc9000_def rfc9000_write_def)
next
  fix n :: nat assume "n < 64" then show "write_length rfc9000 n = Ok [word_of_nat n]"
    by (simp add: rfc9000_def rfc9000_write_def)
qed

text \<open>Vectors with the number of their bytes in front.\<close>

fun read_all :: "'a codec \<Rightarrow> nat \<Rightarrow> bytes \<Rightarrow> (codec_error, 'a list) result" where
  "read_all C fuel [] = Ok []"
| "read_all C 0 bs = Err CodecError"
| "read_all C (Suc fuel) bs =
     rbind (tls_deserialize C bs) (\<lambda>(x, rest). rbind (read_all C fuel rest) (\<lambda>xs. Ok (x # xs)))"

definition quic_vec :: "vlen \<Rightarrow> 'a codec \<Rightarrow> 'a list codec" where
  "quic_vec W C =
     \<lparr> tls_serialize = (\<lambda>xs. rbind (try_map (tls_serialize C) xs) (\<lambda>bss.
         rbind (write_length W (length (concat bss))) (\<lambda>l. Ok (l @ concat bss)))),
       tls_deserialize = (\<lambda>bs. rbind (read_length W bs) (\<lambda>(n, _, bs1).
         if length bs1 < n then Err CodecError
         else rbind (read_all C n (take n bs1)) (\<lambda>xs. Ok (xs, drop n bs1)))),
       tls_serialized_len = (\<lambda>xs. let n = sum_list (map (tls_serialized_len C) xs) in
         n + (case write_length W n of Ok l \<Rightarrow> length l | Err _ \<Rightarrow> 0)) \<rparr>"

definition vl_bytes :: "vlen \<Rightarrow> bytes codec" where
  "vl_bytes W =
     \<lparr> tls_serialize = (\<lambda>b. rbind (write_length W (length b)) (\<lambda>l. Ok (l @ b))),
       tls_deserialize = (\<lambda>bs. rbind (read_length W bs) (\<lambda>(n, _, bs1).
         if length bs1 < n then Err CodecError else Ok (take n bs1, drop n bs1))),
       tls_serialized_len = (\<lambda>b. length b + (case write_length W (length b) of Ok l \<Rightarrow> length l | Err _ \<Rightarrow> 0)) \<rparr>"

context quic_vlen
begin

lemma read_all_back:
  assumes "nonempty_codec C ok" "list_all2 (\<lambda>x b. tls_serialize C x = Ok b) xs bss" "list_all ok xs"
    "length (concat bss) \<le> fuel"
  shows "read_all C fuel (concat bss) = Ok xs"
  using assms(2-4)
proof (induction xs bss arbitrary: fuel rule: list_all2_induct)
  case Nil
  then show ?case by simp
next
  case (Cons x xs b bss)
  have b: "b \<noteq> []" "tls_deserialize C (b @ concat bss) = Ok (x, concat bss)"
    using nonempty_codec.nonempty [OF assms(1), of x] Cons tls_codec.read_back [OF nonempty_codec.axioms(1) [OF assms(1)]]
    by auto
  then obtain a b' f where f: "b = a # b'" "fuel = Suc f" "length (concat bss) \<le> f"
    using Cons.prems(2) by (cases b; cases fuel) auto
  have "read_all C f (concat bss) = Ok xs" using Cons.IH [of f] Cons.prems(1) f(3) by simp
  with b(2) f show ?case by simp
qed

lemma vec_sized:
  assumes "tls_codec C ok" "list_all2 (\<lambda>x b. tls_serialize C x = Ok b) xs bss" "list_all ok xs"
  shows "length (concat bss) = sum_list (map (tls_serialized_len C) xs)"
  using assms(2,3) by (induction xs bss rule: list_all2_induct) (auto simp: tls_codec.sized [OF assms(1)])

lemma quic_vec_lossless: "vec_lossless (quic_vec W)"
  unfolding vec_lossless_def
proof (intro allI impI)
  fix C :: "'a codec" and ok assume ne: "nonempty_codec C ok"
  have c: "tls_codec C ok" by (rule nonempty_codec.axioms(1) [OF ne])
  show "tls_codec (quic_vec W C) (list_all ok)"
  proof
    fix xs bs rest assume ok: "list_all ok xs" and ser: "tls_serialize (quic_vec W C) xs = Ok bs"
    then obtain bss l where w: "list_all2 (\<lambda>x b. tls_serialize C x = Ok b) xs bss"
        "write_length W (length (concat bss)) = Ok l" "bs = l @ concat bss"
      by (auto simp: quic_vec_def rbind_eq_Ok try_map_Ok_iff)
    show "tls_deserialize (quic_vec W C) (bs @ rest) = Ok (xs, rest)"
      using vlen_read_back [OF w(2), of "concat bss @ rest"] read_all_back [OF ne w(1) ok order_refl]
      by (simp add: quic_vec_def w(3))
    show "length bs = tls_serialized_len (quic_vec W C) xs"
      using w(2) vec_sized [OF c w(1) ok] by (simp add: quic_vec_def w(3) Let_def)
  qed
qed

lemma vl_bytes_codec: "nonempty_codec (vl_bytes W) (\<lambda>_. True)"
proof
  fix x bs rest assume "tls_serialize (vl_bytes W) x = Ok bs"
  then obtain l where l: "write_length W (length x) = Ok l" "bs = l @ x" by (auto simp: vl_bytes_def rbind_eq_Ok)
  show "tls_deserialize (vl_bytes W) (bs @ rest) = Ok (x, rest)"
    using vlen_read_back [OF l(1), of "x @ rest"] by (simp add: vl_bytes_def l(2))
  show "length bs = tls_serialized_len (vl_bytes W) x" by (simp add: vl_bytes_def l)
next
  fix x show "tls_serialize (vl_bytes W) x \<noteq> Ok []"
    using vlen_nonempty [of "length x"] by (auto simp: vl_bytes_def rbind_eq_Ok)
qed

end

interpretation inbox_set: tls_set_codecs "InboxId_codec rfc9000" inbox_id_ok "quic_vec rfc9000" "quic_vec rfc9000" "quic_vec rfc9000"
  by unfold_locales (rule rfc.quic_vec_lossless)+

interpretation bytes: nonempty_codec "vl_bytes rfc9000" "\<lambda>_. True"
  by (rule rfc.vl_bytes_codec)

interpretation inbox_map: tls_map_codecs "InboxId_codec rfc9000" inbox_id_ok "vl_bytes rfc9000" "\<lambda>_. True"
    "quic_vec rfc9000" "quic_vec rfc9000"
  by unfold_locales (rule rfc.quic_vec_lossless)+

text \<open>
  Property C23. The wire format of maps and of batches is lossless, with exactly the announced number
  of bytes; maps with the same contents are written as the same bytes, whatever operations built
  them; and whatever bytes are read as a map, its keys are strictly ascending.
\<close>

theorem map_wire_roundtrip:
  assumes "nonempty_codec K okK" and "tls_codec V okV" and "vec_lossless vec" and "vec_lossless vec'"
  shows "(map_ok okK okV m \<and> tls_serialize (TlsMap_codec vec K V) m = Ok bs \<longrightarrow>
      tls_deserialize_exact (TlsMap_codec vec K V) bs = Ok m \<and> length bs = tls_serialized_len (TlsMap_codec vec K V) m) \<and>
    (list_all (mutation_ok okK okV) (mutations d) \<and> tls_serialize (TlsMapDelta_codec vec' K V) d = Ok bs \<longrightarrow>
      tls_deserialize_exact (TlsMapDelta_codec vec' K V) bs = Ok d) \<and>
    (tm_wf m \<and> tm_wf m' \<and> tm_map m = tm_map m' \<longrightarrow>
      tls_serialize (TlsMap_codec vec K V) m = tls_serialize (TlsMap_codec vec K V) m') \<and>
    (tls_deserialize_exact (TlsMap_codec vec K V) bs = Ok m \<longrightarrow> tm_wf m)"
proof -
  have codecs: "tls_map_codecs K okK V okV vec vec'"
    using assms by (simp add: tls_map_codecs_def tls_map_codecs_axioms_def)
  note map = tls_map_codecs.map_codec [OF codecs] and delta = tls_map_codecs.delta_codec [OF codecs]
  have "tm_wf m" if "tls_deserialize_exact (TlsMap_codec vec K V) bs = Ok m"
    using that TlsMap_reads_sorted [of vec K V bs m] by (auto simp: tls_deserialize_exact_def rbind_eq_Ok split: if_splits)
  then show ?thesis
    using tls_codec.read_exact [OF map] tls_codec.sized [OF map] tls_codec.read_exact [OF delta] tm_ext [of m m'] by blast
qed

definition demo_members :: "(inbox_id, bytes) tls_map" where
  "demo_members = TlsMap_from_pairs [(InboxId (replicate 32 5), [1, 2]), (InboxId (replicate 32 3), [])]"

theorem map_wire_roundtrip_witness:
  "\<exists>bs. tls_serialize (TlsMap_codec (quic_vec rfc9000) (InboxId_codec rfc9000) (vl_bytes rfc9000)) demo_members = Ok bs \<and>
     tls_deserialize_exact (TlsMap_codec (quic_vec rfc9000) (InboxId_codec rfc9000) (vl_bytes rfc9000)) bs = Ok demo_members"
proof -
  let ?C = "TlsMap_codec (quic_vec rfc9000) (InboxId_codec rfc9000) (vl_bytes rfc9000)"
  have "map_ok inbox_id_ok (\<lambda>_. True) demo_members" by code_simp
  moreover have "is_ok (tls_serialize ?C demo_members)" by code_simp
  then obtain bs where "tls_serialize ?C demo_members = Ok bs" by (auto simp: is_ok_iff)
  ultimately show ?thesis
    using map_wire_roundtrip [OF rfc.inbox.nonempty_codec_axioms bytes.tls_codec_axioms rfc.quic_vec_lossless
        rfc.quic_vec_lossless, of demo_members bs] by blast
qed

definition demo_set :: "inbox_id tls_set" where
  "demo_set = TlsSet_from_keys [InboxId (replicate 32 5), InboxId (replicate 32 3)]"

theorem set_delta_atomic_witness:
  "fst (TlsSet_apply_delta (TlsKeyHash_of (take 2) (InboxId_codec rfc9000)) demo_set
     \<lparr> set_mutations = [SRemoveByHash [0, 3], SInsert (InboxId (replicate 32 4))] \<rparr>) = Ok () \<and>
   snd (TlsSet_apply_delta (TlsKeyHash_of (take 2) (InboxId_codec rfc9000)) demo_set
     \<lparr> set_mutations = [SInsert (InboxId (replicate 32 4)), SRemoveByHash [0, 4]] \<rparr>) = demo_set"
proof
  let ?h = "TlsKeyHash_of (take 2) (InboxId_codec rfc9000)"
  let ?d = "\<lparr> set_mutations = [SInsert (InboxId (replicate 32 4)), SRemoveByHash [0, 4]] \<rparr>"
  show "fst (TlsSet_apply_delta ?h demo_set
     \<lparr> set_mutations = [SRemoveByHash [0, 3], SInsert (InboxId (replicate 32 4))] \<rparr>) = Ok ()" by code_simp
  have wf: "ts_wf demo_set" by code_simp
  have "\<not> is_ok (fst (TlsSet_apply_delta ?h demo_set ?d))" by code_simp
  with set_delta_atomic [OF wf, of ?h ?d] show "snd (TlsSet_apply_delta ?h demo_set ?d) = demo_set"
    by (auto simp: is_ok_def split: prod.splits sum.splits)
qed

end
