(* ===== verification/Component_Registry.thy ===== *)
theory Component_Registry
  imports Tls_Set Permissions
begin

text \<open>
  The registry of group components: \<open>xmtp_mls_common/src/app_data/component_id.rs\<close>,
  \<open>component_permissions.rs\<close>, \<open>component_registry.rs\<close> and \<open>validation.rs\<close>.

  A component id is a 16-bit word. The registry is a sorted map from component ids to raw bytes; the
  protobuf codec of an entry is an argument (\<open>meta_codec\<close>), as are the TLS codecs. Policies are the
  protobuf policy trees of the legacy permissions.

  The lemmas show when a write is accepted (deny by default, immutable and hardcoded ids), that the
  outcome of a policy tree agrees with the legacy evaluation wherever the legacy decoder accepts the
  tree, and that changing one entry keeps the bytes of all others, also of entries that cannot be
  read.
\<close>

section \<open>Component ids\<close>

type_synonym u16 = "16 word"
type_synonym component_id = u16

definition COMPONENT_REGISTRY :: component_id where "COMPONENT_REGISTRY = 0x8000"
definition SUPER_ADMIN_LIST :: component_id where "SUPER_ADMIN_LIST = 0x8001"
definition ADMIN_LIST :: component_id where "ADMIN_LIST = 0x8002"
definition GROUP_MEMBERSHIP :: component_id where "GROUP_MEMBERSHIP = 0x8003"
definition GROUP_NAME :: component_id where "GROUP_NAME = 0x8004"
definition GROUP_DESCRIPTION :: component_id where "GROUP_DESCRIPTION = 0x8005"
definition GROUP_IMAGE_URL :: component_id where "GROUP_IMAGE_URL = 0x8006"
definition MESSAGE_DISAPPEAR_FROM_NS :: component_id where "MESSAGE_DISAPPEAR_FROM_NS = 0x8007"
definition MESSAGE_DISAPPEAR_IN_NS :: component_id where "MESSAGE_DISAPPEAR_IN_NS = 0x8008"
definition APP_DATA :: component_id where "APP_DATA = 0x8009"
definition MIN_SUPPORTED_PROTOCOL_VERSION :: component_id where "MIN_SUPPORTED_PROTOCOL_VERSION = 0x800A"
definition COMMIT_LOG_SIGNER :: component_id where "COMMIT_LOG_SIGNER = 0x800B"
definition CONVERSATION_TYPE :: component_id where "CONVERSATION_TYPE = 0xBFFF"
definition CREATOR_INBOX_ID :: component_id where "CREATOR_INBOX_ID = 0xBFFE"
definition DM_MEMBERS :: component_id where "DM_MEMBERS = 0xBFFD"
definition ONESHOT_MESSAGE :: component_id where "ONESHOT_MESSAGE = 0xBFFC"

lemmas component_id_defs = COMPONENT_REGISTRY_def SUPER_ADMIN_LIST_def ADMIN_LIST_def GROUP_MEMBERSHIP_def
  GROUP_NAME_def GROUP_DESCRIPTION_def GROUP_IMAGE_URL_def MESSAGE_DISAPPEAR_FROM_NS_def
  MESSAGE_DISAPPEAR_IN_NS_def APP_DATA_def MIN_SUPPORTED_PROTOCOL_VERSION_def COMMIT_LOG_SIGNER_def
  CONVERSATION_TYPE_def CREATOR_INBOX_ID_def DM_MEMBERS_def ONESHOT_MESSAGE_def

definition is_in_component_space :: "component_id \<Rightarrow> bool" where
  "is_in_component_space i \<longleftrightarrow> i \<ge> 0x8000"

definition is_xmtp_range :: "component_id \<Rightarrow> bool" where
  "is_xmtp_range i \<longleftrightarrow> i \<ge> 0x8000 \<and> i \<le> 0xBFFF"

definition is_app_range :: "component_id \<Rightarrow> bool" where
  "is_app_range i \<longleftrightarrow> i \<ge> 0xC000 \<and> i \<le> 0xFEFF"

definition is_reserved :: "component_id \<Rightarrow> bool" where
  "is_reserved i \<longleftrightarrow> i \<ge> 0xFF00"

definition is_immutable :: "component_id \<Rightarrow> bool" where
  "is_immutable i \<longleftrightarrow> i \<ge> 0xBE00 \<and> i \<le> 0xBFFF \<or> i \<ge> 0xFD00 \<and> i \<le> 0xFEFF"

definition is_hardcoded :: "component_id \<Rightarrow> bool" where
  "is_hardcoded i \<longleftrightarrow> i = COMPONENT_REGISTRY \<or> i = SUPER_ADMIN_LIST"

definition is_constrained :: "component_id \<Rightarrow> bool" where
  "is_constrained i \<longleftrightarrow> i = ADMIN_LIST"

lemmas range_defs = is_in_component_space_def is_xmtp_range_def is_app_range_def is_reserved_def
  is_immutable_def is_hardcoded_def is_constrained_def

definition ComponentId_codec :: "vlen \<Rightarrow> component_id codec" where
  "ComponentId_codec W =
     \<lparr> tls_serialize = (\<lambda>i. write_length W (unat i)),
       tls_deserialize = (\<lambda>bs. rbind (read_length W bs) (\<lambda>(v, _, rest).
         if v > 65535 then Err (DecodingError ''ComponentId value exceeds u16::MAX'') else Ok (word_of_nat v, rest))),
       tls_serialized_len = (\<lambda>i. case write_length W (unat i) of Ok bs \<Rightarrow> length bs | Err _ \<Rightarrow> 0) \<rparr>"

section \<open>Registry entries\<close>

datatype component_op = OpInsert | OpUpdate | OpDelete

record component_permissions_rec =
  insert_policy :: "policy_proto option"
  update_policy :: "policy_proto option"
  delete_policy :: "policy_proto option"

definition component_permissions :: "policy_proto \<Rightarrow> policy_proto \<Rightarrow> policy_proto \<Rightarrow> component_permissions_rec" where
  "component_permissions i u d = \<lparr> insert_policy = Some i, update_policy = Some u, delete_policy = Some d \<rparr>"

datatype component_type =
    TyUnspecified | TyBytes | TyString | TyTlsMapBytesBytes | TyTlsMapInboxIdBytes | TyTlsSetBytes | TyTlsSetInboxId

fun component_type_i32 :: "component_type \<Rightarrow> int" where
  "component_type_i32 TyUnspecified = 0"
| "component_type_i32 TyBytes = 1"
| "component_type_i32 TyString = 2"
| "component_type_i32 TyTlsMapBytesBytes = 3"
| "component_type_i32 TyTlsMapInboxIdBytes = 4"
| "component_type_i32 TyTlsSetBytes = 5"
| "component_type_i32 TyTlsSetInboxId = 6"

definition component_type_of_i32 :: "int \<Rightarrow> component_type option" where
  "component_type_of_i32 i =
     (if i = 0 then Some TyUnspecified else if i = 1 then Some TyBytes else if i = 2 then Some TyString
      else if i = 3 then Some TyTlsMapBytesBytes else if i = 4 then Some TyTlsMapInboxIdBytes
      else if i = 5 then Some TyTlsSetBytes else if i = 6 then Some TyTlsSetInboxId else None)"

record component_metadata =
  cm_component_type :: int
  cm_permissions :: "component_permissions_rec option"
  cm_external_committer_permissions :: "component_permissions_rec option"

definition new_component_metadata :: "component_permissions_rec \<Rightarrow> component_type \<Rightarrow> component_metadata" where
  "new_component_metadata perms ty =
     \<lparr> cm_component_type = component_type_i32 ty, cm_permissions = Some perms,
       cm_external_committer_permissions = None \<rparr>"

datatype component_registry_error =
    InvalidComponentId component_id
  | ReservedRange component_id
  | ImmutableComponent component_id
  | HardcodedComponent component_id
  | RegNotFound component_id
  | RegMissingPermissions component_id
  | RegMissingPolicyField component_id component_op
  | RegDecodeError component_id
  | RegTlsCodecError codec_error
  | ConstrainedPolicyViolation component_id

record meta_codec =
  meta_decode :: "bytes \<Rightarrow> component_metadata option"
  meta_encode :: "component_metadata \<Rightarrow> bytes"

fun is_admin_or_super_admin_policy :: "policy_proto \<Rightarrow> bool" where
  "is_admin_or_super_admin_policy (KindBase b) \<longleftrightarrow> b = 3 \<or> b = 4"
| "is_admin_or_super_admin_policy (KindAnd _) = False"
| "is_admin_or_super_admin_policy (KindAny _) = False"
| "is_admin_or_super_admin_policy KindNone = False"

fun check_policies ::
    "component_id \<Rightarrow> (component_op \<times> policy_proto option) list \<Rightarrow> (component_registry_error, unit) result" where
  "check_policies i [] = Ok ()"
| "check_policies i ((op, policy) # rest) =
     rbind (ok_or policy (RegMissingPolicyField i op)) (\<lambda>p.
     if is_constrained i \<and> \<not> is_admin_or_super_admin_policy p then Err (ConstrainedPolicyViolation i)
     else check_policies i rest)"

definition validate_metadata :: "component_id \<Rightarrow> component_metadata \<Rightarrow> (component_registry_error, unit) result" where
  "validate_metadata i meta =
     rbind (ok_or (cm_permissions meta) (RegMissingPermissions i)) (\<lambda>perms.
     check_policies i [(OpInsert, insert_policy perms), (OpUpdate, update_policy perms), (OpDelete, delete_policy perms)])"

definition decode_recognized ::
    "meta_codec \<Rightarrow> component_id \<Rightarrow> bytes \<Rightarrow> (component_registry_error, component_metadata) result" where
  "decode_recognized P i raw =
     (if \<not> is_in_component_space i then Err (InvalidComponentId i)
      else if is_reserved i then Err (ReservedRange i)
      else if is_hardcoded i then Err (HardcodedComponent i)
      else
      rbind (ok_or (meta_decode P raw) (RegDecodeError i)) (\<lambda>meta.
      rbind (validate_metadata i meta) (\<lambda>_. Ok meta)))"

definition validate_entry :: "meta_codec \<Rightarrow> component_id \<Rightarrow> bytes \<Rightarrow> (component_registry_error, unit) result" where
  "validate_entry P i raw = rbind (decode_recognized P i raw) (\<lambda>_. Ok ())"

section \<open>The registry\<close>

record component_registry =
  reg_inner :: "(component_id, bytes) tls_map"

definition ComponentRegistry_new :: component_registry where
  "ComponentRegistry_new = \<lparr> reg_inner = TlsMap_new \<rparr>"

definition ok_opt :: "('e, 'a) result \<Rightarrow> 'a option" where
  "ok_opt r = (case r of Ok x \<Rightarrow> Some x | Err _ \<Rightarrow> None)"

definition reg_get ::
    "meta_codec \<Rightarrow> component_registry \<Rightarrow> component_id \<Rightarrow> (component_registry_error, component_metadata option) result" where
  "reg_get P r i = Ok (case TlsMap_get (reg_inner r) i of None \<Rightarrow> None | Some raw \<Rightarrow> ok_opt (decode_recognized P i raw))"

definition reg_contains :: "meta_codec \<Rightarrow> component_registry \<Rightarrow> component_id \<Rightarrow> bool" where
  "reg_contains P r i \<longleftrightarrow>
     (case TlsMap_get (reg_inner r) i of None \<Rightarrow> False | Some raw \<Rightarrow> is_ok (decode_recognized P i raw))"

definition validate_modifiable ::
    "meta_codec \<Rightarrow> component_registry \<Rightarrow> component_id \<Rightarrow> (component_registry_error, unit) result" where
  "validate_modifiable P r i =
     (if \<not> is_in_component_space i then Err (InvalidComponentId i)
      else if is_reserved i then Err (ReservedRange i)
      else if is_hardcoded i then Err (HardcodedComponent i)
      else if is_immutable i \<and> reg_contains P r i then Err (ImmutableComponent i)
      else Ok ())"

definition reg_set ::
    "meta_codec \<Rightarrow> component_registry \<Rightarrow> component_id \<Rightarrow> component_metadata \<Rightarrow>
     (component_registry_error, component_registry) result" where
  "reg_set P r i meta =
     rbind (validate_modifiable P r i) (\<lambda>_.
     rbind (validate_metadata i meta) (\<lambda>_.
     Ok (r\<lparr> reg_inner := TlsMap_set (reg_inner r) i (meta_encode P meta) \<rparr>)))"

definition reg_remove ::
    "meta_codec \<Rightarrow> component_registry \<Rightarrow> component_id \<Rightarrow> (component_registry_error, component_registry) result" where
  "reg_remove P r i =
     rbind (validate_modifiable P r i) (\<lambda>_.
     case TlsMap_remove (reg_inner r) i of
       (Err _, _) \<Rightarrow> Err (RegNotFound i)
     | (Ok _, m) \<Rightarrow> Ok (r\<lparr> reg_inner := m \<rparr>))"

definition reg_iter :: "meta_codec \<Rightarrow> component_registry \<Rightarrow> (component_id \<times> component_metadata) list" where
  "reg_iter P r =
     List.map_filter (\<lambda>(i, raw). map_option (\<lambda>meta. (i, meta)) (ok_opt (decode_recognized P i raw))) (TlsMap_iter (reg_inner r))"

definition reg_len :: "meta_codec \<Rightarrow> component_registry \<Rightarrow> nat" where
  "reg_len P r = length (reg_iter P r)"

definition reg_is_empty :: "meta_codec \<Rightarrow> component_registry \<Rightarrow> bool" where
  "reg_is_empty P r \<longleftrightarrow> reg_iter P r = []"

definition unrecognized_ids :: "meta_codec \<Rightarrow> component_registry \<Rightarrow> component_id list" where
  "unrecognized_ids P r =
     List.map_filter (\<lambda>(i, raw). if is_ok (decode_recognized P i raw) then None else Some i) (TlsMap_iter (reg_inner r))"

definition reg_to_bytes ::
    "(component_id, bytes) tls_map codec \<Rightarrow> component_registry \<Rightarrow> (component_registry_error, bytes) result" where
  "reg_to_bytes C r = map_err RegTlsCodecError (tls_serialize C (reg_inner r))"

definition reg_from_bytes ::
    "(component_id, bytes) tls_map codec \<Rightarrow> bytes \<Rightarrow> (component_registry_error, component_registry) result" where
  "reg_from_bytes C bs = rbind (map_err RegTlsCodecError (tls_deserialize_exact C bs)) (\<lambda>m. Ok \<lparr> reg_inner = m \<rparr>)"

section \<open>Permission to write\<close>

record actor_authority =
  aa_is_admin :: bool
  aa_is_super_admin :: bool

record component_change =
  cc_component_id :: component_id
  cc_op :: component_op
  cc_actor :: actor_authority
  cc_old_value :: "bytes option"
  cc_new_value :: "bytes option"

datatype component_permission_error =
    ImmutableViolation component_id component_op
  | SuperAdminRequired component_id
  | NoRegistryEntry component_id
  | PermMissingPermissions component_id
  | PermMissingPolicyField component_id component_op
  | InvalidPolicy component_id component_op
  | PermissionDenied component_id component_op
  | PermRegistryError component_registry_error

datatype policy_outcome = OutAllow | OutDeny | OutInvalid

definition outcome_from_bool :: "bool \<Rightarrow> policy_outcome" where
  "outcome_from_bool b = (if b then OutAllow else OutDeny)"

definition evaluate_base_policy :: "int \<Rightarrow> actor_authority \<Rightarrow> policy_outcome" where
  "evaluate_base_policy base actor =
     (if base = 1 then OutAllow
      else if base = 2 then OutDeny
      else if base = 3 then outcome_from_bool (aa_is_admin actor \<or> aa_is_super_admin actor)
      else if base = 4 then outcome_from_bool (aa_is_super_admin actor)
      else OutInvalid)"

fun evaluate_policy_proto :: "policy_proto \<Rightarrow> component_change \<Rightarrow> policy_outcome"
  and evaluate_and :: "policy_proto list \<Rightarrow> component_change \<Rightarrow> policy_outcome"
  and evaluate_any :: "policy_proto list \<Rightarrow> component_change \<Rightarrow> policy_outcome" where
  "evaluate_policy_proto (KindBase b) change = evaluate_base_policy b (cc_actor change)"
| "evaluate_policy_proto (KindAnd ps) change = (if ps = [] then OutInvalid else evaluate_and ps change)"
| "evaluate_policy_proto (KindAny ps) change = (if ps = [] then OutInvalid else evaluate_any ps change)"
| "evaluate_policy_proto KindNone change = OutInvalid"
| "evaluate_and [] change = OutAllow"
| "evaluate_and (p # ps) change =
     (case evaluate_policy_proto p change of OutAllow \<Rightarrow> evaluate_and ps change | other \<Rightarrow> other)"
| "evaluate_any [] change = OutDeny"
| "evaluate_any (p # ps) change =
     (case evaluate_policy_proto p change of
        OutAllow \<Rightarrow> OutAllow
      | OutDeny \<Rightarrow> evaluate_any ps change
      | OutInvalid \<Rightarrow> OutInvalid)"

fun policy_field :: "component_permissions_rec \<Rightarrow> component_op \<Rightarrow> policy_proto option" where
  "policy_field perms OpInsert = insert_policy perms"
| "policy_field perms OpUpdate = update_policy perms"
| "policy_field perms OpDelete = delete_policy perms"

definition validate_component_write ::
    "meta_codec \<Rightarrow> component_change \<Rightarrow> component_registry \<Rightarrow> (component_permission_error, unit) result" where
  "validate_component_write P change registry =
     (let i = cc_component_id change; op = cc_op change in
      if is_immutable i \<and> (op = OpUpdate \<or> op = OpDelete) then Err (ImmutableViolation i op)
      else if is_hardcoded i then
        (if aa_is_super_admin (cc_actor change) then Ok () else Err (SuperAdminRequired i))
      else
      rbind (map_err PermRegistryError (reg_get P registry i)) (\<lambda>m.
      rbind (ok_or m (NoRegistryEntry i)) (\<lambda>meta.
      rbind (ok_or (cm_permissions meta) (PermMissingPermissions i)) (\<lambda>permissions.
      rbind (ok_or (policy_field permissions op) (PermMissingPolicyField i op)) (\<lambda>policy.
      case evaluate_policy_proto policy change of
        OutAllow \<Rightarrow> Ok ()
      | OutDeny \<Rightarrow> Err (PermissionDenied i op)
      | OutInvalid \<Rightarrow> Err (InvalidPolicy i op))))))"

section \<open>Policy outcomes\<close>

lemma outcome_from_bool_simps [simp]:
  "outcome_from_bool True = OutAllow" "outcome_from_bool False = OutDeny"
  "outcome_from_bool b = OutAllow \<longleftrightarrow> b" "outcome_from_bool b \<noteq> OutInvalid"
  by (simp_all add: outcome_from_bool_def)

lemma evaluate_base_legacy:
  assumes "metadata_decode i = Some b" and "aa_is_admin act = cp_is_admin a" and "aa_is_super_admin act = cp_is_super_admin a"
  shows "evaluate_base_policy i act = outcome_from_bool (MetadataBasePolicies_evaluate b a)"
  using assms by (auto simp: metadata_decode_def evaluate_base_policy_def split: if_splits)

lemma evaluate_list_legacy:
  assumes "list_all2 (\<lambda>q p. evaluate_policy_proto q ch = outcome_from_bool (ev p)) qs ps"
  shows "evaluate_and qs ch = outcome_from_bool (\<forall>p \<in> set ps. ev p)"
    and "evaluate_any qs ch = outcome_from_bool (\<exists>p \<in> set ps. ev p)"
proof -
  show "evaluate_and qs ch = outcome_from_bool (\<forall>p \<in> set ps. ev p)"
    using assms by induction (auto simp: outcome_from_bool_def)
  show "evaluate_any qs ch = outcome_from_bool (\<exists>p \<in> set ps. ev p)"
    using assms by induction (auto simp: outcome_from_bool_def)
qed

text \<open>
  The policy trees of the component registry mean what the legacy permissions mean:
  whenever the legacy decoder accepts a tree, evaluating the tree itself for an actor allows or
  denies exactly as the decoded legacy policy does for an actor of the same standing, and is never
  invalid.
\<close>

theorem component_policy_agrees:
  assumes "MetadataPolicies_try_from q = Ok p"
    and "aa_is_admin (cc_actor ch) = cp_is_admin a" and "aa_is_super_admin (cc_actor ch) = cp_is_super_admin a"
  shows "evaluate_policy_proto q ch = outcome_from_bool (MetadataPolicies_evaluate p a fc)"
  using assms(1) unfolding MetadataPolicies_try_from_def MetadataPolicies_evaluate_def
proof (induction q arbitrary: p)
  case (KindBase i)
  then show ?case
    using evaluate_base_legacy [OF _ assms(2,3)] by (auto simp: rbind_eq_Ok)
next
  case (KindAnd qs)
  then obtain ps where ps: "try_map (policies_try_from metadata_decode InvalidMetadataPolicy) qs = Ok ps"
    and "p = AndCondition ps" and "qs \<noteq> []"
    by (auto simp: rbind_eq_Ok split: if_splits)
  moreover have "list_all2 (\<lambda>q p. evaluate_policy_proto q ch =
      outcome_from_bool (policies_evaluate (\<lambda>b. MetadataBasePolicies_evaluate b a) p)) qs ps"
    using ps KindAnd.IH unfolding try_map_Ok_iff by (auto elim: list.rel_mono_strong)
  ultimately show ?case using evaluate_list_legacy(1) by fastforce
next
  case (KindAny qs)
  then obtain ps where ps: "try_map (policies_try_from metadata_decode InvalidMetadataPolicy) qs = Ok ps"
    and "p = AnyCondition ps" and "qs \<noteq> []"
    by (auto simp: rbind_eq_Ok split: if_splits)
  moreover have "list_all2 (\<lambda>q p. evaluate_policy_proto q ch =
      outcome_from_bool (policies_evaluate (\<lambda>b. MetadataBasePolicies_evaluate b a) p)) qs ps"
    using ps KindAny.IH unfolding try_map_Ok_iff by (auto elim: list.rel_mono_strong)
  ultimately show ?case using evaluate_list_legacy(2) by fastforce
qed simp

theorem component_policy_agrees_witness:
  "evaluate_policy_proto (KindAny [KindBase 2, KindAnd [KindBase 3, KindBase 1]])
     \<lparr> cc_component_id = GROUP_NAME, cc_op = OpUpdate, cc_actor = \<lparr> aa_is_admin = True, aa_is_super_admin = False \<rparr>,
       cc_old_value = None, cc_new_value = None \<rparr> = OutAllow"
  using component_policy_agrees [of "KindAny [KindBase 2, KindAnd [KindBase 3, KindBase 1]]"
      "AnyCondition [Standard MDeny, AndCondition [Standard MAllowIfActorAdminOrSuperAdmin, Standard MAllow]]"
      "\<lparr> cc_component_id = GROUP_NAME, cc_op = OpUpdate, cc_actor = \<lparr> aa_is_admin = True, aa_is_super_admin = False \<rparr>,
       cc_old_value = None, cc_new_value = None \<rparr>"
      "\<lparr> cp_inbox_id = ''a'', cp_installation_id = [], cp_is_creator = False, cp_is_admin = True, cp_is_super_admin = False \<rparr>"]
  by (simp add: MetadataPolicies_try_from_def metadata_decode_def MetadataPolicies_evaluate_def)

section \<open>Accepted writes\<close>

lemma not_in_two_ranges:
  "is_immutable i \<Longrightarrow> \<not> is_hardcoded i" "is_immutable i \<Longrightarrow> is_in_component_space i \<and> \<not> is_reserved i"
  "is_hardcoded i \<Longrightarrow> is_in_component_space i \<and> \<not> is_reserved i" "\<not> is_hardcoded ADMIN_LIST" "\<not> is_immutable ADMIN_LIST"
  by (auto simp: range_defs component_id_defs word_le_nat_alt)

lemma decode_recognized_Ok:
  "decode_recognized P i raw = Ok meta \<longleftrightarrow>
     is_in_component_space i \<and> \<not> is_reserved i \<and> \<not> is_hardcoded i \<and>
     meta_decode P raw = Some meta \<and> validate_metadata i meta = Ok ()"
  by (auto simp: decode_recognized_def rbind_eq_Ok)

lemma check_policies_Ok:
  "check_policies i ps = Ok () \<longleftrightarrow>
     (\<forall>(op, q) \<in> set ps. \<exists>p. q = Some p \<and> (is_constrained i \<longrightarrow> is_admin_or_super_admin_policy p))"
  by (induction i ps rule: check_policies.induct) (auto simp: rbind_eq_Ok)

lemma validate_metadata_Ok:
  "validate_metadata i meta = Ok () \<longleftrightarrow>
     (\<exists>perms. cm_permissions meta = Some perms \<and>
        (\<forall>op. \<exists>p. policy_field perms op = Some p \<and> (is_constrained i \<longrightarrow> is_admin_or_super_admin_policy p)))"
proof -
  have "(\<forall>op. R op) \<longleftrightarrow> R OpInsert \<and> R OpUpdate \<and> R OpDelete" for R
    by (metis component_op.exhaust)
  then show ?thesis
    by (simp add: validate_metadata_def rbind_eq_Ok check_policies_Ok del: check_policies.simps)
qed

lemma ok_opt_eq_Some [simp]: "ok_opt r = Some x \<longleftrightarrow> r = Ok x"
  by (cases r) (auto simp: ok_opt_def)

lemma reg_get_eq:
  "reg_get P r i = Ok (Some meta) \<longleftrightarrow>
     (\<exists>raw. TlsMap_get (reg_inner r) i = Some raw \<and> decode_recognized P i raw = Ok meta)"
  by (auto simp: reg_get_def split: option.splits)

lemma reg_contains_get: "reg_contains P r i \<longleftrightarrow> (\<exists>meta. reg_get P r i = Ok (Some meta))"
  by (auto simp: reg_contains_def reg_get_eq is_ok_iff split: option.splits)

lemma write_accepted:
  "validate_component_write P ch r = Ok () \<longleftrightarrow>
     (is_immutable (cc_component_id ch) \<longrightarrow> cc_op ch = OpInsert) \<and>
     (if is_hardcoded (cc_component_id ch) then aa_is_super_admin (cc_actor ch)
      else \<exists>meta perms p. reg_get P r (cc_component_id ch) = Ok (Some meta) \<and> cm_permissions meta = Some perms \<and>
        policy_field perms (cc_op ch) = Some p \<and> evaluate_policy_proto p ch = OutAllow)"
proof -
  have [simp]: "(case out of OutAllow \<Rightarrow> Ok () | OutDeny \<Rightarrow> Err d | OutInvalid \<Rightarrow> Err e) = Ok () \<longleftrightarrow> out = OutAllow"
    for out and d e :: component_permission_error
    by (cases out) auto
  show ?thesis
    by (cases "cc_op ch") (auto simp: validate_component_write_def Let_def rbind_eq_Ok)
qed

text \<open>
  Property C26. What a write to a component needs, whatever the registry holds: its id lies in the
  component space outside the reserved range; an immutable component is only ever inserted; the
  registry and the super admin list are written by super admins only, the admin list by admins and
  super admins only, even when the registry entry was crafted; every other component is written only
  when the registry has a recognised entry for it whose policy for this operation allows the actor.
\<close>

theorem component_write_guarded:
  assumes "validate_component_write P ch r = Ok ()"
  shows "is_in_component_space (cc_component_id ch) \<and> \<not> is_reserved (cc_component_id ch) \<and>
    (is_immutable (cc_component_id ch) \<longrightarrow> cc_op ch = OpInsert) \<and>
    (is_hardcoded (cc_component_id ch) \<longrightarrow> aa_is_super_admin (cc_actor ch)) \<and>
    (cc_component_id ch = ADMIN_LIST \<longrightarrow> aa_is_admin (cc_actor ch) \<or> aa_is_super_admin (cc_actor ch)) \<and>
    (\<not> is_hardcoded (cc_component_id ch) \<longrightarrow>
       (\<exists>meta perms p. reg_get P r (cc_component_id ch) = Ok (Some meta) \<and> cm_permissions meta = Some perms \<and>
          policy_field perms (cc_op ch) = Some p \<and> evaluate_policy_proto p ch = OutAllow))"
proof (cases "is_hardcoded (cc_component_id ch)")
  case True
  then show ?thesis
    using assms not_in_two_ranges by (auto simp: write_accepted)
next
  case False
  then obtain meta perms p where g: "reg_get P r (cc_component_id ch) = Ok (Some meta)"
    and w: "cm_permissions meta = Some perms" "policy_field perms (cc_op ch) = Some p" "evaluate_policy_proto p ch = OutAllow"
    using assms by (auto simp: write_accepted)
  then have ok: "is_in_component_space (cc_component_id ch)" "\<not> is_reserved (cc_component_id ch)"
    "validate_metadata (cc_component_id ch) meta = Ok ()"
    by (auto simp: reg_get_eq decode_recognized_Ok)
  have "aa_is_admin (cc_actor ch) \<or> aa_is_super_admin (cc_actor ch)" if "cc_component_id ch = ADMIN_LIST"
  proof -
    have "is_admin_or_super_admin_policy p"
      using ok(3) w(1,2) that unfolding validate_metadata_Ok is_constrained_def by (metis option.inject)
    then show ?thesis
      using w(3) by (cases p) (auto simp: evaluate_base_policy_def)
  qed
  with False ok(1,2) g w show ?thesis using assms by (auto simp: write_accepted)
qed

definition demo_meta :: component_metadata where
  "demo_meta = new_component_metadata (component_permissions (KindBase 1) (KindBase 3) (KindBase 4)) TyString"

definition demo_meta_codec :: meta_codec where
  "demo_meta_codec = \<lparr> meta_decode = (\<lambda>bs. if bs = [7] then Some demo_meta else None),
     meta_encode = (\<lambda>m. if m = demo_meta then [7] else []) \<rparr>"

definition demo_registry :: component_registry where
  "demo_registry = \<lparr> reg_inner = \<lparr> entries = [
     \<lparr> e_key = ADMIN_LIST, e_value = [9] \<rparr>, \<lparr> e_key = GROUP_NAME, e_value = [7] \<rparr>,
     \<lparr> e_key = CREATOR_INBOX_ID, e_value = [7] \<rparr>] \<rparr> \<rparr>"

definition demo_change :: "component_id \<Rightarrow> component_op \<Rightarrow> bool \<Rightarrow> component_change" where
  "demo_change i op admin = \<lparr> cc_component_id = i, cc_op = op,
     cc_actor = \<lparr> aa_is_admin = admin, aa_is_super_admin = False \<rparr>, cc_old_value = None, cc_new_value = None \<rparr>"

lemmas demo_registry_defs = demo_meta_def demo_meta_codec_def demo_registry_def demo_change_def

theorem component_write_guarded_witness:
  "validate_component_write demo_meta_codec (demo_change GROUP_NAME OpUpdate True) demo_registry = Ok () \<and>
   (\<exists>meta. reg_get demo_meta_codec demo_registry GROUP_NAME = Ok (Some meta))"
proof -
  have "validate_component_write demo_meta_codec (demo_change GROUP_NAME OpUpdate True) demo_registry = Ok ()"
    by code_simp
  moreover note component_write_guarded [OF this]
  moreover have "cc_component_id (demo_change GROUP_NAME OpUpdate True) = GROUP_NAME" "\<not> is_hardcoded GROUP_NAME"
    by code_simp+
  ultimately show ?thesis by auto
qed

section \<open>Changing the registry\<close>

definition reg_wf :: "component_registry \<Rightarrow> bool" where
  "reg_wf r \<longleftrightarrow> tm_wf (reg_inner r)"

text \<open>What protobuf promises of a metadata record: decoding its encoding gives it back.\<close>

definition meta_lossless :: "meta_codec \<Rightarrow> component_metadata \<Rightarrow> bool" where
  "meta_lossless P meta \<longleftrightarrow> meta_decode P (meta_encode P meta) = Some meta"

lemma set_map_filter: "set (List.map_filter f xs) = {y. \<exists>x \<in> set xs. f x = Some y}"
  by (force simp: List.map_filter_def)

lemma reg_set_laws:
  assumes "reg_wf r" and "reg_set P r i meta = Ok r'"
  shows "reg_wf r'" and "tm_map (reg_inner r') = (tm_map (reg_inner r))(i \<mapsto> meta_encode P meta)"
    and "validate_modifiable P r i = Ok ()" and "validate_metadata i meta = Ok ()"
  using assms by (auto simp: reg_set_def reg_wf_def rbind_eq_Ok tls_map_laws)

lemma reg_remove_laws:
  assumes "reg_wf r" and "reg_remove P r i = Ok r'"
  shows "reg_wf r'" and "tm_map (reg_inner r') = (tm_map (reg_inner r))(i := None)"
    and "validate_modifiable P r i = Ok ()" and "i \<in> dom (tm_map (reg_inner r))"
  using assms TlsMap_remove_laws [of "reg_inner r" i]
  by (auto simp: reg_remove_def reg_wf_def rbind_eq_Ok split: prod.splits sum.splits)

lemma validate_modifiable_Ok:
  "validate_modifiable P r i = Ok () \<longleftrightarrow>
     is_in_component_space i \<and> \<not> is_reserved i \<and> \<not> is_hardcoded i \<and> \<not> (is_immutable i \<and> reg_contains P r i)"
  by (auto simp: validate_modifiable_def)

datatype registry_op = RegSet component_id component_metadata | RegRemove component_id

fun registry_step ::
    "meta_codec \<Rightarrow> component_registry \<Rightarrow> registry_op \<Rightarrow> (component_registry_error, component_registry) result" where
  "registry_step P r (RegSet i meta) = reg_set P r i meta"
| "registry_step P r (RegRemove i) = reg_remove P r i"

fun op_id :: "registry_op \<Rightarrow> component_id" where
  "op_id (RegSet i _) = i"
| "op_id (RegRemove i) = i"

inductive registry_reach :: "meta_codec \<Rightarrow> component_registry \<Rightarrow> component_id set \<Rightarrow> component_registry \<Rightarrow> bool"
  for P and r0 where
  start: "registry_reach P r0 {} r0"
| step: "registry_reach P r0 ids r \<Longrightarrow> registry_step P r op = Ok r' \<Longrightarrow> registry_reach P r0 (insert (op_id op) ids) r'"

lemma registry_step_laws:
  assumes "reg_wf r" and "registry_step P r op = Ok r'"
  shows "reg_wf r'" and "i \<noteq> op_id op \<Longrightarrow> tm_map (reg_inner r') i = tm_map (reg_inner r) i"
    and "validate_modifiable P r (op_id op) = Ok ()"
  using assms by (cases op; auto dest: reg_set_laws reg_remove_laws)+

lemma reg_get_wf:
  "reg_wf r \<Longrightarrow> reg_get P r i = Ok (case tm_map (reg_inner r) i of None \<Rightarrow> None | Some raw \<Rightarrow> ok_opt (decode_recognized P i raw))"
  by (simp add: reg_get_def reg_wf_def tls_map_laws)

lemma registry_reach_laws:
  assumes "registry_reach P r0 ids r" and "reg_wf r0"
  shows "reg_wf r \<and> (\<forall>i. i \<notin> ids \<longrightarrow> tm_map (reg_inner r) i = tm_map (reg_inner r0) i) \<and>
    (\<forall>i \<in> ids. is_in_component_space i \<and> \<not> is_reserved i \<and> \<not> is_hardcoded i) \<and>
    (\<forall>i meta. is_immutable i \<longrightarrow> reg_get P r0 i = Ok (Some meta) \<longrightarrow> reg_get P r i = Ok (Some meta))"
  using assms(1)
proof (induction rule: registry_reach.induct)
  case start
  with assms(2) show ?case by simp
next
  case (step ids r op r')
  then have wf: "reg_wf r" by simp
  note laws = registry_step_laws [OF wf step.hyps(2)]
  have kept: "reg_get P r' i = Ok (Some meta)" if "is_immutable i" "reg_get P r0 i = Ok (Some meta)" for i meta
  proof -
    have r: "reg_get P r i = Ok (Some meta)" using that step.IH by blast
    then have "i \<noteq> op_id op"
      using laws(3) that(1) by (auto simp: validate_modifiable_Ok reg_contains_get)
    with r show ?thesis using laws(2) by (simp add: reg_get_wf wf laws(1))
  qed
  show ?case
    using laws step.IH kept by (auto simp: validate_modifiable_Ok)
qed

text \<open>
  Whatever sequence of entries is set in and removed from a registry: it stays sorted
  by id; the bytes of every entry that was not addressed stay as they were, also of entries this
  version cannot read; only ids outside the reserved range and other than the hardcoded ones are
  ever addressed; and the entry of an immutable component, once recognised, never changes.
\<close>

theorem registry_changes_are_local:
  assumes "registry_reach P r0 ids r" and "reg_wf r0"
  shows "reg_wf r \<and>
    (\<forall>i. i \<notin> ids \<longrightarrow> TlsMap_get (reg_inner r) i = TlsMap_get (reg_inner r0) i) \<and>
    (\<forall>i. i \<notin> ids \<longrightarrow> (i \<in> set (unrecognized_ids P r)) = (i \<in> set (unrecognized_ids P r0))) \<and>
    (\<forall>i \<in> ids. is_in_component_space i \<and> \<not> is_reserved i \<and> \<not> is_hardcoded i) \<and>
    (\<forall>i meta. is_immutable i \<longrightarrow> reg_get P r0 i = Ok (Some meta) \<longrightarrow> reg_get P r i = Ok (Some meta))"
proof -
  note laws = registry_reach_laws [OF assms]
  have un: "i \<in> set (unrecognized_ids P q) \<longleftrightarrow>
      (\<exists>raw. tm_map (reg_inner q) i = Some raw \<and> \<not> is_ok (decode_recognized P i raw))" if "reg_wf q" for q i
  proof -
    have d: "distinct (map fst (TlsMap_iter (reg_inner q)))"
      using that strict_sorted_iff by (auto simp: reg_wf_def tm_wf_def TlsMap_iter_def comp_def)
    show ?thesis
      unfolding unrecognized_ids_def tm_map_def
      by (force simp: List.map_filter_def map_of_eq_Some_iff [OF d] split: if_splits)
  qed
  show ?thesis
    using laws assms(2) by (simp add: un reg_wf_def tls_map_laws)
qed

text \<open>
  An entry that was set is read back, as long as it is not addressed again: setting
  succeeds exactly for ids that may be changed and metadata that is valid for the id, and then the
  registry has the metadata under that id.
\<close>

theorem registry_set_get:
  assumes "reg_wf r" and "meta_lossless P meta"
  shows "is_ok (reg_set P r i meta) = (is_ok (validate_modifiable P r i) \<and> is_ok (validate_metadata i meta)) \<and>
    (\<forall>r'. reg_set P r i meta = Ok r' \<longrightarrow> reg_get P r' i = Ok (Some meta) \<and> (i, meta) \<in> set (reg_iter P r') \<and>
       (\<forall>r2 ids. registry_reach P r' ids r2 \<longrightarrow> i \<notin> ids \<longrightarrow> reg_get P r2 i = Ok (Some meta)) \<and>
       (\<forall>r2. reg_remove P r' i = Ok r2 \<longrightarrow> reg_get P r2 i = Ok None))"
proof (intro conjI allI impI)
  show "is_ok (reg_set P r i meta) = (is_ok (validate_modifiable P r i) \<and> is_ok (validate_metadata i meta))"
    by (auto simp: reg_set_def is_ok_iff rbind_eq_Ok)
  fix r' assume set: "reg_set P r i meta = Ok r'"
  note laws = reg_set_laws [OF assms(1) set]
  have dec: "decode_recognized P i (meta_encode P meta) = Ok meta"
    using laws(3,4) assms(2) by (auto simp: decode_recognized_Ok validate_modifiable_Ok meta_lossless_def)
  show get: "reg_get P r' i = Ok (Some meta)"
    by (simp add: reg_get_wf laws(1,2) dec)
  have "(i, meta_encode P meta) \<in> set (TlsMap_iter (reg_inner r'))"
    using laws(2) by (auto simp: tm_map_def fun_eq_iff dest!: map_of_SomeD spec [of _ i])
  then show "(i, meta) \<in> set (reg_iter P r')"
    unfolding reg_iter_def set_map_filter
    by (auto intro!: bexI [of _ "(i, meta_encode P meta)"] simp: ok_opt_def dec)
  show "reg_get P r2 i = Ok (Some meta)" if "registry_reach P r' ids r2" "i \<notin> ids" for r2 ids
    using registry_reach_laws [OF that(1) laws(1)] that(2) laws(1,2) dec by (simp add: reg_get_wf)
  show "reg_get P r2 i = Ok None" if "reg_remove P r' i = Ok r2" for r2
    using reg_remove_laws [OF laws(1) that] by (simp add: reg_get_wf)
qed

lemma demo_registry_wf: "reg_wf demo_registry"
  by (simp add: reg_wf_def tm_wf_def demo_registry_def component_id_defs word_less_nat_alt)

definition demo_registry_later :: component_registry where
  "demo_registry_later = (case reg_set demo_meta_codec demo_registry APP_DATA demo_meta of Ok r \<Rightarrow> r | Err _ \<Rightarrow> demo_registry)"

lemma demo_registry_set: "reg_set demo_meta_codec demo_registry APP_DATA demo_meta = Ok demo_registry_later"
  by code_simp

theorem registry_changes_are_local_witness:
  "TlsMap_get (reg_inner demo_registry_later) ADMIN_LIST = Some [9] \<and>
   ADMIN_LIST \<in> set (unrecognized_ids demo_meta_codec demo_registry_later)"
proof -
  have "registry_reach demo_meta_codec demo_registry {APP_DATA} demo_registry_later"
    using registry_reach.step [OF registry_reach.start, of demo_meta_codec demo_registry "RegSet APP_DATA demo_meta"]
      demo_registry_set by simp
  note laws = registry_changes_are_local [OF this demo_registry_wf]
  have "ADMIN_LIST \<notin> {APP_DATA}" by (simp add: component_id_defs)
  moreover have "TlsMap_get (reg_inner demo_registry) ADMIN_LIST = Some [9]"
    "ADMIN_LIST \<in> set (unrecognized_ids demo_meta_codec demo_registry)" by code_simp+
  ultimately show ?thesis using laws by simp
qed

theorem registry_set_get_witness:
  "reg_get demo_meta_codec demo_registry_later APP_DATA = Ok (Some demo_meta) \<and>
   is_ok (reg_set demo_meta_codec demo_registry APP_DATA demo_meta)"
proof -
  have "meta_lossless demo_meta_codec demo_meta" by code_simp
  from registry_set_get [OF demo_registry_wf this, of APP_DATA] demo_registry_set show ?thesis by auto
qed

end
