(* ===== verification/App_Values.thy ===== *)
theory App_Values
  imports Component_Registry Members
begin

text \<open>
  What the values of group components are made of: UTF-8 text, big-endian integers, the extensions of
  a group context, and the libraries behind them.

  \<open>from_utf8\<close> and \<open>i64::{from,to}_be_bytes\<close> belong to the standard library and are modelled; strings
  are the lists of their UTF-8 bytes. The TLS codecs of vectors, SHA-256, hexadecimal text, protobuf
  and semantic versions come from libraries: they are the fields of \<open>app_libs\<close>, an argument of what
  uses them. The extensions of a group context are kept by OpenMLS; the code reads them as a list of
  tagged byte strings, the dictionary of components, the bytes of the immutable metadata and the
  extension types that members are required to support.
\<close>

section \<open>Text\<close>

definition is_cont :: "u8 \<Rightarrow> bool" where
  "is_cont b \<longleftrightarrow> 0x80 \<le> b \<and> b \<le> 0xBF"

fun utf8_valid :: "bytes \<Rightarrow> bool" where
  "utf8_valid [] = True"
| "utf8_valid (b # bs) =
     (if b < 0x80 then utf8_valid bs
      else if 0xC2 \<le> b \<and> b \<le> 0xDF then
        (case bs of c # r \<Rightarrow> is_cont c \<and> utf8_valid r | _ \<Rightarrow> False)
      else if 0xE0 \<le> b \<and> b \<le> 0xEF then
        (case bs of c # d # r \<Rightarrow>
           (if b = 0xE0 then 0xA0 \<le> c \<and> c \<le> 0xBF else if b = 0xED then 0x80 \<le> c \<and> c \<le> 0x9F else is_cont c) \<and>
           is_cont d \<and> utf8_valid r
         | _ \<Rightarrow> False)
      else if 0xF0 \<le> b \<and> b \<le> 0xF4 then
        (case bs of c # d # e # r \<Rightarrow>
           (if b = 0xF0 then 0x90 \<le> c \<and> c \<le> 0xBF else if b = 0xF4 then 0x80 \<le> c \<and> c \<le> 0x8F else is_cont c) \<and>
           is_cont d \<and> is_cont e \<and> utf8_valid r
         | _ \<Rightarrow> False)
      else False)"

definition from_utf8 :: "bytes \<Rightarrow> string option" where
  "from_utf8 bs = (if utf8_valid bs then Some (map (\<lambda>b. char_of (unat b)) bs) else None)"

definition as_bytes :: "string \<Rightarrow> bytes" where
  "as_bytes s = map of_char s"

lemma as_bytes_from_utf8: "from_utf8 bs = Some s \<Longrightarrow> as_bytes s = bs"
proof -
  have "(of_char (char_of (unat b) :: char) :: u8) = b" for b :: u8
  proof -
    have "(of_char (char_of (unat b) :: char) :: u8) = of_nat (of_char (char_of (unat b) :: char))"
      by (simp only: of_nat_of_char)
    also have "\<dots> = of_nat (unat b mod 256)" by (simp only: of_char_of)
    also have "\<dots> = b"
    proof -
      have "unat b < 256" using unsigned_less [of b, where ?'a = nat] by simp
      then show ?thesis by simp
    qed
    finally show ?thesis .
  qed
  then show "from_utf8 bs = Some s \<Longrightarrow> as_bytes s = bs"
    by (auto simp: from_utf8_def as_bytes_def comp_def split: if_splits intro: map_idI)
qed

section \<open>Integers\<close>

type_synonym i64 = "64 word"

definition i64_from_be_bytes :: "bytes \<Rightarrow> i64 option" where
  "i64_from_be_bytes bs = (if length bs = 8 then Some (foldl (\<lambda>a b. a * 256 + ucast b) 0 bs) else None)"

definition i64_to_be_bytes :: "i64 \<Rightarrow> bytes" where
  "i64_to_be_bytes w = map (\<lambda>i. ucast (drop_bit (8 * i) w)) [7, 6, 5, 4, 3, 2, 1, 0]"

definition show_i64 :: "i64 \<Rightarrow> string" where
  "show_i64 w = (if sint w < 0 then ''-'' @ show_nat (nat (- sint w)) else show_nat (nat (sint w)))"

lemma byte_step: "drop_bit 8 (x :: i64) * 256 + ucast (ucast x :: u8) = x"
proof -
  have "(ucast (ucast x :: u8) :: i64) = take_bit 8 x"
    by (rule bit_word_eqI) (auto simp: bit_simps)
  moreover have "drop_bit 8 x * 256 = push_bit 8 (drop_bit 8 x)"
    by (simp add: push_bit_eq_mult)
  ultimately show ?thesis using bits_ident [of 8 x] by simp
qed

lemma i64_be_roundtrip: "i64_from_be_bytes (i64_to_be_bytes w) = Some w"
proof -
  have step: "drop_bit (8 * Suc i) w * 256 + ucast (ucast (drop_bit (8 * i) w) :: u8) = drop_bit (8 * i) w" for i
    using byte_step [of "drop_bit (8 * i) w"] by (simp add: drop_bit_drop_bit)
  have top: "drop_bit (8 * 8) w = 0"
    by (rule bit_word_eqI) (simp add: bit_simps)
  have "foldl (\<lambda>a b. a * 256 + ucast b) (drop_bit (8 * n) w) (map (\<lambda>i. (ucast (drop_bit (8 * i) w) :: u8)) (rev [0..<n])) = w" for n
    by (induction n) (simp_all add: step del: mult_Suc_right)
  from this [of 8] show ?thesis
    unfolding i64_from_be_bytes_def i64_to_be_bytes_def by (simp add: top upt_rec)
qed

section \<open>Libraries\<close>

text \<open>The codecs that \<open>tls_codec\<close> derives for vectors of entries and mutations, for keys of one type.\<close>

record 'k key_vecs =
  vec_set_entry :: "('k, unit) tls_map_entry codec \<Rightarrow> ('k, unit) tls_map_entry list codec"
  vec_set_mutation :: "'k tls_set_mutation codec \<Rightarrow> 'k tls_set_mutation list codec"
  vec_map_entry :: "('k, bytes) tls_map_entry codec \<Rightarrow> ('k, bytes) tls_map_entry list codec"
  vec_map_mutation :: "('k, bytes) tls_map_mutation codec \<Rightarrow> ('k, bytes) tls_map_mutation list codec"

record gmm_proto =
  pg_attributes :: "(string, string) hash_map"
  pg_admin_list :: "string list option"
  pg_super_admin_list :: "string list option"

record 'v app_libs =
  al_vlen :: vlen
  al_vlbytes :: "bytes codec"
  inbox_vecs :: "inbox_id key_vecs"
  bytes_vecs :: "bytes key_vecs"
  component_vecs :: "component_id key_vecs"
  sha256_array :: "bytes \<Rightarrow> bytes"
  al_hex :: id_crypto
  al_meta :: meta_codec
  gmm_decode :: "bytes \<Rightarrow> gmm_proto option"
  gmm_encode :: "gmm_proto \<Rightarrow> bytes option"
  semver_parse :: "string \<Rightarrow> 'v option"

definition inbox_set_codec :: "'v app_libs \<Rightarrow> inbox_id tls_set codec" where
  "inbox_set_codec L = TlsSet_codec (vec_set_entry (inbox_vecs L)) (InboxId_codec (al_vlen L))"

definition registry_codec :: "'v app_libs \<Rightarrow> (component_id, bytes) tls_map codec" where
  "registry_codec L = TlsMap_codec (vec_map_entry (component_vecs L)) (ComponentId_codec (al_vlen L)) (al_vlbytes L)"

section \<open>Extensions of a group context\<close>

type_synonym app_dict = "component_id \<rightharpoonup> bytes"

datatype extension_type = AppDataDictionaryType | ImmutableMetadataType | UnknownType u16 | OtherType u16

record extensions =
  unknown_extensions :: "(u16 \<times> bytes) list"
  app_data_dictionary :: "app_dict option"
  immutable_metadata :: "bytes option"
  required_capabilities :: "extension_type list option"

definition MUTABLE_METADATA_EXTENSION_ID :: u16 where "MUTABLE_METADATA_EXTENSION_ID = 0xff00"
definition GROUP_MEMBERSHIP_EXTENSION_ID :: u16 where "GROUP_MEMBERSHIP_EXTENSION_ID = 0xff01"
definition GROUP_PERMISSIONS_EXTENSION_ID :: u16 where "GROUP_PERMISSIONS_EXTENSION_ID = 0xff02"

lemmas extension_id_defs = MUTABLE_METADATA_EXTENSION_ID_def GROUP_MEMBERSHIP_EXTENSION_ID_def
  GROUP_PERMISSIONS_EXTENSION_ID_def

definition find_extension :: "u16 \<Rightarrow> extensions \<Rightarrow> bytes option" where
  "find_extension i x = map_of (unknown_extensions x) i"

definition dict_get :: "extensions \<Rightarrow> component_id \<Rightarrow> bytes option" where
  "dict_get x i = (case app_data_dictionary x of None \<Rightarrow> None | Some d \<Rightarrow> d i)"

definition extensions_are_migrated :: "extensions \<Rightarrow> bool" where
  "extensions_are_migrated x \<longleftrightarrow> dict_get x COMPONENT_REGISTRY \<noteq> None"

end
