(* ===== verification/Mutable_Metadata.thy ===== *)
theory Mutable_Metadata
  imports App_Values
begin

text \<open>
  The mutable metadata of a group: \<open>xmtp_mls_common/src/group_mutable_metadata.rs\<close> and \<open>group.rs\<close>.

  The attributes are a hash map from field names to text. Groups that were migrated keep the values
  as components of the dictionary; they are laid over an empty record in the strict or in the lossy
  way. The source updates the record in place; as every caller of the strict way drops it on an
  error, the model returns it only on success. The reasons carried by errors are diagnostic text and
  left out.
\<close>

section \<open>The record\<close>

datatype gmm_error =
    GmmSerialization
  | GmmDeserialization
  | MissingExtension
  | NonMutableExtensionUpdate
  | TooManyUpdates
  | NoUpdates
  | MissingMetadataField
  | MalformedComponent "component_id option"

record message_disappearing_settings =
  from_ns :: i64
  in_ns :: i64

definition settings_is_enabled :: "message_disappearing_settings \<Rightarrow> bool" where
  "settings_is_enabled s \<longleftrightarrow> 0 <s from_ns s \<and> 0 <s in_ns s"

record group_metadata_options =
  opt_name :: "string option"
  opt_image_url_square :: "string option"
  opt_description :: "string option"
  opt_disappearing :: "message_disappearing_settings option"
  opt_app_data :: "string option"

record group_mutable_metadata =
  gmm_attributes :: "(string, string) hash_map"
  gmm_admin_list :: "string list"
  gmm_super_admin_list :: "string list"

definition set_attribute :: "metadata_field \<Rightarrow> string \<Rightarrow> (string, string) hash_map \<Rightarrow> (string, string) hash_map" where
  "set_attribute f v a = hm_insert (=) (field_str f) v a"

definition disappearing_attributes ::
    "message_disappearing_settings option \<Rightarrow> (string, string) hash_map \<Rightarrow> (string, string) hash_map" where
  "disappearing_attributes settings a =
     (case settings of
        None \<Rightarrow> a
      | Some s \<Rightarrow> set_attribute MessageDisappearInNS (show_i64 (in_ns s))
                   (set_attribute MessageDisappearFromNS (show_i64 (from_ns s)) a))"

definition signer_attribute :: "id_crypto \<Rightarrow> bytes option \<Rightarrow> (string, string) hash_map \<Rightarrow> (string, string) hash_map" where
  "signer_attribute H secret a =
     (case secret of None \<Rightarrow> a | Some s \<Rightarrow> set_attribute CommitLogSigner (hex_encode H s) a)"

definition unwrap_or :: "'a option \<Rightarrow> 'a \<Rightarrow> 'a" where
  "unwrap_or x d = (case x of None \<Rightarrow> d | Some v \<Rightarrow> v)"

definition gmm_new_default ::
    "id_crypto \<Rightarrow> string \<Rightarrow> bytes option \<Rightarrow> group_metadata_options \<Rightarrow> group_mutable_metadata" where
  "gmm_new_default H creator_inbox_id commit_log_signer opts =
     \<lparr> gmm_attributes =
         signer_attribute H commit_log_signer
          (disappearing_attributes (opt_disappearing opts)
            (set_attribute AppData (unwrap_or (opt_app_data opts) '''')
              (set_attribute GroupImageUrlSquare (unwrap_or (opt_image_url_square opts) '''')
                (set_attribute Description (unwrap_or (opt_description opts) '''')
                  (set_attribute GroupName (unwrap_or (opt_name opts) '''') []))))),
       gmm_admin_list = [],
       gmm_super_admin_list = [creator_inbox_id] \<rparr>"

definition gmm_new_dm_default ::
    "id_crypto \<Rightarrow> bytes option \<Rightarrow> message_disappearing_settings option \<Rightarrow> group_mutable_metadata" where
  "gmm_new_dm_default H commit_log_signer settings =
     \<lparr> gmm_attributes =
         signer_attribute H commit_log_signer
          (disappearing_attributes settings
            (set_attribute GroupImageUrlSquare ''''
              (set_attribute Description '''' (set_attribute GroupName '''' [])))),
       gmm_admin_list = [],
       gmm_super_admin_list = [] \<rparr>"

definition gmm_is_admin :: "group_mutable_metadata \<Rightarrow> string \<Rightarrow> bool" where
  "gmm_is_admin m inbox_id \<longleftrightarrow> inbox_id \<in> set (gmm_admin_list m)"

definition gmm_is_super_admin :: "group_mutable_metadata \<Rightarrow> string \<Rightarrow> bool" where
  "gmm_is_super_admin m inbox_id \<longleftrightarrow> inbox_id \<in> set (gmm_super_admin_list m)"

definition gmm_attribute :: "group_mutable_metadata \<Rightarrow> metadata_field \<Rightarrow> string option" where
  "gmm_attribute m f = hm_get (=) (gmm_attributes m) (field_str f)"

definition gmm_commit_log_signer :: "id_crypto \<Rightarrow> group_mutable_metadata \<Rightarrow> bytes option" where
  "gmm_commit_log_signer H m = Option.bind (gmm_attribute m CommitLogSigner) (hex_decode H)"

section \<open>The legacy extension\<close>

definition gmm_to_bytes :: "'v app_libs \<Rightarrow> group_mutable_metadata \<Rightarrow> (gmm_error, bytes) result" where
  "gmm_to_bytes L m =
     ok_or (gmm_encode L \<lparr> pg_attributes = gmm_attributes m, pg_admin_list = Some (gmm_admin_list m),
                           pg_super_admin_list = Some (gmm_super_admin_list m) \<rparr>) GmmSerialization"

definition gmm_from_proto :: "gmm_proto \<Rightarrow> (gmm_error, group_mutable_metadata) result" where
  "gmm_from_proto p =
     rbind (ok_or (pg_admin_list p) MissingMetadataField) (\<lambda>admin_list.
     rbind (ok_or (pg_super_admin_list p) MissingMetadataField) (\<lambda>super_admin_list.
     Ok \<lparr> gmm_attributes = pg_attributes p, gmm_admin_list = admin_list, gmm_super_admin_list = super_admin_list \<rparr>))"

definition gmm_from_bytes :: "'v app_libs \<Rightarrow> bytes \<Rightarrow> (gmm_error, group_mutable_metadata) result" where
  "gmm_from_bytes L bs = rbind (ok_or (gmm_decode L bs) GmmDeserialization) gmm_from_proto"

definition find_mutable_metadata_extension :: "extensions \<Rightarrow> bytes option" where
  "find_mutable_metadata_extension x = find_extension MUTABLE_METADATA_EXTENSION_ID x"

definition gmm_from_extensions :: "'v app_libs \<Rightarrow> extensions \<Rightarrow> (gmm_error, group_mutable_metadata) result" where
  "gmm_from_extensions L x = rbind (ok_or (find_mutable_metadata_extension x) MissingExtension) (gmm_from_bytes L)"

section \<open>The components of the dictionary\<close>

definition METADATA_FIELD_COMPONENT_MAP :: "(metadata_field \<times> component_id) list" where
  "METADATA_FIELD_COMPONENT_MAP =
     [(GroupName, GROUP_NAME), (Description, GROUP_DESCRIPTION), (GroupImageUrlSquare, GROUP_IMAGE_URL),
      (MessageDisappearFromNS, MESSAGE_DISAPPEAR_FROM_NS), (MessageDisappearInNS, MESSAGE_DISAPPEAR_IN_NS),
      (MinimumSupportedProtocolVersion, MIN_SUPPORTED_PROTOCOL_VERSION), (CommitLogSigner, COMMIT_LOG_SIGNER),
      (AppData, APP_DATA)]"

definition metadata_field_to_component_id :: "string \<Rightarrow> component_id option" where
  "metadata_field_to_component_id name =
     map_option snd (find (\<lambda>(f, _). field_str f = name) METADATA_FIELD_COMPONENT_MAP)"

definition component_id_to_metadata_field :: "component_id \<Rightarrow> metadata_field option" where
  "component_id_to_metadata_field i = map_option fst (find (\<lambda>(_, c). c = i) METADATA_FIELD_COMPONENT_MAP)"

definition decode_metadata_component :: "'v app_libs \<Rightarrow> component_id \<Rightarrow> bytes \<Rightarrow> (gmm_error, string) result" where
  "decode_metadata_component L i bs =
     (if i = MESSAGE_DISAPPEAR_FROM_NS \<or> i = MESSAGE_DISAPPEAR_IN_NS then
        rbind (ok_or (i64_from_be_bytes bs) (MalformedComponent (Some i))) (\<lambda>n. Ok (show_i64 n))
      else if i = COMMIT_LOG_SIGNER then Ok (hex_encode (al_hex L) bs)
      else ok_or (from_utf8 bs) (MalformedComponent (Some i)))"

definition decode_inbox_id_list :: "'v app_libs \<Rightarrow> component_id \<Rightarrow> bytes \<Rightarrow> (gmm_error, string list) result" where
  "decode_inbox_id_list L i bs =
     rbind (map_err (\<lambda>_. MalformedComponent (Some i)) (tls_deserialize_exact (inbox_set_codec L) bs)) (\<lambda>s.
     Ok (map (InboxId_to_hex (hex_encode (al_hex L))) (TlsSet_iter s)))"

fun merge_fields ::
    "'v app_libs \<Rightarrow> app_dict \<Rightarrow> (metadata_field \<times> component_id) list \<Rightarrow> group_mutable_metadata \<Rightarrow>
     (gmm_error, group_mutable_metadata) result" where
  "merge_fields L d [] base = Ok base"
| "merge_fields L d ((f, i) # rest) base =
     (case d i of
        None \<Rightarrow> merge_fields L d rest base
      | Some bs \<Rightarrow>
          rbind (decode_metadata_component L i bs) (\<lambda>v.
          merge_fields L d rest (base\<lparr> gmm_attributes := set_attribute f v (gmm_attributes base) \<rparr>)))"

definition merge_list ::
    "'v app_libs \<Rightarrow> app_dict \<Rightarrow> component_id \<Rightarrow> string list \<Rightarrow> (gmm_error, string list) result" where
  "merge_list L d i old = (case d i of None \<Rightarrow> Ok old | Some bs \<Rightarrow> decode_inbox_id_list L i bs)"

definition merge_dict_into_mutable_metadata ::
    "'v app_libs \<Rightarrow> group_mutable_metadata \<Rightarrow> extensions \<Rightarrow> (gmm_error, group_mutable_metadata) result" where
  "merge_dict_into_mutable_metadata L base x =
     (case app_data_dictionary x of
        None \<Rightarrow> Ok base
      | Some d \<Rightarrow>
          rbind (merge_fields L d METADATA_FIELD_COMPONENT_MAP base) (\<lambda>m.
          rbind (merge_list L d ADMIN_LIST (gmm_admin_list m)) (\<lambda>admins.
          rbind (merge_list L d SUPER_ADMIN_LIST (gmm_super_admin_list m)) (\<lambda>supers.
          Ok (m\<lparr> gmm_admin_list := admins, gmm_super_admin_list := supers \<rparr>)))))"

fun merge_fields_lossy ::
    "'v app_libs \<Rightarrow> app_dict \<Rightarrow> (metadata_field \<times> component_id) list \<Rightarrow> group_mutable_metadata \<Rightarrow> gmm_error list \<Rightarrow>
     group_mutable_metadata \<times> gmm_error list" where
  "merge_fields_lossy L d [] base es = (base, es)"
| "merge_fields_lossy L d ((f, i) # rest) base es =
     (case d i of
        None \<Rightarrow> merge_fields_lossy L d rest base es
      | Some bs \<Rightarrow>
          (case decode_metadata_component L i bs of
             Ok v \<Rightarrow> merge_fields_lossy L d rest (base\<lparr> gmm_attributes := set_attribute f v (gmm_attributes base) \<rparr>) es
           | Err e \<Rightarrow> merge_fields_lossy L d rest base (es @ [e])))"

definition merge_list_lossy ::
    "'v app_libs \<Rightarrow> app_dict \<Rightarrow> component_id \<Rightarrow> string list \<Rightarrow> gmm_error list \<Rightarrow> string list \<times> gmm_error list" where
  "merge_list_lossy L d i old es =
     (case d i of
        None \<Rightarrow> (old, es)
      | Some bs \<Rightarrow> (case decode_inbox_id_list L i bs of Ok ids \<Rightarrow> (ids, es) | Err e \<Rightarrow> (old, es @ [e])))"

definition merge_dict_into_mutable_metadata_lossy ::
    "'v app_libs \<Rightarrow> group_mutable_metadata \<Rightarrow> extensions \<Rightarrow> group_mutable_metadata \<times> gmm_error list" where
  "merge_dict_into_mutable_metadata_lossy L base x =
     (case app_data_dictionary x of
        None \<Rightarrow> (base, [])
      | Some d \<Rightarrow>
          (case merge_fields_lossy L d METADATA_FIELD_COMPONENT_MAP base [] of (m, es) \<Rightarrow>
           (case merge_list_lossy L d ADMIN_LIST (gmm_admin_list m) es of (admins, es1) \<Rightarrow>
            (case merge_list_lossy L d SUPER_ADMIN_LIST (gmm_super_admin_list m) es1 of (supers, es2) \<Rightarrow>
              (m\<lparr> gmm_admin_list := admins, gmm_super_admin_list := supers \<rparr>, es2)))))"

section \<open>The two ways of merging\<close>

lemma merge_fields_both:
  "case merge_fields_lossy L d fs base es of (m, es') \<Rightarrow>
     (\<exists>new. es' = es @ new \<and>
       (case merge_fields L d fs base of Ok m' \<Rightarrow> new = [] \<and> m' = m | Err e \<Rightarrow> \<exists>more. new = e # more))"
proof (induction L d fs base es rule: merge_fields_lossy.induct)
  case (2 L d f i rest base es)
  show ?case
  proof (cases "d i")
    case None
    with 2(1) show ?thesis by simp
  next
    case (Some bs)
    show ?thesis
    proof (cases "decode_metadata_component L i bs")
      case (Inl e)
      from 2(2) [OF Some Inl] Some Inl show ?thesis by (auto split: prod.splits)
    next
      case (Inr v)
      from 2(3) [OF Some Inr] Some Inr show ?thesis by simp
    qed
  qed
qed simp

text \<open>
  The two ways of reading the dictionary agree: the strict way succeeds exactly when the
  lossy way reports no error, with the same record; otherwise it fails with the first error the
  lossy way reports.
\<close>

theorem merge_lossy_agrees:
  "merge_dict_into_mutable_metadata L base x =
     (case merge_dict_into_mutable_metadata_lossy L base x of (m, es) \<Rightarrow> if es = [] then Ok m else Err (hd es))"
proof (cases "app_data_dictionary x")
  case None
  then show ?thesis
    by (simp add: merge_dict_into_mutable_metadata_def merge_dict_into_mutable_metadata_lossy_def)
next
  case (Some d)
  obtain m es where l: "merge_fields_lossy L d METADATA_FIELD_COMPONENT_MAP base [] = (m, es)" by force
  then have s: "case merge_fields L d METADATA_FIELD_COMPONENT_MAP base of
      Ok m' \<Rightarrow> es = [] \<and> m' = m | Err e \<Rightarrow> \<exists>more. es = e # more"
    using merge_fields_both [where L = L and d = d and fs = METADATA_FIELD_COMPONENT_MAP and base = base and es = "[]"] by simp
  show ?thesis
    unfolding merge_dict_into_mutable_metadata_def merge_dict_into_mutable_metadata_lossy_def Some option.case l
    using s by (auto simp: merge_list_def merge_list_lossy_def split: sum.splits prod.splits option.splits)
qed

end
