(* ===== verification/App_Components.thy ===== *)
theory App_Components
  imports Mutable_Metadata
begin

text \<open>
  The components of the application data dictionary and their dispatch:
  \<open>xmtp_mls_common/src/app_data/typed.rs\<close>, \<open>custom.rs\<close>, \<open>registry_table.rs\<close> and
  \<open>components/{metadata_attributes, inbox_id_set, tls_map_components, type_dispatch}.rs\<close>.

  A component is a record of the operations behind the trait object: applying an update payload to
  the stored bytes and expanding a proposal into the changes the policies judge. The functions the
  source writes once per key type are written once here. Diagnostic reasons inside errors are left
  out.

  The lemmas show that a client that knows a component and a client that only knows its registered
  type accept the same payloads with the same result, that what is accepted can be read back, and
  what an update of the registry can change.
\<close>

section \<open>Operations and errors\<close>

datatype app_data_update_operation = AdUpdate bytes | AdRemove

record expanded_component_change =
  xc_op :: component_op
  xc_value :: "bytes option"

datatype component_typed_error =
    TImmutableUpdate component_id
  | TMismatchedMutation component_id
  | TMalformedValue component_id
  | TInvalidInboxId inbox_id_error
  | TTlsCodec codec_error
  | TTlsSetApply tls_set_error
  | TTlsMapApply tls_map_error
  | TUnspecifiedType component_id
  | TRegistryMutation component_registry_error

datatype component_invariant_error = InvariantViolation component_id

record erased_component =
  er_id :: component_id
  er_component_type :: component_type
  er_apply_update_payload :: "bytes \<Rightarrow> bytes option \<Rightarrow> (component_typed_error, bytes) result"
  er_expand_to_changes :: "app_data_update_operation \<Rightarrow> bytes option \<Rightarrow>
    (component_typed_error, expanded_component_change list) result"
  er_validate_invariant :: "component_change \<Rightarrow> component_registry \<Rightarrow> (component_invariant_error, unit) result"

text \<open>The default of the trait.\<close>

definition no_invariant :: "component_change \<Rightarrow> component_registry \<Rightarrow> (component_invariant_error, unit) result" where
  "no_invariant change registry = Ok ()"

section \<open>Text, integers and keys\<close>

definition apply_passthrough :: "bytes \<Rightarrow> (component_typed_error, bytes) result" where
  "apply_passthrough payload = Ok payload"

fun expand_passthrough :: "app_data_update_operation \<Rightarrow> (component_typed_error, expanded_component_change list) result" where
  "expand_passthrough (AdUpdate payload) = Ok [\<lparr> xc_op = OpUpdate, xc_value = Some payload \<rparr>]"
| "expand_passthrough AdRemove = Ok [\<lparr> xc_op = OpDelete, xc_value = None \<rparr>]"

definition decode_utf8 :: "component_id \<Rightarrow> bytes \<Rightarrow> (component_typed_error, string) result" where
  "decode_utf8 i bs = ok_or (from_utf8 bs) (TMalformedValue i)"

definition decode_be_i64 :: "component_id \<Rightarrow> bytes \<Rightarrow> (component_typed_error, i64) result" where
  "decode_be_i64 i bs = ok_or (i64_from_be_bytes bs) (TMalformedValue i)"

definition require_exact_len :: "component_id \<Rightarrow> bytes \<Rightarrow> nat \<Rightarrow> (component_typed_error, unit) result" where
  "require_exact_len i bs expected = (if length bs \<noteq> expected then Err (TMalformedValue i) else Ok ())"

definition ED25519_KEY_LENGTH :: nat where "ED25519_KEY_LENGTH = 32"

definition passthrough_string_component :: "component_id \<Rightarrow> erased_component" where
  "passthrough_string_component i =
     \<lparr> er_id = i, er_component_type = TyString,
       er_apply_update_payload = (\<lambda>payload _. rbind (decode_utf8 i payload) (\<lambda>_. apply_passthrough payload)),
       er_expand_to_changes = (\<lambda>op _. case op of
           AdUpdate payload \<Rightarrow> rbind (decode_utf8 i payload) (\<lambda>_. expand_passthrough op)
         | AdRemove \<Rightarrow> expand_passthrough op),
       er_validate_invariant = no_invariant \<rparr>"

definition be_i64_component :: "component_id \<Rightarrow> erased_component" where
  "be_i64_component i =
     \<lparr> er_id = i, er_component_type = TyBytes,
       er_apply_update_payload = (\<lambda>payload _. rbind (decode_be_i64 i payload) (\<lambda>_. Ok payload)),
       er_expand_to_changes = (\<lambda>op _. case op of
           AdUpdate payload \<Rightarrow> rbind (decode_be_i64 i payload) (\<lambda>_. Ok [\<lparr> xc_op = OpUpdate, xc_value = Some payload \<rparr>])
         | AdRemove \<Rightarrow> Ok [\<lparr> xc_op = OpDelete, xc_value = None \<rparr>]),
       er_validate_invariant = no_invariant \<rparr>"

definition CommitLogSignerComponent :: erased_component where
  "CommitLogSignerComponent =
     \<lparr> er_id = COMMIT_LOG_SIGNER, er_component_type = TyBytes,
       er_apply_update_payload = (\<lambda>payload _.
         rbind (require_exact_len COMMIT_LOG_SIGNER payload ED25519_KEY_LENGTH) (\<lambda>_. Ok payload)),
       er_expand_to_changes = (\<lambda>op _. case op of
           AdUpdate payload \<Rightarrow>
             rbind (require_exact_len COMMIT_LOG_SIGNER payload ED25519_KEY_LENGTH) (\<lambda>_.
             Ok [\<lparr> xc_op = OpUpdate, xc_value = Some payload \<rparr>])
         | AdRemove \<Rightarrow> Ok [\<lparr> xc_op = OpDelete, xc_value = None \<rparr>]),
       er_validate_invariant = no_invariant \<rparr>"

section \<open>Sets\<close>

definition apply_set_delta ::
    "(bytes \<Rightarrow> bytes) \<Rightarrow> 'k::linorder codec \<Rightarrow> 'k key_vecs \<Rightarrow> bytes \<Rightarrow> bytes option \<Rightarrow> (component_typed_error, bytes) result" where
  "apply_set_delta sha K V payload prior =
     rbind (map_err TTlsCodec (tls_deserialize_exact (TlsSetDelta_codec (vec_set_mutation V) K) payload)) (\<lambda>delta.
     rbind (case prior of
              Some bs \<Rightarrow> map_err TTlsCodec (tls_deserialize_exact (TlsSet_codec (vec_set_entry V) K) bs)
            | None \<Rightarrow> Ok TlsSet_new) (\<lambda>set.
     case TlsSet_apply_delta (TlsKeyHash_of sha K) set delta of
       (Err e, _) \<Rightarrow> Err (TTlsSetApply e)
     | (Ok _, s) \<Rightarrow> map_err TTlsCodec (tls_serialize (TlsSet_codec (vec_set_entry V) K) s)))"

fun index_error :: "tls_set_error \<Rightarrow> component_typed_error" where
  "index_error (SetCodec e) = TTlsCodec e"
| "index_error e = TTlsSetApply e"

fun expand_set_mutation ::
    "('k \<Rightarrow> bytes) \<Rightarrow> (bytes \<times> 'k) list option \<Rightarrow> 'k tls_set_mutation \<Rightarrow> expanded_component_change" where
  "expand_set_mutation raw idx (SInsert k) = \<lparr> xc_op = OpInsert, xc_value = Some (raw k) \<rparr>"
| "expand_set_mutation raw idx (SRemove k) = \<lparr> xc_op = OpDelete, xc_value = Some (raw k) \<rparr>"
| "expand_set_mutation raw idx (SRemoveByHash target) =
     \<lparr> xc_op = OpDelete, xc_value = map_option raw (Option.bind idx (\<lambda>m. map_of m target)) \<rparr>"

definition expand_set_changes ::
    "(bytes \<Rightarrow> bytes) \<Rightarrow> 'k::linorder codec \<Rightarrow> 'k key_vecs \<Rightarrow> ('k \<Rightarrow> bytes) \<Rightarrow> app_data_update_operation \<Rightarrow> bytes option \<Rightarrow>
     (component_typed_error, expanded_component_change list) result" where
  "expand_set_changes sha K V raw op prior =
     (case op of
        AdRemove \<Rightarrow> Ok [\<lparr> xc_op = OpDelete, xc_value = None \<rparr>]
      | AdUpdate payload \<Rightarrow>
          rbind (map_err TTlsCodec (tls_deserialize_exact (TlsSetDelta_codec (vec_set_mutation V) K) payload)) (\<lambda>delta.
          rbind (if list_ex is_by_hash (set_mutations delta) then
                   (case prior of
                      Some bs \<Rightarrow>
                        rbind (map_err TTlsCodec (tls_deserialize_exact (TlsSet_codec (vec_set_entry V) K) bs)) (\<lambda>prior_set.
                        rbind (map_err index_error (build_hash_index (TlsKeyHash_of sha K) (TlsSet_iter prior_set) [])) (\<lambda>idx.
                        Ok (Some idx)))
                    | None \<Rightarrow> Ok None)
                 else Ok None) (\<lambda>hash_index.
          Ok (map (expand_set_mutation raw hash_index) (set_mutations delta)))))"

definition apply_inbox_id_set_delta :: "'v app_libs \<Rightarrow> bytes \<Rightarrow> bytes option \<Rightarrow> (component_typed_error, bytes) result" where
  "apply_inbox_id_set_delta L payload prior =
     apply_set_delta (sha256_array L) (InboxId_codec (al_vlen L)) (inbox_vecs L) payload prior"

definition expand_inbox_id_set_changes ::
    "'v app_libs \<Rightarrow> app_data_update_operation \<Rightarrow> bytes option \<Rightarrow>
     (component_typed_error, expanded_component_change list) result" where
  "expand_inbox_id_set_changes L op prior =
     expand_set_changes (sha256_array L) (InboxId_codec (al_vlen L)) (inbox_vecs L) InboxId_as_bytes op prior"

definition apply_bytes_set_delta :: "'v app_libs \<Rightarrow> bytes \<Rightarrow> bytes option \<Rightarrow> (component_typed_error, bytes) result" where
  "apply_bytes_set_delta L payload prior =
     apply_set_delta (sha256_array L) (al_vlbytes L) (bytes_vecs L) payload prior"

definition expand_bytes_set_changes ::
    "'v app_libs \<Rightarrow> app_data_update_operation \<Rightarrow> bytes option \<Rightarrow>
     (component_typed_error, expanded_component_change list) result" where
  "expand_bytes_set_changes L op prior =
     expand_set_changes (sha256_array L) (al_vlbytes L) (bytes_vecs L) id op prior"

definition inbox_id_set_component :: "'v app_libs \<Rightarrow> component_id \<Rightarrow> erased_component" where
  "inbox_id_set_component L i =
     \<lparr> er_id = i, er_component_type = TyTlsSetInboxId,
       er_apply_update_payload = apply_inbox_id_set_delta L,
       er_expand_to_changes = expand_inbox_id_set_changes L,
       er_validate_invariant = no_invariant \<rparr>"

section \<open>Maps\<close>

definition apply_tls_map_delta ::
    "bytes codec \<Rightarrow> 'k::linorder codec \<Rightarrow> 'k key_vecs \<Rightarrow> bytes \<Rightarrow> bytes option \<Rightarrow> (component_typed_error, bytes) result" where
  "apply_tls_map_delta B K V payload prior =
     rbind (map_err TTlsCodec (tls_deserialize_exact (TlsMapDelta_codec (vec_map_mutation V) K B) payload)) (\<lambda>delta.
     rbind (case prior of
              Some bs \<Rightarrow> map_err TTlsCodec (tls_deserialize_exact (TlsMap_codec (vec_map_entry V) K B) bs)
            | None \<Rightarrow> Ok TlsMap_new) (\<lambda>m.
     case TlsMap_apply_delta m delta of
       (Err e, _) \<Rightarrow> Err (TTlsMapApply e)
     | (Ok _, m') \<Rightarrow> map_err TTlsCodec (tls_serialize (TlsMap_codec (vec_map_entry V) K B) m')))"

fun expand_map_mutation :: "'k codec \<Rightarrow> ('k, bytes) tls_map_mutation \<Rightarrow> (component_typed_error, expanded_component_change) result" where
  "expand_map_mutation K (MInsert k v) = Ok \<lparr> xc_op = OpInsert, xc_value = Some v \<rparr>"
| "expand_map_mutation K (MUpdate k v) = Ok \<lparr> xc_op = OpUpdate, xc_value = Some v \<rparr>"
| "expand_map_mutation K (MDelete k) =
     rbind (map_err TTlsCodec (tls_serialize K k)) (\<lambda>key_bytes. Ok \<lparr> xc_op = OpDelete, xc_value = Some key_bytes \<rparr>)"

definition expand_decoded_tls_map_delta ::
    "'k codec \<Rightarrow> ('k, bytes) tls_map_delta \<Rightarrow> (component_typed_error, expanded_component_change list) result" where
  "expand_decoded_tls_map_delta K delta = try_map (expand_map_mutation K) (mutations delta)"

definition expand_tls_map_changes ::
    "bytes codec \<Rightarrow> 'k codec \<Rightarrow> 'k key_vecs \<Rightarrow> app_data_update_operation \<Rightarrow> bytes option \<Rightarrow>
     (component_typed_error, expanded_component_change list) result" where
  "expand_tls_map_changes B K V op prior =
     (case op of
        AdRemove \<Rightarrow> Ok [\<lparr> xc_op = OpDelete, xc_value = None \<rparr>]
      | AdUpdate payload \<Rightarrow>
          rbind (map_err TTlsCodec (tls_deserialize_exact (TlsMapDelta_codec (vec_map_mutation V) K B) payload)) (\<lambda>delta.
          expand_decoded_tls_map_delta K delta))"

definition GroupMembershipComponent :: "'v app_libs \<Rightarrow> erased_component" where
  "GroupMembershipComponent L =
     \<lparr> er_id = GROUP_MEMBERSHIP, er_component_type = TyTlsMapInboxIdBytes,
       er_apply_update_payload = apply_tls_map_delta (al_vlbytes L) (InboxId_codec (al_vlen L)) (inbox_vecs L),
       er_expand_to_changes = expand_tls_map_changes (al_vlbytes L) (InboxId_codec (al_vlen L)) (inbox_vecs L),
       er_validate_invariant = no_invariant \<rparr>"

section \<open>The registry as a component\<close>

fun validate_registry_mutation :: "meta_codec \<Rightarrow> (component_id, bytes) tls_map_mutation \<Rightarrow> (component_typed_error, unit) result" where
  "validate_registry_mutation P (MInsert key v) = map_err TRegistryMutation (validate_entry P key v)"
| "validate_registry_mutation P (MUpdate key v) =
     rbind (map_err TRegistryMutation (validate_entry P key v)) (\<lambda>_.
     if is_immutable key then Err (TRegistryMutation (ImmutableComponent key)) else Ok ())"
| "validate_registry_mutation P (MDelete key) =
     (if \<not> is_in_component_space key then Err (TRegistryMutation (InvalidComponentId key))
      else if is_reserved key then Err (TRegistryMutation (ReservedRange key))
      else if is_hardcoded key then Err (TRegistryMutation (HardcodedComponent key))
      else if is_immutable key then Err (TRegistryMutation (ImmutableComponent key))
      else Ok ())"

definition validate_registry_delta ::
    "meta_codec \<Rightarrow> (component_id, bytes) tls_map_delta \<Rightarrow> (component_typed_error, unit) result" where
  "validate_registry_delta P delta = rbind (try_map (validate_registry_mutation P) (mutations delta)) (\<lambda>_. Ok ())"

definition registry_delta_codec :: "'v app_libs \<Rightarrow> (component_id, bytes) tls_map_delta codec" where
  "registry_delta_codec L = TlsMapDelta_codec (vec_map_mutation (component_vecs L)) (ComponentId_codec (al_vlen L)) (al_vlbytes L)"

definition registry_apply :: "'v app_libs \<Rightarrow> bytes \<Rightarrow> bytes option \<Rightarrow> (component_typed_error, bytes) result" where
  "registry_apply L payload prior =
     rbind (map_err TTlsCodec (tls_deserialize_exact (registry_delta_codec L) payload)) (\<lambda>delta.
     rbind (validate_registry_delta (al_meta L) delta) (\<lambda>_.
     rbind (case prior of
              Some bs \<Rightarrow> map_err TTlsCodec (tls_deserialize_exact (registry_codec L) bs)
            | None \<Rightarrow> Ok TlsMap_new) (\<lambda>m.
     case TlsMap_apply_delta m delta of
       (Err e, _) \<Rightarrow> Err (TTlsMapApply e)
     | (Ok _, m') \<Rightarrow> map_err TTlsCodec (tls_serialize (registry_codec L) m'))))"

definition registry_expand ::
    "'v app_libs \<Rightarrow> app_data_update_operation \<Rightarrow> bytes option \<Rightarrow>
     (component_typed_error, expanded_component_change list) result" where
  "registry_expand L op prior =
     (case op of
        AdRemove \<Rightarrow> Err (TRegistryMutation (HardcodedComponent COMPONENT_REGISTRY))
      | AdUpdate payload \<Rightarrow>
          rbind (map_err TTlsCodec (tls_deserialize_exact (registry_delta_codec L) payload)) (\<lambda>delta.
          rbind (validate_registry_delta (al_meta L) delta) (\<lambda>_.
          expand_decoded_tls_map_delta (ComponentId_codec (al_vlen L)) delta)))"

definition ComponentRegistryComponent :: "'v app_libs \<Rightarrow> erased_component" where
  "ComponentRegistryComponent L =
     \<lparr> er_id = COMPONENT_REGISTRY, er_component_type = TyTlsMapBytesBytes,
       er_apply_update_payload = registry_apply L,
       er_expand_to_changes = registry_expand L,
       er_validate_invariant = no_invariant \<rparr>"

section \<open>Components registered at run time\<close>

datatype runtime_registration_error = OutOfRange component_id | AlreadyRegistered component_id

type_synonym runtime_registry = "(component_id, erased_component) hash_map"

definition runtime_register ::
    "runtime_registry \<Rightarrow> erased_component \<Rightarrow> (runtime_registration_error, runtime_registry) result" where
  "runtime_register R c =
     (let i = er_id c in
      if \<not> is_app_range i then Err (OutOfRange i)
      else if hm_get (=) R i \<noteq> None then Err (AlreadyRegistered i)
      else Ok (hm_insert (=) i c R))"

definition lookup_runtime_component :: "runtime_registry \<Rightarrow> component_id \<Rightarrow> erased_component option" where
  "lookup_runtime_component R i = (if \<not> is_app_range i then None else hm_get (=) R i)"

section \<open>Dispatch\<close>

definition WELL_KNOWN :: "'v app_libs \<Rightarrow> (component_id \<times> erased_component) list" where
  "WELL_KNOWN L =
     [(COMPONENT_REGISTRY, ComponentRegistryComponent L),
      (SUPER_ADMIN_LIST, inbox_id_set_component L SUPER_ADMIN_LIST),
      (ADMIN_LIST, inbox_id_set_component L ADMIN_LIST),
      (GROUP_MEMBERSHIP, GroupMembershipComponent L),
      (GROUP_NAME, passthrough_string_component GROUP_NAME),
      (GROUP_DESCRIPTION, passthrough_string_component GROUP_DESCRIPTION),
      (GROUP_IMAGE_URL, passthrough_string_component GROUP_IMAGE_URL),
      (MESSAGE_DISAPPEAR_FROM_NS, be_i64_component MESSAGE_DISAPPEAR_FROM_NS),
      (MESSAGE_DISAPPEAR_IN_NS, be_i64_component MESSAGE_DISAPPEAR_IN_NS),
      (APP_DATA, passthrough_string_component APP_DATA),
      (MIN_SUPPORTED_PROTOCOL_VERSION, passthrough_string_component MIN_SUPPORTED_PROTOCOL_VERSION),
      (COMMIT_LOG_SIGNER, CommitLogSignerComponent),
      (DM_MEMBERS, inbox_id_set_component L DM_MEMBERS)]"

definition lookup_component :: "'v app_libs \<Rightarrow> runtime_registry \<Rightarrow> component_id \<Rightarrow> erased_component option" where
  "lookup_component L R i =
     (if is_xmtp_range i then
        (case binary_search_by (\<lambda>p. cmp (fst p) i) (WELL_KNOWN L) of
           Ok idx \<Rightarrow> Some (snd (WELL_KNOWN L ! idx))
         | Err _ \<Rightarrow> None)
      else if is_app_range i then lookup_runtime_component R i
      else None)"

fun attach_component_id :: "component_id \<Rightarrow> component_typed_error \<Rightarrow> component_typed_error" where
  "attach_component_id i (TTlsCodec _) = TMalformedValue i"
| "attach_component_id i e = e"

definition apply_update_payload_for_type ::
    "'v app_libs \<Rightarrow> component_id \<Rightarrow> component_type \<Rightarrow> bytes \<Rightarrow> bytes option \<Rightarrow> (component_typed_error, bytes) result" where
  "apply_update_payload_for_type L i ty payload prior =
     map_err (attach_component_id i)
      (case ty of
         TyBytes \<Rightarrow> apply_passthrough payload
       | TyString \<Rightarrow> rbind (decode_utf8 i payload) (\<lambda>_. apply_passthrough payload)
       | TyTlsSetInboxId \<Rightarrow> apply_inbox_id_set_delta L payload prior
       | TyTlsSetBytes \<Rightarrow> apply_bytes_set_delta L payload prior
       | TyTlsMapInboxIdBytes \<Rightarrow> apply_tls_map_delta (al_vlbytes L) (InboxId_codec (al_vlen L)) (inbox_vecs L) payload prior
       | TyTlsMapBytesBytes \<Rightarrow> apply_tls_map_delta (al_vlbytes L) (al_vlbytes L) (bytes_vecs L) payload prior
       | TyUnspecified \<Rightarrow> Err (TUnspecifiedType i))"

definition expand_to_changes_for_type ::
    "'v app_libs \<Rightarrow> component_id \<Rightarrow> component_type \<Rightarrow> app_data_update_operation \<Rightarrow> bytes option \<Rightarrow>
     (component_typed_error, expanded_component_change list) result" where
  "expand_to_changes_for_type L i ty op prior =
     map_err (attach_component_id i)
      (case ty of
         TyBytes \<Rightarrow> expand_passthrough op
       | TyString \<Rightarrow>
           (case op of
              AdUpdate payload \<Rightarrow> rbind (decode_utf8 i payload) (\<lambda>_. expand_passthrough op)
            | AdRemove \<Rightarrow> expand_passthrough op)
       | TyTlsSetInboxId \<Rightarrow> expand_inbox_id_set_changes L op prior
       | TyTlsSetBytes \<Rightarrow> expand_bytes_set_changes L op prior
       | TyTlsMapInboxIdBytes \<Rightarrow> expand_tls_map_changes (al_vlbytes L) (InboxId_codec (al_vlen L)) (inbox_vecs L) op prior
       | TyTlsMapBytesBytes \<Rightarrow> expand_tls_map_changes (al_vlbytes L) (al_vlbytes L) (bytes_vecs L) op prior
       | TyUnspecified \<Rightarrow> Err (TUnspecifiedType i))"

section \<open>Finding a component\<close>

lemma binary_search_map_of:
  assumes "sorted_wrt (<) (map fst xs)"
  shows "(case binary_search_by (\<lambda>p. cmp (fst p) k) xs of Ok idx \<Rightarrow> Some (snd (xs ! idx)) | Err _ \<Rightarrow> None) = map_of xs k"
proof -
  have d: "distinct (map fst xs)" using assms strict_sorted_iff by blast
  show ?thesis
  proof (cases "binary_search_by (\<lambda>p. cmp (fst p) k) xs")
    case (Inr i)
    then have "i < length xs" "fst (xs ! i) = k" using binary_search_sorted [OF assms, of k] by simp_all
    then have "map_of xs k = Some (snd (xs ! i))"
      using d by (metis map_of_eq_Some_iff nth_mem prod.collapse)
    with Inr show ?thesis by simp
  next
    case (Inl i)
    then have "\<And>j. j < length xs \<Longrightarrow> fst (xs ! j) \<noteq> k"
      using binary_search_sorted [OF assms, of k] by simp (metis linorder_not_less order_less_irrefl)
    then have "map_of xs k = None" by (auto simp: map_of_eq_None_iff in_set_conv_nth) (metis fst_conv)
    with Inl show ?thesis by simp
  qed
qed

lemma WELL_KNOWN_sorted: "sorted_wrt (<) (map fst (WELL_KNOWN L))"
  by (simp add: WELL_KNOWN_def component_id_defs)

lemma lookup_component_eq:
  "lookup_component L R i =
     (if is_xmtp_range i then map_of (WELL_KNOWN L) i else if is_app_range i then hm_get (=) R i else None)"
  unfolding lookup_component_def binary_search_map_of [OF WELL_KNOWN_sorted] lookup_runtime_component_def by simp

lemma known_in_xmtp_range: "i \<in> fst ` set (WELL_KNOWN L) \<Longrightarrow> is_xmtp_range i"
  by (auto simp: WELL_KNOWN_def is_xmtp_range_def component_id_defs)

lemma known_component_cases [consumes 2, case_names registry iset membership strings int key]:
  assumes "is_xmtp_range i" and "lookup_component L R i = Some c"
  obtains "i = COMPONENT_REGISTRY" and "c = ComponentRegistryComponent L"
  | "i \<in> {SUPER_ADMIN_LIST, ADMIN_LIST, DM_MEMBERS}" and "c = inbox_id_set_component L i"
  | "i = GROUP_MEMBERSHIP" and "c = GroupMembershipComponent L"
  | "i \<in> {GROUP_NAME, GROUP_DESCRIPTION, GROUP_IMAGE_URL, APP_DATA, MIN_SUPPORTED_PROTOCOL_VERSION}"
      and "c = passthrough_string_component i"
  | "i \<in> {MESSAGE_DISAPPEAR_FROM_NS, MESSAGE_DISAPPEAR_IN_NS}" and "c = be_i64_component i"
  | "i = COMMIT_LOG_SIGNER" and "c = CommitLogSignerComponent"
proof -
  have "(i, c) \<in> set (WELL_KNOWN L)"
    using assms by (auto simp: lookup_component_eq dest: map_of_SomeD)
  then show ?thesis using that unfolding WELL_KNOWN_def by auto
qed

lemmas component_defs = ComponentRegistryComponent_def inbox_id_set_component_def GroupMembershipComponent_def
  passthrough_string_component_def be_i64_component_def CommitLogSignerComponent_def

section \<open>Knowing the type is enough\<close>

lemma ok_opt_map_err [simp]: "ok_opt (map_err g r) = ok_opt r"
  by (cases r) (simp_all add: ok_opt_def)

text \<open>
  A client that does not know a component but finds its type in the registry agrees with
  one that does. For components of text, sets and maps both accept the same updates, with the same
  stored bytes and the same changes put before the policies. For the components stored as plain
  bytes (disappearing-message times and the commit log signer) whatever the knowing client accepts,
  the other accepts with the same result.
\<close>

theorem type_fallback_agrees:
  assumes "is_xmtp_range i" and "lookup_component L R i = Some c" and "i \<noteq> COMPONENT_REGISTRY"
  shows "(er_component_type c \<noteq> TyBytes \<longrightarrow>
      ok_opt (apply_update_payload_for_type L i (er_component_type c) payload prior) =
        ok_opt (er_apply_update_payload c payload prior) \<and>
      ok_opt (expand_to_changes_for_type L i (er_component_type c) op prior) = ok_opt (er_expand_to_changes c op prior)) \<and>
    (\<forall>v. er_apply_update_payload c payload prior = Ok v \<longrightarrow>
       apply_update_payload_for_type L i (er_component_type c) payload prior = Ok v) \<and>
    (\<forall>xs. er_expand_to_changes c op prior = Ok xs \<longrightarrow>
       expand_to_changes_for_type L i (er_component_type c) op prior = Ok xs)"
  using assms(1,2)
proof (cases rule: known_component_cases)
  case registry
  with assms(3) show ?thesis by simp
next
  case iset
  then show ?thesis
    by (simp add: component_defs apply_update_payload_for_type_def expand_to_changes_for_type_def)
next
  case membership
  then show ?thesis
    by (simp add: component_defs apply_update_payload_for_type_def expand_to_changes_for_type_def)
next
  case strings
  then show ?thesis
    by (simp add: component_defs apply_update_payload_for_type_def expand_to_changes_for_type_def)
next
  case int
  then show ?thesis
    by (auto simp: component_defs apply_update_payload_for_type_def expand_to_changes_for_type_def rbind_eq_Ok
        apply_passthrough_def split: app_data_update_operation.splits)
next
  case key
  then show ?thesis
    by (auto simp: component_defs apply_update_payload_for_type_def expand_to_changes_for_type_def rbind_eq_Ok
        apply_passthrough_def split: app_data_update_operation.splits)
qed

text \<open>What is accepted can be read.\<close>

lemma accepted_is_readable:
  assumes "(f, i) \<in> set METADATA_FIELD_COMPONENT_MAP" and "lookup_component L R i = Some c"
    and "er_apply_update_payload c payload prior = Ok v"
  shows "is_ok (decode_metadata_component L i v) \<and> v = payload"
proof -
  have "is_xmtp_range i"
    using assms(1) by (auto simp: METADATA_FIELD_COMPONENT_MAP_def is_xmtp_range_def component_id_defs)
  from this assms(2) show ?thesis
  proof (cases rule: known_component_cases)
    case strings
    with assms(3) show ?thesis
      by (auto simp: component_defs decode_utf8_def apply_passthrough_def rbind_eq_Ok decode_metadata_component_def
          component_id_defs is_ok_iff)
  next
    case int
    with assms(3) show ?thesis
      by (auto simp: component_defs decode_be_i64_def rbind_eq_Ok decode_metadata_component_def is_ok_iff)
  next
    case key
    with assms(3) show ?thesis
      by (auto simp: component_defs rbind_eq_Ok decode_metadata_component_def is_ok_iff component_id_defs)
  qed (use assms(1) in \<open>auto simp: METADATA_FIELD_COMPONENT_MAP_def component_id_defs\<close>)
qed

section \<open>Updates of the registry\<close>

definition registry_of :: "'v app_libs \<Rightarrow> bytes option \<Rightarrow> (codec_error, (component_id, bytes) tls_map) result" where
  "registry_of L prior = (case prior of None \<Rightarrow> Ok TlsMap_new | Some bs \<Rightarrow> tls_deserialize_exact (registry_codec L) bs)"

lemma registry_of_wf: "registry_of L prior = Ok m \<Longrightarrow> tm_wf m"
  by (auto simp: registry_of_def registry_codec_def tls_deserialize_exact_def rbind_eq_Ok tls_map_laws
      split: option.splits prod.splits if_splits dest: TlsMap_reads_sorted)

lemma case_applied_Ok:
  "(case p of (Err e, _) \<Rightarrow> Err (f e) | (Ok _, s) \<Rightarrow> g s) = Ok v \<longleftrightarrow> (\<exists>s. p = (Ok (), s) \<and> g s = Ok v)"
  by (cases p; cases "fst p") auto

lemma registry_apply_Ok:
  "registry_apply L payload prior = Ok v \<longleftrightarrow>
     (\<exists>delta m m'. tls_deserialize_exact (registry_delta_codec L) payload = Ok delta \<and>
        validate_registry_delta (al_meta L) delta = Ok () \<and> registry_of L prior = Ok m \<and>
        TlsMap_apply_delta m delta = (Ok (), m') \<and> tls_serialize (registry_codec L) m' = Ok v)"
proof -
  have prior: "(case prior of Some bs \<Rightarrow> map_err TTlsCodec (tls_deserialize_exact (registry_codec L) bs) | None \<Rightarrow> Ok TlsMap_new) =
      map_err TTlsCodec (registry_of L prior)"
    by (cases prior) (simp_all add: registry_of_def)
  show ?thesis
    unfolding registry_apply_def prior
    by (auto simp: rbind_eq_Ok case_applied_Ok)
qed

text \<open>What one accepted mutation may do to the entry of an id.\<close>

definition entry_step_ok :: "meta_codec \<Rightarrow> component_id \<Rightarrow> bytes option \<Rightarrow> bytes option \<Rightarrow> bool" where
  "entry_step_ok P i old new \<longleftrightarrow> new = old \<or>
     (is_in_component_space i \<and> \<not> is_reserved i \<and> \<not> is_hardcoded i \<and> (is_immutable i \<longrightarrow> old = None) \<and>
      (\<forall>raw. new = Some raw \<longrightarrow> is_ok (decode_recognized P i raw)))"

lemma mutation_step_ok:
  assumes "validate_registry_mutation P x = Ok ()" and "mutate x f = Ok g"
  shows "entry_step_ok P i (f i) (g i)"
  using assms
  by (cases x) (auto simp: entry_step_ok_def validate_entry_def rbind_eq_Ok is_ok_iff decode_recognized_Ok split: if_splits)

lemma entry_step_ok_trans:
  "entry_step_ok P i a b \<Longrightarrow> entry_step_ok P i b c \<Longrightarrow> entry_step_ok P i a c"
  by (auto simp: entry_step_ok_def)

lemma mutations_ok:
  "try_map (validate_registry_mutation P) ms = Ok us \<Longrightarrow> mutate_all ms f = Ok g \<Longrightarrow> entry_step_ok P i (f i) (g i)"
proof (induction ms arbitrary: f us)
  case Nil
  then show ?case by (simp add: entry_step_ok_def)
next
  case (Cons x ms)
  then obtain h us' where "mutate x f = Ok h" "mutate_all ms h = Ok g"
    and "validate_registry_mutation P x = Ok ()" "try_map (validate_registry_mutation P) ms = Ok us'"
    by (auto simp: rbind_eq_Ok)
  with Cons.IH [of us' h] show ?case by (auto intro: entry_step_ok_trans mutation_step_ok)
qed

text \<open>
  An update of the registry that is accepted changes only entries of ids outside the
  reserved range other than the hardcoded ones; what it writes can be read as metadata valid for its
  id; and it never changes or removes the entry of an immutable component. Entries it does not
  change keep their bytes.
\<close>

theorem registry_update_safe:
  assumes "registry_apply L payload prior = Ok v" and "registry_of L prior = Ok m"
  shows "\<exists>m'. tm_wf m' \<and> tls_serialize (registry_codec L) m' = Ok v \<and>
    (\<forall>i. tm_map m' i = tm_map m i \<or>
      is_in_component_space i \<and> \<not> is_reserved i \<and> \<not> is_hardcoded i \<and> (is_immutable i \<longrightarrow> tm_map m i = None) \<and>
      (\<forall>raw. tm_map m' i = Some raw \<longrightarrow> is_ok (decode_recognized (al_meta L) i raw)))"
proof -
  obtain delta m' where d: "validate_registry_delta (al_meta L) delta = Ok ()"
    and a: "TlsMap_apply_delta m delta = (Ok (), m')" and s: "tls_serialize (registry_codec L) m' = Ok v"
    using assms unfolding registry_apply_Ok by auto
  have wf: "tm_wf m'" and all: "mutate_all (mutations delta) (tm_map m) = Ok (tm_map m')"
    using map_delta_batch [OF registry_of_wf [OF assms(2)] a] by simp_all
  have "entry_step_ok (al_meta L) i (tm_map m i) (tm_map m' i)" for i
    using d all by (auto simp: validate_registry_delta_def rbind_eq_Ok intro: mutations_ok)
  with wf s show ?thesis unfolding entry_step_ok_def by blast
qed

section \<open>The wire format of the registry\<close>

text \<open>Component ids are written as variable-length integers, and read back as they were.\<close>

sublocale quic_vlen \<subseteq> component: nonempty_codec "ComponentId_codec W" "\<lambda>_. True"
proof
  fix i :: component_id and bs rest
  assume "tls_serialize (ComponentId_codec W) i = Ok bs"
  then have w: "write_length W (unat i) = Ok bs" by (simp add: ComponentId_codec_def)
  have "unat i \<le> 65535" using unsigned_less [of i, where ?'a = nat] by simp
  then show "tls_deserialize (ComponentId_codec W) (bs @ rest) = Ok (i, rest)"
    by (simp add: ComponentId_codec_def vlen_read_back [OF w])
  show "length bs = tls_serialized_len (ComponentId_codec W) i"
    by (simp add: ComponentId_codec_def w)
next
  fix i show "tls_serialize (ComponentId_codec W) i \<noteq> Ok []"
    using vlen_nonempty by (simp add: ComponentId_codec_def)
qed

interpretation registry_wire: tls_map_codecs "ComponentId_codec rfc9000" "\<lambda>_. True" "vl_bytes rfc9000" "\<lambda>_. True"
    "quic_vec rfc9000" "quic_vec rfc9000"
  by unfold_locales (rule rfc.quic_vec_lossless)+

section \<open>An instance of the libraries\<close>

definition rfc_vecs :: "'k key_vecs" where
  "rfc_vecs = \<lparr> vec_set_entry = quic_vec rfc9000, vec_set_mutation = quic_vec rfc9000,
     vec_map_entry = quic_vec rfc9000, vec_map_mutation = quic_vec rfc9000 \<rparr>"

definition hex_digit :: "nat \<Rightarrow> char" where
  "hex_digit n = char_of (if n < 10 then 48 + n else 87 + n)"

definition rfc_hex :: id_crypto where
  "rfc_hex = \<lparr> hex_encode = (\<lambda>bs. concat (map (\<lambda>b. [hex_digit (unat b div 16), hex_digit (unat b mod 16)]) bs)),
     hex_decode = (\<lambda>_. None), sha256_hex = id \<rparr>"

text \<open>Versions made of three digits and two dots; the order is that of the numbers.\<close>

definition toy_semver :: "string \<Rightarrow> nat option" where
  "toy_semver s =
     (if length s = 5 \<and> list_all (\<lambda>c. 48 \<le> (of_char c :: nat) \<and> of_char c \<le> (57 :: nat)) [s ! 0, s ! 2, s ! 4]
         \<and> s ! 1 = CHR ''.'' \<and> s ! 3 = CHR ''.''
      then Some ((of_char (s ! 0) - 48) * 100 + (of_char (s ! 2) - 48) * 10 + (of_char (s ! 4) - 48)) else None)"

definition rfc_libs :: "nat app_libs" where
  "rfc_libs = \<lparr> al_vlen = rfc9000, al_vlbytes = vl_bytes rfc9000, inbox_vecs = rfc_vecs, bytes_vecs = rfc_vecs,
     component_vecs = rfc_vecs, sha256_array = id, al_hex = rfc_hex, al_meta = demo_meta_codec,
     gmm_decode = (\<lambda>_. None), gmm_encode = (\<lambda>_. None), semver_parse = toy_semver \<rparr>"

theorem type_fallback_agrees_witness:
  "apply_update_payload_for_type rfc_libs GROUP_NAME TyString [0x68, 0x69] None = Ok [0x68, 0x69]"
proof -
  have l: "is_xmtp_range GROUP_NAME" by (simp add: is_xmtp_range_def component_id_defs)
  have c: "lookup_component rfc_libs [] GROUP_NAME = Some (passthrough_string_component GROUP_NAME)"
    by (simp add: lookup_component_eq is_xmtp_range_def WELL_KNOWN_def component_id_defs)
  have n: "GROUP_NAME \<noteq> COMPONENT_REGISTRY" by code_simp
  have "er_apply_update_payload (passthrough_string_component GROUP_NAME) [0x68, 0x69] None = Ok [0x68, 0x69]"
    by code_simp
  then show ?thesis
    using type_fallback_agrees [OF l c n, of "[0x68, 0x69]" None AdRemove] by (simp add: passthrough_string_component_def)
qed

text \<open>An update that registers \<open>APP_DATA\<close> in an empty registry.\<close>

definition demo_registry_payload :: bytes where
  "demo_registry_payload = [0x07, 0x00, 0x80, 0x00, 0x80, 0x09, 0x01, 0x07]"

lemma read_all_numeral:
  "read_all C (numeral n) (b # bs) =
     rbind (tls_deserialize C (b # bs)) (\<lambda>(x, rest). rbind (read_all C (pred_numeral n) rest) (\<lambda>xs. Ok (x # xs)))"
  by (simp add: numeral_eq_Suc)

lemma rfc_libs_sel [simp]:
  "al_vlen rfc_libs = rfc9000" "al_vlbytes rfc_libs = vl_bytes rfc9000" "inbox_vecs rfc_libs = rfc_vecs"
  "bytes_vecs rfc_libs = rfc_vecs" "component_vecs rfc_libs = rfc_vecs" "sha256_array rfc_libs = id"
  "al_meta rfc_libs = demo_meta_codec" "semver_parse rfc_libs = toy_semver" "al_hex rfc_libs = rfc_hex"
  by (simp_all add: rfc_libs_def)

lemmas rfc_codec_simps = registry_delta_codec_def registry_codec_def rfc_vecs_def TlsMapDelta_codec_def TlsMap_codec_def
  TlsMapMutation_codec_def TlsMapEntry_codec_def ComponentId_codec_def vl_bytes_def quic_vec_def rfc9000_def
  rfc9000_write_def tls_deserialize_exact_def Let_def read_all_numeral mutation_deserialize_def

lemma demo_payload_reads:
  "tls_deserialize_exact (registry_delta_codec rfc_libs) demo_registry_payload = Ok \<lparr> mutations = [MInsert APP_DATA [7]] \<rparr>"
  by (simp add: demo_registry_payload_def rfc_codec_simps component_id_defs)

lemma demo_payload_valid:
  "validate_registry_delta demo_meta_codec \<lparr> mutations = [MInsert APP_DATA [7]] \<rparr> = Ok ()"
  by (simp add: validate_registry_delta_def validate_entry_def decode_recognized_def range_defs component_id_defs
      demo_meta_codec_def demo_meta_def validate_metadata_def new_component_metadata_def component_permissions_def)

lemma demo_payload_applies:
  "TlsMap_apply_delta TlsMap_new \<lparr> mutations = [MInsert APP_DATA [7]] \<rparr> =
     (Ok (), \<lparr> entries = [\<lparr> e_key = APP_DATA, e_value = [7 :: u8] \<rparr>] \<rparr>)"
  by (simp add: TlsMap_apply_delta_def TlsMap_new_def TlsMap_insert_def binary_search_by_def vec_insert_def)

lemma demo_registry_writes:
  "tls_serialize (registry_codec rfc_libs) \<lparr> entries = [\<lparr> e_key = APP_DATA, e_value = [7] \<rparr>] \<rparr> =
     Ok [0x06, 0x80, 0x00, 0x80, 0x09, 0x01, 0x07]"
  by (simp add: rfc_codec_simps component_id_defs)

theorem registry_update_safe_witness:
  "\<exists>v m'. registry_apply rfc_libs demo_registry_payload None = Ok v \<and>
     tls_serialize (registry_codec rfc_libs) m' = Ok v \<and> tm_map m' COMPONENT_REGISTRY = None"
proof -
  have m: "registry_of rfc_libs None = Ok TlsMap_new" by (simp add: registry_of_def)
  then have v: "registry_apply rfc_libs demo_registry_payload None = Ok [0x06, 0x80, 0x00, 0x80, 0x09, 0x01, 0x07]"
    unfolding registry_apply_Ok using demo_payload_reads demo_payload_valid demo_payload_applies demo_registry_writes by auto
  obtain m' where "tls_serialize (registry_codec rfc_libs) m' = Ok [0x06, 0x80, 0x00, 0x80, 0x09, 0x01, 0x07]"
    and e: "tm_map m' COMPONENT_REGISTRY = tm_map TlsMap_new COMPONENT_REGISTRY \<or> \<not> is_hardcoded COMPONENT_REGISTRY"
    using registry_update_safe [OF v m] by blast
  moreover have "is_hardcoded COMPONENT_REGISTRY" by code_simp
  ultimately show ?thesis using v by (auto simp: tls_map_laws)
qed

end
