(* ===== verification/App_Data.thy ===== *)
theory App_Data
  imports App_Components
begin

text \<open>
  Application data of a group: \<open>xmtp_mls/src/groups/app_data/component_source.rs\<close>, \<open>mod.rs\<close>,
  \<open>policy.rs\<close> and the payloads of \<open>sender_intents.rs\<close>.

  A group is represented by the extensions of its context. The proposals of a commit are the list of
  component ids and operations it carries. The changes handed to the dictionary updater of OpenMLS
  are the sorted list of ids with their new bytes, or nothing for a removal; \<open>dict_after\<close> says what
  such a list does to a dictionary. The registry override of the test builds is left out.

  The lemmas show that the batch computed for a commit is what applying its proposals one after the
  other gives, that the validator's view of a component after the commit is that very result, that a
  client below the group's version floor interprets no commit, and that the membership policy read
  from the registry is never more permissive than the component policy.
\<close>

section \<open>Errors\<close>

datatype component_source_error =
    UnknownComponent component_id
  | NotImplemented component_id
  | ImmutableUpdate component_id
  | MismatchedMutation component_id
  | InvalidInboxId inbox_id_error
  | MalformedComponentValue component_id
  | UnknownMetadataField string
  | SrcGroupMutableMetadata gmm_error
  | SrcTlsCodec codec_error
  | SrcTlsSetApply tls_set_error
  | SrcTlsMapApply tls_map_error

fun source_error_component_id :: "component_source_error \<Rightarrow> component_id option" where
  "source_error_component_id (UnknownComponent i) = Some i"
| "source_error_component_id (NotImplemented i) = Some i"
| "source_error_component_id (ImmutableUpdate i) = Some i"
| "source_error_component_id (MismatchedMutation i) = Some i"
| "source_error_component_id (MalformedComponentValue i) = Some i"
| "source_error_component_id _ = None"

fun source_of_typed :: "component_typed_error \<Rightarrow> component_source_error" where
  "source_of_typed (TImmutableUpdate i) = ImmutableUpdate i"
| "source_of_typed (TMismatchedMutation i) = MismatchedMutation i"
| "source_of_typed (TMalformedValue i) = MalformedComponentValue i"
| "source_of_typed (TInvalidInboxId e) = InvalidInboxId e"
| "source_of_typed (TTlsCodec e) = SrcTlsCodec e"
| "source_of_typed (TTlsSetApply e) = SrcTlsSetApply e"
| "source_of_typed (TTlsMapApply e) = SrcTlsMapApply e"
| "source_of_typed (TUnspecifiedType i) = MalformedComponentValue i"
| "source_of_typed (TRegistryMutation _) = MalformedComponentValue COMPONENT_REGISTRY"

fun gmm_of_source :: "component_source_error \<Rightarrow> gmm_error" where
  "gmm_of_source (SrcGroupMutableMetadata inner) = inner"
| "gmm_of_source e = MalformedComponent (source_error_component_id e)"

section \<open>Types and payloads\<close>

definition component_type_of :: "component_id \<Rightarrow> component_type option" where
  "component_type_of i =
     (if i = COMPONENT_REGISTRY then Some TyTlsMapBytesBytes
      else if i = SUPER_ADMIN_LIST \<or> i = ADMIN_LIST then Some TyTlsSetInboxId
      else if i = GROUP_MEMBERSHIP then Some TyTlsMapInboxIdBytes
      else if i \<in> {GROUP_NAME, GROUP_DESCRIPTION, GROUP_IMAGE_URL, APP_DATA, MIN_SUPPORTED_PROTOCOL_VERSION} then Some TyString
      else if i \<in> {MESSAGE_DISAPPEAR_FROM_NS, MESSAGE_DISAPPEAR_IN_NS, COMMIT_LOG_SIGNER} then Some TyBytes
      else if i \<in> {CONVERSATION_TYPE, CREATOR_INBOX_ID, ONESHOT_MESSAGE} then Some TyBytes
      else if i = DM_MEMBERS then Some TyTlsSetInboxId
      else None)"

datatype component_mutation =
    MutBytes component_id bytes
  | AdminListAdd string
  | AdminListRemove string
  | SuperAdminListAdd string
  | SuperAdminListRemove string

fun mutation_component_id :: "component_mutation \<Rightarrow> component_id" where
  "mutation_component_id (MutBytes i _) = i"
| "mutation_component_id (AdminListAdd _) = ADMIN_LIST"
| "mutation_component_id (AdminListRemove _) = ADMIN_LIST"
| "mutation_component_id (SuperAdminListAdd _) = SUPER_ADMIN_LIST"
| "mutation_component_id (SuperAdminListRemove _) = SUPER_ADMIN_LIST"

definition inbox_id_str_to_bytes :: "'v app_libs \<Rightarrow> string \<Rightarrow> (component_source_error, inbox_id) result" where
  "inbox_id_str_to_bytes L s = map_err InvalidInboxId (InboxId_from_hex (hex_decode (al_hex L)) s)"

definition inbox_set_delta_codec :: "'v app_libs \<Rightarrow> inbox_id tls_set_delta codec" where
  "inbox_set_delta_codec L = TlsSetDelta_codec (vec_set_mutation (inbox_vecs L)) (InboxId_codec (al_vlen L))"

definition encode_inbox_id_set :: "'v app_libs \<Rightarrow> string list \<Rightarrow> (component_source_error, bytes) result" where
  "encode_inbox_id_set L ids =
     rbind (try_map (inbox_id_str_to_bytes L) ids) (\<lambda>ks.
     map_err SrcTlsCodec (tls_serialize (inbox_set_codec L) (TlsSet_from_keys ks)))"

definition encode_inbox_id_set_delta ::
    "'v app_libs \<Rightarrow> inbox_id tls_set_mutation \<Rightarrow> (component_source_error, bytes) result" where
  "encode_inbox_id_set_delta L mutation =
     map_err SrcTlsCodec (tls_serialize (inbox_set_delta_codec L) \<lparr> set_mutations = [mutation] \<rparr>)"

fun encode_app_data_update_payload :: "'v app_libs \<Rightarrow> component_mutation \<Rightarrow> (component_source_error, bytes) result" where
  "encode_app_data_update_payload L (MutBytes i v) =
     (if component_id_to_metadata_field i = None then Err (MismatchedMutation i) else Ok v)"
| "encode_app_data_update_payload L (AdminListAdd inbox_id) =
     rbind (inbox_id_str_to_bytes L inbox_id) (\<lambda>key. encode_inbox_id_set_delta L (SInsert key))"
| "encode_app_data_update_payload L (SuperAdminListAdd inbox_id) =
     rbind (inbox_id_str_to_bytes L inbox_id) (\<lambda>key. encode_inbox_id_set_delta L (SInsert key))"
| "encode_app_data_update_payload L (AdminListRemove inbox_id) =
     rbind (inbox_id_str_to_bytes L inbox_id) (\<lambda>key. encode_inbox_id_set_delta L (SRemove key))"
| "encode_app_data_update_payload L (SuperAdminListRemove inbox_id) =
     rbind (inbox_id_str_to_bytes L inbox_id) (\<lambda>key. encode_inbox_id_set_delta L (SRemove key))"

section \<open>Reading components\<close>

definition read_from_app_data_dict :: "component_id \<Rightarrow> extensions \<Rightarrow> bytes option" where
  "read_from_app_data_dict i x = dict_get x i"

definition read_from_legacy :: "'v app_libs \<Rightarrow> component_id \<Rightarrow> extensions \<Rightarrow> (component_source_error, bytes option) result" where
  "read_from_legacy L i x =
     (case component_id_to_metadata_field i of
        Some field \<Rightarrow>
          (case find_mutable_metadata_extension x of
             None \<Rightarrow> Ok None
           | Some bs \<Rightarrow>
               rbind (map_err SrcGroupMutableMetadata (gmm_from_bytes L bs)) (\<lambda>gmm.
               Ok (map_option as_bytes (gmm_attribute gmm field))))
      | None \<Rightarrow>
          if i = ADMIN_LIST then
            (case find_mutable_metadata_extension x of
               None \<Rightarrow> Ok None
             | Some bs \<Rightarrow>
                 rbind (map_err SrcGroupMutableMetadata (gmm_from_bytes L bs)) (\<lambda>gmm.
                 rbind (encode_inbox_id_set L (gmm_admin_list gmm)) (\<lambda>v. Ok (Some v))))
          else if i = SUPER_ADMIN_LIST then
            (case find_mutable_metadata_extension x of
               None \<Rightarrow> Ok None
             | Some bs \<Rightarrow>
                 rbind (map_err SrcGroupMutableMetadata (gmm_from_bytes L bs)) (\<lambda>gmm.
                 rbind (encode_inbox_id_set L (gmm_super_admin_list gmm)) (\<lambda>v. Ok (Some v))))
          else if i = GROUP_MEMBERSHIP then Err (NotImplemented i)
          else Err (UnknownComponent i))"

definition read_component_bytes ::
    "'v app_libs \<Rightarrow> component_id \<Rightarrow> extensions \<Rightarrow> bool \<Rightarrow> (component_source_error, bytes option) result" where
  "read_component_bytes L i x proposals_enabled =
     (if proposals_enabled then Ok (read_from_app_data_dict i x) else read_from_legacy L i x)"

definition is_migrated_extensions :: "extensions \<Rightarrow> bool" where
  "is_migrated_extensions x \<longleftrightarrow> dict_get x COMPONENT_REGISTRY \<noteq> None"

definition load_component_registry :: "'v app_libs \<Rightarrow> extensions \<Rightarrow> (component_source_error, component_registry) result" where
  "load_component_registry L x =
     (case dict_get x COMPONENT_REGISTRY of
        Some bs \<Rightarrow> map_err (\<lambda>_. MalformedComponentValue COMPONENT_REGISTRY) (reg_from_bytes (registry_codec L) bs)
      | None \<Rightarrow> Ok ComponentRegistry_new)"

definition merge_app_data_into_mutable_metadata ::
    "'v app_libs \<Rightarrow> group_mutable_metadata \<Rightarrow> extensions \<Rightarrow> (component_source_error, group_mutable_metadata) result" where
  "merge_app_data_into_mutable_metadata L base x =
     (if \<not> is_migrated_extensions x then Ok base
      else map_err (\<lambda>e. case e of
               MalformedComponent (Some i) \<Rightarrow> MalformedComponentValue i
             | other \<Rightarrow> SrcGroupMutableMetadata other) (merge_dict_into_mutable_metadata L base x))"

definition extract_group_mutable_metadata_capability_aware ::
    "'v app_libs \<Rightarrow> extensions \<Rightarrow> (component_source_error, group_mutable_metadata) result" where
  "extract_group_mutable_metadata_capability_aware L x =
     (if is_migrated_extensions x then
        merge_app_data_into_mutable_metadata L \<lparr> gmm_attributes = [], gmm_admin_list = [], gmm_super_admin_list = [] \<rparr> x
      else map_err SrcGroupMutableMetadata (gmm_from_extensions L x))"

definition read_super_admin_list_from_dict ::
    "'v app_libs \<Rightarrow> extensions \<Rightarrow> (component_source_error, string list option) result" where
  "read_super_admin_list_from_dict L x =
     (if \<not> is_migrated_extensions x then Ok None
      else case dict_get x SUPER_ADMIN_LIST of
             None \<Rightarrow> Ok None
           | Some bs \<Rightarrow>
               rbind (map_err (\<lambda>_. MalformedComponentValue SUPER_ADMIN_LIST) (tls_deserialize_exact (inbox_set_codec L) bs)) (\<lambda>s.
               Ok (Some (map (InboxId_to_hex (hex_encode (al_hex L))) (TlsSet_iter s)))))"

section \<open>Applying updates\<close>

definition registered_component_type ::
    "'v app_libs \<Rightarrow> component_id \<Rightarrow> component_registry \<Rightarrow> (component_source_error, component_type) result" where
  "registered_component_type L i registry =
     rbind (map_err (\<lambda>_. MalformedComponentValue i) (reg_get (al_meta L) registry i)) (\<lambda>m.
     rbind (ok_or m (UnknownComponent i)) (\<lambda>meta.
     ok_or (component_type_of_i32 (cm_component_type meta)) (MalformedComponentValue i)))"

definition fallback_type ::
    "'v app_libs \<Rightarrow> component_id \<Rightarrow> component_registry \<Rightarrow> (component_source_error, component_type) result" where
  "fallback_type L i registry =
     (case component_type_of i of Some ty \<Rightarrow> Ok ty | None \<Rightarrow> registered_component_type L i registry)"

definition expand_app_data_update_to_changes ::
    "'v app_libs \<Rightarrow> runtime_registry \<Rightarrow> component_id \<Rightarrow> app_data_update_operation \<Rightarrow> bytes option \<Rightarrow> component_registry \<Rightarrow>
     (component_source_error, expanded_component_change list) result" where
  "expand_app_data_update_to_changes L R i op old registry =
     (case lookup_component L R i of
        Some component \<Rightarrow> map_err source_of_typed (er_expand_to_changes component op old)
      | None \<Rightarrow>
          rbind (fallback_type L i registry) (\<lambda>ty.
          map_err source_of_typed (expand_to_changes_for_type L i ty op old)))"

definition apply_app_data_update_payload ::
    "'v app_libs \<Rightarrow> runtime_registry \<Rightarrow> component_id \<Rightarrow> bytes \<Rightarrow> bytes option \<Rightarrow> component_registry \<Rightarrow>
     (component_source_error, bytes) result" where
  "apply_app_data_update_payload L R i payload old registry =
     (if is_immutable i \<and> old \<noteq> None then Err (ImmutableUpdate i)
      else case lookup_component L R i of
        Some component \<Rightarrow> map_err source_of_typed (er_apply_update_payload component payload old)
      | None \<Rightarrow>
          rbind (fallback_type L i registry) (\<lambda>ty.
          map_err source_of_typed (apply_update_payload_for_type L i ty payload old)))"

type_synonym app_data_proposals = "(component_id \<times> app_data_update_operation) list"
type_synonym app_data_updates = "(component_id, bytes option) btree_map"

fun accumulate_loop ::
    "'v app_libs \<Rightarrow> runtime_registry \<Rightarrow> extensions \<Rightarrow> component_registry \<Rightarrow> app_data_proposals \<Rightarrow> app_data_updates \<Rightarrow>
     (component_source_error, app_data_updates) result" where
  "accumulate_loop L R x registry [] in_batch = Ok in_batch"
| "accumulate_loop L R x registry ((i, AdUpdate payload) # ps) in_batch =
     rbind (apply_app_data_update_payload L R i payload
              (case map_of in_batch i of Some old \<Rightarrow> old | None \<Rightarrow> read_from_app_data_dict i x) registry) (\<lambda>new_value.
     accumulate_loop L R x registry ps (bt_insert i (Some new_value) in_batch))"
| "accumulate_loop L R x registry ((i, AdRemove) # ps) in_batch =
     accumulate_loop L R x registry ps (bt_insert i None in_batch)"

definition accumulate_app_data_updates ::
    "'v app_libs \<Rightarrow> runtime_registry \<Rightarrow> extensions \<Rightarrow> app_data_proposals \<Rightarrow>
     (component_source_error, app_data_updates option) result" where
  "accumulate_app_data_updates L R x proposals =
     rbind (load_component_registry L x) (\<lambda>registry.
     rbind (accumulate_loop L R x registry proposals []) (\<lambda>in_batch.
     if in_batch = [] then Ok None else Ok (Some in_batch)))"

fun post_commit_loop ::
    "'v app_libs \<Rightarrow> runtime_registry \<Rightarrow> component_id \<Rightarrow> component_registry \<Rightarrow> app_data_update_operation list \<Rightarrow> bytes option \<Rightarrow>
     (component_source_error, bytes option) result" where
  "post_commit_loop L R i registry [] current = Ok current"
| "post_commit_loop L R i registry (AdUpdate payload # ops) current =
     rbind (apply_app_data_update_payload L R i payload current registry) (\<lambda>v.
     post_commit_loop L R i registry ops (Some v))"
| "post_commit_loop L R i registry (AdRemove # ops) current = post_commit_loop L R i registry ops None"

definition read_post_commit_component_bytes ::
    "'v app_libs \<Rightarrow> runtime_registry \<Rightarrow> component_id \<Rightarrow> extensions \<Rightarrow> app_data_proposals \<Rightarrow> component_registry \<Rightarrow>
     (component_source_error, bytes option) result" where
  "read_post_commit_component_bytes L R i x proposals registry =
     (let ops = map snd (filter (\<lambda>p. fst p = i) proposals) in
      if ops = [] then Ok (read_from_app_data_dict i x)
      else post_commit_loop L R i registry ops (read_from_app_data_dict i x))"

section \<open>The version floor\<close>

definition committed_floor_exceeding :: "'v::linorder app_libs \<Rightarrow> extensions \<Rightarrow> 'v \<Rightarrow> string option" where
  "committed_floor_exceeding L x own =
     Option.bind (dict_get x MIN_SUPPORTED_PROTOCOL_VERSION) (\<lambda>bs.
     Option.bind (from_utf8 bs) (\<lambda>floor.
     Option.bind (semver_parse L floor) (\<lambda>floor_version.
     if floor_version > own then Some floor else None)))"

text \<open>
  Processing a message: what OpenMLS returns for it, and how it stages a commit whose updates were
  computed, are arguments.
\<close>

datatype 'p processed_content =
    ApplicationMessage 'p
  | ProposalMessage 'p
  | ExternalJoinProposalMessage 'p
  | StagedCommitMessage 'p
  | UnresolvedAppDataCommit 'p app_data_proposals

datatype 'e process_error =
    OpenMls 'e
  | AppDataDecode component_source_error
  | ProcessProtocolVersionTooLow string
  | ResolveAppDataCommit 'e

fun is_commit :: "'p processed_content \<Rightarrow> bool" where
  "is_commit (StagedCommitMessage _) = True"
| "is_commit (UnresolvedAppDataCommit _ _) = True"
| "is_commit _ = False"

definition process_message_with_app_data ::
    "'v::linorder app_libs \<Rightarrow> runtime_registry \<Rightarrow> extensions \<Rightarrow> 'v \<Rightarrow> ('e, 'p processed_content) result \<Rightarrow>
     ('p \<Rightarrow> app_data_updates option \<Rightarrow> ('e, 'p) result) \<Rightarrow> ('e process_error, 'p processed_content) result" where
  "process_message_with_app_data L R x own process_message resolve_app_data_commit =
     rbind (map_err OpenMls process_message) (\<lambda>processed.
     case (if is_commit processed then committed_floor_exceeding L x own else None) of
       Some min_version \<Rightarrow> Err (ProcessProtocolVersionTooLow min_version)
     | None \<Rightarrow>
         (case processed of
            UnresolvedAppDataCommit p proposals \<Rightarrow>
              rbind (map_err AppDataDecode (accumulate_app_data_updates L R x proposals)) (\<lambda>updates.
              rbind (map_err ResolveAppDataCommit (resolve_app_data_commit p updates)) (\<lambda>staged.
              Ok (StagedCommitMessage staged)))
          | other \<Rightarrow> Ok other))"

section \<open>Membership policies\<close>

fun metadata_policy_to_membership :: "policy_proto \<Rightarrow> membership_policies" where
  "metadata_policy_to_membership (KindBase b) =
     (if b = 1 then membership_allow
      else if b = 2 then membership_deny
      else if b = 3 then membership_allow_if_actor_admin
      else if b = 4 then membership_allow_if_actor_super_admin
      else membership_deny)"
| "metadata_policy_to_membership (KindAnd _) = membership_deny"
| "metadata_policy_to_membership (KindAny _) = membership_deny"
| "metadata_policy_to_membership KindNone = membership_deny"

definition optional_membership :: "policy_proto option \<Rightarrow> membership_policies" where
  "optional_membership p = (case p of Some q \<Rightarrow> metadata_policy_to_membership q | None \<Rightarrow> membership_deny)"

definition membership_policies_of :: "'v app_libs \<Rightarrow> component_registry \<Rightarrow> membership_policies \<times> membership_policies" where
  "membership_policies_of L registry =
     (case reg_get (al_meta L) registry GROUP_MEMBERSHIP of
        Ok (Some meta) \<Rightarrow>
          (case cm_permissions meta of
             Some perms \<Rightarrow> (optional_membership (insert_policy perms), optional_membership (delete_policy perms))
           | None \<Rightarrow> (membership_deny, membership_deny))
      | Ok None \<Rightarrow> (membership_deny, membership_deny)
      | Err _ \<Rightarrow> (membership_deny, membership_deny))"

definition membership_policy_set_from_registry ::
    "'v app_libs \<Rightarrow> extensions \<Rightarrow> (component_source_error, group_mutable_permissions) result" where
  "membership_policy_set_from_registry L x =
     rbind (load_component_registry L x) (\<lambda>registry.
     case membership_policies_of L registry of (add_policy, remove_policy) \<Rightarrow>
       Ok \<lparr> gmp_policies = \<lparr> add_member_policy = add_policy, remove_member_policy = remove_policy,
              update_metadata_policy = [], add_admin_policy = permissions_allow_if_actor_super_admin,
              remove_admin_policy = permissions_allow_if_actor_super_admin,
              update_permissions_policy = permissions_allow_if_actor_super_admin \<rparr> \<rparr>)"

section \<open>Batches are the proposals in order\<close>

definition dict_after :: "app_dict \<Rightarrow> app_data_updates option \<Rightarrow> app_dict" where
  "dict_after d b = (\<lambda>i. case b of None \<Rightarrow> d i | Some u \<Rightarrow> (case map_of u i of Some v \<Rightarrow> v | None \<Rightarrow> d i))"

fun apply_in_order ::
    "'v app_libs \<Rightarrow> runtime_registry \<Rightarrow> component_registry \<Rightarrow> app_data_proposals \<Rightarrow> app_dict \<Rightarrow>
     (component_source_error, app_dict) result" where
  "apply_in_order L R registry [] d = Ok d"
| "apply_in_order L R registry ((i, AdUpdate payload) # ps) d =
     rbind (apply_app_data_update_payload L R i payload (d i) registry) (\<lambda>v.
     apply_in_order L R registry ps (d(i \<mapsto> v)))"
| "apply_in_order L R registry ((i, AdRemove) # ps) d = apply_in_order L R registry ps (d(i := None))"

lemma dict_after_insert: "dict_after d (Some (bt_insert i v u)) = (dict_after d (Some u))(i := v)"
  by (auto simp: dict_after_def fun_eq_iff)

lemma dict_after_empty [simp]: "dict_after d None = d" "dict_after d (Some []) = d"
  by (simp_all add: dict_after_def)

lemma dict_after_lookup:
  "(case map_of u i of Some old \<Rightarrow> old | None \<Rightarrow> read_from_app_data_dict i x) = dict_after (dict_get x) (Some u) i"
  by (auto simp: dict_after_def read_from_app_data_dict_def split: option.splits)

lemma accumulate_loop_in_order:
  "rbind (accumulate_loop L R x registry ps u) (\<lambda>b. Ok (dict_after (dict_get x) (Some b))) =
   apply_in_order L R registry ps (dict_after (dict_get x) (Some u))"
proof (induction L R x registry ps u rule: accumulate_loop.induct)
  case (2 L R x registry i payload ps u)
  let ?r = "apply_app_data_update_payload L R i payload (dict_after (dict_get x) (Some u) i) registry"
  show ?case
  proof (cases ?r)
    case (Inr v)
    with 2 [of v] show ?thesis by (simp add: dict_after_lookup dict_after_insert fun_upd_def)
  qed (simp add: dict_after_lookup)
qed (simp_all add: dict_after_insert fun_upd_def)

text \<open>
  Property C27. The batch computed for a commit, taken to the dictionary, is what applying the
  proposals of the commit one after the other gives, each to the bytes its predecessors left; when
  one of them fails the computation fails with the same error.
\<close>

theorem accumulate_refines_order:
  assumes "load_component_registry L x = Ok registry"
  shows "rbind (accumulate_app_data_updates L R x ps) (\<lambda>b. Ok (dict_after (dict_get x) b)) =
    apply_in_order L R registry ps (dict_get x)"
proof -
  have "rbind (accumulate_app_data_updates L R x ps) (\<lambda>b. Ok (dict_after (dict_get x) b)) =
      rbind (accumulate_loop L R x registry ps []) (\<lambda>b. Ok (dict_after (dict_get x) (Some b)))"
    using assms by (cases "accumulate_loop L R x registry ps []") (simp_all add: accumulate_app_data_updates_def)
  then show ?thesis by (simp add: accumulate_loop_in_order)
qed

lemma post_commit_in_order:
  "apply_in_order L R registry ps d = Ok d' \<Longrightarrow>
   post_commit_loop L R i registry (map snd (filter (\<lambda>p. fst p = i) ps)) (d i) = Ok (d' i)"
proof (induction L R registry ps d arbitrary: d' rule: apply_in_order.induct)
  case (2 L R registry j payload ps d)
  then obtain v where v: "apply_app_data_update_payload L R j payload (d j) registry = Ok v"
    and r: "apply_in_order L R registry ps (d(j \<mapsto> v)) = Ok d'"
    by (auto simp: rbind_eq_Ok)
  from 2(1) [OF v] r v show ?case by (cases "i = j") (simp_all add: fun_upd_def)
next
  case (3 L R registry j ps d)
  from 3(1) [of d'] 3(2) show ?case by (cases "i = j") (simp_all add: fun_upd_def)
qed simp

text \<open>
  The commit validator and the commit's application agree on every component: the bytes
  the validator computes for a component after the commit are the bytes the dictionary holds once
  the computed batch is applied.
\<close>

theorem post_commit_view_agrees:
  assumes "load_component_registry L x = Ok registry" and "accumulate_app_data_updates L R x ps = Ok b"
  shows "read_post_commit_component_bytes L R i x ps registry = Ok (dict_after (dict_get x) b i)"
proof -
  have "apply_in_order L R registry ps (dict_get x) = Ok (dict_after (dict_get x) b)"
    using accumulate_loop_in_order [of L R x registry ps "[]"] assms
    by (auto simp: accumulate_app_data_updates_def rbind_eq_Ok split: if_splits)
  from post_commit_in_order [OF this, of i] show ?thesis
    by (auto simp: read_post_commit_component_bytes_def read_from_app_data_dict_def Let_def)
qed

text \<open>
  A client below the version floor the group has committed pauses at every commit with
  the version it would need, and interprets none of its updates: the outcome does not depend on the
  proposals of the commit nor on how it would be staged. Other messages pass.
\<close>

theorem below_floor_pauses:
  assumes "committed_floor_exceeding L x own = Some v"
  shows "process_message_with_app_data L R x own (Ok processed) stage =
    (if is_commit processed then Err (ProcessProtocolVersionTooLow v) else Ok processed)"
  using assms by (cases processed) (simp_all add: process_message_with_app_data_def)

section \<open>Membership policies\<close>

text \<open>
  The membership policy derived from the registry never lets an actor add or remove
  members whom the policies of the membership component would refuse.
\<close>

theorem membership_policy_conservative:
  assumes "membership_policies_of L registry = (add_policy, remove_policy)"
    and "cc_actor ch = \<lparr> aa_is_admin = cp_is_admin actor, aa_is_super_admin = cp_is_super_admin actor \<rparr>"
    and "cc_component_id ch = GROUP_MEMBERSHIP"
  shows "(cc_op ch = OpInsert \<and> MembershipPolicies_evaluate add_policy actor i \<or>
          cc_op ch = OpDelete \<and> MembershipPolicies_evaluate remove_policy actor i \<longrightarrow>
          validate_component_write (al_meta L) ch registry = Ok ())"
proof -
  have one: "evaluate_policy_proto p ch = OutAllow" if "MembershipPolicies_evaluate (metadata_policy_to_membership p) actor i" for p
    using that assms(2)
    by (cases p) (auto simp: MembershipPolicies_evaluate_def membership_allow_def membership_deny_def
        membership_allow_if_actor_admin_def membership_allow_if_actor_super_admin_def evaluate_base_policy_def split: if_splits)
  have deny: "\<not> MembershipPolicies_evaluate membership_deny actor i"
    by (simp add: MembershipPolicies_evaluate_def membership_deny_def)
  have ids: "\<not> is_immutable GROUP_MEMBERSHIP" "\<not> is_hardcoded GROUP_MEMBERSHIP"
    by (simp_all add: range_defs component_id_defs)
  show ?thesis
    using assms(1,3) one deny ids
    by (auto simp: write_accepted membership_policies_of_def optional_membership_def split: sum.splits option.splits)
qed

section \<open>An instance\<close>

text \<open>A group whose registry has an entry for \<open>APP_DATA\<close>.\<close>

definition demo_extensions :: extensions where
  "demo_extensions = \<lparr> unknown_extensions = [],
     app_data_dictionary = Some [COMPONENT_REGISTRY \<mapsto> [0x06, 0x80, 0x00, 0x80, 0x09, 0x01, 0x07]],
     immutable_metadata = None, required_capabilities = None \<rparr>"

definition demo_app_registry :: component_registry where
  "demo_app_registry = \<lparr> reg_inner = \<lparr> entries = [\<lparr> e_key = APP_DATA, e_value = [7] \<rparr>] \<rparr> \<rparr>"

lemma demo_registry_reads:
  "tls_deserialize_exact (registry_codec rfc_libs) [0x06, 0x80, 0x00, 0x80, 0x09, 0x01, 0x07] = Ok (reg_inner demo_app_registry)"
  by (simp add: demo_app_registry_def rfc_codec_simps component_id_defs)

lemma rfc_registry_loads: "load_component_registry rfc_libs demo_extensions = Ok demo_app_registry"
  by (simp add: load_component_registry_def demo_extensions_def dict_get_def reg_from_bytes_def demo_registry_reads)

text \<open>Two updates and a removal, the second update replacing the first.\<close>

definition demo_proposals :: app_data_proposals where
  "demo_proposals = [(GROUP_NAME, AdUpdate [0x68]), (APP_DATA, AdRemove), (GROUP_NAME, AdUpdate [0x69])]"

lemma demo_name_applies:
  "bs = [0x68] \<or> bs = [0x69] \<Longrightarrow> apply_app_data_update_payload rfc_libs [] GROUP_NAME bs old registry = Ok bs"
proof -
  have l: "lookup_component rfc_libs [] GROUP_NAME = Some (passthrough_string_component GROUP_NAME)" "\<not> is_immutable GROUP_NAME"
    by (simp_all add: lookup_component_eq is_xmtp_range_def WELL_KNOWN_def component_id_defs is_immutable_def)
  show "bs = [0x68] \<or> bs = [0x69] \<Longrightarrow> ?thesis"
    by (auto simp: apply_app_data_update_payload_def l passthrough_string_component_def decode_utf8_def from_utf8_def
        apply_passthrough_def)
qed

lemma demo_batch:
  "accumulate_app_data_updates rfc_libs [] demo_extensions demo_proposals =
     Ok (Some [(GROUP_NAME, Some [0x69]), (APP_DATA, None)])"
  by (simp add: accumulate_app_data_updates_def rfc_registry_loads demo_proposals_def demo_name_applies)
    (simp add: component_id_defs)

theorem accumulate_refines_order_witness:
  "apply_in_order rfc_libs [] demo_app_registry demo_proposals (dict_get demo_extensions) =
     Ok (dict_after (dict_get demo_extensions) (Some [(GROUP_NAME, Some [0x69]), (APP_DATA, None)]))"
  using accumulate_refines_order [OF rfc_registry_loads, of "[]" demo_proposals] by (simp add: demo_batch)

theorem post_commit_view_agrees_witness:
  "read_post_commit_component_bytes rfc_libs [] GROUP_NAME demo_extensions demo_proposals demo_app_registry = Ok (Some [0x69])"
  using post_commit_view_agrees [OF rfc_registry_loads demo_batch, of GROUP_NAME] by (simp add: dict_after_def)

definition demo_floor_extensions :: extensions where
  "demo_floor_extensions = \<lparr> unknown_extensions = [],
     app_data_dictionary = Some [MIN_SUPPORTED_PROTOCOL_VERSION \<mapsto> [0x31, 0x2E, 0x32, 0x2E, 0x30]],
     immutable_metadata = None, required_capabilities = None \<rparr>"

theorem below_floor_pauses_witness:
  "process_message_with_app_data rfc_libs [] demo_floor_extensions 119 (Ok (UnresolvedAppDataCommit () demo_proposals))
     (\<lambda>p b. Err ''not staged'') = Err (ProcessProtocolVersionTooLow ''1.2.0'')"
proof -
  have "committed_floor_exceeding rfc_libs demo_floor_extensions 119 = Some ''1.2.0''"
    by (simp add: committed_floor_exceeding_def demo_floor_extensions_def dict_get_def from_utf8_def toy_semver_def char_of_def bit_iff_odd_drop_bit)
  then show ?thesis by (subst below_floor_pauses) simp_all
qed

definition demo_membership_registry :: component_registry where
  "demo_membership_registry = \<lparr> reg_inner = \<lparr> entries = [\<lparr> e_key = GROUP_MEMBERSHIP, e_value = [7] \<rparr>] \<rparr> \<rparr>"

lemma demo_membership_entry: "reg_get demo_meta_codec demo_membership_registry GROUP_MEMBERSHIP = Ok (Some demo_meta)"
  unfolding reg_get_eq
  by (rule exI [of _ "[7]"]) (simp add: demo_membership_registry_def TlsMap_get_def binary_search_by_def binary_search_loop.simps
      decode_recognized_Ok range_defs component_id_defs demo_meta_codec_def demo_meta_def validate_metadata_def
      new_component_metadata_def component_permissions_def cmp_def)

theorem membership_policy_conservative_witness:
  "validate_component_write demo_meta_codec (demo_change GROUP_MEMBERSHIP OpInsert False) demo_membership_registry = Ok ()"
proof -
  let ?actor = "\<lparr> cp_inbox_id = ''a'', cp_installation_id = [], cp_is_creator = False, cp_is_admin = False, cp_is_super_admin = False \<rparr>"
  have "membership_policies_of rfc_libs demo_membership_registry = (membership_allow, membership_allow_if_actor_super_admin)"
    by (simp add: membership_policies_of_def demo_membership_entry demo_meta_def new_component_metadata_def
        component_permissions_def optional_membership_def)
  from membership_policy_conservative [OF this, of "demo_change GROUP_MEMBERSHIP OpInsert False" ?actor] show ?thesis
    by (simp add: demo_change_def MembershipPolicies_evaluate_def membership_allow_def)
qed

end
