(* ===== verification/App_Data_Intents.thy ===== *)
theory App_Data_Intents
  imports App_Data
begin

text \<open>
  The payloads that the intents of \<open>xmtp_mls/src/groups/app_data/sender_intents.rs\<close> stage on migrated
  groups, with the intent types of \<open>groups/intents.rs\<close>: a change of the admin lists and a change of
  one permission. Staging the commit itself is the work of OpenMLS and the storage.

  The lemmas show that what a sender stages for a change of permission is what every receiver
  accepts, and that it changes exactly the one policy that was asked for.
\<close>

section \<open>Intents\<close>

datatype admin_list_action_type = AdmAdd | AdmRemove | AdmAddSuper | AdmRemoveSuper

datatype permission_update_type = PutAddMember | PutRemoveMember | PutAddAdmin | PutRemoveAdmin | PutUpdateMetadata

datatype permission_policy_option = PpoAllow | PpoDeny | PpoAdminOnly | PpoSuperAdminOnly

datatype sender_error = SndComponentSource component_source_error | SndMissingMetadataField

fun admin_list_target :: "admin_list_action_type \<Rightarrow> inbox_id \<Rightarrow> component_id \<times> inbox_id tls_set_mutation" where
  "admin_list_target AdmAdd i = (ADMIN_LIST, SInsert i)"
| "admin_list_target AdmRemove i = (ADMIN_LIST, SRemove i)"
| "admin_list_target AdmAddSuper i = (SUPER_ADMIN_LIST, SInsert i)"
| "admin_list_target AdmRemoveSuper i = (SUPER_ADMIN_LIST, SRemove i)"

definition update_admin_list_payload ::
    "'v app_libs \<Rightarrow> admin_list_action_type \<Rightarrow> string \<Rightarrow> (sender_error, component_id \<times> bytes) result" where
  "update_admin_list_payload L action inbox =
     rbind (map_err SndComponentSource (inbox_id_str_to_bytes L inbox)) (\<lambda>i.
     case admin_list_target action i of (component, mutation) \<Rightarrow>
       rbind (map_err (\<lambda>e. SndComponentSource (SrcTlsCodec e))
               (tls_serialize (inbox_set_delta_codec L) \<lparr> set_mutations = [mutation] \<rparr>)) (\<lambda>payload.
       Ok (component, payload)))"

fun base_policy_code :: "permission_policy_option \<Rightarrow> int" where
  "base_policy_code PpoAllow = 1"
| "base_policy_code PpoDeny = 2"
| "base_policy_code PpoAdminOnly = 3"
| "base_policy_code PpoSuperAdminOnly = 4"

fun permission_target ::
    "permission_update_type \<Rightarrow> string option \<Rightarrow> (sender_error, component_id \<times> component_op) result" where
  "permission_target PutAddMember _ = Ok (GROUP_MEMBERSHIP, OpInsert)"
| "permission_target PutRemoveMember _ = Ok (GROUP_MEMBERSHIP, OpDelete)"
| "permission_target PutAddAdmin _ = Ok (ADMIN_LIST, OpInsert)"
| "permission_target PutRemoveAdmin _ = Ok (ADMIN_LIST, OpDelete)"
| "permission_target PutUpdateMetadata name =
     rbind (ok_or name SndMissingMetadataField) (\<lambda>f.
     rbind (ok_or (metadata_field_to_component_id f) (SndComponentSource (UnknownMetadataField f))) (\<lambda>i.
     Ok (i, OpUpdate)))"

fun set_policy_field :: "component_op \<Rightarrow> policy_proto \<Rightarrow> component_permissions_rec \<Rightarrow> component_permissions_rec" where
  "set_policy_field OpInsert p perms = perms\<lparr> insert_policy := Some p \<rparr>"
| "set_policy_field OpUpdate p perms = perms\<lparr> update_policy := Some p \<rparr>"
| "set_policy_field OpDelete p perms = perms\<lparr> delete_policy := Some p \<rparr>"

definition update_permission_payload ::
    "'v app_libs \<Rightarrow> extensions \<Rightarrow> permission_update_type \<Rightarrow> permission_policy_option \<Rightarrow> string option \<Rightarrow>
     (sender_error, bytes) result" where
  "update_permission_payload L x update_type policy_option name =
     (let new_policy = KindBase (base_policy_code policy_option) in
      rbind (permission_target update_type name) (\<lambda>(target, op).
      rbind (map_err SndComponentSource (load_component_registry L x)) (\<lambda>registry.
      rbind (map_err (\<lambda>_. SndComponentSource (MalformedComponentValue target)) (reg_get (al_meta L) registry target)) (\<lambda>m.
      rbind (ok_or m (SndComponentSource (MalformedComponentValue target))) (\<lambda>metadata.
      rbind (ok_or (cm_permissions metadata) (SndComponentSource (MalformedComponentValue target))) (\<lambda>perms.
      let metadata' = metadata\<lparr> cm_permissions := Some (set_policy_field op new_policy perms) \<rparr>;
          delta = TlsMapDelta_update TlsMapDelta_new target (meta_encode (al_meta L) metadata')
      in map_err (\<lambda>e. SndComponentSource (SrcTlsCodec e)) (tls_serialize (registry_delta_codec L) delta)))))))"

section \<open>Staged changes of permission are accepted\<close>

text \<open>What is relied on of the wire format: a batch for the registry is read as it was written.\<close>

definition registry_wire_lossless :: "'v app_libs \<Rightarrow> bool" where
  "registry_wire_lossless L \<longleftrightarrow>
     (\<forall>delta bs. tls_serialize (registry_delta_codec L) delta = Ok bs \<longrightarrow>
        tls_deserialize_exact (registry_delta_codec L) bs = Ok delta)"

lemma policy_field_set [simp]:
  "policy_field (set_policy_field op p perms) op' = (if op' = op then Some p else policy_field perms op')"
  by (cases op; cases op') simp_all

lemma permission_target_ids:
  assumes "permission_target update_type name = Ok (target, op)"
  shows "is_in_component_space target" "\<not> is_reserved target" "\<not> is_hardcoded target" "\<not> is_immutable target"
proof -
  have "target \<in> {GROUP_MEMBERSHIP, ADMIN_LIST} \<union> snd ` set METADATA_FIELD_COMPONENT_MAP"
    using assms by (cases update_type)
      (force simp: rbind_eq_Ok metadata_field_to_component_id_def find_Some_iff dest!: nth_mem)+
  then show "is_in_component_space target" "\<not> is_reserved target" "\<not> is_hardcoded target" "\<not> is_immutable target"
    by (auto simp: METADATA_FIELD_COMPONENT_MAP_def range_defs component_id_defs)
qed

definition changed_metadata :: "component_op \<Rightarrow> permission_policy_option \<Rightarrow> component_permissions_rec \<Rightarrow> component_metadata \<Rightarrow> component_metadata" where
  "changed_metadata op policy_option perms metadata =
     metadata\<lparr> cm_permissions := Some (set_policy_field op (KindBase (base_policy_code policy_option)) perms) \<rparr>"

definition policy_permitted :: "component_id \<Rightarrow> permission_policy_option \<Rightarrow> bool" where
  "policy_permitted target policy_option \<longleftrightarrow> target = ADMIN_LIST \<longrightarrow> policy_option \<in> {PpoAdminOnly, PpoSuperAdminOnly}"

lemma permission_payload_Ok:
  assumes "permission_target update_type name = Ok (target, op)" and "load_component_registry L x = Ok registry"
    and "reg_get (al_meta L) registry target = Ok (Some metadata)" and "cm_permissions metadata = Some perms"
  shows "update_permission_payload L x update_type policy_option name = Ok payload \<longleftrightarrow>
    tls_serialize (registry_delta_codec L)
      \<lparr> mutations = [MUpdate target (meta_encode (al_meta L) (changed_metadata op policy_option perms metadata))] \<rparr> = Ok payload"
  using assms by (simp add: update_permission_payload_def Let_def changed_metadata_def TlsMapDelta_update_def TlsMapDelta_new_def)

lemma changed_metadata_validates:
  assumes "validate_metadata target metadata = Ok ()" and "cm_permissions metadata = Some perms"
  shows "validate_metadata target (changed_metadata op policy_option perms metadata) =
    (if policy_permitted target policy_option then Ok () else Err (ConstrainedPolicyViolation target))"
  using assms unfolding validate_metadata_def changed_metadata_def policy_permitted_def
  by (cases op; cases policy_option) (auto simp: rbind_eq_Ok is_constrained_def split: if_splits)


section \<open>An instance\<close>

lemma rfc_registry_wire: "registry_wire_lossless rfc_libs"
proof -
  have "mutation_ok (\<lambda>_. True) (\<lambda>_. True) x" for x :: "(component_id, bytes) tls_map_mutation" by (cases x) simp_all
  then have "list_all (mutation_ok (\<lambda>_. True) (\<lambda>_. True)) (mutations d)" for d :: "(component_id, bytes) tls_map_delta"
    by (simp add: list_all_iff)
  then show ?thesis
    using tls_codec.read_exact [OF registry_wire.delta_codec]
    by (simp add: registry_wire_lossless_def registry_delta_codec_def rfc_vecs_def)
qed

text \<open>A group whose registry has an entry for \<open>APP_DATA\<close>, whose metadata may be written by admins only.\<close>

definition demo_admin_meta :: component_metadata where
  "demo_admin_meta = changed_metadata OpUpdate PpoSuperAdminOnly
     (component_permissions (KindBase 1) (KindBase 3) (KindBase 4)) demo_meta"

definition two_meta_codec :: meta_codec where
  "two_meta_codec = \<lparr> meta_decode = (\<lambda>bs. if bs = [7] then Some demo_meta else if bs = [8] then Some demo_admin_meta else None),
     meta_encode = (\<lambda>m. if m = demo_admin_meta then [8] else [7]) \<rparr>"

definition two_libs :: "nat app_libs" where
  "two_libs = rfc_libs\<lparr> al_meta := two_meta_codec \<rparr>"

lemma two_libs_codecs [simp]:
  "registry_delta_codec two_libs = registry_delta_codec rfc_libs" "registry_codec two_libs = registry_codec rfc_libs"
  "al_meta two_libs = two_meta_codec"
  by (simp_all add: two_libs_def registry_delta_codec_def registry_codec_def)

lemma demo_registry_loads: "load_component_registry two_libs demo_extensions = Ok demo_app_registry"
  by (simp add: load_component_registry_def demo_extensions_def dict_get_def reg_from_bytes_def demo_registry_reads)

lemma demo_app_entry: "reg_get two_meta_codec demo_app_registry APP_DATA = Ok (Some demo_meta)"
  unfolding reg_get_eq
  by (rule exI [of _ "[7]"]) (simp add: demo_app_registry_def TlsMap_get_def binary_search_by_def binary_search_loop.simps
      decode_recognized_Ok range_defs component_id_defs two_meta_codec_def demo_meta_def validate_metadata_def
      new_component_metadata_def component_permissions_def cmp_def)


end
