(* ===== verification/Group_Metadata.thy ===== *)
theory Group_Metadata
  imports App_Data
begin

text \<open>
  The immutable metadata of a group: \<open>xmtp_mls_common/src/group_metadata.rs\<close>, the conversation types of
  \<open>xmtp_db/src/encrypted_store/group.rs\<close> with \<open>group/convert.rs\<close>, and the second reader of the
  dictionary, \<open>read_group_metadata_from_extensions\<close> of \<open>component_source.rs\<close>, which the commit
  validator uses.

  The protobuf codecs of the messages involved are the fields of \<open>group_protos\<close>, an argument of what
  uses them. The texts that errors carry are left out.
\<close>

section \<open>Conversation types\<close>

type_synonym i32 = "32 word"

definition i32_from_be_bytes :: "bytes \<Rightarrow> i32 option" where
  "i32_from_be_bytes bs = (if length bs = 4 then Some (foldl (\<lambda>a b. a * 256 + ucast b) 0 bs) else None)"

definition i32_to_be_bytes :: "i32 \<Rightarrow> bytes" where
  "i32_to_be_bytes w = map (\<lambda>i. ucast (drop_bit (8 * i) w)) [3, 2, 1, 0]"

datatype conversation_type = Group | Dm | Sync | Oneshot

definition virtual_types :: "conversation_type list" where
  "virtual_types = [Sync, Oneshot]"

fun is_virtual :: "conversation_type \<Rightarrow> bool" where
  "is_virtual Group = False"
| "is_virtual Dm = False"
| "is_virtual Sync = True"
| "is_virtual Oneshot = True"

fun conversation_type_i32 :: "conversation_type \<Rightarrow> i32" where
  "conversation_type_i32 Group = 1"
| "conversation_type_i32 Dm = 2"
| "conversation_type_i32 Sync = 3"
| "conversation_type_i32 Oneshot = 4"

definition conversation_type_of_i32 :: "i32 \<Rightarrow> conversation_type option" where
  "conversation_type_of_i32 n =
     (if n = 1 then Some Group else if n = 2 then Some Dm else if n = 3 then Some Sync
      else if n = 4 then Some Oneshot else None)"

section \<open>Messages\<close>

record readd_request =
  rr_group_id :: bytes
  rr_latest_commit_sequence_id :: u64

type_synonym oneshot_message = "readd_request option"

record dm_members_proto =
  dm_member_one :: "string option"
  dm_member_two :: "string option"

record group_metadata_proto =
  p_conversation_type :: i32
  p_creator_account_address :: string
  p_creator_inbox_id :: string
  p_dm_members :: "dm_members_proto option"
  p_oneshot_message :: "oneshot_message option"

text \<open>The version of a membership entry is optional; only one version exists.\<close>

record membership_entry_v1 =
  me_sequence_id :: u64
  me_failed_installations :: "bytes list"

type_synonym membership_entry = "membership_entry_v1 option"

record group_protos =
  oneshot_decode :: "bytes \<Rightarrow> oneshot_message option"
  oneshot_encode :: "oneshot_message \<Rightarrow> bytes"
  metadata_proto_decode :: "bytes \<Rightarrow> group_metadata_proto option"
  metadata_proto_encode :: "group_metadata_proto \<Rightarrow> bytes option"
  membership_proto_decode :: "bytes \<Rightarrow> ((string, u64) hash_map \<times> bytes list) option"
  membership_proto_encode :: "(string, u64) hash_map \<times> bytes list \<Rightarrow> bytes"
  entry_decode :: "bytes \<Rightarrow> membership_entry option"
  entry_encode :: "membership_entry \<Rightarrow> bytes"
  permissions_proto_decode :: "bytes \<Rightarrow> policy_set_proto option option"
  mls_credential_decode :: "bytes \<Rightarrow> string option"

section \<open>Group metadata\<close>

datatype group_metadata_error =
    MdSerialization
  | MdDeserialization
  | InvalidConversationType
  | MdMissingExtension
  | InvalidDmMembers
  | MissingDmMember
  | MdConversion

record group_metadata =
  md_conversation_type :: conversation_type
  md_creator_inbox_id :: string
  md_dm_members :: "dm_members option"
  md_oneshot_message :: "oneshot_message option"

definition dm_members_to_proto :: "dm_members \<Rightarrow> dm_members_proto" where
  "dm_members_to_proto d =
     \<lparr> dm_member_one = Some (member_one_inbox_id d), dm_member_two = Some (member_two_inbox_id d) \<rparr>"

definition dm_members_try_from :: "dm_members_proto \<Rightarrow> (group_metadata_error, dm_members) result" where
  "dm_members_try_from p =
     rbind (ok_or (dm_member_one p) MissingDmMember) (\<lambda>one.
     rbind (ok_or (dm_member_two p) MissingDmMember) (\<lambda>two.
     Ok \<lparr> member_one_inbox_id = one, member_two_inbox_id = two \<rparr>))"

definition transpose_opt :: "('a \<Rightarrow> ('e, 'b) result) \<Rightarrow> 'a option \<Rightarrow> ('e, 'b option) result" where
  "transpose_opt f x = (case x of None \<Rightarrow> Ok None | Some a \<Rightarrow> rbind (f a) (\<lambda>b. Ok (Some b)))"

definition metadata_to_proto :: "group_metadata \<Rightarrow> group_metadata_proto" where
  "metadata_to_proto m =
     \<lparr> p_conversation_type = conversation_type_i32 (md_conversation_type m), p_creator_account_address = '''',
       p_creator_inbox_id = md_creator_inbox_id m, p_dm_members = map_option dm_members_to_proto (md_dm_members m),
       p_oneshot_message = md_oneshot_message m \<rparr>"

definition metadata_to_bytes :: "group_protos \<Rightarrow> group_metadata \<Rightarrow> (group_metadata_error, bytes) result" where
  "metadata_to_bytes G m = ok_or (metadata_proto_encode G (metadata_to_proto m)) MdSerialization"

definition metadata_from_proto :: "group_metadata_proto \<Rightarrow> (group_metadata_error, group_metadata) result" where
  "metadata_from_proto p =
     rbind (transpose_opt dm_members_try_from (p_dm_members p)) (\<lambda>dm.
     rbind (ok_or (conversation_type_of_i32 (p_conversation_type p)) MdConversion) (\<lambda>ct.
     Ok \<lparr> md_conversation_type = ct, md_creator_inbox_id = p_creator_inbox_id p, md_dm_members = dm,
          md_oneshot_message = p_oneshot_message p \<rparr>))"

definition metadata_from_bytes :: "group_protos \<Rightarrow> bytes \<Rightarrow> (group_metadata_error, group_metadata) result" where
  "metadata_from_bytes G bs = rbind (ok_or (metadata_proto_decode G bs) MdDeserialization) metadata_from_proto"

definition metadata_from_extensions :: "group_protos \<Rightarrow> extensions \<Rightarrow> (group_metadata_error, group_metadata) result" where
  "metadata_from_extensions G x = rbind (ok_or (immutable_metadata x) MdMissingExtension) (metadata_from_bytes G)"

section \<open>The reader of the metadata crate\<close>

definition dict_dm_members :: "'v app_libs \<Rightarrow> bytes \<Rightarrow> (group_metadata_error, dm_members) result" where
  "dict_dm_members L b =
     rbind (map_err (\<lambda>_. InvalidDmMembers) (tls_deserialize_exact (inbox_set_codec L) b)) (\<lambda>s.
     let ids = TlsSet_iter s in
     if length ids \<noteq> 2 then Err InvalidDmMembers
     else Ok \<lparr> member_one_inbox_id = InboxId_to_hex (hex_encode (al_hex L)) (ids ! 0),
               member_two_inbox_id = InboxId_to_hex (hex_encode (al_hex L)) (ids ! 1) \<rparr>)"

definition read_group_metadata_from_dict ::
    "'v app_libs \<Rightarrow> group_protos \<Rightarrow> extensions \<Rightarrow> (group_metadata_error, group_metadata option) result" where
  "read_group_metadata_from_dict L G x =
     (case app_data_dictionary x of
        None \<Rightarrow> Ok None
      | Some d \<Rightarrow>
          if d COMPONENT_REGISTRY = None then Ok None
          else
          rbind (ok_or (d CONVERSATION_TYPE) MdConversion) (\<lambda>ct_bytes.
          rbind (ok_or (d CREATOR_INBOX_ID) MdConversion) (\<lambda>creator_bytes.
          rbind (ok_or (i32_from_be_bytes ct_bytes) InvalidConversationType) (\<lambda>n.
          rbind (ok_or (conversation_type_of_i32 n) MdConversion) (\<lambda>conversation_type.
          rbind (map_err (\<lambda>_. MdConversion) (tls_deserialize_exact (InboxId_codec (al_vlen L)) creator_bytes)) (\<lambda>creator.
          rbind (transpose_opt (dict_dm_members L) (d DM_MEMBERS)) (\<lambda>dm.
          rbind (transpose_opt (\<lambda>b. ok_or (oneshot_decode G b) MdDeserialization) (d ONESHOT_MESSAGE)) (\<lambda>oneshot.
          Ok (Some \<lparr> md_conversation_type = conversation_type,
                     md_creator_inbox_id = InboxId_to_hex (hex_encode (al_hex L)) creator,
                     md_dm_members = dm, md_oneshot_message = oneshot \<rparr>)))))))))"

definition extract_group_metadata ::
    "'v app_libs \<Rightarrow> group_protos \<Rightarrow> extensions \<Rightarrow> (group_metadata_error, group_metadata) result" where
  "extract_group_metadata L G x =
     rbind (read_group_metadata_from_dict L G x) (\<lambda>r.
     case r of
       Some m \<Rightarrow> Ok m
     | None \<Rightarrow> rbind (ok_or (immutable_metadata x) MdMissingExtension) (metadata_from_bytes G))"

section \<open>The reader of the commit validator\<close>

record group_metadata_return =
  ret_conversation_type :: i32
  ret_creator_inbox_id :: string
  ret_dm_members :: "dm_members_proto option"
  ret_oneshot :: "oneshot_message option"

definition source_dm_members :: "'v app_libs \<Rightarrow> bytes \<Rightarrow> (component_source_error, dm_members_proto) result" where
  "source_dm_members L b =
     rbind (map_err (\<lambda>_. MalformedComponentValue DM_MEMBERS) (tls_deserialize_exact (inbox_set_codec L) b)) (\<lambda>s.
     let ids = TlsSet_iter s in
     if length ids \<noteq> 2 then Err (MalformedComponentValue DM_MEMBERS)
     else Ok \<lparr> dm_member_one = Some (InboxId_to_hex (hex_encode (al_hex L)) (ids ! 0)),
               dm_member_two = Some (InboxId_to_hex (hex_encode (al_hex L)) (ids ! 1)) \<rparr>)"

definition read_group_metadata_from_extensions ::
    "'v app_libs \<Rightarrow> group_protos \<Rightarrow> extensions \<Rightarrow> (component_source_error, group_metadata_return option) result" where
  "read_group_metadata_from_extensions L G x =
     (if \<not> is_migrated_extensions x then Ok None
      else case app_data_dictionary x of
        None \<Rightarrow> Ok None
      | Some d \<Rightarrow>
          (case d CONVERSATION_TYPE of
             None \<Rightarrow> Ok None
           | Some ct_bytes \<Rightarrow>
          (case d CREATOR_INBOX_ID of
             None \<Rightarrow> Ok None
           | Some creator_bytes \<Rightarrow>
          rbind (ok_or (i32_from_be_bytes ct_bytes) (MalformedComponentValue CONVERSATION_TYPE)) (\<lambda>n.
          rbind (map_err (\<lambda>_. MalformedComponentValue CREATOR_INBOX_ID)
                   (tls_deserialize_exact (InboxId_codec (al_vlen L)) creator_bytes)) (\<lambda>creator.
          rbind (transpose_opt (source_dm_members L) (d DM_MEMBERS)) (\<lambda>dm.
          rbind (transpose_opt (\<lambda>b. ok_or (oneshot_decode G b) (MalformedComponentValue ONESHOT_MESSAGE)) (d ONESHOT_MESSAGE)) (\<lambda>oneshot.
          Ok (Some \<lparr> ret_conversation_type = n,
                     ret_creator_inbox_id = InboxId_to_hex (hex_encode (al_hex L)) creator,
                     ret_dm_members = dm, ret_oneshot = oneshot \<rparr>))))))))"

datatype immutable_read_error = ReadGmm gmm_error | ReadMetadata group_metadata_error

definition seed_to_proto :: "group_metadata_return \<Rightarrow> group_metadata_proto" where
  "seed_to_proto seed =
     \<lparr> p_conversation_type = ret_conversation_type seed, p_creator_account_address = '''',
       p_creator_inbox_id = ret_creator_inbox_id seed, p_dm_members = ret_dm_members seed,
       p_oneshot_message = ret_oneshot seed \<rparr>"

definition read_immutable_metadata ::
    "'v app_libs \<Rightarrow> group_protos \<Rightarrow> extensions \<Rightarrow> (immutable_read_error, group_metadata) result" where
  "read_immutable_metadata L G x =
     (if is_migrated_extensions x then
        rbind (map_err (\<lambda>e. ReadGmm (gmm_of_source e)) (read_group_metadata_from_extensions L G x)) (\<lambda>r.
        rbind (ok_or r (ReadMetadata MdMissingExtension)) (\<lambda>seed.
        map_err ReadMetadata (metadata_from_proto (seed_to_proto seed))))
      else map_err ReadMetadata (metadata_from_extensions G x))"

section \<open>What the readers agree on\<close>

lemma conversation_type_of_i32 [simp]: "conversation_type_of_i32 (conversation_type_i32 c) = Some c"
  by (cases c) (simp_all add: conversation_type_of_i32_def)

lemma transpose_opt_simps [simp]:
  "transpose_opt f None = Ok None" "transpose_opt f (Some a) = rbind (f a) (\<lambda>b. Ok (Some b))"
  by (simp_all add: transpose_opt_def)

lemma transpose_opt_Ok: "transpose_opt f x = Ok y \<longleftrightarrow> (case x of None \<Rightarrow> y = None | Some a \<Rightarrow> \<exists>b. f a = Ok b \<and> y = Some b)"
  by (cases x) (auto simp: rbind_eq_Ok)

lemma metadata_proto_roundtrip: "metadata_from_proto (metadata_to_proto m) = Ok m"
  by (cases "md_dm_members m")
    (simp_all add: metadata_from_proto_def metadata_to_proto_def dm_members_try_from_def dm_members_to_proto_def)

lemma is_migrated_iff:
  "is_migrated_extensions x \<longleftrightarrow> (\<exists>d. app_data_dictionary x = Some d \<and> d COMPONENT_REGISTRY \<noteq> None)"
  by (auto simp: is_migrated_extensions_def dict_get_def split: option.splits)

lemma ok_opt_ext: "(\<And>y. r = Ok y \<longleftrightarrow> s = Ok y) \<Longrightarrow> ok_opt r = ok_opt s"
  by (cases r; cases s) (auto simp: ok_opt_def)

lemma source_dm_members_Ok:
  "source_dm_members L b = Ok p \<longleftrightarrow> (\<exists>m. dict_dm_members L b = Ok m \<and> p = dm_members_to_proto m)"
  by (auto simp: source_dm_members_def dict_dm_members_def dm_members_to_proto_def Let_def rbind_eq_Ok)

lemma dm_members_proto_roundtrip [simp]: "dm_members_try_from (dm_members_to_proto m) = Ok m"
  by (simp add: dm_members_try_from_def dm_members_to_proto_def)

text \<open>
  The reader of immutable metadata that the commit validator uses and the one the rest of
  the client uses agree on every group, migrated or not: both succeed with the same metadata or
  both fail.
\<close>

theorem metadata_readers_agree:
  "ok_opt (read_immutable_metadata L G x) = ok_opt (extract_group_metadata L G x)"
proof (cases "is_migrated_extensions x")
  case False
  then have "read_group_metadata_from_dict L G x = Ok None"
    by (auto simp: read_group_metadata_from_dict_def is_migrated_iff split: option.splits)
  with False show ?thesis
    by (cases "metadata_from_extensions G x")
      (simp_all add: read_immutable_metadata_def extract_group_metadata_def metadata_from_extensions_def ok_opt_def)
next
  case True
  then obtain d r where d: "app_data_dictionary x = Some d" "d COMPONENT_REGISTRY = Some r"
    by (auto simp: is_migrated_iff)
  then have "read_group_metadata_from_dict L G x \<noteq> Ok None"
    by (auto simp: read_group_metadata_from_dict_def rbind_eq_Ok)
  then have found: "extract_group_metadata L G x = Ok m \<longleftrightarrow> read_group_metadata_from_dict L G x = Ok (Some m)" for m
    by (auto simp: extract_group_metadata_def rbind_eq_Ok split: option.splits)
  show ?thesis
    by (rule ok_opt_ext)
      (auto simp: read_immutable_metadata_def found read_group_metadata_from_extensions_def
        read_group_metadata_from_dict_def metadata_from_proto_def seed_to_proto_def d True rbind_eq_Ok transpose_opt_Ok
        source_dm_members_Ok split: option.splits)
qed

end
