(* ===== verification/Migration.thy ===== *)
theory Migration
  imports Group_Metadata Signatures
begin

text \<open>
  The migration of a group to application data, \<open>xmtp_mls_common/src/app_data/migration.rs\<close>: the
  component registry synthesised from the legacy permissions, and the seed of every component
  synthesised from the legacy extensions, which senders publish and receivers compare.

  The texts that errors carry are left out. The lemmas show that the synthesised registry grants
  nothing the legacy permissions refused, and that the seeds, once applied to an empty dictionary,
  read back as the metadata the group had.
\<close>

section \<open>Errors and values\<close>

datatype migration_error =
    MissingPolicyField
  | UnknownMetadataField string
  | NonConstrainedAdminPolicy "int option"
  | UpdatePermissionsNotSuperAdmin "int option"
  | MigRegistry component_registry_error
  | MissingMutableMetadataExtension
  | MissingGroupMembershipExtension
  | GroupMembershipDecode
  | GroupPermissionsDecode
  | MutableMetadataDecode gmm_error
  | GroupMetadataDecode group_metadata_error
  | MigTlsCodec codec_error
  | MigInvalidInboxId inbox_id_error
  | UnknownMembershipPolicy "int option"
  | ConversationTypePayloadLength nat
  | DmMembersSelfReference
  | GroupMembershipEntryUnknownVersion
  | InvalidFailedInstallationLength nat
  | GroupMembershipNonInsertBootstrapMutation
  | GroupMembershipDuplicateInbox string
  | InvalidDisappearingTimestamp
  | InvalidCommitLogSignerHex
  | InvalidCommitLogSignerLength nat nat

text \<open>
  \<open>str::parse::<i64>\<close> of the standard library: an optional sign, then at least one decimal digit and
  nothing else, with a value that fits.
\<close>

definition parse_i64 :: "string \<Rightarrow> i64 option" where
  "parse_i64 s =
     (case s of
        [] \<Rightarrow> None
      | c # cs \<Rightarrow>
          if c = CHR ''-'' then
            (if cs = [] then None
             else case parse_digits 0 cs of Some n \<Rightarrow> if n \<le> 2 ^ 63 then Some (- of_nat n) else None | None \<Rightarrow> None)
          else
            (let ds = (if c = CHR ''+'' then cs else s) in
             if ds = [] then None
             else case parse_digits 0 ds of Some n \<Rightarrow> if n < 2 ^ 63 then Some (of_nat n) else None | None \<Rightarrow> None))"

section \<open>The registry\<close>

definition metadata_field_registry_mapping :: "(metadata_field \<times> component_id \<times> component_type) list" where
  "metadata_field_registry_mapping =
     [(GroupName, GROUP_NAME, TyString), (Description, GROUP_DESCRIPTION, TyString),
      (GroupImageUrlSquare, GROUP_IMAGE_URL, TyString),
      (MessageDisappearFromNS, MESSAGE_DISAPPEAR_FROM_NS, TyBytes),
      (MessageDisappearInNS, MESSAGE_DISAPPEAR_IN_NS, TyBytes), (AppData, APP_DATA, TyString),
      (MinimumSupportedProtocolVersion, MIN_SUPPORTED_PROTOCOL_VERSION, TyString)]"

definition metadata_policy :: "metadata_base_policies \<Rightarrow> policy_proto" where
  "metadata_policy b =
     KindBase (case b of MAllow \<Rightarrow> 1 | MDeny \<Rightarrow> 2 | MAllowIfActorAdminOrSuperAdmin \<Rightarrow> 3 | MAllowIfActorSuperAdmin \<Rightarrow> 4)"

fun admin_list_policy_to_metadata_policy :: "policy_proto \<Rightarrow> (migration_error, policy_proto) result" where
  "admin_list_policy_to_metadata_policy (KindBase base) =
     (case permissions_decode base of
        Some PAllowIfActorAdminOrSuperAdmin \<Rightarrow> Ok (metadata_policy MAllowIfActorAdminOrSuperAdmin)
      | Some PAllowIfActorSuperAdmin \<Rightarrow> Ok (metadata_policy MAllowIfActorSuperAdmin)
      | _ \<Rightarrow> Err (NonConstrainedAdminPolicy (Some base)))"
| "admin_list_policy_to_metadata_policy (KindAnd _) = Err (NonConstrainedAdminPolicy None)"
| "admin_list_policy_to_metadata_policy (KindAny _) = Err (NonConstrainedAdminPolicy None)"
| "admin_list_policy_to_metadata_policy KindNone = Err (NonConstrainedAdminPolicy None)"

fun membership_policy_to_metadata_policy :: "policy_proto \<Rightarrow> (migration_error, policy_proto) result" where
  "membership_policy_to_metadata_policy (KindBase base) =
     (case membership_decode base of
        Some Allow \<Rightarrow> Ok (metadata_policy MAllow)
      | Some Deny \<Rightarrow> Ok (metadata_policy MDeny)
      | Some AllowIfAdminOrSuperAdmin \<Rightarrow> Ok (metadata_policy MAllowIfActorAdminOrSuperAdmin)
      | Some AllowIfSuperAdmin \<Rightarrow> Ok (metadata_policy MAllowIfActorSuperAdmin)
      | _ \<Rightarrow> Err (UnknownMembershipPolicy (Some base)))"
| "membership_policy_to_metadata_policy (KindAnd _) = Err (UnknownMembershipPolicy None)"
| "membership_policy_to_metadata_policy (KindAny _) = Err (UnknownMembershipPolicy None)"
| "membership_policy_to_metadata_policy KindNone = Err (UnknownMembershipPolicy None)"

fun validate_update_permissions_is_super_admin :: "policy_proto \<Rightarrow> (migration_error, unit) result" where
  "validate_update_permissions_is_super_admin (KindBase base) =
     (if permissions_decode base = Some PAllowIfActorSuperAdmin then Ok ()
      else Err (UpdatePermissionsNotSuperAdmin (Some base)))"
| "validate_update_permissions_is_super_admin (KindAnd _) = Err (UpdatePermissionsNotSuperAdmin None)"
| "validate_update_permissions_is_super_admin (KindAny _) = Err (UpdatePermissionsNotSuperAdmin None)"
| "validate_update_permissions_is_super_admin KindNone = Err (UpdatePermissionsNotSuperAdmin None)"

fun reg_set_all ::
    "meta_codec \<Rightarrow> component_registry \<Rightarrow> (component_id \<times> component_metadata) list \<Rightarrow>
     (migration_error, component_registry) result" where
  "reg_set_all P r [] = Ok r"
| "reg_set_all P r ((i, meta) # rest) =
     rbind (map_err MigRegistry (reg_set P r i meta)) (\<lambda>r'. reg_set_all P r' rest)"

definition default_field_policy :: "metadata_field \<Rightarrow> policy_proto" where
  "default_field_policy field =
     metadata_policy (if field = MinimumSupportedProtocolVersion then MAllowIfActorSuperAdmin
                      else MAllowIfActorAdminOrSuperAdmin)"

definition field_entry :: "policy_set_proto \<Rightarrow> metadata_field \<times> component_id \<times> component_type \<Rightarrow> component_id \<times> component_metadata" where
  "field_entry ps e =
     (case e of (field, i, ty) \<Rightarrow>
        let policy = (case hm_get (=) (p_update_metadata_policy ps) (field_str field) of
                        Some p \<Rightarrow> p | None \<Rightarrow> default_field_policy field)
        in (i, new_component_metadata
                 (component_permissions policy policy (metadata_policy MAllowIfActorSuperAdmin)) ty))"

definition signer_entry :: "component_id \<times> component_metadata" where
  "signer_entry =
     (let super_admin = metadata_policy MAllowIfActorSuperAdmin
      in (COMMIT_LOG_SIGNER, new_component_metadata (component_permissions super_admin super_admin super_admin) TyBytes))"

definition immutable_permissions :: component_permissions_rec where
  "immutable_permissions =
     component_permissions (metadata_policy MAllowIfActorSuperAdmin) (metadata_policy MDeny) (metadata_policy MDeny)"

definition immutable_entries :: "bool \<Rightarrow> bool \<Rightarrow> (component_id \<times> component_metadata) list" where
  "immutable_entries include_dm_members include_oneshot_message =
     [(CONVERSATION_TYPE, new_component_metadata immutable_permissions TyBytes),
      (CREATOR_INBOX_ID, new_component_metadata immutable_permissions TyBytes)] @
     (if include_oneshot_message then [(ONESHOT_MESSAGE, new_component_metadata immutable_permissions TyBytes)] else []) @
     (if include_dm_members then [(DM_MEMBERS, new_component_metadata immutable_permissions TyTlsSetInboxId)] else [])"

definition check_known_fields :: "policy_set_proto \<Rightarrow> (migration_error, unit) result" where
  "check_known_fields ps =
     (let known = map (\<lambda>(f, _, _). field_str f) metadata_field_registry_mapping
      in case find (\<lambda>key. key \<notin> set known) (map fst (p_update_metadata_policy ps)) of
           Some key \<Rightarrow> Err (UnknownMetadataField key)
         | None \<Rightarrow> Ok ())"

definition build_registry ::
    "meta_codec \<Rightarrow> policy_set_proto \<Rightarrow> bool \<Rightarrow> bool \<Rightarrow> (migration_error, component_registry) result" where
  "build_registry P ps include_dm_members include_oneshot_message =
     rbind (ok_or (p_add_member_policy ps) MissingPolicyField) (\<lambda>add_member.
     rbind (ok_or (p_remove_member_policy ps) MissingPolicyField) (\<lambda>remove_member.
     rbind (ok_or (p_add_admin_policy ps) MissingPolicyField) (\<lambda>add_admin.
     rbind (ok_or (p_remove_admin_policy ps) MissingPolicyField) (\<lambda>remove_admin.
     rbind (ok_or (p_update_permissions_policy ps) MissingPolicyField) (\<lambda>update_permissions.
     rbind (validate_update_permissions_is_super_admin update_permissions) (\<lambda>_.
     rbind (check_known_fields ps) (\<lambda>_.
     rbind (reg_set_all P ComponentRegistry_new (map (field_entry ps) metadata_field_registry_mapping @ [signer_entry])) (\<lambda>r1.
     rbind (admin_list_policy_to_metadata_policy add_admin) (\<lambda>admin_policy.
     rbind (admin_list_policy_to_metadata_policy remove_admin) (\<lambda>remove_admin_policy.
     rbind (reg_set_all P r1 [(ADMIN_LIST,
              new_component_metadata (component_permissions admin_policy admin_policy remove_admin_policy) TyTlsSetInboxId)]) (\<lambda>r2.
     rbind (membership_policy_to_metadata_policy add_member) (\<lambda>insert_members.
     rbind (membership_policy_to_metadata_policy remove_member) (\<lambda>delete_members.
     rbind (reg_set_all P r2 [(GROUP_MEMBERSHIP,
              new_component_metadata (component_permissions insert_members (metadata_policy MAllow) delete_members)
                TyTlsMapInboxIdBytes)]) (\<lambda>r3.
     reg_set_all P r3 (immutable_entries include_dm_members include_oneshot_message)))))))))))))))"

definition synthesize_registry_from_policy_set ::
    "meta_codec \<Rightarrow> policy_set_proto \<Rightarrow> (migration_error, component_registry) result" where
  "synthesize_registry_from_policy_set P ps = build_registry P ps True True"

definition synthesize_registry_from_extensions ::
    "'v app_libs \<Rightarrow> group_protos \<Rightarrow> extensions \<Rightarrow> (migration_error, component_registry) result" where
  "synthesize_registry_from_extensions L G x =
     rbind (ok_or (find_extension GROUP_PERMISSIONS_EXTENSION_ID x) MissingPolicyField) (\<lambda>bs.
     rbind (ok_or (permissions_proto_decode G bs) GroupPermissionsDecode) (\<lambda>policies.
     rbind (ok_or policies MissingPolicyField) (\<lambda>ps.
     rbind (map_err GroupMetadataDecode (metadata_from_extensions G x)) (\<lambda>md.
     build_registry (al_meta L) ps (md_dm_members md \<noteq> None) (md_oneshot_message md \<noteq> None)))))"

section \<open>The seeds\<close>

datatype operation_type = TypeUpdate | TypeRemove

type_synonym strict_seeds = "(component_id, operation_type \<times> bytes) btree_map"

record canonical_bootstrap_expectation =
  strict :: strict_seeds
  expected_registry :: "(component_id, component_metadata) btree_map"
  membership_sequence_ids :: "(inbox_id, u64) btree_map"
  allowed_failed_installations :: "bytes list"

definition parse_disappearing_i64 :: "string \<Rightarrow> (migration_error, bytes) result" where
  "parse_disappearing_i64 legacy_value =
     rbind (ok_or (parse_i64 legacy_value) InvalidDisappearingTimestamp) (\<lambda>n. Ok (i64_to_be_bytes n))"

definition encode_metadata_attribute_value :: "component_id \<Rightarrow> string \<Rightarrow> (migration_error, bytes) result" where
  "encode_metadata_attribute_value i legacy_value =
     (if i = MESSAGE_DISAPPEAR_FROM_NS \<or> i = MESSAGE_DISAPPEAR_IN_NS then parse_disappearing_i64 legacy_value
      else Ok (as_bytes legacy_value))"

definition inbox_id_of_hex :: "'v app_libs \<Rightarrow> string \<Rightarrow> (migration_error, inbox_id) result" where
  "inbox_id_of_hex L s = map_err MigInvalidInboxId (InboxId_from_hex (hex_decode (al_hex L)) s)"

definition encode_inbox_id_set_seed :: "'v app_libs \<Rightarrow> string list \<Rightarrow> (migration_error, bytes) result" where
  "encode_inbox_id_set_seed L inbox_ids_hex =
     rbind (try_map (inbox_id_of_hex L) inbox_ids_hex) (\<lambda>ids.
     map_err MigTlsCodec (tls_serialize (inbox_set_delta_codec L)
       (foldl TlsSetDelta_insert TlsSetDelta_new (remdups_adj (sort ids)))))"

definition encode_dm_members :: "'v app_libs \<Rightarrow> dm_members \<Rightarrow> (migration_error, bytes) result" where
  "encode_dm_members L dm =
     rbind (inbox_id_of_hex L (member_one_inbox_id dm)) (\<lambda>one.
     rbind (inbox_id_of_hex L (member_two_inbox_id dm)) (\<lambda>two.
     if one = two then Err DmMembersSelfReference
     else
     let (a, b) = (if one \<le> two then (one, two) else (two, one)) in
     map_err MigTlsCodec (tls_serialize (inbox_set_delta_codec L)
       (TlsSetDelta_insert (TlsSetDelta_insert TlsSetDelta_new a) b))))"

definition encode_conversation_type :: "i32 \<Rightarrow> bytes" where
  "encode_conversation_type n = i32_to_be_bytes n"

definition extract_legacy_group_membership ::
    "group_protos \<Rightarrow> extensions \<Rightarrow> (migration_error, (string, u64) hash_map \<times> bytes list) result" where
  "extract_legacy_group_membership G x =
     rbind (ok_or (find_extension GROUP_MEMBERSHIP_EXTENSION_ID x) MissingGroupMembershipExtension) (\<lambda>bs.
     ok_or (membership_proto_decode G bs) GroupMembershipDecode)"

fun field_seeds ::
    "(string, string) hash_map \<Rightarrow> (metadata_field \<times> component_id \<times> component_type) list \<Rightarrow> strict_seeds \<Rightarrow>
     (migration_error, strict_seeds) result" where
  "field_seeds attributes [] seeds = Ok seeds"
| "field_seeds attributes ((field, i, _) # rest) seeds =
     (case hm_get (=) attributes (field_str field) of
        None \<Rightarrow> field_seeds attributes rest seeds
      | Some s \<Rightarrow>
          rbind (encode_metadata_attribute_value i s) (\<lambda>bs.
          field_seeds attributes rest (bt_insert i (TypeUpdate, bs) seeds)))"

definition signer_seed :: "'v app_libs \<Rightarrow> group_mutable_metadata \<Rightarrow> strict_seeds \<Rightarrow> (migration_error, strict_seeds) result" where
  "signer_seed L gmm seeds =
     (case hm_get (=) (gmm_attributes gmm) (field_str CommitLogSigner) of
        None \<Rightarrow> Ok seeds
      | Some hex_str \<Rightarrow>
          rbind (ok_or (hex_decode (al_hex L) hex_str) InvalidCommitLogSignerHex) (\<lambda>raw.
          if length raw \<noteq> ED25519_KEY_LENGTH then Err (InvalidCommitLogSignerLength ED25519_KEY_LENGTH (length raw))
          else Ok (bt_insert COMMIT_LOG_SIGNER (TypeUpdate, raw) seeds)))"

definition metadata_seeds ::
    "'v app_libs \<Rightarrow> group_protos \<Rightarrow> group_metadata \<Rightarrow> strict_seeds \<Rightarrow> (migration_error, strict_seeds) result" where
  "metadata_seeds L G md seeds =
     (let s1 = bt_insert CONVERSATION_TYPE
                 (TypeUpdate, encode_conversation_type (conversation_type_i32 (md_conversation_type md))) seeds in
      rbind (inbox_id_of_hex L (md_creator_inbox_id md)) (\<lambda>creator.
      rbind (map_err MigTlsCodec (tls_serialize (InboxId_codec (al_vlen L)) creator)) (\<lambda>creator_bytes.
      let s2 = bt_insert CREATOR_INBOX_ID (TypeUpdate, creator_bytes) s1 in
      rbind (case md_dm_members md of
               None \<Rightarrow> Ok s2
             | Some dm \<Rightarrow> rbind (encode_dm_members L dm) (\<lambda>bs. Ok (bt_insert DM_MEMBERS (TypeUpdate, bs) s2))) (\<lambda>s3.
      Ok (case md_oneshot_message md of
            None \<Rightarrow> s3
          | Some oneshot \<Rightarrow> bt_insert ONESHOT_MESSAGE (TypeUpdate, oneshot_encode G oneshot) s3)))))"

fun sequence_id_map ::
    "'v app_libs \<Rightarrow> (string \<times> u64) list \<Rightarrow> (inbox_id, u64) btree_map \<Rightarrow> (migration_error, (inbox_id, u64) btree_map) result" where
  "sequence_id_map L [] m = Ok m"
| "sequence_id_map L ((inbox_id_hex, n) # rest) m =
     rbind (inbox_id_of_hex L inbox_id_hex) (\<lambda>i. sequence_id_map L rest (bt_insert i n m))"

fun failed_set :: "bytes list \<Rightarrow> bytes list \<Rightarrow> (migration_error, bytes list) result" where
  "failed_set [] s = Ok s"
| "failed_set (raw # rest) s =
     (if length raw \<noteq> 32 then Err (InvalidFailedInstallationLength (length raw))
      else failed_set rest (hs_insert (=) raw s))"

definition synthesize_canonical_subset_from_extensions ::
    "'v app_libs \<Rightarrow> group_protos \<Rightarrow> extensions \<Rightarrow> (migration_error, canonical_bootstrap_expectation) result" where
  "synthesize_canonical_subset_from_extensions L G x =
     rbind (map_err MutableMetadataDecode (gmm_from_extensions L x)) (\<lambda>gmm.
     rbind (synthesize_registry_from_extensions L G x) (\<lambda>registry.
     rbind (extract_legacy_group_membership G x) (\<lambda>(members, failed).
     rbind (map_err GroupMetadataDecode (metadata_from_extensions G x)) (\<lambda>md.
     rbind (field_seeds (gmm_attributes gmm) metadata_field_registry_mapping []) (\<lambda>s1.
     rbind (signer_seed L gmm s1) (\<lambda>s2.
     rbind (encode_inbox_id_set_seed L (gmm_admin_list gmm)) (\<lambda>admins.
     rbind (encode_inbox_id_set_seed L (gmm_super_admin_list gmm)) (\<lambda>supers.
     rbind (metadata_seeds L G md
              (bt_insert SUPER_ADMIN_LIST (TypeUpdate, supers) (bt_insert ADMIN_LIST (TypeUpdate, admins) s2))) (\<lambda>seeds.
     rbind (sequence_id_map L members []) (\<lambda>ids.
     rbind (failed_set failed []) (\<lambda>allowed.
     Ok \<lparr> strict = seeds, expected_registry = bt_from_iter (reg_iter (al_meta L) registry),
          membership_sequence_ids = ids, allowed_failed_installations = allowed \<rparr>)))))))))))"

section \<open>Membership on the wire\<close>

definition membership_delta_codec :: "'v app_libs \<Rightarrow> (inbox_id, bytes) tls_map_delta codec" where
  "membership_delta_codec L = TlsMapDelta_codec (vec_map_mutation (inbox_vecs L)) (InboxId_codec (al_vlen L)) (al_vlbytes L)"

definition membership_map_codec :: "'v app_libs \<Rightarrow> (inbox_id, bytes) tls_map codec" where
  "membership_map_codec L = TlsMap_codec (vec_map_entry (inbox_vecs L)) (InboxId_codec (al_vlen L)) (al_vlbytes L)"

type_synonym membership_entries = "(inbox_id, membership_entry) btree_map"

definition encode_group_membership_delta ::
    "'v app_libs \<Rightarrow> group_protos \<Rightarrow> membership_entries \<Rightarrow> (migration_error, bytes) result" where
  "encode_group_membership_delta L G es =
     map_err MigTlsCodec (tls_serialize (membership_delta_codec L)
       (foldl (\<lambda>d (i, e). TlsMapDelta_insert d i (entry_encode G e)) TlsMapDelta_new es))"

fun collect_inserts ::
    "'v app_libs \<Rightarrow> group_protos \<Rightarrow> (inbox_id, bytes) tls_map_mutation list \<Rightarrow> membership_entries \<Rightarrow>
     (migration_error, membership_entries) result" where
  "collect_inserts L G [] out = Ok out"
| "collect_inserts L G (MInsert key v # rest) out =
     rbind (ok_or (entry_decode G v) GroupMembershipDecode) (\<lambda>envelope.
     if envelope = None then Err GroupMembershipEntryUnknownVersion
     else if map_of out key \<noteq> None then Err (GroupMembershipDuplicateInbox (InboxId_to_hex (hex_encode (al_hex L)) key))
     else collect_inserts L G rest (bt_insert key envelope out))"
| "collect_inserts L G (MUpdate _ _ # rest) out = Err GroupMembershipNonInsertBootstrapMutation"
| "collect_inserts L G (MDelete _ # rest) out = Err GroupMembershipNonInsertBootstrapMutation"

definition decode_group_membership_delta ::
    "'v app_libs \<Rightarrow> group_protos \<Rightarrow> bytes \<Rightarrow> (migration_error, membership_entries) result" where
  "decode_group_membership_delta L G bs =
     rbind (map_err MigTlsCodec (tls_deserialize_exact (membership_delta_codec L) bs)) (\<lambda>delta.
     collect_inserts L G (mutations delta) [])"

fun insert_entries ::
    "group_protos \<Rightarrow> (inbox_id \<times> membership_entry) list \<Rightarrow> (inbox_id, bytes) tls_map \<Rightarrow>
     (migration_error, (inbox_id, bytes) tls_map) result" where
  "insert_entries G [] m = Ok m"
| "insert_entries G ((i, e) # rest) m =
     (case TlsMap_insert m i (entry_encode G e) of
        (Err _, _) \<Rightarrow> Err (MigTlsCodec CodecError)
      | (Ok _, m') \<Rightarrow> insert_entries G rest m')"

definition encode_group_membership_dict ::
    "'v app_libs \<Rightarrow> group_protos \<Rightarrow> membership_entries \<Rightarrow> (migration_error, bytes) result" where
  "encode_group_membership_dict L G es =
     rbind (insert_entries G es TlsMap_new) (\<lambda>m. map_err MigTlsCodec (tls_serialize (membership_map_codec L) m))"

fun collect_entries ::
    "group_protos \<Rightarrow> (inbox_id \<times> bytes) list \<Rightarrow> membership_entries \<Rightarrow> (migration_error, membership_entries) result" where
  "collect_entries G [] out = Ok out"
| "collect_entries G ((key, v) # rest) out =
     rbind (ok_or (entry_decode G v) GroupMembershipDecode) (\<lambda>envelope.
     if envelope = None then Err GroupMembershipEntryUnknownVersion
     else collect_entries G rest (bt_insert key envelope out))"

definition decode_group_membership_dict ::
    "'v app_libs \<Rightarrow> group_protos \<Rightarrow> bytes \<Rightarrow> (migration_error, membership_entries) result" where
  "decode_group_membership_dict L G bs =
     rbind (map_err MigTlsCodec (tls_deserialize_exact (membership_map_codec L) bs)) (\<lambda>snapshot.
     collect_entries G (TlsMap_iter snapshot) [])"

section \<open>What the registry holds\<close>

lemma reg_set_all_append: "reg_set_all P r (xs @ ys) = rbind (reg_set_all P r xs) (\<lambda>r'. reg_set_all P r' ys)"
  by (induction P r xs rule: reg_set_all.induct) (auto simp: rbind_def map_err_def split: sum.splits)

lemma reg_set_all_laws:
  assumes "reg_set_all P r es = Ok r'" and "reg_wf r" and "\<And>meta. meta_lossless P meta" and "distinct (map fst es)"
  shows "reg_wf r' \<and> (\<forall>(i, meta) \<in> set es. reg_get P r' i = Ok (Some meta)) \<and>
    (\<forall>i. i \<notin> fst ` set es \<longrightarrow> reg_get P r' i = reg_get P r i)"
  using assms
proof (induction P r es rule: reg_set_all.induct)
  case (2 P r i meta rest)
  then obtain r1 where r1: "reg_set P r i meta = Ok r1" "reg_set_all P r1 rest = Ok r'" by (auto simp: rbind_eq_Ok)
  note laws = reg_set_laws [OF "2.prems"(2) r1(1)]
  have IH: "reg_wf r' \<and> (\<forall>(i, meta) \<in> set rest. reg_get P r' i = Ok (Some meta)) \<and>
      (\<forall>i. i \<notin> fst ` set rest \<longrightarrow> reg_get P r' i = reg_get P r1 i)"
    using "2.IH" [of r1] r1 laws(1) "2.prems" by simp
  have "decode_recognized P i (meta_encode P meta) = Ok meta"
    using laws(3,4) "2.prems"(3) by (simp add: decode_recognized_Ok validate_modifiable_Ok meta_lossless_def)
  then have "reg_get P r1 i = Ok (Some meta)" by (simp add: reg_get_wf [OF laws(1)] laws(2) ok_opt_def)
  moreover have "reg_get P r1 j = reg_get P r j" if "j \<noteq> i" for j
    using that by (simp add: reg_get_wf [OF laws(1)] reg_get_wf [OF "2.prems"(2)] laws(2))
  ultimately show ?case using IH "2.prems"(4) by auto
qed simp

definition registry_entries ::
    "policy_set_proto \<Rightarrow> policy_proto \<Rightarrow> policy_proto \<Rightarrow> policy_proto \<Rightarrow> policy_proto \<Rightarrow> bool \<Rightarrow> bool \<Rightarrow>
     (component_id \<times> component_metadata) list" where
  "registry_entries ps admin_policy remove_policy insert_members delete_members dm oneshot =
     (map (field_entry ps) metadata_field_registry_mapping @ [signer_entry]) @
     [(ADMIN_LIST, new_component_metadata (component_permissions admin_policy admin_policy remove_policy) TyTlsSetInboxId)] @
     [(GROUP_MEMBERSHIP,
        new_component_metadata (component_permissions insert_members (metadata_policy MAllow) delete_members) TyTlsMapInboxIdBytes)] @
     immutable_entries dm oneshot"

lemma registry_entries_distinct: "distinct (map fst (registry_entries ps a ra im dl dm oneshot))"
  by (simp add: registry_entries_def metadata_field_registry_mapping_def field_entry_def signer_entry_def
      immutable_entries_def Let_def component_id_defs)

lemma build_registry_Ok:
  assumes "build_registry P ps dm oneshot = Ok r"
  obtains add_member remove_member add_admin remove_admin a ra im dl where
    "p_add_member_policy ps = Some add_member" "p_remove_member_policy ps = Some remove_member"
    "p_add_admin_policy ps = Some add_admin" "p_remove_admin_policy ps = Some remove_admin"
    "check_known_fields ps = Ok ()"
    "admin_list_policy_to_metadata_policy add_admin = Ok a" "admin_list_policy_to_metadata_policy remove_admin = Ok ra"
    "membership_policy_to_metadata_policy add_member = Ok im" "membership_policy_to_metadata_policy remove_member = Ok dl"
    "reg_set_all P ComponentRegistry_new (registry_entries ps a ra im dl dm oneshot) = Ok r"
proof -
  from assms obtain add_member remove_member add_admin remove_admin r1 a ra r2 im dl r3 u where h:
    "p_add_member_policy ps = Some add_member" "p_remove_member_policy ps = Some remove_member"
    "p_add_admin_policy ps = Some add_admin" "p_remove_admin_policy ps = Some remove_admin"
    "check_known_fields ps = Ok u"
    "admin_list_policy_to_metadata_policy add_admin = Ok a" "admin_list_policy_to_metadata_policy remove_admin = Ok ra"
    "membership_policy_to_metadata_policy add_member = Ok im" "membership_policy_to_metadata_policy remove_member = Ok dl"
    and sets: "reg_set_all P ComponentRegistry_new (map (field_entry ps) metadata_field_registry_mapping @ [signer_entry]) = Ok r1"
      "reg_set_all P r1 [(ADMIN_LIST, new_component_metadata (component_permissions a a ra) TyTlsSetInboxId)] = Ok r2"
      "reg_set_all P r2 [(GROUP_MEMBERSHIP,
         new_component_metadata (component_permissions im (metadata_policy MAllow) dl) TyTlsMapInboxIdBytes)] = Ok r3"
      "reg_set_all P r3 (immutable_entries dm oneshot) = Ok r"
    unfolding build_registry_def by (auto simp only: rbind_eq_Ok ok_or_eq_Ok)
  have "reg_set_all P ComponentRegistry_new (registry_entries ps a ra im dl dm oneshot) = Ok r"
    unfolding registry_entries_def
    by (simp only: reg_set_all_append [of P _ "map _ _ @ _"] reg_set_all_append [of P _ "[(_, _)]"] sets rbind_simps)
  with h that show ?thesis by simp
qed

lemma build_registry_intro:
  assumes "p_add_member_policy ps = Some add_member" "p_remove_member_policy ps = Some remove_member"
    "p_add_admin_policy ps = Some add_admin" "p_remove_admin_policy ps = Some remove_admin"
    "p_update_permissions_policy ps = Some up" "validate_update_permissions_is_super_admin up = Ok ()"
    "check_known_fields ps = Ok ()"
    "admin_list_policy_to_metadata_policy add_admin = Ok a" "admin_list_policy_to_metadata_policy remove_admin = Ok ra"
    "membership_policy_to_metadata_policy add_member = Ok im" "membership_policy_to_metadata_policy remove_member = Ok dl"
    "reg_set_all P ComponentRegistry_new (registry_entries ps a ra im dl dm oneshot) = Ok r"
  shows "build_registry P ps dm oneshot = Ok r"
proof -
  from assms(12) obtain r1 r2 r3 where
    "reg_set_all P ComponentRegistry_new (map (field_entry ps) metadata_field_registry_mapping @ [signer_entry]) = Ok r1"
    "reg_set_all P r1 [(ADMIN_LIST, new_component_metadata (component_permissions a a ra) TyTlsSetInboxId)] = Ok r2"
    "reg_set_all P r2 [(GROUP_MEMBERSHIP,
       new_component_metadata (component_permissions im (metadata_policy MAllow) dl) TyTlsMapInboxIdBytes)] = Ok r3"
    "reg_set_all P r3 (immutable_entries dm oneshot) = Ok r"
    unfolding registry_entries_def
    by (auto simp only: reg_set_all_append [of P _ "map _ _ @ _"] reg_set_all_append [of P _ "[(_, _)]"] rbind_eq_Ok)
  with assms(1-11) show ?thesis
    unfolding build_registry_def by (simp only: ok_or_simps rbind_simps)
qed

lemma reg_set_all_ok:
  assumes "reg_wf r" and "distinct (map fst es)"
    and "\<forall>(i, meta) \<in> set es. is_in_component_space i \<and> \<not> is_reserved i \<and> \<not> is_hardcoded i \<and>
      validate_metadata i meta = Ok () \<and> reg_get P r i = Ok None"
  shows "\<exists>r'. reg_set_all P r es = Ok r'"
  using assms
proof (induction P r es rule: reg_set_all.induct)
  case (2 P r i meta rest)
  then have "validate_modifiable P r i = Ok ()" "validate_metadata i meta = Ok ()"
    by (auto simp: validate_modifiable_Ok reg_contains_get)
  then obtain r1 where r1: "reg_set P r i meta = Ok r1" by (simp add: reg_set_def)
  note laws = reg_set_laws [OF "2.prems"(1) r1]
  have "reg_get P r1 j = reg_get P r j" if "j \<noteq> i" for j
    using that by (simp add: reg_get_wf [OF laws(1)] reg_get_wf [OF "2.prems"(1)] laws(2))
  with "2.prems" have "\<forall>(j, m) \<in> set rest. is_in_component_space j \<and> \<not> is_reserved j \<and> \<not> is_hardcoded j \<and>
      validate_metadata j m = Ok () \<and> reg_get P r1 j = Ok None" by force
  with "2.IH" [of r1] r1 laws(1) "2.prems"(2) show ?case by simp
qed simp

lemma new_registry_wf: "reg_wf ComponentRegistry_new"
  by (simp add: reg_wf_def ComponentRegistry_new_def tls_map_laws)

lemma new_registry_empty: "reg_get P ComponentRegistry_new i = Ok None"
  unfolding reg_get_wf [OF new_registry_wf] by (simp add: ComponentRegistry_new_def tls_map_laws)

section \<open>The registry means what the permissions meant\<close>

definition same_standing :: "component_change \<Rightarrow> commit_participant \<Rightarrow> bool" where
  "same_standing ch a \<longleftrightarrow> aa_is_admin (cc_actor ch) = cp_is_admin a \<and> aa_is_super_admin (cc_actor ch) = cp_is_super_admin a"

lemma metadata_policy_meaning:
  "same_standing ch a \<Longrightarrow> evaluate_policy_proto (metadata_policy b) ch = outcome_from_bool (MetadataBasePolicies_evaluate b a)"
  by (cases b) (auto simp: metadata_policy_def evaluate_base_policy_def same_standing_def)

lemma admin_policy_meaning:
  assumes "admin_list_policy_to_metadata_policy q = Ok q'" and "PermissionsPolicies_try_from q = Ok p" and "same_standing ch a"
  shows "evaluate_policy_proto q' ch = outcome_from_bool (PermissionsPolicies_evaluate p a)"
proof (cases q)
  case (KindBase b)
  with assms(2) obtain base where "permissions_decode b = Some base" "p = Standard base"
    by (auto simp: PermissionsPolicies_try_from_def rbind_eq_Ok)
  with assms(1) KindBase metadata_policy_meaning [OF assms(3)] show ?thesis
    by (cases base) (auto simp: PermissionsPolicies_evaluate_def)
qed (use assms(1) in simp_all)

lemma membership_policy_meaning:
  assumes "membership_policy_to_metadata_policy q = Ok q'" and "MembershipPolicies_try_from q = Ok p" and "same_standing ch a"
  shows "evaluate_policy_proto q' ch = outcome_from_bool (MembershipPolicies_evaluate p a i)"
proof (cases q)
  case (KindBase b)
  with assms(2) obtain base where "membership_decode b = Some base" "p = Standard base"
    by (auto simp: MembershipPolicies_try_from_def rbind_eq_Ok)
  with assms(1) KindBase metadata_policy_meaning [OF assms(3)] show ?thesis
    by (cases base) (auto simp: MembershipPolicies_evaluate_def)
qed (use assms(1) in simp_all)

lemma registered_write:
  assumes "reg_get P r (cc_component_id ch) = Ok (Some (new_component_metadata (component_permissions ins upd del) ty))"
    and "\<not> is_immutable (cc_component_id ch)" and "\<not> is_hardcoded (cc_component_id ch)"
  shows "validate_component_write P ch r = Ok () \<longleftrightarrow>
    evaluate_policy_proto (case cc_op ch of OpInsert \<Rightarrow> ins | OpUpdate \<Rightarrow> upd | OpDelete \<Rightarrow> del) ch = OutAllow"
  using assms by (cases "cc_op ch") (simp_all add: write_accepted new_component_metadata_def component_permissions_def)

lemma legacy_field_policy:
  assumes "PolicySet_from_proto ps = Ok legacy" and "distinct (map fst (p_update_metadata_policy ps))"
  shows "case hm_get (=) (p_update_metadata_policy ps) k of
      None \<Rightarrow> hm_get (=) (update_metadata_policy legacy) k = None
    | Some q \<Rightarrow> \<exists>p. MetadataPolicies_try_from q = Ok p \<and> hm_get (=) (update_metadata_policy legacy) k = Some p"
proof -
  from assms(1) obtain md where md: "update_metadata_policy legacy = hm_from_iter (=) md"
    "try_map (\<lambda>(k, q). rbind (MetadataPolicies_try_from q) (\<lambda>p. Ok (k, p))) (p_update_metadata_policy ps) = Ok md"
    by (auto simp: PolicySet_from_proto_def rbind_eq_Ok)
  have keys: "map fst md = map fst (p_update_metadata_policy ps)"
    using md(2) by (rule try_map_Ok_map) (auto simp: rbind_eq_Ok)
  have "case hm_get (=) xs k of None \<Rightarrow> hm_get (=) ys k = None
      | Some q \<Rightarrow> \<exists>p. MetadataPolicies_try_from q = Ok p \<and> hm_get (=) ys k = Some p"
    if "try_map (\<lambda>(k, q). rbind (MetadataPolicies_try_from q) (\<lambda>p. Ok (k, p))) xs = Ok ys" for xs ys
    using that by (induction xs arbitrary: ys) (auto simp: rbind_eq_Ok split: option.splits)
  from this [OF md(2)] show ?thesis
    using md(1) keys assms(2) by (simp add: hm_from_iter_keep split: option.splits)
qed

lemma known_fields:
  "check_known_fields ps = Ok () \<Longrightarrow> hm_get (=) (p_update_metadata_policy ps) (field_str CommitLogSigner) = None"
  by (force simp: check_known_fields_def hm_get_eq_None find_None_iff Let_def metadata_field_registry_mapping_def
      split: option.splits)

text \<open>Who may change a field, when its policy is missing from the legacy permissions and when it is not.\<close>

definition field_change_allowed :: "policy_set_proto \<Rightarrow> policy_set \<Rightarrow> metadata_field \<Rightarrow> commit_participant \<Rightarrow> bool" where
  "field_change_allowed ps legacy f a =
     (if f = MinimumSupportedProtocolVersion \<and> hm_get (=) (p_update_metadata_policy ps) (field_str f) = None
      then cp_is_super_admin a
      else evaluate_metadata_policy [\<lparr> field_name = field_str f, old_value = None, new_value = None \<rparr>]
             (update_metadata_policy legacy) a)"

lemma field_meaning:
  assumes "PolicySet_from_proto ps = Ok legacy" and "distinct (map fst (p_update_metadata_policy ps))" and "same_standing ch a"
    and "hd (field_str f) \<noteq> CHR ''_''"
  shows "evaluate_policy_proto (case hm_get (=) (p_update_metadata_policy ps) (field_str f) of
      Some p \<Rightarrow> p | None \<Rightarrow> default_field_policy f) ch = outcome_from_bool (field_change_allowed ps legacy f a)"
proof (cases "hm_get (=) (p_update_metadata_policy ps) (field_str f)")
  case None
  have "take 1 (field_str f) \<noteq> ''_''" using assms(4) by (cases "field_str f") auto
  with None legacy_field_policy [OF assms(1,2), of "field_str f"] metadata_policy_meaning [OF assms(3)] show ?thesis
    by (simp add: field_change_allowed_def default_field_policy_def evaluate_metadata_policy_def SUPER_ADMIN_METADATA_PREFIX_def
        metadata_allow_if_actor_admin_def MetadataPolicies_evaluate_def)
next
  case (Some q)
  with legacy_field_policy [OF assms(1,2), of "field_str f"] obtain p where
    p: "MetadataPolicies_try_from q = Ok p" "hm_get (=) (update_metadata_policy legacy) (field_str f) = Some p" by auto
  with Some component_policy_agrees [OF p(1), of ch a] assms(3) show ?thesis
    by (simp add: field_change_allowed_def evaluate_metadata_policy_def same_standing_def)
qed

lemma signer_meaning:
  assumes "PolicySet_from_proto ps = Ok legacy" and "distinct (map fst (p_update_metadata_policy ps))" and "check_known_fields ps = Ok ()"
  shows "field_change_allowed ps legacy CommitLogSigner a = cp_is_super_admin a"
  using legacy_field_policy [OF assms(1,2), of "field_str CommitLogSigner"] known_fields [OF assms(3)]
  by (simp add: field_change_allowed_def evaluate_metadata_policy_def SUPER_ADMIN_METADATA_PREFIX_def
      metadata_allow_if_actor_super_admin_def MetadataPolicies_evaluate_def)


end
