(* ===== verification/Staged_Commit.thy ===== *)
theory Staged_Commit
  imports Migration Identity_Updates
begin

text \<open>
  What the commit validators read of a group and of a staged commit, and who proposed it: the shared
  part of \<open>xmtp_mls/src/groups/validated_commit.rs\<close>. Groups, commits and proposals belong to OpenMLS; the
  records hold what the source reads of them. Sets of installations are lists without repetition.
\<close>

section \<open>Groups and commits\<close>

text \<open>A credential either holds the identity bytes of a basic credential or is of another type.\<close>

datatype mls_credential = BasicCredential bytes | OtherCredential

record leaf_node =
  ln_signature_key :: bytes
  ln_credential :: mls_credential

datatype mls_proposal =
    AddProposal leaf_node
  | UpdateProposal leaf_node
  | RemoveProposal u32
  | PreSharedKeyProposal
  | ReInitProposal
  | ExternalInitProposal
  | GroupContextExtensionsProposal extensions
  | AppDataUpdateProposal component_id app_data_update_operation
  | SelfRemoveProposal
  | AppEphemeralProposal
  | CustomProposal

datatype mls_sender = MemberSender u32 | ExternalSender | NewMemberProposalSender | NewMemberCommitSender

record queued_proposal =
  qp_sender :: mls_sender
  qp_proposal :: mls_proposal

record staged_commit =
  queued_proposals :: "queued_proposal list"
  new_extensions :: extensions

record mls_group =
  mg_group_id :: bytes
  mg_extensions :: extensions
  mg_members :: "(u32 \<times> leaf_node) list"

definition member_at :: "mls_group \<Rightarrow> u32 \<Rightarrow> leaf_node option" where
  "member_at g i = map_of (mg_members g) i"

definition app_data_update_proposals :: "staged_commit \<Rightarrow> app_data_proposals" where
  "app_data_update_proposals c =
     List.map_filter (\<lambda>q. case qp_proposal q of AppDataUpdateProposal i op \<Rightarrow> Some (i, op) | _ \<Rightarrow> None) (queued_proposals c)"

definition gce_proposals :: "staged_commit \<Rightarrow> extensions list" where
  "gce_proposals c =
     List.map_filter (\<lambda>q. case qp_proposal q of GroupContextExtensionsProposal x \<Rightarrow> Some x | _ \<Rightarrow> None) (queued_proposals c)"

text \<open>Names of the proposal types.\<close>

fun proposal_type_name :: "mls_proposal \<Rightarrow> string" where
  "proposal_type_name (AddProposal _) = ''Add''"
| "proposal_type_name (UpdateProposal _) = ''Update''"
| "proposal_type_name (RemoveProposal _) = ''Remove''"
| "proposal_type_name PreSharedKeyProposal = ''PreSharedKey''"
| "proposal_type_name ReInitProposal = ''ReInit''"
| "proposal_type_name ExternalInitProposal = ''ExternalInit''"
| "proposal_type_name (GroupContextExtensionsProposal _) = ''GroupContextExtensions''"
| "proposal_type_name (AppDataUpdateProposal _ _) = ''AppDataUpdate''"
| "proposal_type_name SelfRemoveProposal = ''SelfRemove''"
| "proposal_type_name AppEphemeralProposal = ''AppEphemeral''"
| "proposal_type_name CustomProposal = ''Custom''"

section \<open>Errors\<close>

text \<open>The reasons given with \<open>GceMismatch\<close> and \<open>PayloadDecode\<close> are diagnostic text.\<close>

datatype bootstrap_validation_error =
    BootProtocolVersionTooLow string
  | MissingSeed component_id
  | BootMismatch component_id
  | UnexpectedProposal component_id
  | DuplicateProposal component_id
  | ExtraMember bytes
  | MissingMember bytes
  | SequenceIdMismatch bytes u64 u64
  | GceMismatch
  | PayloadDecode component_id
  | ProposerNotSuperAdmin
  | RegistryEntryMismatch component_id
  | UnauthorizedFailedInstallation bytes
  | Synthesis migration_error
  | DisallowedProposalType string

text \<open>\<open>InvalidVersionFormat\<close> has no text when the version is not UTF-8.\<close>

datatype commit_validation_error =
    ActorCouldNotBeFound
  | InboxValidationFailed string
  | InsufficientPermissions
  | InvalidVersionFormat "string option"
  | ProtocolVersionTooLow string
  | ActorNotMember
  | SubjectDoesNotExist
  | MultipleActors
  | MissingGroupMembership
  | MissingMutableMetadata
  | UnexpectedInstallationAdded "bytes list"
  | SequenceIdDecreased
  | UnexpectedInstallationsRemoved "bytes list"
  | VcGroupMetadata group_metadata_error
  | VcMlsCredential
  | VcGroupMutableMetadata gmm_error
  | VcProtoDecode
  | VcInstallationDiff client_error
  | VcGroupMutablePermissions group_mutable_permissions_error
  | NoPSKSupport
  | UnsupportedProposalType string
  | VcStorageError
  | TooManyCharacters nat
  | ProposerNotFound
  | ProposalsNotEnabled
  | MinVersionDowngrade string string
  | MinVersionRemoveOnExistingFloor string
  | VcComponentSource component_source_error
  | VcBootstrap bootstrap_validation_error
  | VcConversion

section \<open>Participants\<close>

definition inbox_id_from_credential :: "group_protos \<Rightarrow> mls_credential \<Rightarrow> (commit_validation_error, string) result" where
  "inbox_id_from_credential G c =
     (case c of
        BasicCredential identity_bytes \<Rightarrow> ok_or (mls_credential_decode G identity_bytes) VcProtoDecode
      | OtherCredential \<Rightarrow> Err VcMlsCredential)"

definition CommitParticipant_build ::
    "string \<Rightarrow> bytes \<Rightarrow> group_metadata \<Rightarrow> group_mutable_metadata \<Rightarrow> commit_participant" where
  "CommitParticipant_build inbox installation md gmm =
     \<lparr> cp_inbox_id = inbox, cp_installation_id = installation, cp_is_creator = (inbox = md_creator_inbox_id md),
       cp_is_admin = gmm_is_admin gmm inbox, cp_is_super_admin = gmm_is_super_admin gmm inbox \<rparr>"

definition CommitParticipant_from_leaf_node ::
    "group_protos \<Rightarrow> leaf_node \<Rightarrow> group_metadata \<Rightarrow> group_mutable_metadata \<Rightarrow>
     (commit_validation_error, commit_participant) result" where
  "CommitParticipant_from_leaf_node G leaf md gmm =
     rbind (inbox_id_from_credential G (ln_credential leaf)) (\<lambda>inbox.
     Ok (CommitParticipant_build inbox (ln_signature_key leaf) md gmm))"

definition actor_authority_of :: "commit_participant \<Rightarrow> actor_authority" where
  "actor_authority_of p = \<lparr> aa_is_admin = cp_is_admin p, aa_is_super_admin = cp_is_super_admin p \<rparr>"

definition extract_commit_participant ::
    "group_protos \<Rightarrow> u32 \<Rightarrow> mls_group \<Rightarrow> group_metadata \<Rightarrow> group_mutable_metadata \<Rightarrow>
     (commit_validation_error, commit_participant) result" where
  "extract_commit_participant G leaf_index g md gmm =
     (case member_at g leaf_index of
        Some leaf \<Rightarrow>
          rbind (inbox_id_from_credential G (ln_credential leaf)) (\<lambda>inbox.
          Ok (CommitParticipant_build inbox (ln_signature_key leaf) md gmm))
      | None \<Rightarrow> Err ActorNotMember)"

definition sender_participant ::
    "group_protos \<Rightarrow> mls_sender \<Rightarrow> mls_group \<Rightarrow> group_metadata \<Rightarrow> group_mutable_metadata \<Rightarrow>
     (commit_validation_error, commit_participant) result" where
  "sender_participant G s g md gmm =
     (case s of MemberSender leaf_index \<Rightarrow> extract_commit_participant G leaf_index g md gmm | _ \<Rightarrow> Err ActorNotMember)"

fun proposer_leaf_indices :: "queued_proposal list \<Rightarrow> u32 list \<Rightarrow> (commit_validation_error, u32 list) result" where
  "proposer_leaf_indices [] acc = Ok acc"
| "proposer_leaf_indices (q # qs) acc =
     (case qp_sender q of
        MemberSender i \<Rightarrow> proposer_leaf_indices qs (if i \<in> set acc then acc else acc @ [i])
      | _ \<Rightarrow> Err ActorNotMember)"

definition extract_committer_and_proposers ::
    "group_protos \<Rightarrow> staged_commit \<Rightarrow> u32 \<Rightarrow> mls_group \<Rightarrow> group_metadata \<Rightarrow> group_mutable_metadata \<Rightarrow>
     (commit_validation_error, commit_participant \<times> commit_participant list) result" where
  "extract_committer_and_proposers G c committer g md gmm =
     rbind (proposer_leaf_indices (queued_proposals c) []) (\<lambda>indices.
     rbind (try_map (\<lambda>i. extract_commit_participant G i g md gmm) indices) (\<lambda>proposers.
     rbind (extract_commit_participant G committer g md gmm) (\<lambda>actor.
     Ok (actor, proposers))))"

definition reject_psk_proposals :: "staged_commit \<Rightarrow> (commit_validation_error, unit) result" where
  "reject_psk_proposals c =
     (if list_ex (\<lambda>q. qp_proposal q = PreSharedKeyProposal) (queued_proposals c) then Err NoPSKSupport else Ok ())"

section \<open>Changes made by the proposals\<close>

text \<open>The default of the record.\<close>

definition default_validation_info :: mutable_metadata_validation_info where
  "default_validation_info = \<lparr> metadata_field_changes = [], admins_added = [], admins_removed = [], super_admins_added = [],
     super_admins_removed = [], num_super_admins = 0, minimum_supported_protocol_version = None \<rparr>"

record proposal_changes =
  pc_added_installations :: "bytes list"
  pc_removed_installations :: "bytes list"
  pc_credentials_to_verify :: "commit_participant list"
  pc_added_inbox_proposers :: "(string, commit_participant) hash_map"
  pc_removed_inbox_proposers :: "(string, commit_participant) hash_map"
  pc_gce_proposer :: "commit_participant option"

definition no_changes :: proposal_changes where
  "no_changes = \<lparr> pc_added_installations = [], pc_removed_installations = [], pc_credentials_to_verify = [],
     pc_added_inbox_proposers = [], pc_removed_inbox_proposers = [], pc_gce_proposer = None \<rparr>"

definition proposal_change ::
    "group_protos \<Rightarrow> mls_group \<Rightarrow> group_metadata \<Rightarrow> group_mutable_metadata \<Rightarrow> commit_participant \<Rightarrow> mls_proposal \<Rightarrow>
     proposal_changes \<Rightarrow> (commit_validation_error, proposal_changes) result" where
  "proposal_change G g md gmm proposer p ch =
     (case p of
        UpdateProposal leaf \<Rightarrow>
          rbind (CommitParticipant_from_leaf_node G leaf md gmm) (\<lambda>cp.
          Ok (ch\<lparr> pc_credentials_to_verify := pc_credentials_to_verify ch @ [cp] \<rparr>))
      | AddProposal leaf \<Rightarrow>
          rbind (inbox_id_from_credential G (ln_credential leaf)) (\<lambda>inbox.
          Ok (ch\<lparr> pc_added_installations := hs_insert (=) (ln_signature_key leaf) (pc_added_installations ch),
                  pc_added_inbox_proposers := hm_insert (=) inbox proposer (pc_added_inbox_proposers ch) \<rparr>))
      | RemoveProposal i \<Rightarrow>
          rbind (ok_or (member_at g i) SubjectDoesNotExist) (\<lambda>leaf.
          rbind (inbox_id_from_credential G (ln_credential leaf)) (\<lambda>inbox.
          Ok (ch\<lparr> pc_removed_installations := hs_insert (=) (ln_signature_key leaf) (pc_removed_installations ch),
                  pc_removed_inbox_proposers := hm_insert (=) inbox proposer (pc_removed_inbox_proposers ch) \<rparr>)))
      | GroupContextExtensionsProposal _ \<Rightarrow> Ok (ch\<lparr> pc_gce_proposer := Some proposer \<rparr>)
      | _ \<Rightarrow> Ok ch)"

fun proposal_changes_loop ::
    "group_protos \<Rightarrow> mls_group \<Rightarrow> group_metadata \<Rightarrow> group_mutable_metadata \<Rightarrow> queued_proposal list \<Rightarrow> proposal_changes \<Rightarrow>
     (commit_validation_error, proposal_changes) result" where
  "proposal_changes_loop G g md gmm [] ch = Ok ch"
| "proposal_changes_loop G g md gmm (q # qs) ch =
     rbind (sender_participant G (qp_sender q) g md gmm) (\<lambda>proposer.
     rbind (proposal_change G g md gmm proposer (qp_proposal q) ch) (\<lambda>ch'.
     proposal_changes_loop G g md gmm qs ch'))"

definition get_proposal_changes ::
    "group_protos \<Rightarrow> staged_commit \<Rightarrow> mls_group \<Rightarrow> group_metadata \<Rightarrow> group_mutable_metadata \<Rightarrow>
     (commit_validation_error, proposal_changes) result" where
  "get_proposal_changes G c g md gmm = proposal_changes_loop G g md gmm (queued_proposals c) no_changes"

section \<open>Laws\<close>

lemma proposer_leaf_indices_Ok:
  "proposer_leaf_indices qs acc = Ok is \<Longrightarrow>
     (\<forall>q \<in> set qs. \<exists>i \<in> set is. qp_sender q = MemberSender i) \<and> set acc \<subseteq> set is"
  by (induction qs acc rule: proposer_leaf_indices.induct) (fastforce split: mls_sender.splits if_splits)+

lemma committer_Ok:
  assumes "extract_committer_and_proposers G c committer g md gmm = Ok (actor, proposers)"
  shows "extract_commit_participant G committer g md gmm = Ok actor"
    and "q \<in> set (queued_proposals c) \<Longrightarrow> \<exists>i. qp_sender q = MemberSender i \<and> member_at g i \<noteq> None"
proof -
  from assms obtain indices where i: "proposer_leaf_indices (queued_proposals c) [] = Ok indices"
    "try_map (\<lambda>i. extract_commit_participant G i g md gmm) indices = Ok proposers"
    "extract_commit_participant G committer g md gmm = Ok actor"
    by (auto simp: extract_committer_and_proposers_def rbind_eq_Ok)
  then show "extract_commit_participant G committer g md gmm = Ok actor" by blast
  assume "q \<in> set (queued_proposals c)"
  with proposer_leaf_indices_Ok [OF i(1)] obtain j where j: "j \<in> set indices" "qp_sender q = MemberSender j" by blast
  from i(2) j(1) have "\<exists>p. extract_commit_participant G j g md gmm = Ok p"
    by (auto simp: try_map_Ok_iff list_all2_conv_all_nth in_set_conv_nth)
  then have "member_at g j \<noteq> None" by (auto simp: extract_commit_participant_def split: option.splits)
  with j(2) show "\<exists>i. qp_sender q = MemberSender i \<and> member_at g i \<noteq> None" by blast
qed

lemma participant_Ok:
  "extract_commit_participant G i g md gmm = Ok p \<Longrightarrow>
     cp_is_super_admin p = gmm_is_super_admin gmm (cp_inbox_id p) \<and> cp_is_admin p = gmm_is_admin gmm (cp_inbox_id p)"
  by (auto simp: extract_commit_participant_def CommitParticipant_build_def rbind_eq_Ok split: option.splits)

lemma reject_psk_Ok: "reject_psk_proposals c = Ok u \<Longrightarrow> q \<in> set (queued_proposals c) \<Longrightarrow> qp_proposal q \<noteq> PreSharedKeyProposal"
  by (auto simp: reject_psk_proposals_def list_ex_iff split: if_splits)

end
