(* ===== verification/Reference_Codecs.thy ===== *)
theory Reference_Codecs
  imports Migration
begin

text \<open>
  An executable instance of the library functions that the group components take as arguments. The
  messages are not encoded as protobuf does, but every codec here is lossless, which is all that is
  relied on; so it shows that what is assumed of the libraries can hold. The variable-length integers
  have no upper bound, so that everything can be written.
\<close>

section \<open>Policy trees\<close>

text \<open>A tree is written in postfix form; the number that belongs to a token stands before it in unary.\<close>

definition zigzag :: "int \<Rightarrow> nat" where
  "zigzag n = (if n \<ge> 0 then 2 * nat n else 2 * nat (- n) - 1)"

definition unzigzag :: "nat \<Rightarrow> int" where
  "unzigzag k = (if even k then int (k div 2) else - int ((k + 1) div 2))"

definition token :: "u8 \<Rightarrow> nat \<Rightarrow> bytes" where
  "token t n = replicate n 9 @ [t]"

fun tokens :: "nat \<Rightarrow> bytes \<Rightarrow> (u8 \<times> nat) list" where
  "tokens n [] = []"
| "tokens n (b # bs) = (if b = 9 then tokens (Suc n) bs else (b, n) # tokens 0 bs)"

fun tree_bytes :: "policy_proto \<Rightarrow> bytes" where
  "tree_bytes KindNone = token 0 0"
| "tree_bytes (KindBase n) = token 1 (zigzag n)"
| "tree_bytes (KindAnd ps) = concat (map tree_bytes ps) @ token 2 (length ps)"
| "tree_bytes (KindAny ps) = concat (map tree_bytes ps) @ token 3 (length ps)"

fun read_token :: "u8 \<times> nat \<Rightarrow> policy_proto list \<Rightarrow> policy_proto list" where
  "read_token (t, n) stack =
     (if t = 0 then KindNone # stack
      else if t = 1 then KindBase (unzigzag n) # stack
      else if t = 2 then KindAnd (rev (take n stack)) # drop n stack
      else KindAny (rev (take n stack)) # drop n stack)"

definition tree_of_bytes :: "bytes \<Rightarrow> policy_proto option" where
  "tree_of_bytes bs = (case fold read_token (tokens 0 bs) [] of [t] \<Rightarrow> Some t | _ \<Rightarrow> None)"

lemma unzigzag_zigzag [simp]: "unzigzag (zigzag n) = n"
proof (cases "n \<ge> 0")
  case False
  define k where "k = nat (- n)"
  have k: "n = - int k" "k > 0" using False by (simp_all add: k_def)
  then have "zigzag n = 2 * k - 1" by (simp add: zigzag_def)
  with k show ?thesis by (simp add: unzigzag_def)
qed (simp add: unzigzag_def zigzag_def)

lemma tokens_token: "t \<noteq> 9 \<Longrightarrow> tokens m (token t n @ bs) = (t, m + n) # tokens 0 bs"
  unfolding token_def by (induction n arbitrary: m) simp_all

lemma fold_trees:
  assumes "\<And>p bs st. p \<in> set ps \<Longrightarrow>
    fold read_token (tokens 0 (tree_bytes p @ bs)) st = fold read_token (tokens 0 bs) (p # st)"
  shows "fold read_token (tokens 0 (concat (map tree_bytes ps) @ bs)) st = fold read_token (tokens 0 bs) (rev ps @ st)"
  using assms by (induction ps arbitrary: st) simp_all

lemma read_tree:
  "fold read_token (tokens 0 (tree_bytes p @ bs)) st = fold read_token (tokens 0 bs) (p # st)"
proof (induction p arbitrary: bs st)
  case (KindAnd ps)
  have "fold read_token (tokens 0 (concat (map tree_bytes ps) @ token 2 (length ps) @ bs)) st =
      fold read_token (tokens 0 (token 2 (length ps) @ bs)) (rev ps @ st)"
    using KindAnd.IH by (rule fold_trees)
  then show ?case by (simp add: tokens_token)
next
  case (KindAny ps)
  have "fold read_token (tokens 0 (concat (map tree_bytes ps) @ token 3 (length ps) @ bs)) st =
      fold read_token (tokens 0 (token 3 (length ps) @ bs)) (rev ps @ st)"
    using KindAny.IH by (rule fold_trees)
  then show ?case by (simp add: tokens_token)
qed (simp_all add: tokens_token)

lemma tree_roundtrip [simp]: "tree_of_bytes (tree_bytes p) = Some p"
  using read_tree [of p "[]" "[]"] by (simp add: tree_of_bytes_def)

section \<open>Component metadata\<close>

definition tree_of_policy :: "policy_proto option \<Rightarrow> policy_proto" where
  "tree_of_policy q = (case q of None \<Rightarrow> KindNone | Some p \<Rightarrow> KindAny [p])"

definition tree_of_permissions :: "component_permissions_rec option \<Rightarrow> policy_proto" where
  "tree_of_permissions perms =
     (case perms of
        None \<Rightarrow> KindNone
      | Some p \<Rightarrow> KindAnd [tree_of_policy (insert_policy p), tree_of_policy (update_policy p), tree_of_policy (delete_policy p)])"

definition tree_of_metadata :: "component_metadata \<Rightarrow> policy_proto" where
  "tree_of_metadata m =
     KindAnd [KindBase (cm_component_type m), tree_of_permissions (cm_permissions m),
              tree_of_permissions (cm_external_committer_permissions m)]"

definition policy_of_tree :: "policy_proto \<Rightarrow> policy_proto option" where
  "policy_of_tree t = (case t of KindAny [p] \<Rightarrow> Some p | _ \<Rightarrow> None)"

definition permissions_of_tree :: "policy_proto \<Rightarrow> component_permissions_rec option" where
  "permissions_of_tree t =
     (case t of
        KindAnd [a, b, c] \<Rightarrow>
          Some \<lparr> insert_policy = policy_of_tree a, update_policy = policy_of_tree b, delete_policy = policy_of_tree c \<rparr>
      | _ \<Rightarrow> None)"

definition metadata_of_tree :: "policy_proto \<Rightarrow> component_metadata option" where
  "metadata_of_tree t =
     (case t of
        KindAnd [KindBase ty, p, e] \<Rightarrow>
          Some \<lparr> cm_component_type = ty, cm_permissions = permissions_of_tree p,
                 cm_external_committer_permissions = permissions_of_tree e \<rparr>
      | _ \<Rightarrow> None)"

definition tree_meta :: meta_codec where
  "tree_meta = \<lparr> meta_decode = (\<lambda>bs. Option.bind (tree_of_bytes bs) metadata_of_tree),
                 meta_encode = (\<lambda>m. tree_bytes (tree_of_metadata m)) \<rparr>"

lemma policy_tree_roundtrip [simp]: "policy_of_tree (tree_of_policy q) = q"
  by (cases q) (simp_all add: policy_of_tree_def tree_of_policy_def)

lemma permissions_tree_roundtrip [simp]: "permissions_of_tree (tree_of_permissions p) = p"
  by (cases p) (simp_all add: permissions_of_tree_def tree_of_permissions_def)

lemma tree_meta_lossless: "meta_lossless tree_meta m"
  by (simp add: meta_lossless_def tree_meta_def metadata_of_tree_def tree_of_metadata_def del: tree_bytes.simps)

section \<open>Lengths without a bound\<close>

text \<open>
  A length is written as a run of \<open>0xff\<close>, one for every 64, and the rest in one byte. Unlike the integers
  of RFC 9000 no length is too long, so everything can be written.
\<close>

definition run_write :: "nat \<Rightarrow> (codec_error, bytes) result" where
  "run_write n = Ok (replicate (n div 64) 255 @ [word_of_nat (n mod 64)])"

fun run_read :: "bytes \<Rightarrow> (codec_error, nat \<times> nat \<times> bytes) result" where
  "run_read [] = Err CodecError"
| "run_read (b # bs) =
     (if b = 255 then rbind (run_read bs) (\<lambda>(n, consumed, rest). Ok (n + 64, Suc consumed, rest))
      else Ok (unat b, 1, bs))"

definition run_vlen :: vlen where
  "run_vlen = \<lparr> write_length = run_write, read_length = run_read \<rparr>"

definition run_vecs :: "'k key_vecs" where
  "run_vecs = \<lparr> vec_set_entry = quic_vec run_vlen, vec_set_mutation = quic_vec run_vlen,
     vec_map_entry = quic_vec run_vlen, vec_map_mutation = quic_vec run_vlen \<rparr>"

lemma run_read_back:
  assumes "r < 64"
  shows "run_read (replicate q 255 @ [word_of_nat r] @ rest) = Ok (64 * q + r, Suc q, rest)"
proof (induction q)
  case 0
  have r: "unat (word_of_nat r :: u8) = r" using assms by (simp add: unat_of_nat)
  have "(word_of_nat r :: u8) \<noteq> 255"
  proof
    assume "(word_of_nat r :: u8) = 255"
    then have "unat (word_of_nat r :: u8) = 255" by simp
    with r assms show False by simp
  qed
  then show ?case by (simp add: r)
qed simp

interpretation run: quic_vlen run_vlen
proof
  show "read_length run_vlen (bs @ rest) = Ok (n, length bs, rest)" if "write_length run_vlen n = Ok bs" for n bs rest
    using that run_read_back [of "n mod 64" "n div 64" rest] by (auto simp: run_vlen_def run_write_def)
qed (simp_all add: run_vlen_def run_write_def)

lemma run_write_length: "write_length run_vlen n = Ok (replicate (n div 64) 255 @ [word_of_nat (n mod 64)])"
  by (simp add: run_vlen_def run_write_def)

interpretation run_inbox_set: tls_set_codecs "InboxId_codec run_vlen" inbox_id_ok "quic_vec run_vlen" "quic_vec run_vlen" "quic_vec run_vlen"
  by unfold_locales (rule run.quic_vec_lossless)+

interpretation run_bytes: nonempty_codec "vl_bytes run_vlen" "\<lambda>_. True"
  by (rule run.vl_bytes_codec)

interpretation run_inbox_map: tls_map_codecs "InboxId_codec run_vlen" inbox_id_ok "vl_bytes run_vlen" "\<lambda>_. True"
    "quic_vec run_vlen" "quic_vec run_vlen"
  by unfold_locales (rule run.quic_vec_lossless)+

interpretation run_registry: tls_map_codecs "ComponentId_codec run_vlen" "\<lambda>_. True" "vl_bytes run_vlen" "\<lambda>_. True"
    "quic_vec run_vlen" "quic_vec run_vlen"
  by unfold_locales (rule run.quic_vec_lossless)+

section \<open>Policies after the migration\<close>

definition demo_policies :: policy_set_proto where
  "demo_policies =
     \<lparr> p_add_member_policy = Some (KindBase 1), p_remove_member_policy = Some (KindBase 3),
       p_update_metadata_policy = [(''group_name'', KindBase 1)], p_add_admin_policy = Some (KindBase 3),
       p_remove_admin_policy = Some (KindBase 3), p_update_permissions_policy = Some (KindBase 3) \<rparr>"

definition demo_plain_member :: commit_participant where
  "demo_plain_member = \<lparr> cp_inbox_id = ''a'', cp_installation_id = [], cp_is_creator = False, cp_is_admin = False, cp_is_super_admin = False \<rparr>"

lemma demo_registry_built: "\<exists>r. build_registry tree_meta demo_policies dm False = Ok r"
proof -
  let ?a = "metadata_policy MAllowIfActorSuperAdmin"
  let ?es = "registry_entries demo_policies ?a ?a (metadata_policy MAllow) (metadata_policy MAllowIfActorAdminOrSuperAdmin) dm False"
  have "list_all (\<lambda>(i, meta). is_in_component_space i \<and> \<not> is_reserved i \<and> \<not> is_hardcoded i \<and> validate_metadata i meta = Ok ()) ?es"
    by (cases dm; simp only:; code_simp)
  then have "\<forall>(i, meta) \<in> set ?es. is_in_component_space i \<and> \<not> is_reserved i \<and> \<not> is_hardcoded i \<and>
      validate_metadata i meta = Ok () \<and> reg_get tree_meta ComponentRegistry_new i = Ok None"
    by (auto simp: list_all_iff new_registry_empty)
  from reg_set_all_ok [OF new_registry_wf registry_entries_distinct this] obtain r where
    "reg_set_all tree_meta ComponentRegistry_new ?es = Ok r" by blast
  moreover have "admin_list_policy_to_metadata_policy (KindBase 3) = Ok ?a"
    "membership_policy_to_metadata_policy (KindBase 1) = Ok (metadata_policy MAllow)"
    "membership_policy_to_metadata_policy (KindBase 3) = Ok (metadata_policy MAllowIfActorAdminOrSuperAdmin)"
    "validate_update_permissions_is_super_admin (KindBase 3) = Ok ()"
    by (simp_all add: permissions_decode_def membership_decode_def)
  moreover have "check_known_fields demo_policies = Ok ()" by code_simp
  ultimately have "build_registry tree_meta demo_policies dm False = Ok r"
    by (intro build_registry_intro [of demo_policies "KindBase 1" "KindBase 3" "KindBase 3" "KindBase 3" "KindBase 3"])
      (simp_all add: demo_policies_def del: admin_list_policy_to_metadata_policy.simps
        membership_policy_to_metadata_policy.simps validate_update_permissions_is_super_admin.simps)
  then show ?thesis by blast
qed


end
