(* ===== verification/Migration_Roundtrip.thy ===== *)
theory Migration_Roundtrip
  imports Reference_Codecs
begin

text \<open>
  The seeds of a migration read back as the metadata the group had. The locale \<open>lossless_libs\<close> states
  what is relied on of the codecs of the libraries; it is interpreted on \<open>legacy_libs\<close>.
\<close>

section \<open>Values\<close>

lemma parse_show_nat_i64: "show_nat n \<noteq> []" "hd (show_nat n) \<noteq> CHR ''-''" "hd (show_nat n) \<noteq> CHR ''+''"
proof -
  show ne: "show_nat n \<noteq> []" by (subst show_nat.simps) simp
  then have "of_char (hd (show_nat n)) \<in> {48..57::nat}" by (intro show_nat_digits [of _ n] hd_in_set)
  then show "hd (show_nat n) \<noteq> CHR ''-''" "hd (show_nat n) \<noteq> CHR ''+''" by auto
qed

lemma unat_of_char: "unat (of_char c :: u8) = of_char c"
proof -
  have "(of_char c :: u8) = of_nat (of_char c)" by (simp only: of_nat_of_char)
  moreover have "of_char c < (256 :: nat)" by simp
  ultimately show ?thesis by (simp add: unat_of_nat del: of_nat_of_char)
qed

lemma parse_show_i64: "parse_i64 (show_i64 w) = Some w"
proof (cases "sint w < 0")
  case True
  define n where "n = nat (- sint w)"
  have "- sint w \<le> 2 ^ 63" using sint_ge [of w] by simp
  then have "n \<le> 2 ^ 63" by (simp add: n_def)
  moreover have "- word_of_nat n = w"
    using True by (simp add: n_def flip: of_int_minus)
  ultimately show ?thesis
    using True parse_show_nat_i64(1) [of n] by (simp add: show_i64_def parse_i64_def parse_show_nat n_def [symmetric])
next
  case False
  define n where "n = nat (sint w)"
  have "sint w < 2 ^ 63" using sint_lt [of w] by simp
  then have "n < 2 ^ 63" using False by (simp add: n_def)
  moreover have "word_of_nat n = w" using False by (simp add: n_def)
  moreover obtain c cs where "show_nat n = c # cs" using parse_show_nat_i64(1) [of n] by (cases "show_nat n") auto
  ultimately show ?thesis
    using False parse_show_nat_i64 [of n] parse_show_nat [of n]
    by (simp add: show_i64_def parse_i64_def n_def [symmetric] Let_def)
qed

lemma conversation_type_bytes: "i32_from_be_bytes (encode_conversation_type (conversation_type_i32 c)) = Some (conversation_type_i32 c)"
  by (cases c) (simp_all add: encode_conversation_type_def i32_to_be_bytes_def i32_from_be_bytes_def)

definition normal_inbox :: "'v app_libs \<Rightarrow> string \<Rightarrow> string" where
  "normal_inbox L s =
     (case inbox_id_of_hex L s of Ok i \<Rightarrow> InboxId_to_hex (hex_encode (al_hex L)) i | Err _ \<Rightarrow> s)"

definition normal_attribute :: "'v app_libs \<Rightarrow> metadata_field \<Rightarrow> string \<Rightarrow> string" where
  "normal_attribute L f s =
     (if f = MessageDisappearFromNS \<or> f = MessageDisappearInNS then
        (case parse_i64 s of Some n \<Rightarrow> show_i64 n | None \<Rightarrow> s)
      else if f = CommitLogSigner then
        (case hex_decode (al_hex L) s of Some bs \<Rightarrow> hex_encode (al_hex L) bs | None \<Rightarrow> s)
      else s)"

section \<open>Sets of inserts\<close>

lemma inbox_id_of_hex_ok: "inbox_id_of_hex L s = Ok i \<Longrightarrow> inbox_id_ok i"
  by (auto simp: inbox_id_of_hex_def InboxId_from_hex_def inbox_id_ok_def rbind_eq_Ok split: if_splits)

lemma delta_of_inserts: "set_mutations (foldl TlsSetDelta_insert TlsSetDelta_new ks) = map SInsert ks"
proof -
  have "set_mutations (foldl TlsSetDelta_insert d ks) = set_mutations d @ map SInsert ks" for d
    by (induction ks arbitrary: d) (simp_all add: TlsSetDelta_insert_def)
  then show ?thesis by (simp add: TlsSetDelta_new_def)
qed

lemma inserts_resolve: "list_all2 (resolves h A) (map SInsert ks) ms \<Longrightarrow> ms = map (\<lambda>k. MInsert k ()) ks"
proof (induction ks arbitrary: ms)
  case (Cons k ks)
  then obtain m rest where "ms = m # rest" "resolves h A (SInsert k) m" "list_all2 (resolves h A) (map SInsert ks) rest"
    by (auto simp: list_all2_Cons1)
  with Cons.IH [of rest] show ?case by (cases m) auto
qed simp

lemma mutate_all_inserts: "mutate_all (map (\<lambda>k. MInsert k ()) ks) m = Ok m' \<Longrightarrow> dom m' = dom m \<union> set ks"
  by (induction ks arbitrary: m) (auto simp: rbind_eq_Ok split: if_splits option.splits)

lemma strictly_sorted_unique: "sorted_wrt (<) xs \<Longrightarrow> sorted_wrt (<) ys \<Longrightarrow> set xs = set ys \<Longrightarrow> xs = (ys :: 'a::linorder list)"
  by (metis sorted_list_of_set.idem_if_sorted_distinct strict_sorted_iff)

lemma ts_iter_sorted: "ts_wf s \<Longrightarrow> sorted_wrt (<) (TlsSet_iter s)" "set (TlsSet_iter s) = ts_set s"
  by (simp_all add: ts_wf_def tm_wf_def TlsSet_iter_def TlsMap_keys_def ts_set_keys [unfolded TlsMap_keys_def])

section \<open>The seeds of each component\<close>

lemma field_seeds_laws:
  assumes "field_seeds attrs fs seeds = Ok seeds'" and "distinct (map (\<lambda>(f, i, ty). i) fs)"
  shows "(f, i, ty) \<in> set fs \<Longrightarrow> hm_get (=) attrs (field_str f) = None \<Longrightarrow> map_of seeds' i = map_of seeds i"
    and "(f, i, ty) \<in> set fs \<Longrightarrow> hm_get (=) attrs (field_str f) = Some s \<Longrightarrow>
      \<exists>bs. encode_metadata_attribute_value i s = Ok bs \<and> map_of seeds' i = Some (TypeUpdate, bs)"
    and "i \<notin> (\<lambda>(f, i, ty). i) ` set fs \<Longrightarrow> map_of seeds' i = map_of seeds i"
    and "bt_wf seeds \<Longrightarrow> bt_wf seeds'"
proof -
  have "((f, i, ty) \<in> set fs \<longrightarrow> hm_get (=) attrs (field_str f) = None \<longrightarrow> map_of seeds' i = map_of seeds i) \<and>
    ((f, i, ty) \<in> set fs \<longrightarrow> hm_get (=) attrs (field_str f) = Some s \<longrightarrow>
      (\<exists>bs. encode_metadata_attribute_value i s = Ok bs \<and> map_of seeds' i = Some (TypeUpdate, bs))) \<and>
    (i \<notin> (\<lambda>(f, i, ty). i) ` set fs \<longrightarrow> map_of seeds' i = map_of seeds i) \<and> (bt_wf seeds \<longrightarrow> bt_wf seeds')"
    using assms
  proof (induction attrs fs seeds rule: field_seeds.induct)
    case (2 attrs g j ty' rest seeds)
    have fresh: "j \<notin> (\<lambda>(f, i, ty). i) ` set rest" using "2.prems"(2) by simp
    then have other: "(f, i, ty) \<in> set rest \<Longrightarrow> i \<noteq> j" by force
    show ?case
    proof (cases "hm_get (=) attrs (field_str g)")
      case None
      with "2.IH"(1) [OF None] "2.prems" fresh show ?thesis by auto
    next
      case (Some s')
      with "2.prems"(1) obtain bs where bs: "encode_metadata_attribute_value j s' = Ok bs"
        "field_seeds attrs rest (bt_insert j (TypeUpdate, bs) seeds) = Ok seeds'" by (auto simp: rbind_eq_Ok)
      from "2.IH"(2) [OF Some bs] "2.prems"(2) fresh other bs(1) Some show ?thesis by (cases "i = j") auto
    qed
  qed simp
  then show "(f, i, ty) \<in> set fs \<Longrightarrow> hm_get (=) attrs (field_str f) = None \<Longrightarrow> map_of seeds' i = map_of seeds i"
    and "(f, i, ty) \<in> set fs \<Longrightarrow> hm_get (=) attrs (field_str f) = Some s \<Longrightarrow>
      \<exists>bs. encode_metadata_attribute_value i s = Ok bs \<and> map_of seeds' i = Some (TypeUpdate, bs)"
    and "i \<notin> (\<lambda>(f, i, ty). i) ` set fs \<Longrightarrow> map_of seeds' i = map_of seeds i"
    and "bt_wf seeds \<Longrightarrow> bt_wf seeds'"
    by blast+
qed

definition seed_proposals :: "canonical_bootstrap_expectation \<Rightarrow> app_data_proposals" where
  "seed_proposals e = map (\<lambda>(i, _, bs). (i, AdUpdate bs)) (strict e)"

text \<open>
  A dictionary holds the seeds: each component other than the registry and the membership has the value
  that its seed gives when applied to nothing, or no value if there is no seed.
\<close>

definition seeded ::
    "'v app_libs \<Rightarrow> runtime_registry \<Rightarrow> component_registry \<Rightarrow> canonical_bootstrap_expectation \<Rightarrow> app_dict \<Rightarrow> bool" where
  "seeded L R registry e d \<longleftrightarrow> (\<forall>i. i \<notin> {COMPONENT_REGISTRY, GROUP_MEMBERSHIP} \<longrightarrow>
     (case map_of (strict e) i of
        None \<Rightarrow> d i = None
      | Some (_, bs) \<Rightarrow> \<exists>v. apply_app_data_update_payload L R i bs None registry = Ok v \<and> d i = Some v))"

lemma seeded_at:
  "seeded L R registry e d \<Longrightarrow> i \<notin> {COMPONENT_REGISTRY, GROUP_MEMBERSHIP} \<Longrightarrow>
     (case map_of (strict e) i of
        None \<Rightarrow> d i = None
      | Some (_, bs) \<Rightarrow> \<exists>v. apply_app_data_update_payload L R i bs None registry = Ok v \<and> d i = Some v)"
  by (simp add: seeded_def)

lemma seeded_cong:
  assumes "seeded L R registry e d" and "\<And>i. i \<notin> {COMPONENT_REGISTRY, GROUP_MEMBERSHIP} \<Longrightarrow> d' i = d i"
  shows "seeded L R registry e d'"
  unfolding seeded_def
proof (intro allI impI)
  fix i assume i: "i \<notin> {COMPONENT_REGISTRY, GROUP_MEMBERSHIP}"
  show "case map_of (strict e) i of
      None \<Rightarrow> d' i = None
    | Some (_, bs) \<Rightarrow> \<exists>v. apply_app_data_update_payload L R i bs None registry = Ok v \<and> d' i = Some v"
    unfolding assms(2) [OF i] by (rule seeded_at [OF assms(1) i])
qed

lemma seed_ids [simp]:
  "GROUP_NAME \<noteq> COMPONENT_REGISTRY" "GROUP_NAME \<noteq> GROUP_MEMBERSHIP" "GROUP_DESCRIPTION \<noteq> COMPONENT_REGISTRY" "GROUP_DESCRIPTION \<noteq> GROUP_MEMBERSHIP"
  "GROUP_IMAGE_URL \<noteq> COMPONENT_REGISTRY" "GROUP_IMAGE_URL \<noteq> GROUP_MEMBERSHIP" "APP_DATA \<noteq> COMPONENT_REGISTRY" "APP_DATA \<noteq> GROUP_MEMBERSHIP"
  "MESSAGE_DISAPPEAR_FROM_NS \<noteq> COMPONENT_REGISTRY" "MESSAGE_DISAPPEAR_FROM_NS \<noteq> GROUP_MEMBERSHIP"
  "MESSAGE_DISAPPEAR_IN_NS \<noteq> COMPONENT_REGISTRY" "MESSAGE_DISAPPEAR_IN_NS \<noteq> GROUP_MEMBERSHIP"
  "MIN_SUPPORTED_PROTOCOL_VERSION \<noteq> COMPONENT_REGISTRY" "MIN_SUPPORTED_PROTOCOL_VERSION \<noteq> GROUP_MEMBERSHIP"
  "COMMIT_LOG_SIGNER \<noteq> COMPONENT_REGISTRY" "COMMIT_LOG_SIGNER \<noteq> GROUP_MEMBERSHIP" "CONVERSATION_TYPE \<noteq> COMPONENT_REGISTRY" "CONVERSATION_TYPE \<noteq> GROUP_MEMBERSHIP"
  "CREATOR_INBOX_ID \<noteq> COMPONENT_REGISTRY" "CREATOR_INBOX_ID \<noteq> GROUP_MEMBERSHIP" "DM_MEMBERS \<noteq> COMPONENT_REGISTRY" "DM_MEMBERS \<noteq> GROUP_MEMBERSHIP"
  "ONESHOT_MESSAGE \<noteq> COMPONENT_REGISTRY" "ONESHOT_MESSAGE \<noteq> GROUP_MEMBERSHIP" "ADMIN_LIST \<noteq> COMPONENT_REGISTRY" "ADMIN_LIST \<noteq> GROUP_MEMBERSHIP"
  "SUPER_ADMIN_LIST \<noteq> COMPONENT_REGISTRY" "SUPER_ADMIN_LIST \<noteq> GROUP_MEMBERSHIP"
  by (simp_all add: component_id_defs)

lemma in_order_once:
  assumes "apply_in_order L R registry ps Map.empty = Ok d" and "distinct (map fst ps)"
  shows "map_of ps i = None \<Longrightarrow> d i = None"
    and "map_of ps i = Some (AdUpdate bs) \<Longrightarrow> \<exists>v. apply_app_data_update_payload L R i bs None registry = Ok v \<and> d i = Some v"
proof -
  have "map snd (filter (\<lambda>p. fst p = i) ps) = (case map_of ps i of None \<Rightarrow> [] | Some op \<Rightarrow> [op])"
    using assms(2) by (induction ps) (auto simp: map_of_eq_None_iff image_iff filter_empty_conv split: option.splits)
  with post_commit_in_order [OF assms(1), of i]
  have "post_commit_loop L R i registry (case map_of ps i of None \<Rightarrow> [] | Some op \<Rightarrow> [op]) None = Ok (d i)" by simp
  then show "map_of ps i = None \<Longrightarrow> d i = None"
    and "map_of ps i = Some (AdUpdate bs) \<Longrightarrow> \<exists>v. apply_app_data_update_payload L R i bs None registry = Ok v \<and> d i = Some v"
    by (auto simp: rbind_eq_Ok simp del: map_of_eq_Some_iff)
qed

lemma seeded_in_order:
  assumes "apply_in_order L R registry ps Map.empty = Ok d" and "distinct (map fst ps)"
    and "\<And>i op. i \<notin> {COMPONENT_REGISTRY, GROUP_MEMBERSHIP} \<Longrightarrow>
      (i, op) \<in> set ps \<longleftrightarrow> (\<exists>ty bs. map_of (strict e) i = Some (ty, bs) \<and> op = AdUpdate bs)"
  shows "seeded L R registry e d"
  unfolding seeded_def
proof (intro allI impI)
  fix i assume i: "i \<notin> {COMPONENT_REGISTRY, GROUP_MEMBERSHIP}"
  show "case map_of (strict e) i of
        None \<Rightarrow> d i = None
      | Some (_, bs) \<Rightarrow> \<exists>v. apply_app_data_update_payload L R i bs None registry = Ok v \<and> d i = Some v"
  proof (cases "map_of (strict e) i")
    case None
    with assms(3) [OF i] have "(i, op) \<notin> set ps" for op by simp
    then have "map_of ps i = None" by (auto simp: map_of_eq_None_iff)
    with None in_order_once(1) [OF assms(1,2)] show ?thesis by simp
  next
    case (Some p)
    with assms(3) [OF i] have "(i, AdUpdate (snd p)) \<in> set ps" by (cases p) auto
    with assms(2) have "map_of ps i = Some (AdUpdate (snd p))" by simp
    with Some in_order_once(2) [OF assms(1,2)] show ?thesis by (simp add: case_prod_beta)
  qed
qed

lemma seed_applied:
  assumes "apply_in_order L R registry (seed_proposals e) Map.empty = Ok d" and "bt_wf (strict e)"
  shows "seeded L R registry e d"
proof (rule seeded_in_order [OF assms(1)])
  show "distinct (map fst (seed_proposals e))"
    using bt_wf_distinct [OF assms(2)] by (simp add: seed_proposals_def comp_def case_prod_beta)
  show "(i, op) \<in> set (seed_proposals e) \<longleftrightarrow> (\<exists>ty bs. map_of (strict e) i = Some (ty, bs) \<and> op = AdUpdate bs)" for i op
    using bt_mem_iff [OF assms(2), symmetric] by (force simp: seed_proposals_def)
qed

lemma metadata_seeds_laws:
  assumes "metadata_seeds L G md seeds = Ok seeds'"
  shows "bt_wf seeds \<Longrightarrow> bt_wf seeds'"
    and "i \<notin> {CONVERSATION_TYPE, CREATOR_INBOX_ID, DM_MEMBERS, ONESHOT_MESSAGE} \<Longrightarrow> map_of seeds' i = map_of seeds i"
    and "map_of seeds' CONVERSATION_TYPE = Some (TypeUpdate, encode_conversation_type (conversation_type_i32 (md_conversation_type md)))"
    and "\<exists>c bs. inbox_id_of_hex L (md_creator_inbox_id md) = Ok c \<and> tls_serialize (InboxId_codec (al_vlen L)) c = Ok bs \<and>
      map_of seeds' CREATOR_INBOX_ID = Some (TypeUpdate, bs)"
    and "map_of seeds DM_MEMBERS = None \<Longrightarrow> md_dm_members md = None \<Longrightarrow> map_of seeds' DM_MEMBERS = None"
    and "md_dm_members md = Some dm \<Longrightarrow> \<exists>bs. encode_dm_members L dm = Ok bs \<and> map_of seeds' DM_MEMBERS = Some (TypeUpdate, bs)"
    and "map_of seeds ONESHOT_MESSAGE = None \<Longrightarrow>
      map_of seeds' ONESHOT_MESSAGE = map_option (\<lambda>m. (TypeUpdate, oneshot_encode G m)) (md_oneshot_message md)"
  using assms
  by (auto simp: metadata_seeds_def rbind_eq_Ok Let_def component_id_defs split: option.splits)

lemma signer_seed_laws:
  assumes "signer_seed L gmm seeds = Ok seeds'"
  shows "bt_wf seeds \<Longrightarrow> bt_wf seeds'" and "i \<noteq> COMMIT_LOG_SIGNER \<Longrightarrow> map_of seeds' i = map_of seeds i"
    and "gmm_attribute gmm CommitLogSigner = None \<Longrightarrow> map_of seeds' COMMIT_LOG_SIGNER = map_of seeds COMMIT_LOG_SIGNER"
    and "gmm_attribute gmm CommitLogSigner = Some s \<Longrightarrow> \<exists>raw. hex_decode (al_hex L) s = Some raw \<and> length raw = ED25519_KEY_LENGTH \<and>
      map_of seeds' COMMIT_LOG_SIGNER = Some (TypeUpdate, raw)"
  using assms by (auto simp: signer_seed_def gmm_attribute_def rbind_eq_Ok split: option.splits if_splits)

lemma mapping_ids: "(\<lambda>(f, i, ty). i) ` set metadata_field_registry_mapping =
    {GROUP_NAME, GROUP_DESCRIPTION, GROUP_IMAGE_URL, MESSAGE_DISAPPEAR_FROM_NS, MESSAGE_DISAPPEAR_IN_NS, APP_DATA,
     MIN_SUPPORTED_PROTOCOL_VERSION}"
  and mapping_distinct: "distinct (map (\<lambda>(f, i, ty). i) metadata_field_registry_mapping)"
  by (simp_all add: metadata_field_registry_mapping_def component_id_defs)

lemma synthesized_seeds:
  assumes "synthesize_canonical_subset_from_extensions L G x = Ok e"
    and "gmm_from_extensions L x = Ok gmm" and "metadata_from_extensions G x = Ok md"
  obtains s1 s2 admins supers where
    "field_seeds (gmm_attributes gmm) metadata_field_registry_mapping [] = Ok s1" "signer_seed L gmm s1 = Ok s2"
    "encode_inbox_id_set_seed L (gmm_admin_list gmm) = Ok admins" "encode_inbox_id_set_seed L (gmm_super_admin_list gmm) = Ok supers"
    "metadata_seeds L G md
       (bt_insert SUPER_ADMIN_LIST (TypeUpdate, supers) (bt_insert ADMIN_LIST (TypeUpdate, admins) s2)) = Ok (strict e)"
  using assms by (auto simp: synthesize_canonical_subset_from_extensions_def rbind_eq_Ok case_prod_beta)

lemma seed_lookups:
  assumes "synthesize_canonical_subset_from_extensions L G x = Ok e"
    and "gmm_from_extensions L x = Ok gmm" and "metadata_from_extensions G x = Ok md"
  shows "bt_wf (strict e)"
    and "(f, i, ty) \<in> set metadata_field_registry_mapping \<Longrightarrow> gmm_attribute gmm f = None \<Longrightarrow> map_of (strict e) i = None"
    and "(f, i, ty) \<in> set metadata_field_registry_mapping \<Longrightarrow> gmm_attribute gmm f = Some s \<Longrightarrow>
      \<exists>bs. encode_metadata_attribute_value i s = Ok bs \<and> map_of (strict e) i = Some (TypeUpdate, bs)"
    and "gmm_attribute gmm CommitLogSigner = None \<Longrightarrow> map_of (strict e) COMMIT_LOG_SIGNER = None"
    and "gmm_attribute gmm CommitLogSigner = Some s \<Longrightarrow> \<exists>raw. hex_decode (al_hex L) s = Some raw \<and>
      length raw = ED25519_KEY_LENGTH \<and> map_of (strict e) COMMIT_LOG_SIGNER = Some (TypeUpdate, raw)"
    and "\<exists>bs. encode_inbox_id_set_seed L (gmm_admin_list gmm) = Ok bs \<and> map_of (strict e) ADMIN_LIST = Some (TypeUpdate, bs)"
    and "\<exists>bs. encode_inbox_id_set_seed L (gmm_super_admin_list gmm) = Ok bs \<and>
      map_of (strict e) SUPER_ADMIN_LIST = Some (TypeUpdate, bs)"
    and "map_of (strict e) CONVERSATION_TYPE =
      Some (TypeUpdate, encode_conversation_type (conversation_type_i32 (md_conversation_type md)))"
    and "\<exists>c bs. inbox_id_of_hex L (md_creator_inbox_id md) = Ok c \<and> tls_serialize (InboxId_codec (al_vlen L)) c = Ok bs \<and>
      map_of (strict e) CREATOR_INBOX_ID = Some (TypeUpdate, bs)"
    and "md_dm_members md = None \<Longrightarrow> map_of (strict e) DM_MEMBERS = None"
    and "md_dm_members md = Some dm \<Longrightarrow> \<exists>bs. encode_dm_members L dm = Ok bs \<and> map_of (strict e) DM_MEMBERS = Some (TypeUpdate, bs)"
    and "map_of (strict e) ONESHOT_MESSAGE = map_option (\<lambda>m. (TypeUpdate, oneshot_encode G m)) (md_oneshot_message md)"
proof -
  obtain s1 s2 admins supers where s:
    "field_seeds (gmm_attributes gmm) metadata_field_registry_mapping [] = Ok s1" "signer_seed L gmm s1 = Ok s2"
    "encode_inbox_id_set_seed L (gmm_admin_list gmm) = Ok admins" "encode_inbox_id_set_seed L (gmm_super_admin_list gmm) = Ok supers"
    "metadata_seeds L G md
       (bt_insert SUPER_ADMIN_LIST (TypeUpdate, supers) (bt_insert ADMIN_LIST (TypeUpdate, admins) s2)) = Ok (strict e)"
    using assms by (rule synthesized_seeds)
  note f = field_seeds_laws [OF s(1) mapping_distinct] and g = signer_seed_laws [OF s(2)] and m = metadata_seeds_laws [OF s(5)]
  have none: "map_of s1 j = None" if "j \<notin> (\<lambda>(f, i, ty). i) ` set metadata_field_registry_mapping" for j
    using f(3) [OF that] by simp
  have field: "map_of (strict e) j = map_of s1 j" if "(g, j, ty) \<in> set metadata_field_registry_mapping" for g j ty
    using that by (auto simp: m(2) g(2) metadata_field_registry_mapping_def component_id_defs)
  have "bt_wf ([] :: strict_seeds)" by (simp add: bt_wf_def)
  then show "bt_wf (strict e)" by (intro m(1) bt_wf_insert g(1) f(4))
  show "(f, i, ty) \<in> set metadata_field_registry_mapping \<Longrightarrow> gmm_attribute gmm f = None \<Longrightarrow> map_of (strict e) i = None"
    and "(f, i, ty) \<in> set metadata_field_registry_mapping \<Longrightarrow> gmm_attribute gmm f = Some s \<Longrightarrow>
      \<exists>bs. encode_metadata_attribute_value i s = Ok bs \<and> map_of (strict e) i = Some (TypeUpdate, bs)"
    using f(1,2) [of f i ty] field by (auto simp: gmm_attribute_def)
  have signer: "map_of (strict e) COMMIT_LOG_SIGNER = map_of s2 COMMIT_LOG_SIGNER"
    by (simp add: m(2) component_id_defs)
  have "map_of s1 COMMIT_LOG_SIGNER = None" by (rule none) (simp add: mapping_ids component_id_defs)
  then show "gmm_attribute gmm CommitLogSigner = None \<Longrightarrow> map_of (strict e) COMMIT_LOG_SIGNER = None"
    and "gmm_attribute gmm CommitLogSigner = Some s \<Longrightarrow> \<exists>raw. hex_decode (al_hex L) s = Some raw \<and>
      length raw = ED25519_KEY_LENGTH \<and> map_of (strict e) COMMIT_LOG_SIGNER = Some (TypeUpdate, raw)"
    using g(3,4) signer by auto
  show "\<exists>bs. encode_inbox_id_set_seed L (gmm_admin_list gmm) = Ok bs \<and> map_of (strict e) ADMIN_LIST = Some (TypeUpdate, bs)"
    "\<exists>bs. encode_inbox_id_set_seed L (gmm_super_admin_list gmm) = Ok bs \<and> map_of (strict e) SUPER_ADMIN_LIST = Some (TypeUpdate, bs)"
    using s(3,4) by (simp_all add: m(2) component_id_defs)
  show "map_of (strict e) CONVERSATION_TYPE =
      Some (TypeUpdate, encode_conversation_type (conversation_type_i32 (md_conversation_type md)))" by (rule m(3))
  show "\<exists>c bs. inbox_id_of_hex L (md_creator_inbox_id md) = Ok c \<and> tls_serialize (InboxId_codec (al_vlen L)) c = Ok bs \<and>
      map_of (strict e) CREATOR_INBOX_ID = Some (TypeUpdate, bs)" by (rule m(4))
  have "map_of s1 DM_MEMBERS = None" "map_of s1 ONESHOT_MESSAGE = None"
    by (rule none, simp add: mapping_ids component_id_defs)+
  then have "map_of (bt_insert SUPER_ADMIN_LIST (TypeUpdate, supers) (bt_insert ADMIN_LIST (TypeUpdate, admins) s2)) DM_MEMBERS = None"
    "map_of (bt_insert SUPER_ADMIN_LIST (TypeUpdate, supers) (bt_insert ADMIN_LIST (TypeUpdate, admins) s2)) ONESHOT_MESSAGE = None"
    by (simp_all add: g(2) component_id_defs)
  then show "md_dm_members md = None \<Longrightarrow> map_of (strict e) DM_MEMBERS = None"
    and "md_dm_members md = Some dm \<Longrightarrow> \<exists>bs. encode_dm_members L dm = Ok bs \<and> map_of (strict e) DM_MEMBERS = Some (TypeUpdate, bs)"
    and "map_of (strict e) ONESHOT_MESSAGE = map_option (\<lambda>m. (TypeUpdate, oneshot_encode G m)) (md_oneshot_message md)"
    using m(5-7) by blast+
qed

section \<open>Applying a seed\<close>

lemma apply_seed_verbatim:
  assumes "apply_app_data_update_payload L R i bs None registry = Ok v"
    and "i \<in> {GROUP_NAME, GROUP_DESCRIPTION, GROUP_IMAGE_URL, APP_DATA, MIN_SUPPORTED_PROTOCOL_VERSION,
      MESSAGE_DISAPPEAR_FROM_NS, MESSAGE_DISAPPEAR_IN_NS, COMMIT_LOG_SIGNER, CONVERSATION_TYPE, CREATOR_INBOX_ID, ONESHOT_MESSAGE}"
  shows "v = bs"
proof -
  have known: "lookup_component L R i = map_of (WELL_KNOWN L) i" if "is_xmtp_range i" for i
    using that by (simp add: lookup_component_eq)
  have range: "is_xmtp_range i" using assms(2) by (auto simp: is_xmtp_range_def component_id_defs)
  show ?thesis
    using assms(2,1) unfolding apply_app_data_update_payload_def known [OF range]
    by (elim insertE emptyE) (auto simp: WELL_KNOWN_def component_defs apply_passthrough_def fallback_type_def component_type_of_def
        apply_update_payload_for_type_def component_id_defs rbind_eq_Ok)
qed

lemma seed_verbatim:
  assumes "seeded L R registry e d" and "map_of (strict e) i = Some (ty, bs)"
    and "i \<in> {GROUP_NAME, GROUP_DESCRIPTION, GROUP_IMAGE_URL, APP_DATA, MIN_SUPPORTED_PROTOCOL_VERSION,
      MESSAGE_DISAPPEAR_FROM_NS, MESSAGE_DISAPPEAR_IN_NS, COMMIT_LOG_SIGNER, CONVERSATION_TYPE, CREATOR_INBOX_ID, ONESHOT_MESSAGE}"
  shows "d i = Some bs"
proof -
  have "i \<notin> {COMPONENT_REGISTRY, GROUP_MEMBERSHIP}" using assms(3) by (elim insertE emptyE) simp_all
  from seeded_at [OF assms(1) this] assms(2) obtain v where
    "apply_app_data_update_payload L R i bs None registry = Ok v" "d i = Some v" by auto
  with apply_seed_verbatim [OF _ assms(3)] show ?thesis by blast
qed

lemma apply_seed_set:
  assumes "apply_app_data_update_payload L R i bs None registry = Ok v" and "i \<in> {ADMIN_LIST, SUPER_ADMIN_LIST, DM_MEMBERS}"
  shows "apply_inbox_id_set_delta L bs None = Ok v"
proof -
  have "lookup_component L R i = Some (inbox_id_set_component L i)"
    using assms(2) by (auto simp: lookup_component_eq is_xmtp_range_def WELL_KNOWN_def component_id_defs)
  with assms(1) show ?thesis by (simp add: apply_app_data_update_payload_def inbox_id_set_component_def)
qed

section \<open>Merging the dictionary\<close>

lemma gmm_attribute_set: "gmm_attribute (m\<lparr> gmm_attributes := set_attribute f v (gmm_attributes m) \<rparr>) g =
    (if field_str f = field_str g then Some v else gmm_attribute m g)"
  by (simp add: gmm_attribute_def set_attribute_def plain.hm_get_insert)

lemma merge_fields_total:
  assumes "\<forall>f i bs. (f, i) \<in> set fs \<longrightarrow> d i = Some bs \<longrightarrow> decode_metadata_component L i bs = Ok (val f)"
    and "distinct (map (\<lambda>(f, i). field_str f) fs)"
  shows "\<exists>m. merge_fields L d fs base = Ok m \<and> gmm_admin_list m = gmm_admin_list base \<and>
    gmm_super_admin_list m = gmm_super_admin_list base \<and>
    (\<forall>f i. (f, i) \<in> set fs \<longrightarrow> gmm_attribute m f = (if d i = None then gmm_attribute base f else Some (val f))) \<and>
    (\<forall>g. field_str g \<notin> (\<lambda>(f, i). field_str f) ` set fs \<longrightarrow> gmm_attribute m g = gmm_attribute base g)"
  using assms
proof (induction fs arbitrary: base)
  case (Cons fi rest)
  obtain f i where fi: "fi = (f, i)" by force
  have rest: "\<forall>f i bs. (f, i) \<in> set rest \<longrightarrow> d i = Some bs \<longrightarrow> decode_metadata_component L i bs = Ok (val f)"
    "distinct (map (\<lambda>(f, i). field_str f) rest)" using Cons.prems by auto
  have fresh: "field_str f \<notin> (\<lambda>(f, i). field_str f) ` set rest" using Cons.prems(2) by (simp add: fi)
  have other: "field_str g \<noteq> field_str f" if "(g, j) \<in> set rest" for g j using that fresh by force
  show ?case
  proof (cases "d i")
    case None
    from Cons.IH [OF rest, of base] None fresh other show ?thesis by (force simp: fi)
  next
    case (Some bs)
    then have v: "decode_metadata_component L i bs = Ok (val f)" using Cons.prems(1) by (simp add: fi)
    from Cons.IH [OF rest, of "base\<lparr> gmm_attributes := set_attribute f (val f) (gmm_attributes base) \<rparr>"] Some v fresh other
    show ?thesis by (force simp: fi gmm_attribute_set)
  qed
qed simp

section \<open>What is relied on of the libraries\<close>

lemma mapped_fields:
  "(f, i) \<in> set METADATA_FIELD_COMPONENT_MAP \<Longrightarrow>
    f = CommitLogSigner \<and> i = COMMIT_LOG_SIGNER \<or> (\<exists>ty. (f, i, ty) \<in> set metadata_field_registry_mapping)"
  unfolding METADATA_FIELD_COMPONENT_MAP_def metadata_field_registry_mapping_def
  by (simp only: set_simps insert_iff empty_iff Pair_inject) (elim disjE conjE; simp)

locale lossless_libs =
  fixes L :: "'v app_libs" and G :: group_protos
  assumes inbox_codec: "tls_codec (InboxId_codec (al_vlen L)) inbox_id_ok"
    and set_codec: "tls_codec (inbox_set_codec L) (set_ok inbox_id_ok)"
    and delta_codec: "tls_codec (inbox_set_delta_codec L) (\<lambda>d. list_all (set_mutation_ok inbox_id_ok) (set_mutations d))"
    and oneshot_codec: "oneshot_decode G (oneshot_encode G m) = Some m"
begin

lemma inserts_applied:
  assumes "tls_serialize (inbox_set_delta_codec L) (foldl TlsSetDelta_insert TlsSetDelta_new ks) = Ok payload"
    and "\<forall>k \<in> set ks. inbox_id_ok k" and "apply_inbox_id_set_delta L payload None = Ok v"
  obtains s where "tls_deserialize_exact (inbox_set_codec L) v = Ok s" and "ts_wf s" and "ts_set s = set ks"
proof -
  let ?d = "foldl TlsSetDelta_insert TlsSetDelta_new ks"
  let ?h = "TlsKeyHash_of (sha256_array L) (InboxId_codec (al_vlen L))"
  have "tls_deserialize_exact (inbox_set_delta_codec L) payload = Ok ?d"
    using assms(1,2) by (intro tls_codec.read_exact [OF delta_codec]) (simp_all add: delta_of_inserts list_all_iff)
  with assms(3) obtain u s where s: "TlsSet_apply_delta ?h TlsSet_new ?d = (Ok u, s)" "tls_serialize (inbox_set_codec L) s = Ok v"
    by (auto simp: apply_inbox_id_set_delta_def apply_set_delta_def inbox_set_delta_codec_def [symmetric]
        inbox_set_codec_def [symmetric] rbind_eq_Ok split: prod.splits sum.splits)
  have new: "ts_wf (TlsSet_new :: inbox_id tls_set)" "ts_set (TlsSet_new :: inbox_id tls_set) = {}"
    "tm_map (ts_inner (TlsSet_new :: inbox_id tls_set)) = Map.empty"
    by (simp_all add: TlsSet_new_def ts_wf_def ts_set_def tls_map_laws)
  from set_delta_batch [OF new(1), of ?h ?d] s(1) new(2,3) obtain ms where wf: "ts_wf s"
    and ms: "list_all2 (resolves ?h {}) (map SInsert ks) ms" "mutate_all ms Map.empty = Ok (tm_map (ts_inner s))"
    by (auto simp: delta_of_inserts)
  then have keys: "ts_set s = set ks"
    using mutate_all_inserts [of ks Map.empty] inserts_resolve [OF ms(1)] by (simp add: ts_set_def)
  have "set_ok inbox_id_ok s"
    using wf keys assms(2) by (auto simp: set_ok_def map_ok_def ts_wf_def ts_set_keys TlsMap_keys_def list_all_iff)
  from tls_codec.read_exact [OF set_codec this s(2)] wf keys that show ?thesis by blast
qed

lemma seeded_set:
  assumes "encode_inbox_id_set_seed L ids = Ok payload" and "apply_inbox_id_set_delta L payload None = Ok v"
  shows "\<exists>s. tls_deserialize_exact (inbox_set_codec L) v = Ok s \<and>
    set (map (InboxId_to_hex (hex_encode (al_hex L))) (TlsSet_iter s)) = normal_inbox L ` set ids"
proof -
  from assms(1) obtain ks where ks: "try_map (inbox_id_of_hex L) ids = Ok ks"
    and ser: "tls_serialize (inbox_set_delta_codec L) (foldl TlsSetDelta_insert TlsSetDelta_new (remdups_adj (sort ks))) = Ok payload"
    by (auto simp: encode_inbox_id_set_seed_def rbind_eq_Ok)
  have map: "list_all2 (\<lambda>s k. inbox_id_of_hex L s = Ok k) ids ks" using ks by (simp add: try_map_Ok_iff)
  then have "\<forall>k \<in> set ks. inbox_id_ok k" by induction (auto intro: inbox_id_of_hex_ok)
  then have "\<forall>k \<in> set (remdups_adj (sort ks)). inbox_id_ok k" by simp
  from inserts_applied [OF ser this assms(2)] obtain s where
    s: "tls_deserialize_exact (inbox_set_codec L) v = Ok s" "ts_set s = set ks" by auto
  from map have "InboxId_to_hex (hex_encode (al_hex L)) ` set ks = normal_inbox L ` set ids"
    by induction (auto simp: normal_inbox_def)
  with s show ?thesis by (auto simp: ts_iter_sorted(2))
qed

lemma seeded_dm:
  assumes "encode_dm_members L dm = Ok payload" and "apply_inbox_id_set_delta L payload None = Ok v"
  shows "\<exists>dm'. dict_dm_members L v = Ok dm' \<and> {member_one_inbox_id dm', member_two_inbox_id dm'} =
    {normal_inbox L (member_one_inbox_id dm), normal_inbox L (member_two_inbox_id dm)}"
proof -
  from assms(1) obtain one two where k: "inbox_id_of_hex L (member_one_inbox_id dm) = Ok one"
    "inbox_id_of_hex L (member_two_inbox_id dm) = Ok two" "one \<noteq> two"
    by (auto simp: encode_dm_members_def rbind_eq_Ok split: if_splits)
  define a b where ab: "a = min one two" "b = max one two"
  have "a < b" "{a, b} = {one, two}" using k(3) by (auto simp: ab min_def max_def)
  have "tls_serialize (inbox_set_delta_codec L) (foldl TlsSetDelta_insert TlsSetDelta_new [a, b]) = Ok payload"
    using assms(1) k by (auto simp: encode_dm_members_def ab min_def max_def split: if_splits)
  moreover have "\<forall>k \<in> set [a, b]. inbox_id_ok k"
    using k inbox_id_of_hex_ok by (auto simp: ab min_def max_def)
  ultimately obtain s where s: "tls_deserialize_exact (inbox_set_codec L) v = Ok s" "ts_wf s" "ts_set s = set [a, b]"
    using assms(2) by (rule inserts_applied)
  have "TlsSet_iter s = [a, b]"
    using ts_iter_sorted [of s] s(2,3) \<open>a < b\<close> by (intro strictly_sorted_unique) auto
  then show ?thesis
    using s(1) k \<open>{a, b} = {one, two}\<close> by (auto simp: dict_dm_members_def normal_inbox_def doubleton_eq_iff)
qed

lemma seeded_attribute:
  assumes "encode_metadata_attribute_value i s = Ok bs" and "(f, i, ty) \<in> set metadata_field_registry_mapping"
    and "utf8_valid (as_bytes s)"
  shows "decode_metadata_component L i bs = Ok (normal_attribute L f s)"
proof -
  have utf8: "from_utf8 (as_bytes s) = Some s"
    using assms(3) by (simp add: from_utf8_def as_bytes_def comp_def unat_of_char)
  show ?thesis
    using assms(1,2) i64_be_roundtrip utf8
    by (auto simp: metadata_field_registry_mapping_def encode_metadata_attribute_value_def decode_metadata_component_def
        parse_disappearing_i64_def rbind_eq_Ok normal_attribute_def component_id_defs)
qed

lemma metadata_reads_back:
  assumes "synthesize_canonical_subset_from_extensions L G x = Ok e"
    and "gmm_from_extensions L x = Ok gmm" and "metadata_from_extensions G x = Ok md"
    and "seeded L R registry e d" and "app_data_dictionary x' = Some d" and "d COMPONENT_REGISTRY \<noteq> None"
  shows "\<exists>md'. extract_group_metadata L G x' = Ok md' \<and> md_conversation_type md' = md_conversation_type md \<and>
    md_creator_inbox_id md' = normal_inbox L (md_creator_inbox_id md) \<and> md_oneshot_message md' = md_oneshot_message md \<and>
    rel_option (\<lambda>dm dm'. {member_one_inbox_id dm', member_two_inbox_id dm'} =
      {normal_inbox L (member_one_inbox_id dm), normal_inbox L (member_two_inbox_id dm)}) (md_dm_members md) (md_dm_members md')"
proof -
  note look = seed_lookups [OF assms(1-3)]
  note applied = seeded_at [OF assms(4)] and verbatim = seed_verbatim [OF assms(4)]
  have ct: "d CONVERSATION_TYPE = Some (encode_conversation_type (conversation_type_i32 (md_conversation_type md)))"
    using look(8) by (rule verbatim) simp
  obtain c bs where c: "inbox_id_of_hex L (md_creator_inbox_id md) = Ok c" "tls_serialize (InboxId_codec (al_vlen L)) c = Ok bs"
    "d CREATOR_INBOX_ID = Some bs"
    using look(9) verbatim [of CREATOR_INBOX_ID] by auto
  have creator: "tls_deserialize_exact (InboxId_codec (al_vlen L)) bs = Ok c"
    using inbox_id_of_hex_ok [OF c(1)] c(2) by (rule tls_codec.read_exact [OF inbox_codec])
  have oneshot: "d ONESHOT_MESSAGE = map_option (oneshot_encode G) (md_oneshot_message md)"
    using look(12) verbatim [of ONESHOT_MESSAGE] applied [of ONESHOT_MESSAGE] by (cases "md_oneshot_message md") auto
  have dm: "\<exists>r. transpose_opt (dict_dm_members L) (d DM_MEMBERS) = Ok r \<and>
      rel_option (\<lambda>dm dm'. {member_one_inbox_id dm', member_two_inbox_id dm'} =
        {normal_inbox L (member_one_inbox_id dm), normal_inbox L (member_two_inbox_id dm)}) (md_dm_members md) r"
  proof (cases "md_dm_members md")
    case None
    with applied [of DM_MEMBERS] look(10) show ?thesis by simp
  next
    case (Some m)
    with applied [of DM_MEMBERS] look(11) obtain payload v where "encode_dm_members L m = Ok payload"
      "apply_app_data_update_payload L R DM_MEMBERS payload None registry = Ok v" "d DM_MEMBERS = Some v" by auto
    with seeded_dm apply_seed_set [of L R DM_MEMBERS payload registry v] Some show ?thesis by fastforce
  qed
  have one: "transpose_opt (\<lambda>b. ok_or (oneshot_decode G b) MdDeserialization) (d ONESHOT_MESSAGE) = Ok (md_oneshot_message md)"
    by (cases "md_oneshot_message md") (simp_all add: oneshot oneshot_codec)
  have ne: "CONVERSATION_TYPE \<noteq> COMPONENT_REGISTRY" "CREATOR_INBOX_ID \<noteq> COMPONENT_REGISTRY"
    "DM_MEMBERS \<noteq> COMPONENT_REGISTRY" "ONESHOT_MESSAGE \<noteq> COMPONENT_REGISTRY" by (simp_all add: component_id_defs)
  have norm: "normal_inbox L (md_creator_inbox_id md) = InboxId_to_hex (hex_encode (al_hex L)) c"
    by (simp add: normal_inbox_def c(1))
  from dm show ?thesis
    using assms(6)
    by (auto simp: extract_group_metadata_def read_group_metadata_from_dict_def assms(5) ct c(3) creator one ne
        conversation_type_bytes norm)
qed

lemma mutable_metadata_reads_back:
  assumes "synthesize_canonical_subset_from_extensions L G x = Ok e"
    and "gmm_from_extensions L x = Ok gmm" and "metadata_from_extensions G x = Ok md"
    and "seeded L R registry e d" and "app_data_dictionary x' = Some d" and "d COMPONENT_REGISTRY \<noteq> None"
    and "\<forall>f s. gmm_attribute gmm f = Some s \<longrightarrow> utf8_valid (as_bytes s)"
  shows "\<exists>gmm'. extract_group_mutable_metadata_capability_aware L x' = Ok gmm' \<and>
    (\<forall>f. gmm_attribute gmm' f = map_option (normal_attribute L f) (gmm_attribute gmm f)) \<and>
    set (gmm_admin_list gmm') = normal_inbox L ` set (gmm_admin_list gmm) \<and>
    set (gmm_super_admin_list gmm') = normal_inbox L ` set (gmm_super_admin_list gmm)"
proof -
  note look = seed_lookups [OF assms(1-3)]
  note applied = seeded_at [OF assms(4)] and verbatim = seed_verbatim [OF assms(4)]
  let ?empty = "\<lparr> gmm_attributes = [], gmm_admin_list = [], gmm_super_admin_list = [] \<rparr>"
  let ?val = "\<lambda>f. normal_attribute L f (the (gmm_attribute gmm f))"
  have field: "d i = None \<longleftrightarrow> gmm_attribute gmm f = None" "d i = Some bs \<longrightarrow> decode_metadata_component L i bs = Ok (?val f)"
    if at: "(f, i) \<in> set METADATA_FIELD_COMPONENT_MAP" for f i bs
  proof -
    consider (signer) "f = CommitLogSigner" "i = COMMIT_LOG_SIGNER"
      | (mapped) ty where "(f, i, ty) \<in> set metadata_field_registry_mapping"
      using mapped_fields [OF at] by blast
    then have "(d i = None \<longleftrightarrow> gmm_attribute gmm f = None) \<and> (d i = Some bs \<longrightarrow> decode_metadata_component L i bs = Ok (?val f))"
    proof cases
      case signer
      show ?thesis
      proof (cases "gmm_attribute gmm CommitLogSigner")
        case None
        with look(4) applied [of COMMIT_LOG_SIGNER] signer show ?thesis by simp
      next
        case (Some s)
        from look(5) [OF this] obtain raw where "hex_decode (al_hex L) s = Some raw" "d COMMIT_LOG_SIGNER = Some raw"
          using verbatim [of COMMIT_LOG_SIGNER] by auto
        with Some signer show ?thesis
          by (simp add: decode_metadata_component_def normal_attribute_def component_id_defs)
      qed
    next
      case mapped
      then have in_texts: "i \<in> (\<lambda>(f, i, ty). i) ` set metadata_field_registry_mapping" by force
      have ids: "i \<noteq> COMPONENT_REGISTRY" "i \<noteq> GROUP_MEMBERSHIP" using in_texts unfolding mapping_ids by (auto simp: component_id_defs)
      show ?thesis
      proof (cases "gmm_attribute gmm f")
        case None
        with look(2) [OF mapped] applied [of i] ids show ?thesis by simp
      next
        case (Some s)
        from look(3) [OF mapped this] obtain raw where raw: "encode_metadata_attribute_value i s = Ok raw" "d i = Some raw"
          using verbatim [of i] in_texts unfolding mapping_ids by auto
        with seeded_attribute [OF raw(1) mapped] assms(7) Some show ?thesis by auto
      qed
    qed
    then show "d i = None \<longleftrightarrow> gmm_attribute gmm f = None" "d i = Some bs \<longrightarrow> decode_metadata_component L i bs = Ok (?val f)"
      by blast+
  qed
  have reg: "i \<noteq> COMPONENT_REGISTRY" if "(f, i) \<in> set METADATA_FIELD_COMPONENT_MAP" for f i
    using that by (auto simp: METADATA_FIELD_COMPONENT_MAP_def component_id_defs)
  have "\<exists>m. merge_fields L d METADATA_FIELD_COMPONENT_MAP ?empty = Ok m \<and> gmm_admin_list m = gmm_admin_list ?empty \<and>
      gmm_super_admin_list m = gmm_super_admin_list ?empty \<and>
      (\<forall>f i. (f, i) \<in> set METADATA_FIELD_COMPONENT_MAP \<longrightarrow>
        gmm_attribute m f = (if d i = None then gmm_attribute ?empty f else Some (?val f))) \<and>
      (\<forall>g. field_str g \<notin> (\<lambda>(f, i). field_str f) ` set METADATA_FIELD_COMPONENT_MAP \<longrightarrow>
        gmm_attribute m g = gmm_attribute ?empty g)"
    using field(2) reg by (intro merge_fields_total) (auto simp: METADATA_FIELD_COMPONENT_MAP_def)
  then obtain m where m: "merge_fields L d METADATA_FIELD_COMPONENT_MAP ?empty = Ok m"
    "\<forall>f i. (f, i) \<in> set METADATA_FIELD_COMPONENT_MAP \<longrightarrow>
        gmm_attribute m f = (if d i = None then gmm_attribute ?empty f else Some (?val f))" by blast
  have attrs: "gmm_attribute m f = map_option (normal_attribute L f) (gmm_attribute gmm f)" for f
  proof -
    obtain i where i: "(f, i) \<in> set METADATA_FIELD_COMPONENT_MAP"
      by (cases f) (auto simp: METADATA_FIELD_COMPONENT_MAP_def)
    with m(2) field(1) [OF i] reg [OF i] show ?thesis by (auto simp: gmm_attribute_def)
  qed
  have list: "\<exists>ids'. merge_list L d i old = Ok ids' \<and> set ids' = normal_inbox L ` set ids"
    if "encode_inbox_id_set_seed L ids = Ok bs" "map_of (strict e) i = Some (TypeUpdate, bs)" "i \<in> {ADMIN_LIST, SUPER_ADMIN_LIST}"
    for ids bs i old
  proof -
    have "i \<notin> {COMPONENT_REGISTRY, GROUP_MEMBERSHIP}" using that(3) by auto
    from applied [OF this] that(2) obtain v where v: "apply_app_data_update_payload L R i bs None registry = Ok v" "d i = Some v" by auto
    with that(3) have "apply_inbox_id_set_delta L bs None = Ok v" by (auto intro: apply_seed_set)
    from seeded_set [OF that(1) this] obtain s where "tls_deserialize_exact (inbox_set_codec L) v = Ok s"
      "set (map (InboxId_to_hex (hex_encode (al_hex L))) (TlsSet_iter s)) = normal_inbox L ` set ids" by blast
    moreover have "i \<noteq> COMPONENT_REGISTRY" using that(3) by (auto simp: component_id_defs)
    ultimately show ?thesis using v(2) by (simp add: merge_list_def decode_inbox_id_list_def)
  qed
  obtain admins where a: "merge_list L d ADMIN_LIST (gmm_admin_list m) = Ok admins"
    "set admins = normal_inbox L ` set (gmm_admin_list gmm)" using look(6) list by blast
  obtain supers where s: "merge_list L d SUPER_ADMIN_LIST (gmm_super_admin_list m) = Ok supers"
    "set supers = normal_inbox L ` set (gmm_super_admin_list gmm)" using look(7) list by blast
  have "is_migrated_extensions x'" using assms(6) by (simp add: is_migrated_iff assms(5))
  then have "extract_group_mutable_metadata_capability_aware L x' = Ok (m\<lparr> gmm_admin_list := admins, gmm_super_admin_list := supers \<rparr>)"
    by (simp add: extract_group_mutable_metadata_capability_aware_def merge_app_data_into_mutable_metadata_def
        merge_dict_into_mutable_metadata_def assms(5) m(1) a(1) s(1))
  with attrs a(2) s(2) show ?thesis by (auto simp: gmm_attribute_def)
qed

end

section \<open>A migrated group\<close>


definition legacy_inbox_hex :: string where
  "legacy_inbox_hex = ''0123456789abcdef0123456789abcdef''"

definition legacy_inbox :: inbox_id where
  "legacy_inbox = InboxId (as_bytes legacy_inbox_hex)"

definition legacy_libs :: "nat app_libs" where
  "legacy_libs = rfc_libs\<lparr> al_vlen := run_vlen, al_vlbytes := vl_bytes run_vlen, inbox_vecs := run_vecs, bytes_vecs := run_vecs,
     component_vecs := run_vecs, al_meta := tree_meta, al_hex := plain_crypto, gmm_decode := (\<lambda>_. Some
     \<lparr> pg_attributes = [(''group_name'', ''hi'')], pg_admin_list = Some [], pg_super_admin_list = Some [legacy_inbox_hex] \<rparr>) \<rparr>"

definition legacy_protos :: group_protos where
  "legacy_protos = \<lparr>
     oneshot_decode = (\<lambda>bs. case bs of
         [] \<Rightarrow> Some None
       | _ \<Rightarrow> map_option (\<lambda>n. Some \<lparr> rr_group_id = drop 8 bs, rr_latest_commit_sequence_id = n \<rparr>) (i64_from_be_bytes (take 8 bs))),
     oneshot_encode = (\<lambda>m. case m of None \<Rightarrow> [] | Some r \<Rightarrow> i64_to_be_bytes (rr_latest_commit_sequence_id r) @ rr_group_id r),
     metadata_proto_decode = (\<lambda>_. Some
       \<lparr> p_conversation_type = 1, p_creator_account_address = [], p_creator_inbox_id = legacy_inbox_hex, p_dm_members = None,
         p_oneshot_message = None \<rparr>),
     metadata_proto_encode = (\<lambda>_. None), membership_proto_decode = (\<lambda>_. Some ([(legacy_inbox_hex, 7)], [])),
     membership_proto_encode = (\<lambda>_. []), entry_decode = (\<lambda>_. Some (Some \<lparr> me_sequence_id = 7, me_failed_installations = [] \<rparr>)), entry_encode = (\<lambda>_. []),
     permissions_proto_decode = (\<lambda>_. Some (Some demo_policies)), mls_credential_decode = (\<lambda>_. Some legacy_inbox_hex) \<rparr>"

definition legacy_extensions :: extensions where
  "legacy_extensions = \<lparr>
     unknown_extensions = [(MUTABLE_METADATA_EXTENSION_ID, []), (GROUP_MEMBERSHIP_EXTENSION_ID, []), (GROUP_PERMISSIONS_EXTENSION_ID, [])],
     app_data_dictionary = None, immutable_metadata = Some [], required_capabilities = None \<rparr>"

lemma legacy_libs_sel [simp]:
  "al_vlen legacy_libs = run_vlen" "al_vlbytes legacy_libs = vl_bytes run_vlen" "inbox_vecs legacy_libs = run_vecs"
  "component_vecs legacy_libs = run_vecs"
  "al_meta legacy_libs = tree_meta" "al_hex legacy_libs = plain_crypto"
  by (simp_all add: legacy_libs_def)

lemma legacy_lossless: "lossless_libs legacy_libs legacy_protos"
proof (rule lossless_libs.intro)
  show "tls_codec (InboxId_codec (al_vlen legacy_libs)) inbox_id_ok" using run.inbox.tls_codec_axioms by simp
  show "tls_codec (inbox_set_codec legacy_libs) (set_ok inbox_id_ok)"
    using run_inbox_set.set_codec by (simp add: inbox_set_codec_def run_vecs_def)
  show "tls_codec (inbox_set_delta_codec legacy_libs) (\<lambda>d. list_all (set_mutation_ok inbox_id_ok) (set_mutations d))"
    using run_inbox_set.set_delta_codec by (simp add: inbox_set_delta_codec_def run_vecs_def)
  show "oneshot_decode legacy_protos (oneshot_encode legacy_protos m) = Some m" for m
  proof (cases m)
    case (Some r)
    let ?n = "i64_to_be_bytes (rr_latest_commit_sequence_id r)"
    have n: "length ?n = 8" by (simp add: i64_to_be_bytes_def)
    then obtain b bs where "?n @ rr_group_id r = b # bs" by (cases ?n) auto
    then have "oneshot_decode legacy_protos (?n @ rr_group_id r) =
        map_option (\<lambda>k. Some \<lparr> rr_group_id = drop 8 (?n @ rr_group_id r), rr_latest_commit_sequence_id = k \<rparr>)
          (i64_from_be_bytes (take 8 (?n @ rr_group_id r)))"
      by (simp add: legacy_protos_def)
    with Some n show ?thesis by (simp add: legacy_protos_def i64_be_roundtrip)
  qed (simp add: legacy_protos_def)
qed

interpretation legacy: lossless_libs legacy_libs legacy_protos by (rule legacy_lossless)

lemma legacy_gmm:
  "gmm_from_extensions legacy_libs legacy_extensions =
     Ok \<lparr> gmm_attributes = [(''group_name'', ''hi'')], gmm_admin_list = [], gmm_super_admin_list = [legacy_inbox_hex] \<rparr>"
  by (simp add: gmm_from_extensions_def gmm_from_bytes_def gmm_from_proto_def find_mutable_metadata_extension_def find_extension_def
      legacy_extensions_def legacy_libs_def extension_id_defs)

lemma legacy_md:
  "metadata_from_extensions legacy_protos legacy_extensions =
     Ok \<lparr> md_conversation_type = Group, md_creator_inbox_id = legacy_inbox_hex, md_dm_members = None, md_oneshot_message = None \<rparr>"
  by (simp add: metadata_from_extensions_def metadata_from_bytes_def metadata_from_proto_def legacy_extensions_def legacy_protos_def
      conversation_type_of_i32_def)

lemma legacy_hex: "inbox_id_of_hex legacy_libs legacy_inbox_hex = Ok legacy_inbox"
  by (simp add: inbox_id_of_hex_def InboxId_from_hex_def plain_crypto_def legacy_inbox_def INBOX_ID_BYTE_LEN_def as_bytes_def
      legacy_inbox_hex_def)

lemma legacy_inbox_bytes: "InboxId_as_bytes legacy_inbox = as_bytes legacy_inbox_hex" "length (as_bytes legacy_inbox_hex) = 32"
  by (simp_all add: legacy_inbox_def as_bytes_def legacy_inbox_hex_def)

lemma legacy_creator: "tls_serialize (InboxId_codec run_vlen) legacy_inbox = Ok (0 # as_bytes legacy_inbox_hex)"
  by (simp add: InboxId_codec_def legacy_inbox_bytes run_write_length INBOX_ID_VERSION_def)

lemmas legacy_set_simps = run_vecs_def quic_vec_def Let_def legacy_creator legacy_inbox_bytes run_write_length

lemma legacy_set_seed:
  "ids = [] \<or> ids = [legacy_inbox] \<Longrightarrow>
     \<exists>bs. tls_serialize (inbox_set_delta_codec legacy_libs) (foldl TlsSetDelta_insert TlsSetDelta_new ids) = Ok bs"
  by (auto simp: inbox_set_delta_codec_def TlsSetDelta_codec_def TlsSetMutation_codec_def TlsSetDelta_insert_def
      TlsSetDelta_new_def legacy_set_simps)

lemma legacy_set_applied:
  assumes "ids = [] \<or> ids = [legacy_inbox]"
    and "tls_serialize (inbox_set_delta_codec legacy_libs) (foldl TlsSetDelta_insert TlsSetDelta_new ids) = Ok bs"
  shows "\<exists>v. apply_inbox_id_set_delta legacy_libs bs None = Ok v"
proof -
  let ?d = "foldl TlsSetDelta_insert TlsSetDelta_new ids"
  have "\<forall>k \<in> set ids. inbox_id_ok k"
    using assms(1) by (auto simp: inbox_id_ok_def legacy_inbox_bytes INBOX_ID_BYTE_LEN_def)
  then have "tls_deserialize_exact (inbox_set_delta_codec legacy_libs) bs = Ok ?d"
    using assms(2) by (intro tls_codec.read_exact [OF legacy.delta_codec]) (simp_all add: delta_of_inserts list_all_iff)
  then show ?thesis using assms(1)
    by (auto simp: apply_inbox_id_set_delta_def apply_set_delta_def inbox_set_delta_codec_def TlsSet_apply_delta_def
        TlsSetDelta_insert_def TlsSetDelta_new_def TlsSet_new_def TlsMap_new_def TlsMap_apply_delta_def TlsMap_insert_def
        TlsSet_codec_def TlsMap_codec_def TlsMapEntry_codec_def unit_codec_def vec_insert_def binary_search_by_def legacy_set_simps)
qed

lemma legacy_attributes:
  "gmm_attributes gmm = [(''group_name'', ''hi'')] \<Longrightarrow> signer_seed L gmm s1 = Ok s1"
  "field_seeds [(''group_name'', ''hi'')] metadata_field_registry_mapping [] = Ok [(GROUP_NAME, TypeUpdate, [0x68, 0x69])]"
  by (simp_all add: signer_seed_def metadata_field_registry_mapping_def encode_metadata_attribute_value_def
      as_bytes_def component_id_defs)

lemma legacy_found:
  "permissions_proto_decode legacy_protos bs = Some (Some demo_policies)"
  "membership_proto_decode legacy_protos bs = Some ([(legacy_inbox_hex, 7)], [])"
  "i \<in> {GROUP_MEMBERSHIP_EXTENSION_ID, GROUP_PERMISSIONS_EXTENSION_ID} \<Longrightarrow> find_extension i legacy_extensions = Some []"
  by (auto simp: legacy_protos_def find_extension_def legacy_extensions_def extension_id_defs)

lemma legacy_seeds:
  obtains e a s r where "synthesize_canonical_subset_from_extensions legacy_libs legacy_protos legacy_extensions = Ok e"
    and "strict e = [(SUPER_ADMIN_LIST, TypeUpdate, s), (ADMIN_LIST, TypeUpdate, a), (GROUP_NAME, TypeUpdate, [0x68, 0x69]),
      (CREATOR_INBOX_ID, TypeUpdate, 0 # as_bytes legacy_inbox_hex), (CONVERSATION_TYPE, TypeUpdate, [0, 0, 0, 1])]"
    and "\<exists>v. apply_inbox_id_set_delta legacy_libs a None = Ok v"
    and "\<exists>v. apply_inbox_id_set_delta legacy_libs s None = Ok v"
    and "build_registry tree_meta demo_policies False False = Ok r"
    and "expected_registry e = bt_from_iter (reg_iter tree_meta r)"
    and "membership_sequence_ids e = [(legacy_inbox, 7)]" and "allowed_failed_installations e = []"
proof -
  obtain a s where as: "encode_inbox_id_set_seed legacy_libs [] = Ok a"
    "encode_inbox_id_set_seed legacy_libs [legacy_inbox_hex] = Ok s" "\<exists>v. apply_inbox_id_set_delta legacy_libs a None = Ok v"
    "\<exists>v. apply_inbox_id_set_delta legacy_libs s None = Ok v"
    using legacy_set_seed [of "[]"] legacy_set_seed [of "[legacy_inbox]"] legacy_set_applied [of "[]"] legacy_set_applied [of "[legacy_inbox]"]
    by (auto simp: encode_inbox_id_set_seed_def legacy_hex)
  obtain r where r: "build_registry tree_meta demo_policies False False = Ok r" using demo_registry_built by blast
  have reg: "synthesize_registry_from_extensions legacy_libs legacy_protos legacy_extensions = Ok r"
    by (simp add: synthesize_registry_from_extensions_def legacy_md r legacy_found)
  have members: "extract_legacy_group_membership legacy_protos legacy_extensions = Ok ([(legacy_inbox_hex, 7)], [])"
    by (simp add: extract_legacy_group_membership_def legacy_found)
  let ?seeds = "[(SUPER_ADMIN_LIST, TypeUpdate, s), (ADMIN_LIST, TypeUpdate, a), (GROUP_NAME, TypeUpdate, [0x68, 0x69]),
      (CREATOR_INBOX_ID, TypeUpdate, 0 # as_bytes legacy_inbox_hex), (CONVERSATION_TYPE, TypeUpdate, [0, 0, 0, 1])]"
  have "bt_insert CREATOR_INBOX_ID (TypeUpdate, 0 # as_bytes legacy_inbox_hex) (bt_insert CONVERSATION_TYPE
      (TypeUpdate, encode_conversation_type 1) (bt_insert SUPER_ADMIN_LIST (TypeUpdate, s) (bt_insert ADMIN_LIST (TypeUpdate, a)
      [(GROUP_NAME, TypeUpdate, [0x68, 0x69])]))) = ?seeds"
    by (simp add: component_id_defs encode_conversation_type_def i32_to_be_bytes_def)
  then have "\<exists>e. synthesize_canonical_subset_from_extensions legacy_libs legacy_protos legacy_extensions = Ok e \<and> strict e = ?seeds \<and>
      expected_registry e = bt_from_iter (reg_iter tree_meta r) \<and> membership_sequence_ids e = [(legacy_inbox, 7)] \<and>
      allowed_failed_installations e = []"
    by (simp add: synthesize_canonical_subset_from_extensions_def legacy_gmm legacy_md reg members legacy_attributes as
      metadata_seeds_def legacy_hex legacy_creator)
  with as(3,4) r that show ?thesis by blast
qed

lemma legacy_applies:
  "v = [0x68, 0x69] \<Longrightarrow> apply_app_data_update_payload legacy_libs [] GROUP_NAME v None registry = Ok v"
  "v = [0, 0, 0, 1] \<Longrightarrow> apply_app_data_update_payload legacy_libs [] CONVERSATION_TYPE v None registry = Ok v"
  "v = 0 # as_bytes legacy_inbox_hex \<Longrightarrow> apply_app_data_update_payload legacy_libs [] CREATOR_INBOX_ID v None registry = Ok v"
  "i \<in> {ADMIN_LIST, SUPER_ADMIN_LIST} \<Longrightarrow> apply_app_data_update_payload legacy_libs [] i bs None registry =
     map_err source_of_typed (apply_inbox_id_set_delta legacy_libs bs None)"
  by (auto simp: apply_app_data_update_payload_def lookup_component_eq is_xmtp_range_def WELL_KNOWN_def component_defs
     apply_passthrough_def component_id_defs is_immutable_def fallback_type_def component_type_of_def apply_update_payload_for_type_def
     decode_utf8_def from_utf8_def)


end
