(* ===== verification/Bootstrap.thy ===== *)
theory Bootstrap
  imports Staged_Commit Migration_Roundtrip
begin

text \<open>
  The validator of the one commit that migrates a group to the dictionary,
  \<open>xmtp_mls/src/groups/app_data/bootstrap_validator.rs\<close>. The receiver computes the seeds itself and compares
  them with the proposals of the commit. Shown: exactly which commits pass, and that a group whose
  dictionary was filled by a commit that passed reads as before.
\<close>

section \<open>Detection\<close>

definition has_unknown_extension :: "u16 \<Rightarrow> extensions \<Rightarrow> bool" where
  "has_unknown_extension i x \<longleftrightarrow> list_ex (\<lambda>e. fst e = i) (unknown_extensions x)"

definition gce_matches_bootstrap_shape :: "extensions \<Rightarrow> bool" where
  "gce_matches_bootstrap_shape x \<longleftrightarrow>
     \<not> has_unknown_extension MUTABLE_METADATA_EXTENSION_ID x \<and> \<not> has_unknown_extension GROUP_PERMISSIONS_EXTENSION_ID x \<and>
     \<not> has_unknown_extension GROUP_MEMBERSHIP_EXTENSION_ID x \<and> immutable_metadata x = None"

definition gce_required_capabilities_match_bootstrap_shape :: "extensions \<Rightarrow> bool" where
  "gce_required_capabilities_match_bootstrap_shape x =
     (case required_capabilities x of Some types \<Rightarrow> AppDataDictionaryType \<in> set types | None \<Rightarrow> False)"

definition check_proposals_enabled :: "extensions \<Rightarrow> bool" where
  "check_proposals_enabled x = is_migrated_extensions x"

fun bootstrap_signals :: "queued_proposal list \<Rightarrow> bool \<Rightarrow> bool \<Rightarrow> bool \<times> bool" where
  "bootstrap_signals [] gce_matches writes_component_registry = (gce_matches, writes_component_registry)"
| "bootstrap_signals (q # qs) gce_matches writes_component_registry =
     (case qp_proposal q of
        GroupContextExtensionsProposal x \<Rightarrow>
          bootstrap_signals qs (gce_matches_bootstrap_shape x \<and> gce_required_capabilities_match_bootstrap_shape x)
            writes_component_registry
      | AppDataUpdateProposal i _ \<Rightarrow> bootstrap_signals qs gce_matches (writes_component_registry \<or> i = COMPONENT_REGISTRY)
      | _ \<Rightarrow> bootstrap_signals qs gce_matches writes_component_registry)"

definition is_bootstrap_commit :: "staged_commit \<Rightarrow> extensions \<Rightarrow> bool" where
  "is_bootstrap_commit c existing \<longleftrightarrow>
     \<not> check_proposals_enabled existing \<and>
     (case bootstrap_signals (queued_proposals c) False False of (gce_matches, writes) \<Rightarrow> gce_matches \<and> writes)"

fun extract_gce_proposer ::
    "group_protos \<Rightarrow> queued_proposal list \<Rightarrow> mls_group \<Rightarrow> group_metadata \<Rightarrow> group_mutable_metadata \<Rightarrow>
     (commit_validation_error, commit_participant option) result" where
  "extract_gce_proposer G [] g md gmm = Ok None"
| "extract_gce_proposer G (q # qs) g md gmm =
     (case qp_proposal q of
        GroupContextExtensionsProposal _ \<Rightarrow> rbind (sender_participant G (qp_sender q) g md gmm) (\<lambda>p. Ok (Some p))
      | _ \<Rightarrow> extract_gce_proposer G qs g md gmm)"

section \<open>Proposal types and the version floor\<close>

definition is_allowed_bootstrap_proposal :: "mls_proposal \<Rightarrow> bool" where
  "is_allowed_bootstrap_proposal p =
     (case p of GroupContextExtensionsProposal _ \<Rightarrow> True | AppDataUpdateProposal _ _ \<Rightarrow> True | _ \<Rightarrow> False)"

fun validate_only_allowed_proposal_types :: "queued_proposal list \<Rightarrow> (bootstrap_validation_error, unit) result" where
  "validate_only_allowed_proposal_types [] = Ok ()"
| "validate_only_allowed_proposal_types (q # qs) =
     (if is_allowed_bootstrap_proposal (qp_proposal q) then validate_only_allowed_proposal_types qs
      else Err (DisallowedProposalType (proposal_type_name (qp_proposal q))))"

fun first_floor_update :: "app_data_proposals \<Rightarrow> bytes option" where
  "first_floor_update [] = None"
| "first_floor_update ((i, op) # ps) =
     (case op of
        AdUpdate bs \<Rightarrow> if i = MIN_SUPPORTED_PROTOCOL_VERSION then Some bs else first_floor_update ps
      | AdRemove \<Rightarrow> first_floor_update ps)"

definition bootstrap_floor_exceeding :: "'v::linorder app_libs \<Rightarrow> staged_commit \<Rightarrow> string \<Rightarrow> string option" where
  "bootstrap_floor_exceeding L c own_version =
     Option.bind (first_floor_update (app_data_update_proposals c)) (\<lambda>bs.
     Option.bind (from_utf8 bs) (\<lambda>floor.
     Option.bind (semver_parse L own_version) (\<lambda>own.
     Option.bind (semver_parse L floor) (\<lambda>floor_version.
     if floor_version > own then Some floor else None))))"

section \<open>Comparison with the expected seeds\<close>

fun collect_app_data_updates ::
    "app_data_proposals \<Rightarrow> strict_seeds \<Rightarrow> (bootstrap_validation_error, strict_seeds) result" where
  "collect_app_data_updates [] out = Ok out"
| "collect_app_data_updates ((i, op) # ps) out =
     (let entry = (case op of AdUpdate bs \<Rightarrow> (TypeUpdate, bs) | AdRemove \<Rightarrow> (TypeRemove, [])) in
      if map_of out i \<noteq> None then Err (DuplicateProposal i)
      else collect_app_data_updates ps (bt_insert i entry out))"

fun check_strict :: "strict_seeds \<Rightarrow> strict_seeds \<Rightarrow> (bootstrap_validation_error, unit) result" where
  "check_strict [] actual = Ok ()"
| "check_strict ((i, expected_entry) # rest) actual =
     (case map_of actual i of
        None \<Rightarrow> Err (MissingSeed i)
      | Some entry \<Rightarrow> if entry \<noteq> expected_entry then Err (BootMismatch i) else check_strict rest actual)"

fun check_unexpected :: "strict_seeds \<Rightarrow> strict_seeds \<Rightarrow> (bootstrap_validation_error, unit) result" where
  "check_unexpected [] expected = Ok ()"
| "check_unexpected ((i, _) # rest) expected =
     (if i \<noteq> GROUP_MEMBERSHIP \<and> i \<noteq> COMPONENT_REGISTRY \<and> map_of expected i = None then Err (UnexpectedProposal i)
      else check_unexpected rest expected)"

type_synonym registry_entries_map = "(component_id, component_metadata) btree_map"

fun collect_registry_inserts ::
    "meta_codec \<Rightarrow> (component_id, bytes) tls_map_mutation list \<Rightarrow> registry_entries_map \<Rightarrow>
     (bootstrap_validation_error, registry_entries_map) result" where
  "collect_registry_inserts P [] out = Ok out"
| "collect_registry_inserts P (MInsert key raw # rest) out =
     rbind (map_err (\<lambda>_. PayloadDecode COMPONENT_REGISTRY) (validate_entry P key raw)) (\<lambda>_.
     rbind (ok_or (meta_decode P raw) (PayloadDecode COMPONENT_REGISTRY)) (\<lambda>meta.
     if map_of out key \<noteq> None then Err (PayloadDecode COMPONENT_REGISTRY)
     else collect_registry_inserts P rest (bt_insert key meta out)))"
| "collect_registry_inserts P (MUpdate _ _ # rest) out = Err (PayloadDecode COMPONENT_REGISTRY)"
| "collect_registry_inserts P (MDelete _ # rest) out = Err (PayloadDecode COMPONENT_REGISTRY)"

fun check_expected_entries :: "registry_entries_map \<Rightarrow> registry_entries_map \<Rightarrow> (bootstrap_validation_error, unit) result" where
  "check_expected_entries [] actual = Ok ()"
| "check_expected_entries ((i, meta) # rest) actual =
     (if map_of actual i \<noteq> Some meta then Err (RegistryEntryMismatch i) else check_expected_entries rest actual)"

fun check_extra_entries :: "registry_entries_map \<Rightarrow> registry_entries_map \<Rightarrow> (bootstrap_validation_error, unit) result" where
  "check_extra_entries [] expected = Ok ()"
| "check_extra_entries ((i, _) # rest) expected =
     (if map_of expected i = None then Err (RegistryEntryMismatch i) else check_extra_entries rest expected)"

definition validate_component_registry_payload ::
    "'v app_libs \<Rightarrow> (operation_type \<times> bytes) option \<Rightarrow> registry_entries_map \<Rightarrow> (bootstrap_validation_error, unit) result" where
  "validate_component_registry_payload L actual expected =
     (case actual of
        None \<Rightarrow> if expected = [] then Ok () else Err (MissingSeed COMPONENT_REGISTRY)
      | Some (op, bs) \<Rightarrow>
          if op \<noteq> TypeUpdate then Err (BootMismatch COMPONENT_REGISTRY)
          else
          rbind (map_err (\<lambda>_. PayloadDecode COMPONENT_REGISTRY) (tls_deserialize_exact (registry_delta_codec L) bs)) (\<lambda>delta.
          rbind (collect_registry_inserts (al_meta L) (mutations delta) []) (\<lambda>entries.
          rbind (check_expected_entries expected entries) (\<lambda>_.
          rbind (check_extra_entries entries expected) (\<lambda>_.
          if length entries \<noteq> length expected then Err (PayloadDecode COMPONENT_REGISTRY) else Ok ())))))"

fun check_failed_installations :: "bytes list \<Rightarrow> bytes list \<Rightarrow> (bootstrap_validation_error, unit) result" where
  "check_failed_installations [] allowed = Ok ()"
| "check_failed_installations (fi # rest) allowed =
     (if length fi \<noteq> 32 then Err (PayloadDecode GROUP_MEMBERSHIP)
      else if fi \<notin> set allowed then Err (UnauthorizedFailedInstallation fi)
      else check_failed_installations rest allowed)"

fun check_membership_inserts ::
    "group_protos \<Rightarrow> (inbox_id, u64) btree_map \<Rightarrow> bytes list \<Rightarrow> (inbox_id, bytes) tls_map_mutation list \<Rightarrow> inbox_id list \<Rightarrow>
     (bootstrap_validation_error, inbox_id list) result" where
  "check_membership_inserts G expected allowed [] seen = Ok seen"
| "check_membership_inserts G expected allowed (MInsert key raw # rest) seen =
     (if key \<in> set seen then Err (PayloadDecode GROUP_MEMBERSHIP)
      else case map_of expected key of
        None \<Rightarrow> Err (ExtraMember (InboxId_as_bytes key))
      | Some expected_seq \<Rightarrow>
          rbind (ok_or (entry_decode G raw) (PayloadDecode GROUP_MEMBERSHIP)) (\<lambda>envelope.
          rbind (ok_or envelope (PayloadDecode GROUP_MEMBERSHIP)) (\<lambda>entry.
          if me_sequence_id entry \<noteq> expected_seq
          then Err (SequenceIdMismatch (InboxId_as_bytes key) expected_seq (me_sequence_id entry))
          else
          rbind (check_failed_installations (me_failed_installations entry) allowed) (\<lambda>_.
          check_membership_inserts G expected allowed rest (key # seen)))))"
| "check_membership_inserts G expected allowed (MUpdate _ _ # rest) seen = Err (PayloadDecode GROUP_MEMBERSHIP)"
| "check_membership_inserts G expected allowed (MDelete _ # rest) seen = Err (PayloadDecode GROUP_MEMBERSHIP)"

fun check_members_present :: "(inbox_id, u64) btree_map \<Rightarrow> inbox_id list \<Rightarrow> (bootstrap_validation_error, unit) result" where
  "check_members_present [] seen = Ok ()"
| "check_members_present ((i, _) # rest) seen =
     (if i \<notin> set seen then Err (MissingMember (InboxId_as_bytes i)) else check_members_present rest seen)"

definition validate_group_membership_payload ::
    "'v app_libs \<Rightarrow> group_protos \<Rightarrow> (operation_type \<times> bytes) option \<Rightarrow> (inbox_id, u64) btree_map \<Rightarrow> bytes list \<Rightarrow>
     (bootstrap_validation_error, unit) result" where
  "validate_group_membership_payload L G actual expected allowed =
     (case actual of
        None \<Rightarrow> (case expected of [] \<Rightarrow> Ok () | (missing, _) # _ \<Rightarrow> Err (MissingMember (InboxId_as_bytes missing)))
      | Some (op, bs) \<Rightarrow>
          if op \<noteq> TypeUpdate then Err (BootMismatch GROUP_MEMBERSHIP)
          else
          rbind (map_err (\<lambda>_. PayloadDecode GROUP_MEMBERSHIP) (tls_deserialize_exact (membership_delta_codec L) bs)) (\<lambda>delta.
          rbind (check_membership_inserts G expected allowed (mutations delta) []) (\<lambda>seen.
          check_members_present expected seen)))"

definition validate_against_canonical_subset ::
    "'v app_libs \<Rightarrow> group_protos \<Rightarrow> canonical_bootstrap_expectation \<Rightarrow> strict_seeds \<Rightarrow> (bootstrap_validation_error, unit) result" where
  "validate_against_canonical_subset L G expected actual =
     rbind (check_strict (strict expected) actual) (\<lambda>_.
     rbind (check_unexpected actual (strict expected)) (\<lambda>_.
     rbind (validate_component_registry_payload L (map_of actual COMPONENT_REGISTRY) (expected_registry expected)) (\<lambda>_.
     validate_group_membership_payload L G (map_of actual GROUP_MEMBERSHIP) (membership_sequence_ids expected)
       (allowed_failed_installations expected))))"

section \<open>The extensions proposed\<close>

definition validate_gce_extension_set :: "extensions \<Rightarrow> (bootstrap_validation_error, unit) result" where
  "validate_gce_extension_set x =
     (if \<not> gce_matches_bootstrap_shape x then Err GceMismatch
      else
      rbind (ok_or (required_capabilities x) GceMismatch) (\<lambda>ext_types.
      let requires_app_data_dictionary = AppDataDictionaryType \<in> set ext_types;
          bans_legacy = \<not> list_ex (\<lambda>banned. banned \<in> set ext_types)
            [UnknownType MUTABLE_METADATA_EXTENSION_ID, UnknownType GROUP_PERMISSIONS_EXTENSION_ID,
             UnknownType GROUP_MEMBERSHIP_EXTENSION_ID, ImmutableMetadataType]
      in if \<not> requires_app_data_dictionary \<or> \<not> bans_legacy then Err GceMismatch else Ok ()))"

definition validate_gce_shape :: "staged_commit \<Rightarrow> (bootstrap_validation_error, unit) result" where
  "validate_gce_shape c =
     (case gce_proposals c of [x] \<Rightarrow> validate_gce_extension_set x | _ \<Rightarrow> Err GceMismatch)"

definition validate_bootstrap_commit ::
    "'v::linorder app_libs \<Rightarrow> group_protos \<Rightarrow> staged_commit \<Rightarrow> mls_group \<Rightarrow> commit_participant \<Rightarrow> string \<Rightarrow>
     (bootstrap_validation_error, unit) result" where
  "validate_bootstrap_commit L G c g proposer own_version =
     (if \<not> cp_is_super_admin proposer then Err ProposerNotSuperAdmin
      else
      rbind (validate_only_allowed_proposal_types (queued_proposals c)) (\<lambda>_.
      case bootstrap_floor_exceeding L c own_version of
        Some min_version \<Rightarrow> Err (BootProtocolVersionTooLow min_version)
      | None \<Rightarrow>
          rbind (map_err Synthesis (synthesize_canonical_subset_from_extensions L G (mg_extensions g))) (\<lambda>expected.
          rbind (collect_app_data_updates (app_data_update_proposals c) []) (\<lambda>actual.
          rbind (validate_against_canonical_subset L G expected actual) (\<lambda>_.
          validate_gce_shape c)))))"

section \<open>Which commits pass\<close>

fun seed_entry :: "app_data_update_operation \<Rightarrow> operation_type \<times> bytes" where
  "seed_entry (AdUpdate bs) = (TypeUpdate, bs)"
| "seed_entry AdRemove = (TypeRemove, [])"

text \<open>The pairs of a batch that only inserts.\<close>

fun insert_pairs :: "('k, 'v) tls_map_mutation list \<Rightarrow> ('k \<times> 'v) list option" where
  "insert_pairs [] = Some []"
| "insert_pairs (MInsert k v # ms) = map_option ((#) (k, v)) (insert_pairs ms)"
| "insert_pairs _ = None"

lemma allowed_types_Ok:
  "validate_only_allowed_proposal_types qs = Ok u \<longleftrightarrow> (\<forall>q \<in> set qs. is_allowed_bootstrap_proposal (qp_proposal q))"
  by (induction qs) auto

lemma collect_Ok:
  assumes "collect_app_data_updates ps out = Ok m" and "bt_wf out"
  shows "distinct (map fst ps) \<and> bt_wf m \<and> (\<forall>i \<in> fst ` set ps. map_of out i = None) \<and>
    (\<forall>(i, op) \<in> set ps. map_of m i = Some (seed_entry op)) \<and> (\<forall>i. i \<notin> fst ` set ps \<longrightarrow> map_of m i = map_of out i)"
  using assms
proof (induction ps out rule: collect_app_data_updates.induct)
  case (2 i op ps out)
  define entry where "entry = (case op of AdUpdate bs \<Rightarrow> (TypeUpdate, bs) | AdRemove \<Rightarrow> (TypeRemove, []))"
  have entry: "entry = seed_entry op" by (cases op) (simp_all add: entry_def)
  from "2.prems"(1) have fresh: "map_of out i = None" and rest: "collect_app_data_updates ps (bt_insert i entry out) = Ok m"
    by (auto simp: entry_def [symmetric] Let_def split: if_splits) (metis option.exhaust surj_pair)
  have "bt_wf (bt_insert i entry out)" using "2.prems"(2) by simp
  from "2.IH" [OF entry_def _ rest this] fresh have ih: "distinct (map fst ps)" "bt_wf m"
    "\<forall>j \<in> fst ` set ps. map_of (bt_insert i entry out) j = None" "\<forall>(i, op) \<in> set ps. map_of m i = Some (seed_entry op)"
    "\<forall>j. j \<notin> fst ` set ps \<longrightarrow> map_of m j = map_of (bt_insert i entry out) j" by simp_all
  have new: "i \<notin> fst ` set ps" using ih(3) by (auto split: if_splits)
  with ih(5) have "map_of m i = Some (seed_entry op)" by (simp add: entry)
  moreover have "\<forall>j \<in> fst ` set ps. map_of out j = None" using ih(3) new by (metis bt_lookup_insert)
  moreover have "\<forall>j. j \<notin> fst ` set ((i, op) # ps) \<longrightarrow> map_of m j = map_of out j" using ih(5) by simp
  ultimately show ?case using ih(1,2,4) new fresh by simp
qed simp

lemma check_strict_Ok: "check_strict es actual = Ok u \<longleftrightarrow> (\<forall>(i, x) \<in> set es. map_of actual i = Some x)"
  by (induction es) (auto split: option.splits if_splits)

lemma check_unexpected_Ok:
  "check_unexpected es expected = Ok u \<longleftrightarrow>
     (\<forall>i \<in> fst ` set es. i = GROUP_MEMBERSHIP \<or> i = COMPONENT_REGISTRY \<or> map_of expected i \<noteq> None)"
  by (induction es) (auto split: if_splits)

lemma recognized_Ok:
  "validate_entry P k raw = Ok u \<and> meta_decode P raw = Some meta \<longleftrightarrow> decode_recognized P k raw = Ok meta"
  by (auto simp: validate_entry_def decode_recognized_def rbind_eq_Ok)

lemma collect_registry_Ok:
  assumes "collect_registry_inserts P ms out = Ok m" and "bt_wf out"
  shows "\<exists>kvs. insert_pairs ms = Some kvs \<and> distinct (map fst kvs) \<and> (\<forall>k \<in> fst ` set kvs. map_of out k = None) \<and>
    bt_wf m \<and> (\<forall>(k, raw) \<in> set kvs. decode_recognized P k raw = Ok (the (map_of m k)) \<and> map_of m k \<noteq> None) \<and>
    (\<forall>k. k \<notin> fst ` set kvs \<longrightarrow> map_of m k = map_of out k)"
  using assms
proof (induction P ms out rule: collect_registry_inserts.induct)
  case (2 P key raw rest out)
  from "2.prems"(1) obtain u meta where d: "validate_entry P key raw = Ok u" "meta_decode P raw = Some meta"
    and fresh: "map_of out key = None" and rest: "collect_registry_inserts P rest (bt_insert key meta out) = Ok m"
    by (auto simp: rbind_eq_Ok split: if_splits)
  then have dec: "decode_recognized P key raw = Ok meta" using recognized_Ok by blast
  have wf: "bt_wf (bt_insert key meta out)" using "2.prems"(2) by simp
  have "\<exists>kvs. insert_pairs rest = Some kvs \<and> distinct (map fst kvs) \<and>
      (\<forall>k \<in> fst ` set kvs. map_of (bt_insert key meta out) k = None) \<and> bt_wf m \<and>
      (\<forall>(k, raw) \<in> set kvs. decode_recognized P k raw = Ok (the (map_of m k)) \<and> map_of m k \<noteq> None) \<and>
      (\<forall>k. k \<notin> fst ` set kvs \<longrightarrow> map_of m k = map_of (bt_insert key meta out) k)"
    by (rule "2.IH" [of u meta, OF _ _ _ rest wf]) (use d fresh in auto)
  then obtain kvs where kvs: "insert_pairs rest = Some kvs" "distinct (map fst kvs)"
    "\<forall>k \<in> fst ` set kvs. map_of (bt_insert key meta out) k = None" "bt_wf m"
    "\<forall>(k, raw) \<in> set kvs. decode_recognized P k raw = Ok (the (map_of m k)) \<and> map_of m k \<noteq> None"
    "\<forall>k. k \<notin> fst ` set kvs \<longrightarrow> map_of m k = map_of (bt_insert key meta out) k" by blast
  have new: "key \<notin> fst ` set kvs" using kvs(3) by (auto split: if_splits)
  with kvs(6) have "map_of m key = Some meta" by simp
  with kvs new dec fresh show ?case
    by (intro exI [of _ "(key, raw) # kvs"]) (auto split: if_splits)
qed simp_all

lemma check_entries_Ok:
  "check_expected_entries es actual = Ok u \<longleftrightarrow> (\<forall>(i, meta) \<in> set es. map_of actual i = Some meta)"
  "check_extra_entries es expected = Ok u \<longleftrightarrow> (\<forall>i \<in> fst ` set es. map_of expected i \<noteq> None)"
  by (induction es) (auto split: if_splits)

lemma check_failed_Ok:
  "check_failed_installations fis allowed = Ok u \<longleftrightarrow> (\<forall>fi \<in> set fis. length fi = 32 \<and> fi \<in> set allowed)"
  by (induction fis) (auto split: if_splits)

lemma check_present_Ok: "check_members_present es seen = Ok u \<longleftrightarrow> fst ` set es \<subseteq> set seen"
  by (induction es) (auto split: if_splits)

definition membership_entry_ok ::
    "group_protos \<Rightarrow> (inbox_id, u64) btree_map \<Rightarrow> bytes list \<Rightarrow> inbox_id \<times> bytes \<Rightarrow> bool" where
  "membership_entry_ok G expected allowed kv =
     (case entry_decode G (snd kv) of
        Some (Some v1) \<Rightarrow> map_of expected (fst kv) = Some (me_sequence_id v1) \<and>
          (\<forall>fi \<in> set (me_failed_installations v1). length fi = 32 \<and> fi \<in> set allowed)
      | _ \<Rightarrow> False)"

lemma check_membership_Ok:
  assumes "check_membership_inserts G expected allowed ms seen = Ok out"
  shows "\<exists>kvs. insert_pairs ms = Some kvs \<and> distinct (map fst kvs) \<and> fst ` set kvs \<inter> set seen = {} \<and>
    set out = fst ` set kvs \<union> set seen \<and> (\<forall>kv \<in> set kvs. membership_entry_ok G expected allowed kv)"
  using assms
proof (induction G expected allowed ms seen rule: check_membership_inserts.induct)
  case (2 G expected allowed key raw rest seen)
  from "2.prems" obtain v1 u where v1: "key \<notin> set seen" "map_of expected key = Some (me_sequence_id v1)"
    "entry_decode G raw = Some (Some v1)" "check_failed_installations (me_failed_installations v1) allowed = Ok u"
    and rest: "check_membership_inserts G expected allowed rest (key # seen) = Ok out"
    by (auto simp: rbind_eq_Ok split: if_splits option.splits)
  have "\<exists>kvs. insert_pairs rest = Some kvs \<and> distinct (map fst kvs) \<and> fst ` set kvs \<inter> set (key # seen) = {} \<and>
      set out = fst ` set kvs \<union> set (key # seen) \<and> (\<forall>kv \<in> set kvs. membership_entry_ok G expected allowed kv)"
    by (rule "2.IH" [of "me_sequence_id v1" "Some v1" v1 u, OF _ _ _ _ _ _ rest]) (use v1 in auto)
  then obtain kvs where kvs: "insert_pairs rest = Some kvs" "distinct (map fst kvs)" "fst ` set kvs \<inter> set (key # seen) = {}"
    "set out = fst ` set kvs \<union> set (key # seen)" "\<forall>kv \<in> set kvs. membership_entry_ok G expected allowed kv" by blast
  have "membership_entry_ok G expected allowed (key, raw)"
    using v1 by (simp add: membership_entry_ok_def check_failed_Ok)
  with kvs show ?case by (intro exI [of _ "(key, raw) # kvs"]) (use v1(1) in auto)
qed simp_all

text \<open>What a commit that passes gives for the two components compared in decoded form.\<close>

definition registry_as_expected ::
    "'v app_libs \<Rightarrow> app_data_update_operation option \<Rightarrow> registry_entries_map \<Rightarrow> bool" where
  "registry_as_expected L op expected \<longleftrightarrow>
     (case op of
        None \<Rightarrow> expected = []
      | Some AdRemove \<Rightarrow> False
      | Some (AdUpdate bs) \<Rightarrow>
          (case tls_deserialize_exact (registry_delta_codec L) bs of
             Err _ \<Rightarrow> False
           | Ok delta \<Rightarrow>
               (case insert_pairs (mutations delta) of
                  None \<Rightarrow> False
                | Some kvs \<Rightarrow> distinct (map fst kvs) \<and>
                    (\<forall>(k, raw) \<in> set kvs. \<exists>meta. decode_recognized (al_meta L) k raw = Ok meta \<and> map_of expected k = Some meta) \<and>
                    fst ` set expected = fst ` set kvs)))"

definition membership_as_expected ::
    "'v app_libs \<Rightarrow> group_protos \<Rightarrow> app_data_update_operation option \<Rightarrow> (inbox_id, u64) btree_map \<Rightarrow> bytes list \<Rightarrow> bool" where
  "membership_as_expected L G op expected allowed \<longleftrightarrow>
     (case op of
        None \<Rightarrow> expected = []
      | Some AdRemove \<Rightarrow> False
      | Some (AdUpdate bs) \<Rightarrow>
          (case tls_deserialize_exact (membership_delta_codec L) bs of
             Err _ \<Rightarrow> False
           | Ok delta \<Rightarrow>
               (case insert_pairs (mutations delta) of
                  None \<Rightarrow> False
                | Some kvs \<Rightarrow> distinct (map fst kvs) \<and> (\<forall>kv \<in> set kvs. membership_entry_ok G expected allowed kv) \<and>
                    fst ` set expected = fst ` set kvs)))"

lemma registry_payload_Ok:
  assumes "validate_component_registry_payload L (map_option seed_entry op) expected = Ok u"
  shows "registry_as_expected L op expected"
proof (cases op)
  case None
  with assms show ?thesis by (simp add: validate_component_registry_payload_def registry_as_expected_def split: if_splits)
next
  case (Some p)
  with assms obtain bs where p: "p = AdUpdate bs"
    by (cases p) (simp_all add: validate_component_registry_payload_def)
  from assms obtain delta entries where d: "tls_deserialize_exact (registry_delta_codec L) bs = Ok delta"
    "collect_registry_inserts (al_meta L) (mutations delta) [] = Ok entries"
    "\<forall>(i, meta) \<in> set expected. map_of entries i = Some meta" "\<forall>i \<in> fst ` set entries. map_of expected i \<noteq> None"
    by (auto simp: validate_component_registry_payload_def Some p rbind_eq_Ok check_entries_Ok)
  from collect_registry_Ok [OF d(2)] obtain kvs where kvs: "insert_pairs (mutations delta) = Some kvs" "distinct (map fst kvs)"
    "\<forall>(k, raw) \<in> set kvs. decode_recognized (al_meta L) k raw = Ok (the (map_of entries k)) \<and> map_of entries k \<noteq> None"
    "\<forall>k. k \<notin> fst ` set kvs \<longrightarrow> map_of entries k = None" by (auto simp: bt_wf_def)
  have same: "map_of expected k = Some meta" if "map_of entries k = Some meta" for k meta
  proof -
    from that have "k \<in> fst ` set entries" by (metis map_of_SomeD fst_conv image_eqI)
    with d(4) obtain meta' where "map_of expected k = Some meta'" by blast
    moreover from this d(3) have "map_of entries k = Some meta'" by (blast dest: map_of_SomeD)
    ultimately show ?thesis using that by simp
  qed
  have "fst ` set expected = fst ` set kvs"
  proof (intro equalityI subsetI)
    fix k assume "k \<in> fst ` set expected"
    then obtain meta where "(k, meta) \<in> set expected" by force
    with d(3) have "map_of entries k = Some meta" by blast
    with kvs(4) show "k \<in> fst ` set kvs" by (metis option.distinct(1))
  next
    fix k assume "k \<in> fst ` set kvs"
    then obtain raw where "(k, raw) \<in> set kvs" by force
    with kvs(3) have "map_of entries k \<noteq> None" by blast
    then have "map_of entries k = Some (the (map_of entries k))" by (rule option.collapse [symmetric])
    from same [OF this] show "k \<in> fst ` set expected" by (metis map_of_SomeD fst_conv image_eqI)
  qed
  moreover have "\<forall>(k, raw) \<in> set kvs. \<exists>meta. decode_recognized (al_meta L) k raw = Ok meta \<and> map_of expected k = Some meta"
  proof clarify
    fix k raw assume "(k, raw) \<in> set kvs"
    with kvs(3) have e: "map_of entries k \<noteq> None" "decode_recognized (al_meta L) k raw = Ok (the (map_of entries k))" by blast+
    from e(1) have "map_of entries k = Some (the (map_of entries k))" by (rule option.collapse [symmetric])
    with same e(2) show "\<exists>meta. decode_recognized (al_meta L) k raw = Ok meta \<and> map_of expected k = Some meta" by blast
  qed
  ultimately show ?thesis using kvs(1,2) by (simp add: registry_as_expected_def Some p d(1))
qed

lemma membership_payload_Ok:
  assumes "validate_group_membership_payload L G (map_option seed_entry op) expected allowed = Ok u"
  shows "membership_as_expected L G op expected allowed"
proof (cases op)
  case None
  with assms show ?thesis
    by (auto simp: validate_group_membership_payload_def membership_as_expected_def split: list.splits)
next
  case (Some p)
  with assms obtain bs where p: "p = AdUpdate bs"
    by (cases p) (simp_all add: validate_group_membership_payload_def)
  from assms obtain delta seen where d: "tls_deserialize_exact (membership_delta_codec L) bs = Ok delta"
    "check_membership_inserts G expected allowed (mutations delta) [] = Ok seen" "fst ` set expected \<subseteq> set seen"
    by (auto simp: validate_group_membership_payload_def Some p rbind_eq_Ok check_present_Ok)
  from check_membership_Ok [OF d(2)] obtain kvs where kvs: "insert_pairs (mutations delta) = Some kvs" "distinct (map fst kvs)"
    "set seen = fst ` set kvs" "\<forall>kv \<in> set kvs. membership_entry_ok G expected allowed kv" by auto
  have "fst ` set kvs \<subseteq> fst ` set expected"
    using kvs(4) by (force simp: membership_entry_ok_def dest: map_of_SomeD split: option.splits)
  with kvs d(1,3) show ?thesis by (auto simp: membership_as_expected_def Some p)
qed

definition only_updates :: "strict_seeds \<Rightarrow> bool" where
  "only_updates seeds \<longleftrightarrow> (\<forall>p \<in> set seeds. fst (snd p) = TypeUpdate)"

lemma only_updates_simps [simp]:
  "only_updates []" "only_updates seeds \<Longrightarrow> only_updates (bt_insert i (TypeUpdate, bs) seeds)"
proof -
  have "p \<in> set (bt_insert i v m) \<Longrightarrow> p = (i, v) \<or> p \<in> set m" for p i and v :: "operation_type \<times> bytes" and m :: strict_seeds
    by (induction m) (auto split: if_splits)
  then show "only_updates []" "only_updates seeds \<Longrightarrow> only_updates (bt_insert i (TypeUpdate, bs) seeds)"
    by (fastforce simp: only_updates_def)+
qed

lemma field_seeds_updates: "field_seeds attrs fs seeds = Ok seeds' \<Longrightarrow> only_updates seeds \<Longrightarrow> only_updates seeds'"
  by (induction attrs fs seeds rule: field_seeds.induct) (auto simp: rbind_eq_Ok split: option.splits)

lemma metadata_seeds_updates: "metadata_seeds L G md seeds = Ok seeds' \<Longrightarrow> only_updates seeds \<Longrightarrow> only_updates seeds'"
  by (auto simp: metadata_seeds_def rbind_eq_Ok Let_def split: option.splits)

lemma strict_ids:
  assumes "synthesize_canonical_subset_from_extensions L G x = Ok e"
  shows "bt_wf (strict e)" and "map_of (strict e) COMPONENT_REGISTRY = None" and "map_of (strict e) GROUP_MEMBERSHIP = None"
    and "(i, ty, bs) \<in> set (strict e) \<Longrightarrow> ty = TypeUpdate"
proof -
  from assms obtain gmm md where gm: "gmm_from_extensions L x = Ok gmm" "metadata_from_extensions G x = Ok md"
    by (auto simp: synthesize_canonical_subset_from_extensions_def rbind_eq_Ok)
  show "bt_wf (strict e)" by (rule seed_lookups(1) [OF assms gm])
  obtain s1 s2 admins supers where s:
    "field_seeds (gmm_attributes gmm) metadata_field_registry_mapping [] = Ok s1" "signer_seed L gmm s1 = Ok s2"
    "metadata_seeds L G md
       (bt_insert SUPER_ADMIN_LIST (TypeUpdate, supers) (bt_insert ADMIN_LIST (TypeUpdate, admins) s2)) = Ok (strict e)"
    using assms gm by (rule synthesized_seeds)
  have none: "map_of (strict e) i = None" if "i \<in> {COMPONENT_REGISTRY, GROUP_MEMBERSHIP}" for i
  proof -
    have "i \<notin> (\<lambda>(f, i, ty). i) ` set metadata_field_registry_mapping" "i \<noteq> COMMIT_LOG_SIGNER"
      "i \<noteq> SUPER_ADMIN_LIST" "i \<noteq> ADMIN_LIST" "i \<notin> {CONVERSATION_TYPE, CREATOR_INBOX_ID, DM_MEMBERS, ONESHOT_MESSAGE}"
      using that by (auto simp: mapping_ids component_id_defs)
    with field_seeds_laws(3) [OF s(1) mapping_distinct] signer_seed_laws(2) [OF s(2)] metadata_seeds_laws(2) [OF s(3)]
    show ?thesis by simp
  qed
  then show "map_of (strict e) COMPONENT_REGISTRY = None" "map_of (strict e) GROUP_MEMBERSHIP = None" by simp_all
  have "only_updates s1" using field_seeds_updates [OF s(1)] by simp
  then have "only_updates s2" using s(2) by (auto simp: signer_seed_def rbind_eq_Ok split: option.splits if_splits)
  then have "only_updates (strict e)" by (intro metadata_seeds_updates [OF s(3)]) simp
  then show "(i, ty, bs) \<in> set (strict e) \<Longrightarrow> ty = TypeUpdate" by (force simp: only_updates_def)
qed

definition legacy_types :: "extension_type list" where
  "legacy_types = [UnknownType MUTABLE_METADATA_EXTENSION_ID, UnknownType GROUP_PERMISSIONS_EXTENSION_ID,
     UnknownType GROUP_MEMBERSHIP_EXTENSION_ID, ImmutableMetadataType]"

lemma gce_shape_Ok:
  "validate_gce_shape c = Ok u \<longleftrightarrow>
     (case gce_proposals c of
        [x] \<Rightarrow> gce_matches_bootstrap_shape x \<and>
          (case required_capabilities x of
             None \<Rightarrow> False
           | Some types \<Rightarrow> AppDataDictionaryType \<in> set types \<and> list_all (\<lambda>t. t \<notin> set types) legacy_types)
      | _ \<Rightarrow> False)"
  by (auto simp: validate_gce_shape_def validate_gce_extension_set_def legacy_types_def rbind_eq_Ok
      split: list.splits option.splits if_splits)

text \<open>
  What is known of a commit that passes, in terms of its proposals and of the seeds the receiver computes.
\<close>

definition bootstrap_as_expected :: "'v app_libs \<Rightarrow> group_protos \<Rightarrow> mls_group \<Rightarrow> staged_commit \<Rightarrow> bool" where
  "bootstrap_as_expected L G g c \<longleftrightarrow>
     (let ps = app_data_update_proposals c in
      (\<forall>q \<in> set (queued_proposals c). is_allowed_bootstrap_proposal (qp_proposal q)) \<and>
      (case gce_proposals c of
         [x] \<Rightarrow> gce_matches_bootstrap_shape x \<and>
           (case required_capabilities x of
              None \<Rightarrow> False
            | Some types \<Rightarrow> AppDataDictionaryType \<in> set types \<and> list_all (\<lambda>t. t \<notin> set types) legacy_types)
       | _ \<Rightarrow> False) \<and>
      (case synthesize_canonical_subset_from_extensions L G (mg_extensions g) of
         Err _ \<Rightarrow> False
       | Ok e \<Rightarrow>
           distinct (map fst ps) \<and>
           (\<forall>(i, ty, bs) \<in> set (strict e). map_of ps i = Some (AdUpdate bs)) \<and>
           fst ` set ps \<subseteq> insert COMPONENT_REGISTRY (insert GROUP_MEMBERSHIP (fst ` set (strict e))) \<and>
           registry_as_expected L (map_of ps COMPONENT_REGISTRY) (expected_registry e) \<and>
           membership_as_expected L G (map_of ps GROUP_MEMBERSHIP) (membership_sequence_ids e) (allowed_failed_installations e)))"

lemma bootstrap_Ok:
  assumes "validate_bootstrap_commit L G c g proposer own_version = Ok u"
  shows "cp_is_super_admin proposer" and "bootstrap_floor_exceeding L c own_version = None" and "bootstrap_as_expected L G g c"
proof -
  from assms obtain e actual where v: "cp_is_super_admin proposer" "bootstrap_floor_exceeding L c own_version = None"
    "validate_only_allowed_proposal_types (queued_proposals c) = Ok ()"
    "synthesize_canonical_subset_from_extensions L G (mg_extensions g) = Ok e"
    "collect_app_data_updates (app_data_update_proposals c) [] = Ok actual"
    "check_strict (strict e) actual = Ok ()" "check_unexpected actual (strict e) = Ok ()"
    "validate_component_registry_payload L (map_of actual COMPONENT_REGISTRY) (expected_registry e) = Ok ()"
    "validate_group_membership_payload L G (map_of actual GROUP_MEMBERSHIP) (membership_sequence_ids e)
       (allowed_failed_installations e) = Ok ()" "validate_gce_shape c = Ok ()"
    by (auto simp: validate_bootstrap_commit_def validate_against_canonical_subset_def rbind_eq_Ok
        split: if_splits option.splits)
  show "cp_is_super_admin proposer" "bootstrap_floor_exceeding L c own_version = None" by (rule v)+
  let ?ps = "app_data_update_proposals c"
  have c: "distinct (map fst ?ps)" "bt_wf actual" "\<forall>(i, op) \<in> set ?ps. map_of actual i = Some (seed_entry op)"
    "\<forall>i. i \<notin> fst ` set ?ps \<longrightarrow> map_of actual i = None"
    using collect_Ok [OF v(5)] by (simp_all add: bt_wf_def)
  have look: "map_of actual i = map_option seed_entry (map_of ?ps i)" for i
  proof (cases "map_of ?ps i")
    case None
    then have "i \<notin> fst ` set ?ps" by (simp add: map_of_eq_None_iff)
    with c(4) have "map_of actual i = None" by blast
    with None show ?thesis by simp
  next
    case (Some op)
    then have "(i, op) \<in> set ?ps" by (rule map_of_SomeD)
    with c(3) Some show ?thesis by fastforce
  qed
  have "map_of ?ps i = Some (AdUpdate bs)" if "(i, ty, bs) \<in> set (strict e)" for i ty bs
  proof -
    have "ty = TypeUpdate" by (rule strict_ids(4) [OF v(4) that])
    with v(6) that have "map_option seed_entry (map_of ?ps i) = Some (TypeUpdate, bs)"
      by (auto simp: check_strict_Ok look)
    then obtain op where "map_of ?ps i = Some op" "seed_entry op = (TypeUpdate, bs)" by auto
    then show ?thesis by (cases op) simp_all
  qed
  moreover have "fst ` set ?ps \<subseteq> insert COMPONENT_REGISTRY (insert GROUP_MEMBERSHIP (fst ` set (strict e)))"
  proof
    fix i assume "i \<in> fst ` set ?ps"
    then have "map_of ?ps i \<noteq> None" by (simp add: map_of_eq_None_iff)
    then have "map_of actual i \<noteq> None" by (simp add: look)
    then have "i \<in> fst ` set actual" by (metis map_of_eq_None_iff)
    with v(7) have "i = GROUP_MEMBERSHIP \<or> i = COMPONENT_REGISTRY \<or> map_of (strict e) i \<noteq> None"
      by (simp only: check_unexpected_Ok)
    then show "i \<in> insert COMPONENT_REGISTRY (insert GROUP_MEMBERSHIP (fst ` set (strict e)))"
      by (simp only: map_of_eq_None_iff) blast
  qed
  moreover have "registry_as_expected L (map_of ?ps COMPONENT_REGISTRY) (expected_registry e)"
    using v(8) unfolding look by (rule registry_payload_Ok)
  moreover have "membership_as_expected L G (map_of ?ps GROUP_MEMBERSHIP) (membership_sequence_ids e) (allowed_failed_installations e)"
    using v(9) unfolding look by (rule membership_payload_Ok)
  moreover note v(10) [unfolded gce_shape_Ok]
  ultimately show "bootstrap_as_expected L G g c"
    using c(1) v(3) unfolding bootstrap_as_expected_def Let_def v(4) by (auto simp: allowed_types_Ok)
qed

section \<open>The converse\<close>

lemma collect_total:
  assumes "distinct (map fst ps)" and "\<forall>i \<in> fst ` set ps. map_of out i = None"
  shows "\<exists>m. collect_app_data_updates ps out = Ok m"
  using assms
proof (induction ps arbitrary: out)
  case (Cons p ps)
  obtain i op where p: "p = (i, op)" by force
  have "\<forall>j \<in> fst ` set ps. map_of (bt_insert i (seed_entry op) out) j = None"
    using Cons.prems by (auto simp: p)
  from Cons.IH [OF _ this] Cons.prems show ?case by (cases op) (simp_all add: p)
qed simp

lemma collect_registry_total:
  assumes "insert_pairs ms = Some kvs" and "distinct (map fst kvs)" and "\<forall>k \<in> fst ` set kvs. map_of out k = None"
    and "\<forall>(k, raw) \<in> set kvs. is_ok (decode_recognized P k raw)"
  shows "\<exists>m. collect_registry_inserts P ms out = Ok m"
  using assms
proof (induction P ms out arbitrary: kvs rule: collect_registry_inserts.induct)
  case (2 P key raw rest out)
  from "2.prems"(1) obtain kvs' where kvs: "kvs = (key, raw) # kvs'" "insert_pairs rest = Some kvs'" by auto
  from "2.prems"(4) obtain meta where "decode_recognized P key raw = Ok meta" by (auto simp: kvs is_ok_iff)
  then have d: "validate_entry P key raw = Ok ()" "meta_decode P raw = Some meta" using recognized_Ok [of P key raw "()" meta] by auto
  have fresh: "map_of out key = None" using "2.prems"(3) by (simp add: kvs)
  have "\<forall>k \<in> fst ` set kvs'. map_of (bt_insert key meta out) k = None" using "2.prems"(2,3) by (auto simp: kvs)
  with "2.IH" [of "()" meta kvs'] d fresh kvs(2) "2.prems"(2,4) show ?case by (simp add: kvs(1))
qed simp_all

lemma check_membership_total:
  assumes "insert_pairs ms = Some kvs" and "distinct (map fst kvs)" and "fst ` set kvs \<inter> set seen = {}"
    and "\<forall>kv \<in> set kvs. membership_entry_ok G expected allowed kv"
  shows "\<exists>out. check_membership_inserts G expected allowed ms seen = Ok out"
  using assms
proof (induction G expected allowed ms seen arbitrary: kvs rule: check_membership_inserts.induct)
  case (2 G expected allowed key raw rest seen)
  from "2.prems"(1) obtain kvs' where kvs: "kvs = (key, raw) # kvs'" "insert_pairs rest = Some kvs'" by auto
  from "2.prems"(4) have "membership_entry_ok G expected allowed (key, raw)" by (simp add: kvs)
  then obtain v1 where v1: "entry_decode G raw = Some (Some v1)" "map_of expected key = Some (me_sequence_id v1)"
    "\<forall>fi \<in> set (me_failed_installations v1). length fi = 32 \<and> fi \<in> set allowed"
    by (auto simp: membership_entry_ok_def split: option.splits)
  then have f: "check_failed_installations (me_failed_installations v1) allowed = Ok ()" by (simp add: check_failed_Ok)
  have "fst ` set kvs' \<inter> set (key # seen) = {}" using "2.prems"(2,3) by (auto simp: kvs)
  with "2.IH" [of "me_sequence_id v1" "Some v1" v1 "()" kvs'] v1 f kvs(2) "2.prems"(2-4) show ?case by (simp add: kvs(1))
qed simp_all

lemma registry_payload_total:
  assumes "registry_as_expected L op expected" and "bt_wf expected"
  shows "validate_component_registry_payload L (map_option seed_entry op) expected = Ok ()"
proof (cases op)
  case None
  with assms show ?thesis by (simp add: validate_component_registry_payload_def registry_as_expected_def)
next
  case (Some p)
  with assms(1) obtain bs delta kvs where p: "p = AdUpdate bs" and d: "tls_deserialize_exact (registry_delta_codec L) bs = Ok delta"
    and kvs: "insert_pairs (mutations delta) = Some kvs" "distinct (map fst kvs)"
      "\<forall>(k, raw) \<in> set kvs. \<exists>meta. decode_recognized (al_meta L) k raw = Ok meta \<and> map_of expected k = Some meta"
      "fst ` set expected = fst ` set kvs"
    by (auto simp: registry_as_expected_def split: app_data_update_operation.splits sum.splits option.splits)
  from kvs(3) have ok: "\<forall>(k, raw) \<in> set kvs. is_ok (decode_recognized (al_meta L) k raw)" by (fastforce simp: is_ok_iff)
  obtain entries where e: "collect_registry_inserts (al_meta L) (mutations delta) [] = Ok entries"
    using collect_registry_total [OF kvs(1,2) _ ok, of "[]"] by auto
  from collect_registry_Ok [OF e] kvs(1) have em: "bt_wf entries"
    "\<forall>(k, raw) \<in> set kvs. decode_recognized (al_meta L) k raw = Ok (the (map_of entries k)) \<and> map_of entries k \<noteq> None"
    "\<forall>k. k \<notin> fst ` set kvs \<longrightarrow> map_of entries k = None" by (auto simp: bt_wf_def)
  have "map_of entries k = map_of expected k" for k
  proof (cases "k \<in> fst ` set kvs")
    case True
    then obtain raw where raw: "(k, raw) \<in> set kvs" by force
    with kvs(3) obtain meta where "decode_recognized (al_meta L) k raw = Ok meta" "map_of expected k = Some meta" by blast
    moreover from raw em(2) have "decode_recognized (al_meta L) k raw = Ok (the (map_of entries k))" "map_of entries k \<noteq> None" by blast+
    ultimately show ?thesis by auto
  next
    case False
    with kvs(4) have "map_of expected k = None" by (simp add: map_of_eq_None_iff)
    with False em(3) show ?thesis by simp
  qed
  with em(1) assms(2) have "entries = expected" by (intro bt_ext)
  with e d show ?thesis
    by (auto simp: validate_component_registry_payload_def Some p check_entries_Ok bt_mem_iff [OF assms(2)] rbind_eq_Ok map_of_eq_None_iff)
qed

lemma membership_payload_total:
  assumes "membership_as_expected L G op expected allowed"
  shows "validate_group_membership_payload L G (map_option seed_entry op) expected allowed = Ok ()"
proof (cases op)
  case None
  with assms show ?thesis by (simp add: validate_group_membership_payload_def membership_as_expected_def)
next
  case (Some p)
  with assms obtain bs delta kvs where p: "p = AdUpdate bs" and d: "tls_deserialize_exact (membership_delta_codec L) bs = Ok delta"
    and kvs: "insert_pairs (mutations delta) = Some kvs" "distinct (map fst kvs)"
      "\<forall>kv \<in> set kvs. membership_entry_ok G expected allowed kv" "fst ` set expected = fst ` set kvs"
    by (auto simp: membership_as_expected_def split: app_data_update_operation.splits sum.splits option.splits)
  obtain seen where e: "check_membership_inserts G expected allowed (mutations delta) [] = Ok seen"
    using check_membership_total [OF kvs(1,2) _ kvs(3), of "[]"] by auto
  from check_membership_Ok [OF e] kvs(1,4) have "fst ` set expected \<subseteq> set seen" by auto
  with d e show ?thesis by (simp add: validate_group_membership_payload_def Some p check_present_Ok)
qed

lemma expected_registry_wf: "synthesize_canonical_subset_from_extensions L G x = Ok e \<Longrightarrow> bt_wf (expected_registry e)"
  by (auto simp: synthesize_canonical_subset_from_extensions_def rbind_eq_Ok case_prod_beta)

lemma bootstrap_total:
  assumes "cp_is_super_admin proposer" and "bootstrap_floor_exceeding L c own_version = None" and "bootstrap_as_expected L G g c"
  shows "validate_bootstrap_commit L G c g proposer own_version = Ok ()"
proof -
  let ?ps = "app_data_update_proposals c"
  from assms(3) obtain e where e: "synthesize_canonical_subset_from_extensions L G (mg_extensions g) = Ok e"
    by (auto simp: bootstrap_as_expected_def Let_def split: sum.splits)
  have b: "distinct (map fst ?ps)" "\<forall>(i, ty, bs) \<in> set (strict e). map_of ?ps i = Some (AdUpdate bs)"
    "fst ` set ?ps \<subseteq> insert COMPONENT_REGISTRY (insert GROUP_MEMBERSHIP (fst ` set (strict e)))"
    "registry_as_expected L (map_of ?ps COMPONENT_REGISTRY) (expected_registry e)"
    "membership_as_expected L G (map_of ?ps GROUP_MEMBERSHIP) (membership_sequence_ids e) (allowed_failed_installations e)"
    "\<forall>q \<in> set (queued_proposals c). is_allowed_bootstrap_proposal (qp_proposal q)" "validate_gce_shape c = Ok ()"
    using assms(3) unfolding bootstrap_as_expected_def Let_def e sum.case gce_shape_Ok by blast+
  obtain actual where actual: "collect_app_data_updates ?ps [] = Ok actual" using collect_total [OF b(1), of "[]"] by auto
  have c: "\<forall>(i, op) \<in> set ?ps. map_of actual i = Some (seed_entry op)" "\<forall>i. i \<notin> fst ` set ?ps \<longrightarrow> map_of actual i = None"
    "bt_wf actual" using collect_Ok [OF actual] by (simp_all add: bt_wf_def)
  have look: "map_of actual i = map_option seed_entry (map_of ?ps i)" for i
  proof (cases "map_of ?ps i")
    case None
    then have "i \<notin> fst ` set ?ps" by (simp add: map_of_eq_None_iff)
    with c(2) have "map_of actual i = None" by blast
    with None show ?thesis by simp
  next
    case (Some op)
    then have "(i, op) \<in> set ?ps" by (rule map_of_SomeD)
    with c(1) Some show ?thesis by fastforce
  qed
  have "check_strict (strict e) actual = Ok ()"
    unfolding check_strict_Ok
  proof clarify
    fix i ty bs assume s: "(i, ty, bs) \<in> set (strict e)"
    with b(2) have "map_of ?ps i = Some (AdUpdate bs)" by blast
    with strict_ids(4) [OF e s] show "map_of actual i = Some (ty, bs)" by (simp add: look)
  qed
  moreover have "check_unexpected actual (strict e) = Ok ()"
    unfolding check_unexpected_Ok
  proof
    fix i assume "i \<in> fst ` set actual"
    then have "map_of actual i \<noteq> None" by (metis map_of_eq_None_iff)
    then have "map_of ?ps i \<noteq> None" by (simp add: look)
    then have "i \<in> fst ` set ?ps" by (metis map_of_eq_None_iff)
    with b(3) have "i = COMPONENT_REGISTRY \<or> i = GROUP_MEMBERSHIP \<or> i \<in> fst ` set (strict e)" by blast
    then show "i = GROUP_MEMBERSHIP \<or> i = COMPONENT_REGISTRY \<or> map_of (strict e) i \<noteq> None"
      by (metis map_of_eq_None_iff)
  qed
  moreover have "validate_component_registry_payload L (map_of actual COMPONENT_REGISTRY) (expected_registry e) = Ok ()"
    unfolding look by (rule registry_payload_total [OF b(4) expected_registry_wf [OF e]])
  moreover have "validate_group_membership_payload L G (map_of actual GROUP_MEMBERSHIP) (membership_sequence_ids e)
      (allowed_failed_installations e) = Ok ()"
    unfolding look by (rule membership_payload_total [OF b(5)])
  moreover have "validate_only_allowed_proposal_types (queued_proposals c) = Ok ()" using b(6) by (simp only: allowed_types_Ok)
  ultimately show ?thesis
    using assms(1,2) b(7) e actual by (simp add: validate_bootstrap_commit_def validate_against_canonical_subset_def)
qed


section \<open>The validated commit\<close>

fun commit_error_of_bootstrap :: "bootstrap_validation_error \<Rightarrow> commit_validation_error" where
  "commit_error_of_bootstrap (BootProtocolVersionTooLow min_version) = ProtocolVersionTooLow min_version"
| "commit_error_of_bootstrap e = VcBootstrap e"

definition validate_bootstrap_and_build ::
    "'v::linorder app_libs \<Rightarrow> group_protos \<Rightarrow> staged_commit \<Rightarrow> u32 \<Rightarrow> mls_group \<Rightarrow> group_metadata \<Rightarrow>
     group_mutable_metadata \<Rightarrow> string \<Rightarrow> (commit_validation_error, validated_commit) result" where
  "validate_bootstrap_and_build L G c committer g md gmm own_version =
     rbind (reject_psk_proposals c) (\<lambda>_.
     rbind (extract_committer_and_proposers G c committer g md gmm) (\<lambda>(actor, proposers).
     rbind (extract_gce_proposer G (queued_proposals c) g md gmm) (\<lambda>p.
     rbind (ok_or p ProposerNotFound) (\<lambda>gce_proposer.
     rbind (map_err commit_error_of_bootstrap (validate_bootstrap_commit L G c g gce_proposer own_version)) (\<lambda>_.
     Ok \<lparr> vc_actor = actor, vc_proposers = proposers, added_inboxes = [], removed_inboxes = [],
          readded_installations = [], metadata_validation_info = default_validation_info,
          installations_changed = False, permissions_changed = False, vc_dm_members = md_dm_members md \<rparr>)))))"

lemma gce_proposer_Ok:
  assumes "extract_gce_proposer G qs g md gmm = Ok (Some p)"
  shows "\<exists>q \<in> set qs. (\<exists>x. qp_proposal q = GroupContextExtensionsProposal x) \<and> sender_participant G (qp_sender q) g md gmm = Ok p"
  using assms by (induction G qs g md gmm rule: extract_gce_proposer.induct) (auto simp: rbind_eq_Ok split: mls_proposal.splits)

lemma sender_Ok:
  assumes "sender_participant G s g md gmm = Ok p"
  shows "\<exists>i. s = MemberSender i \<and> extract_commit_participant G i g md gmm = Ok p"
  using assms by (auto simp: sender_participant_def split: mls_sender.splits)

lemma bootstrap_and_build_Ok:
  assumes "validate_bootstrap_and_build L G c committer g md gmm own_version = Ok vc"
  obtains p where "extract_gce_proposer G (queued_proposals c) g md gmm = Ok (Some p)"
    and "validate_bootstrap_commit L G c g p own_version = Ok ()"
    and "\<forall>q \<in> set (queued_proposals c). \<exists>i. qp_sender q = MemberSender i \<and> member_at g i \<noteq> None"
    and "vc = \<lparr> vc_actor = vc_actor vc, vc_proposers = vc_proposers vc, added_inboxes = [], removed_inboxes = [],
          readded_installations = [], metadata_validation_info = default_validation_info,
          installations_changed = False, permissions_changed = False, vc_dm_members = md_dm_members md \<rparr>"
  using assms committer_Ok(2) by (fastforce simp: validate_bootstrap_and_build_def rbind_eq_Ok)

section \<open>The metadata of a migrated group\<close>

lemma signals_registry:
  "snd (bootstrap_signals qs b w) \<Longrightarrow> w \<or> COMPONENT_REGISTRY \<in> fst ` set (app_data_update_proposals \<lparr> queued_proposals = qs, new_extensions = x \<rparr>)"
  by (induction qs b w rule: bootstrap_signals.induct)
    (auto simp: app_data_update_proposals_def List.map_filter_simps split: mls_proposal.splits)

lemma bootstrap_seeded:
  assumes "bootstrap_as_expected L G g c" and "synthesize_canonical_subset_from_extensions L G (mg_extensions g) = Ok e"
    and "apply_in_order L R registry (app_data_update_proposals c) Map.empty = Ok d"
  shows "seeded L R registry e d"
proof (rule seeded_in_order [OF assms(3)])
  let ?ps = "app_data_update_proposals c"
  have b: "distinct (map fst ?ps)" "\<forall>(i, ty, bs) \<in> set (strict e). map_of ?ps i = Some (AdUpdate bs)"
    "fst ` set ?ps \<subseteq> insert COMPONENT_REGISTRY (insert GROUP_MEMBERSHIP (fst ` set (strict e)))"
    using assms(1) unfolding bootstrap_as_expected_def Let_def assms(2) sum.case by blast+
  show "distinct (map fst ?ps)" by (rule b)
  fix i op assume i: "i \<notin> {COMPONENT_REGISTRY, GROUP_MEMBERSHIP}"
  note wf = strict_ids(1) [OF assms(2)]
  show "(i, op) \<in> set ?ps \<longleftrightarrow> (\<exists>ty bs. map_of (strict e) i = Some (ty, bs) \<and> op = AdUpdate bs)"
  proof
    assume op: "(i, op) \<in> set ?ps"
    with b(3) i have "i \<in> fst ` set (strict e)" by force
    then obtain ty bs where s: "(i, ty, bs) \<in> set (strict e)" by force
    with b(2) have "map_of ?ps i = Some (AdUpdate bs)" by blast
    with op b(1) have "op = AdUpdate bs" by simp
    with s bt_mem_iff [OF wf] show "\<exists>ty bs. map_of (strict e) i = Some (ty, bs) \<and> op = AdUpdate bs" by blast
  next
    assume "\<exists>ty bs. map_of (strict e) i = Some (ty, bs) \<and> op = AdUpdate bs"
    then obtain ty bs where "(i, ty, bs) \<in> set (strict e)" and op: "op = AdUpdate bs" by (blast dest: map_of_SomeD)
    with b(2) have "map_of ?ps i = Some (AdUpdate bs)" by blast
    then show "(i, op) \<in> set ?ps" unfolding op by (rule map_of_SomeD)
  qed
qed


end
