(* ===== verification/Bootstrap_Instance.thy ===== *)
theory Bootstrap_Instance
  imports Bootstrap
begin

text \<open>
  A migration commit that passes, with the libraries of \<open>legacy_libs\<close>: it shows that what the theorems on
  the migration assume can hold together.
\<close>

section \<open>Everything can be written\<close>

lemma run_vec_total:
  assumes "\<And>x. x \<in> set xs \<Longrightarrow> \<exists>b. tls_serialize C x = Ok b"
  shows "\<exists>bs. tls_serialize (quic_vec run_vlen C) xs = Ok bs"
proof -
  have "try_map (tls_serialize C) xs = Ok (map (\<lambda>x. SOME b. tls_serialize C x = Ok b) xs)"
    using assms by (intro try_map_all_Ok) (auto intro: someI2_ex)
  then show ?thesis by (simp add: quic_vec_def run_write_length)
qed

lemma run_bytes_total: "\<exists>bs. tls_serialize (vl_bytes run_vlen) b = Ok bs"
  by (simp add: vl_bytes_def run_write_length)

lemma run_delta_total:
  assumes "\<And>k. \<exists>b. tls_serialize K k = Ok b"
  shows "\<exists>bs. tls_serialize (TlsMapDelta_codec (quic_vec run_vlen) K (vl_bytes run_vlen)) d = Ok bs"
proof -
  have "\<exists>b. tls_serialize (TlsMapMutation_codec K (vl_bytes run_vlen)) x = Ok b" for x
    using assms run_bytes_total by (cases x) (fastforce simp: TlsMapMutation_codec_def rbind_eq_Ok)+
  from run_vec_total [OF this] show ?thesis by (simp add: TlsMapDelta_codec_def Let_def)
qed

lemma run_map_total:
  assumes "\<And>k. \<exists>b. tls_serialize K k = Ok b"
  shows "\<exists>bs. tls_serialize (TlsMap_codec (quic_vec run_vlen) K (vl_bytes run_vlen)) m = Ok bs"
proof -
  have "\<exists>b. tls_serialize (TlsMapEntry_codec K (vl_bytes run_vlen)) x = Ok b" for x
    using assms run_bytes_total by (fastforce simp: TlsMapEntry_codec_def rbind_eq_Ok)
  from run_vec_total [OF this] show ?thesis by (simp add: TlsMap_codec_def Let_def)
qed

lemma run_keys_total: "\<exists>b. tls_serialize (ComponentId_codec run_vlen) i = Ok b" "\<exists>b. tls_serialize (InboxId_codec run_vlen) j = Ok b"
  by (simp_all add: ComponentId_codec_def InboxId_codec_def run_write_length)

section \<open>Batches of inserts\<close>

abbreviation inserts :: "('k \<times> 'v) list \<Rightarrow> ('k, 'v) tls_map_mutation list" where
  "inserts kvs \<equiv> map (\<lambda>(k, v). MInsert k v) kvs"

lemma insert_pairs_map [simp]: "insert_pairs (inserts kvs) = Some kvs"
  by (induction kvs) auto

lemma mutate_inserts:
  "distinct (map fst kvs) \<Longrightarrow> \<forall>k \<in> fst ` set kvs. f k = None \<Longrightarrow> \<exists>f'. mutate_all (inserts kvs) f = Ok f'"
proof (induction kvs arbitrary: f)
  case (Cons kv kvs)
  obtain k v where kv: "kv = (k, v)" by force
  have "\<forall>j \<in> fst ` set kvs. (f(k \<mapsto> v)) j = None" using Cons.prems by (auto simp: kv)
  from Cons.IH [OF _ this] Cons.prems show ?case by (simp add: kv del: fun_upd_apply)
qed simp

lemma inserts_apply:
  assumes "distinct (map fst kvs)"
  shows "\<exists>m. TlsMap_apply_delta TlsMap_new \<lparr> mutations = inserts kvs \<rparr> = (Ok (), m)"
proof -
  let ?d = "\<lparr> mutations = inserts kvs \<rparr>"
  obtain r m where a: "TlsMap_apply_delta TlsMap_new ?d = (r, m)" by force
  obtain f where "mutate_all (mutations ?d) (tm_map TlsMap_new) = Ok f"
    using mutate_inserts [OF assms, of Map.empty] by (auto simp: tls_map_laws)
  with map_delta_batch [OF TlsMap_new_laws(1) a] have "is_ok r" by (cases r) simp_all
  with a show ?thesis by (cases r) auto
qed

section \<open>The registry as a batch\<close>

definition all_recognized :: "meta_codec \<Rightarrow> component_registry \<Rightarrow> bool" where
  "all_recognized P r \<longleftrightarrow> (\<forall>(i, raw) \<in> set (TlsMap_iter (reg_inner r)). is_ok (decode_recognized P i raw))"

lemma registry_keys_distinct: "reg_wf r \<Longrightarrow> distinct (map fst (TlsMap_iter (reg_inner r)))"
  by (simp add: reg_wf_def tm_wf_def TlsMap_iter_def comp_def strict_sorted_iff)

lemma all_recognized_iff:
  assumes "reg_wf r"
  shows "all_recognized P r \<longleftrightarrow> (\<forall>i raw. tm_map (reg_inner r) i = Some raw \<longrightarrow> is_ok (decode_recognized P i raw))"
  using registry_keys_distinct [OF assms] by (auto simp: all_recognized_def tm_map_def)

lemma reg_set_all_recognized:
  assumes "reg_set_all P r es = Ok r'" and "reg_wf r" and "\<And>meta. meta_lossless P meta" and "all_recognized P r"
  shows "reg_wf r' \<and> all_recognized P r'"
  using assms
proof (induction P r es rule: reg_set_all.induct)
  case (2 P r i meta rest)
  then obtain r1 where r1: "reg_set P r i meta = Ok r1" "reg_set_all P r1 rest = Ok r'" by (auto simp: rbind_eq_Ok)
  note laws = reg_set_laws [OF "2.prems"(2) r1(1)]
  have "decode_recognized P i (meta_encode P meta) = Ok meta"
    using laws(3,4) "2.prems"(3) by (simp add: decode_recognized_Ok validate_modifiable_Ok meta_lossless_def)
  then have "all_recognized P r1"
    using "2.prems"(4) unfolding all_recognized_iff [OF laws(1)] all_recognized_iff [OF "2.prems"(2)] by (simp add: laws(2))
  with "2.IH" [of r1] r1 laws(1) "2.prems"(3) show ?case by simp
qed simp

lemma recognized_keys:
  "\<forall>(i, raw) \<in> set xs. is_ok (D i raw) \<Longrightarrow>
     map fst (List.map_filter (\<lambda>(i, raw). map_option (\<lambda>meta. (i, meta)) (ok_opt (D i raw))) xs) = map fst xs"
  by (induction xs) (auto simp: List.map_filter_simps ok_opt_def is_ok_iff)

lemma registry_seed_expected:
  assumes "reg_wf r" and "all_recognized (al_meta L) r"
    and "tls_deserialize_exact (registry_delta_codec L) bs = Ok \<lparr> mutations = inserts (TlsMap_iter (reg_inner r)) \<rparr>"
  shows "registry_as_expected L (Some (AdUpdate bs)) (bt_from_iter (reg_iter (al_meta L) r))"
proof -
  let ?kvs = "TlsMap_iter (reg_inner r)" and ?it = "reg_iter (al_meta L) r"
  note d = registry_keys_distinct [OF assms(1)]
  have keys: "map fst ?it = map fst ?kvs"
    using assms(2) unfolding reg_iter_def all_recognized_def by (rule recognized_keys)
  with d have it: "distinct (map fst (rev ?it))" by (simp flip: rev_map)
  have "\<exists>meta. decode_recognized (al_meta L) k raw = Ok meta \<and> map_of (bt_from_iter ?it) k = Some meta"
    if kv: "(k, raw) \<in> set ?kvs" for k raw
  proof -
    obtain meta where m: "decode_recognized (al_meta L) k raw = Ok meta"
      using assms(2) kv by (auto simp: all_recognized_def is_ok_iff)
    then have "(k, meta) \<in> set (rev ?it)" using kv by (force simp: reg_iter_def set_map_filter ok_opt_def)
    with it m show ?thesis by (simp add: bt_lookup_from_iter)
  qed
  moreover have "fst ` set (bt_from_iter ?it) = fst ` set ?kvs"
  proof -
    have "dom (map_of (bt_from_iter ?it)) = dom (map_of (rev ?it))" by (simp add: dom_def bt_lookup_from_iter)
    then show ?thesis using arg_cong [OF keys, of set] by (simp add: dom_map_of_conv_image_fst)
  qed
  ultimately show ?thesis using d assms(3) by (auto simp: registry_as_expected_def)
qed

section \<open>A commit that passes\<close>

definition legacy_leaf :: leaf_node where
  "legacy_leaf = \<lparr> ln_signature_key = [1], ln_credential = BasicCredential [] \<rparr>"

definition legacy_group :: mls_group where
  "legacy_group = \<lparr> mg_group_id = replicate 16 0, mg_extensions = legacy_extensions, mg_members = [(0, legacy_leaf)] \<rparr>"

definition legacy_metadata :: group_metadata where
  "legacy_metadata = \<lparr> md_conversation_type = Group, md_creator_inbox_id = legacy_inbox_hex, md_dm_members = None, md_oneshot_message = None \<rparr>"

definition legacy_mutable_metadata :: group_mutable_metadata where
  "legacy_mutable_metadata =
     \<lparr> gmm_attributes = [(''group_name'', ''hi'')], gmm_admin_list = [], gmm_super_admin_list = [legacy_inbox_hex] \<rparr>"

definition migrated_shape :: extensions where
  "migrated_shape = \<lparr> unknown_extensions = [], app_data_dictionary = None, immutable_metadata = None,
     required_capabilities = Some [AppDataDictionaryType] \<rparr>"

definition migration_commit :: "app_data_proposals \<Rightarrow> staged_commit" where
  "migration_commit ps =
     \<lparr> queued_proposals = map (\<lambda>p. \<lparr> qp_sender = MemberSender 0, qp_proposal = p \<rparr>)
         (GroupContextExtensionsProposal migrated_shape # map (\<lambda>(i, op). AppDataUpdateProposal i op) ps),
       new_extensions = migrated_shape \<rparr>"

lemma migration_commit_parts [simp]:
  "app_data_update_proposals (migration_commit ps) = ps" "gce_proposals (migration_commit ps) = [migrated_shape]"
proof -
  have "List.map_filter (\<lambda>q. case qp_proposal q of AppDataUpdateProposal i op \<Rightarrow> Some (i, op) | _ \<Rightarrow> None)
      (map (\<lambda>p. \<lparr> qp_sender = MemberSender 0, qp_proposal = p \<rparr>) (map (\<lambda>(i, op). AppDataUpdateProposal i op) ps)) = ps"
    by (induction ps) (auto simp: List.map_filter_simps)
  then show "app_data_update_proposals (migration_commit ps) = ps"
    by (simp add: app_data_update_proposals_def migration_commit_def List.map_filter_simps)
  have "List.map_filter (\<lambda>q. case qp_proposal q of GroupContextExtensionsProposal x \<Rightarrow> Some x | _ \<Rightarrow> None)
      (map (\<lambda>p. \<lparr> qp_sender = MemberSender 0, qp_proposal = p \<rparr>) (map (\<lambda>(i, op). AppDataUpdateProposal i op) ps)) = []"
    by (induction ps) (auto simp: List.map_filter_simps)
  then show "gce_proposals (migration_commit ps) = [migrated_shape]"
    by (simp add: gce_proposals_def migration_commit_def List.map_filter_simps)
qed

lemma migration_commit_signals:
  "bootstrap_signals (queued_proposals (migration_commit ps)) b w =
     (True, w \<or> COMPONENT_REGISTRY \<in> fst ` set ps)"
proof -
  have "bootstrap_signals (map (\<lambda>p. \<lparr> qp_sender = MemberSender 0, qp_proposal = p \<rparr>)
      (map (\<lambda>(i, op). AppDataUpdateProposal i op) ps)) True w = (True, w \<or> COMPONENT_REGISTRY \<in> fst ` set ps)" for w
    by (induction ps arbitrary: w) auto
  then show ?thesis
    by (simp add: migration_commit_def migrated_shape_def gce_matches_bootstrap_shape_def has_unknown_extension_def
        gce_required_capabilities_match_bootstrap_shape_def)
qed

lemma legacy_participant:
  "extract_commit_participant legacy_protos 0 legacy_group md legacy_mutable_metadata =
     Ok (CommitParticipant_build legacy_inbox_hex [1] md legacy_mutable_metadata)"
  by (simp add: extract_commit_participant_def member_at_def legacy_group_def legacy_leaf_def inbox_id_from_credential_def legacy_protos_def)

lemma migration_commit_committer:
  "extract_committer_and_proposers legacy_protos (migration_commit ps) 0 legacy_group md legacy_mutable_metadata =
     (let p = CommitParticipant_build legacy_inbox_hex [1] md legacy_mutable_metadata in Ok (p, [p]))"
proof -
  have "proposer_leaf_indices (map (\<lambda>p. \<lparr> qp_sender = MemberSender 0, qp_proposal = p \<rparr>) qs) [0] = Ok [0]" for qs
    by (induction qs) simp_all
  then have "proposer_leaf_indices (queued_proposals (migration_commit ps)) [] = Ok [0]"
    by (simp add: migration_commit_def del: map_map)
  then show ?thesis by (simp add: extract_committer_and_proposers_def legacy_participant Let_def)
qed

lemma migration_commit_accepted:
  assumes "bootstrap_as_expected legacy_libs legacy_protos legacy_group (migration_commit ps)"
    and "MIN_SUPPORTED_PROTOCOL_VERSION \<notin> fst ` set ps"
  shows "\<exists>vc. validate_bootstrap_and_build legacy_libs legacy_protos (migration_commit ps) 0 legacy_group legacy_metadata
     legacy_mutable_metadata own_version = Ok vc"
proof -
  let ?p = "CommitParticipant_build legacy_inbox_hex [1] legacy_metadata legacy_mutable_metadata"
  have "first_floor_update ps = None"
    using assms(2) by (induction ps rule: first_floor_update.induct) (auto split: app_data_update_operation.splits)
  then have "bootstrap_floor_exceeding legacy_libs (migration_commit ps) own_version = None"
    by (simp add: bootstrap_floor_exceeding_def)
  moreover have "cp_is_super_admin ?p"
    by (simp add: CommitParticipant_build_def legacy_mutable_metadata_def gmm_is_super_admin_def)
  ultimately have "validate_bootstrap_commit legacy_libs legacy_protos (migration_commit ps) legacy_group ?p own_version = Ok ()"
    using assms(1) by (intro bootstrap_total)
  moreover have "extract_gce_proposer legacy_protos (queued_proposals (migration_commit ps)) legacy_group legacy_metadata
      legacy_mutable_metadata = Ok (Some ?p)"
    by (simp add: migration_commit_def sender_participant_def legacy_participant)
  moreover have "reject_psk_proposals (migration_commit ps) = Ok ()"
    by (auto simp: reject_psk_proposals_def migration_commit_def list_ex_iff)
  ultimately show ?thesis
    by (simp add: validate_bootstrap_and_build_def migration_commit_committer Let_def)
qed

section \<open>The two decoded components\<close>

lemma membership_payload:
  obtains bs v where "membership_as_expected legacy_libs legacy_protos (Some (AdUpdate bs)) [(legacy_inbox, 7)] []"
    and "apply_app_data_update_payload legacy_libs [] GROUP_MEMBERSHIP bs None registry = Ok v"
proof -
  let ?kvs = "[(legacy_inbox, [])] :: (inbox_id \<times> bytes) list"
  let ?C = "TlsMapDelta_codec (quic_vec run_vlen) (InboxId_codec run_vlen) (vl_bytes run_vlen)"
  obtain bs where bs: "tls_serialize ?C \<lparr> mutations = inserts ?kvs \<rparr> = Ok bs" using run_delta_total [OF run_keys_total(2)] by blast
  have "inbox_id_ok legacy_inbox" by (rule inbox_id_of_hex_ok [OF legacy_hex])
  then have reads: "tls_deserialize_exact ?C bs = Ok \<lparr> mutations = inserts ?kvs \<rparr>"
    by (intro tls_codec.read_exact [OF run_inbox_map.delta_codec _ bs]) simp
  have "membership_delta_codec legacy_libs = ?C" by (simp add: membership_delta_codec_def run_vecs_def)
  then have "membership_as_expected legacy_libs legacy_protos (Some (AdUpdate bs)) [(legacy_inbox, 7)] []"
    using reads by (simp add: membership_as_expected_def membership_entry_ok_def legacy_protos_def)
  moreover obtain m where m: "TlsMap_apply_delta TlsMap_new \<lparr> mutations = inserts ?kvs \<rparr> = (Ok (), m)"
    using inserts_apply [of ?kvs] by auto
  obtain v where "tls_serialize (TlsMap_codec (quic_vec run_vlen) (InboxId_codec run_vlen) (vl_bytes run_vlen)) m = Ok v"
    using run_map_total [OF run_keys_total(2)] by blast
  with reads m have "apply_app_data_update_payload legacy_libs [] GROUP_MEMBERSHIP bs None registry = Ok v"
    by (simp add: apply_app_data_update_payload_def lookup_component_eq is_xmtp_range_def WELL_KNOWN_def component_defs
        component_id_defs is_immutable_def apply_tls_map_delta_def run_vecs_def)
  ultimately show ?thesis using that by blast
qed

lemma registry_payload:
  assumes "build_registry tree_meta ps dm oneshot = Ok r"
  obtains bs v where "registry_as_expected legacy_libs (Some (AdUpdate bs)) (bt_from_iter (reg_iter tree_meta r))"
    and "apply_app_data_update_payload legacy_libs [] COMPONENT_REGISTRY bs None registry = Ok v"
proof -
  let ?kvs = "TlsMap_iter (reg_inner r)"
  let ?C = "TlsMapDelta_codec (quic_vec run_vlen) (ComponentId_codec run_vlen) (vl_bytes run_vlen)"
  obtain es where "reg_set_all tree_meta ComponentRegistry_new es = Ok r" using assms by (rule build_registry_Ok)
  moreover have "all_recognized tree_meta ComponentRegistry_new"
    by (simp add: all_recognized_def ComponentRegistry_new_def TlsMap_new_def TlsMap_iter_def)
  ultimately have r: "reg_wf r" "all_recognized tree_meta r"
    using reg_set_all_recognized new_registry_wf tree_meta_lossless by blast+
  obtain bs where bs: "tls_serialize ?C \<lparr> mutations = inserts ?kvs \<rparr> = Ok bs" using run_delta_total [OF run_keys_total(1)] by blast
  have "list_all (mutation_ok (\<lambda>_. True) (\<lambda>_. True)) (inserts ?kvs)" by (auto simp: list_all_iff)
  then have reads: "tls_deserialize_exact ?C bs = Ok \<lparr> mutations = inserts ?kvs \<rparr>"
    by (intro tls_codec.read_exact [OF run_registry.delta_codec _ bs]) simp
  have C: "registry_delta_codec legacy_libs = ?C" by (simp add: registry_delta_codec_def run_vecs_def)
  with registry_seed_expected [of r legacy_libs bs] r reads
  have "registry_as_expected legacy_libs (Some (AdUpdate bs)) (bt_from_iter (reg_iter tree_meta r))" by simp
  moreover have "try_map (validate_registry_mutation tree_meta) (inserts ?kvs) = Ok (map (\<lambda>_. ()) (inserts ?kvs))"
  proof (rule try_map_all_Ok)
    fix x assume "x \<in> set (inserts ?kvs)"
    then obtain k raw where x: "x = MInsert k raw" "(k, raw) \<in> set ?kvs" by auto
    with r(2) obtain meta where "decode_recognized tree_meta k raw = Ok meta" by (auto simp: all_recognized_def is_ok_iff)
    then have "validate_entry tree_meta k raw = Ok ()" by (auto simp: recognized_Ok [of tree_meta k raw "()", symmetric])
    with x(1) show "validate_registry_mutation tree_meta x = Ok ()" by simp
  qed
  then have "validate_registry_delta tree_meta \<lparr> mutations = inserts ?kvs \<rparr> = Ok ()" by (simp add: validate_registry_delta_def)
  moreover obtain m where m: "TlsMap_apply_delta TlsMap_new \<lparr> mutations = inserts ?kvs \<rparr> = (Ok (), m)"
    using inserts_apply [OF registry_keys_distinct [OF r(1)]] by blast
  moreover obtain v where "tls_serialize (registry_codec legacy_libs) m = Ok v"
    using run_map_total [OF run_keys_total(1)] by (auto simp: registry_codec_def run_vecs_def)
  ultimately have "registry_as_expected legacy_libs (Some (AdUpdate bs)) (bt_from_iter (reg_iter tree_meta r))"
    "apply_app_data_update_payload legacy_libs [] COMPONENT_REGISTRY bs None registry = Ok v"
    using reads by (simp_all add: apply_app_data_update_payload_def lookup_component_eq is_xmtp_range_def WELL_KNOWN_def
        ComponentRegistryComponent_def component_id_defs is_immutable_def registry_apply_def C del: set_map)
  then show ?thesis using that by blast
qed


end
