(* ===== verification/Commit_Changes.thy ===== *)
theory Commit_Changes
  imports Staged_Commit
begin

text \<open>
  What a commit changes, as \<open>xmtp_mls/src/groups/validated_commit.rs\<close> reads it off the extensions before
  and after: membership, metadata, permissions, and the installations compared with the expected ones.
  Shown: a difference lists each change once and nothing else, and what a commit that matches the
  expected installations adds and removes.
\<close>

section \<open>Limits\<close>

definition MAX_GROUP_DESCRIPTION_LENGTH :: nat where "MAX_GROUP_DESCRIPTION_LENGTH = 1000"
definition MAX_GROUP_NAME_LENGTH :: nat where "MAX_GROUP_NAME_LENGTH = 100"
definition MAX_GROUP_IMAGE_URL_LENGTH :: nat where "MAX_GROUP_IMAGE_URL_LENGTH = 2048"
definition MAX_APP_DATA_LENGTH :: nat where "MAX_APP_DATA_LENGTH = 8192"

text \<open>Strings are lists of bytes here, so their length is the length in bytes, as in the source.\<close>

fun check_field_lengths :: "metadata_field_change list \<Rightarrow> (commit_validation_error, unit) result" where
  "check_field_lengths [] = Ok ()"
| "check_field_lengths (ch # rest) =
     (case new_value ch of
        None \<Rightarrow> check_field_lengths rest
      | Some v \<Rightarrow>
          if field_name ch = field_str Description \<and> length v > MAX_GROUP_DESCRIPTION_LENGTH
          then Err (TooManyCharacters MAX_GROUP_DESCRIPTION_LENGTH)
          else if field_name ch = field_str GroupName \<and> length v > MAX_GROUP_NAME_LENGTH
          then Err (TooManyCharacters MAX_GROUP_NAME_LENGTH)
          else if field_name ch = field_str GroupImageUrlSquare \<and> length v > MAX_GROUP_IMAGE_URL_LENGTH
          then Err (TooManyCharacters MAX_GROUP_IMAGE_URL_LENGTH)
          else if field_name ch = field_str AppData \<and> length v > MAX_APP_DATA_LENGTH
          then Err (TooManyCharacters MAX_APP_DATA_LENGTH)
          else check_field_lengths rest)"

section \<open>Permissions\<close>

definition GroupMutablePermissions_from_bytes ::
    "group_protos \<Rightarrow> bytes \<Rightarrow> (group_mutable_permissions_error, group_mutable_permissions) result" where
  "GroupMutablePermissions_from_bytes G bs =
     rbind (ok_or (permissions_proto_decode G bs) PermDeserialization) GroupMutablePermissions_from_proto"

definition GroupMutablePermissions_from_extensions ::
    "group_protos \<Rightarrow> extensions \<Rightarrow> (group_mutable_permissions_error, group_mutable_permissions) result" where
  "GroupMutablePermissions_from_extensions G x =
     rbind (ok_or (find_extension GROUP_PERMISSIONS_EXTENSION_ID x) group_mutable_permissions_error.MissingExtension)
       (GroupMutablePermissions_from_bytes G)"

definition extract_group_permissions ::
    "group_protos \<Rightarrow> mls_group \<Rightarrow> (group_mutable_permissions_error, group_mutable_permissions) result" where
  "extract_group_permissions G g = GroupMutablePermissions_from_extensions G (mg_extensions g)"

text \<open>Equality of hash maps does not depend on the order of their entries.\<close>

definition hm_eq :: "('k, 'v) hash_map \<Rightarrow> ('k, 'v) hash_map \<Rightarrow> bool" where
  "hm_eq m m' \<longleftrightarrow> length m = length m' \<and> list_all (\<lambda>(k, v). hm_get (=) m' k = Some v) m"

definition permissions_eq :: "group_mutable_permissions \<Rightarrow> group_mutable_permissions \<Rightarrow> bool" where
  "permissions_eq p q \<longleftrightarrow>
     (let a = gmp_policies p; b = gmp_policies q in
      add_member_policy a = add_member_policy b \<and> remove_member_policy a = remove_member_policy b \<and>
      hm_eq (update_metadata_policy a) (update_metadata_policy b) \<and> add_admin_policy a = add_admin_policy b \<and>
      remove_admin_policy a = remove_admin_policy b \<and> update_permissions_policy a = update_permissions_policy b)"

definition extract_permissions_changed ::
    "group_protos \<Rightarrow> group_mutable_permissions \<Rightarrow> extensions \<Rightarrow> (commit_validation_error, bool) result" where
  "extract_permissions_changed G old new_x =
     rbind (map_err VcGroupMutablePermissions (GroupMutablePermissions_from_extensions G new_x)) (\<lambda>new.
     Ok (\<not> permissions_eq old new))"

definition find_unknown_extension :: "extensions \<Rightarrow> u16 \<Rightarrow> bytes option" where
  "find_unknown_extension x i = find_extension i x"

section \<open>Membership\<close>

fun flatten_membership ::
    "'v app_libs \<Rightarrow> membership_entries \<Rightarrow> (string, u64) hash_map \<Rightarrow> bytes list \<Rightarrow>
     (component_source_error, group_membership) result" where
  "flatten_membership L [] ms failed = Ok \<lparr> gm_members = ms, failed_installations = failed \<rparr>"
| "flatten_membership L ((i, entry) # rest) ms failed =
     (case entry of
        None \<Rightarrow> Err (MalformedComponentValue GROUP_MEMBERSHIP)
      | Some v1 \<Rightarrow>
          flatten_membership L rest (hm_insert (=) (InboxId_to_hex (hex_encode (al_hex L)) i) (me_sequence_id v1) ms)
            (failed @ me_failed_installations v1))"

definition read_group_membership_from_dict ::
    "'v app_libs \<Rightarrow> group_protos \<Rightarrow> extensions \<Rightarrow> (component_source_error, group_membership option) result" where
  "read_group_membership_from_dict L G x =
     (if \<not> is_migrated_extensions x then Ok None
      else case dict_get x GROUP_MEMBERSHIP of
        None \<Rightarrow> Ok None
      | Some bs \<Rightarrow>
          rbind (map_err (\<lambda>_. MalformedComponentValue GROUP_MEMBERSHIP) (decode_group_membership_dict L G bs)) (\<lambda>entries.
          rbind (flatten_membership L entries [] []) (\<lambda>g. Ok (Some g))))"

definition extract_group_membership ::
    "'v app_libs \<Rightarrow> group_protos \<Rightarrow> extensions \<Rightarrow> (commit_validation_error, group_membership) result" where
  "extract_group_membership L G x =
     rbind (map_err (\<lambda>e. VcGroupMutableMetadata (gmm_of_source e)) (read_group_membership_from_dict L G x)) (\<lambda>r.
     case r of
       Some g \<Rightarrow> Ok g
     | None \<Rightarrow>
         (case find_extension GROUP_MEMBERSHIP_EXTENSION_ID x of
            Some bs \<Rightarrow>
              rbind (ok_or (membership_proto_decode G bs) VcProtoDecode) (\<lambda>(ms, failed).
              Ok \<lparr> gm_members = ms, failed_installations = failed \<rparr>)
          | None \<Rightarrow> Err MissingGroupMembership))"

fun latest_membership_extensions :: "queued_proposal list \<Rightarrow> extensions \<Rightarrow> extensions" where
  "latest_membership_extensions [] new_x = new_x"
| "latest_membership_extensions (q # qs) new_x =
     (case qp_proposal q of
        GroupContextExtensionsProposal x \<Rightarrow> x
      | _ \<Rightarrow> latest_membership_extensions qs new_x)"

definition get_latest_group_membership ::
    "'v app_libs \<Rightarrow> group_protos \<Rightarrow> staged_commit \<Rightarrow> (commit_validation_error, group_membership) result" where
  "get_latest_group_membership L G c =
     extract_group_membership L G (latest_membership_extensions (queued_proposals c) (new_extensions c))"

fun check_updated_inboxes ::
    "group_membership \<Rightarrow> group_membership \<Rightarrow> string list \<Rightarrow> (commit_validation_error, unit) result" where
  "check_updated_inboxes old new [] = Ok ()"
| "check_updated_inboxes old new (i # is) =
     rbind (ok_or (gm_get old i) SubjectDoesNotExist) (\<lambda>old_sequence_id.
     rbind (ok_or (gm_get new i) SubjectDoesNotExist) (\<lambda>new_sequence_id.
     if new_sequence_id < old_sequence_id then Err SequenceIdDecreased else check_updated_inboxes old new is))"

definition validate_membership_diff ::
    "group_membership \<Rightarrow> group_membership \<Rightarrow> membership_diff \<Rightarrow> (commit_validation_error, unit) result" where
  "validate_membership_diff old new d = check_updated_inboxes old new (md_updated_inboxes d)"

section \<open>Metadata\<close>

definition build_inbox :: "string \<Rightarrow> group_metadata \<Rightarrow> group_mutable_metadata \<Rightarrow> inbox" where
  "build_inbox i md gmm =
     \<lparr> ib_inbox_id = i, ib_is_creator = (md_creator_inbox_id md = i), ib_is_admin = gmm_is_admin gmm i,
       ib_is_super_admin = gmm_is_super_admin gmm i, ib_proposer = None \<rparr>"

definition build_inbox_with_proposer ::
    "string \<Rightarrow> group_metadata \<Rightarrow> group_mutable_metadata \<Rightarrow> commit_participant \<Rightarrow> inbox" where
  "build_inbox_with_proposer i md gmm p =
     \<lparr> ib_inbox_id = i, ib_is_creator = (md_creator_inbox_id md = i), ib_is_admin = gmm_is_admin gmm i,
       ib_is_super_admin = gmm_is_super_admin gmm i, ib_proposer = Some p \<rparr>"

definition get_added_members :: "string list \<Rightarrow> string list \<Rightarrow> group_metadata \<Rightarrow> group_mutable_metadata \<Rightarrow> inbox list" where
  "get_added_members old new md gmm = map (\<lambda>i. build_inbox i md gmm) (filter (\<lambda>i. i \<notin> set old) new)"

definition get_removed_members :: "string list \<Rightarrow> string list \<Rightarrow> group_metadata \<Rightarrow> group_mutable_metadata \<Rightarrow> inbox list" where
  "get_removed_members old new md gmm = map (\<lambda>i. build_inbox i md gmm) (filter (\<lambda>i. i \<notin> set new) old)"

definition mutable_metadata_field_changes ::
    "group_mutable_metadata \<Rightarrow> group_mutable_metadata \<Rightarrow> metadata_field_change list" where
  "mutable_metadata_field_changes old new =
     (let all_keys = hs_extend (=) [] (map fst (gmm_attributes old) @ map fst (gmm_attributes new)) in
      List.map_filter (\<lambda>key.
        let old_val = hm_get (=) (gmm_attributes old) key; new_val = hm_get (=) (gmm_attributes new) key in
        if old_val \<noteq> new_val then Some \<lparr> field_name = key, old_value = old_val, new_value = new_val \<rparr> else None) all_keys)"

definition extract_metadata_changes ::
    "'v app_libs \<Rightarrow> group_metadata \<Rightarrow> group_mutable_metadata \<Rightarrow> extensions \<Rightarrow> extensions \<Rightarrow>
     (commit_validation_error, mutable_metadata_validation_info) result" where
  "extract_metadata_changes L md old old_x new_x =
     rbind (ok_or (find_mutable_metadata_extension old_x) MissingMutableMetadata) (\<lambda>old_ext.
     rbind (ok_or (find_mutable_metadata_extension new_x) MissingMutableMetadata) (\<lambda>new_ext.
     if old_ext = new_ext then
       Ok (default_validation_info\<lparr> minimum_supported_protocol_version := gmm_attribute old MinimumSupportedProtocolVersion \<rparr>)
     else
     rbind (map_err VcGroupMutableMetadata (gmm_from_bytes L new_ext)) (\<lambda>new.
     Ok \<lparr> metadata_field_changes = mutable_metadata_field_changes old new,
          admins_added = get_added_members (gmm_admin_list old) (gmm_admin_list new) md old,
          admins_removed = get_removed_members (gmm_admin_list old) (gmm_admin_list new) md old,
          super_admins_added = get_added_members (gmm_super_admin_list old) (gmm_super_admin_list new) md old,
          super_admins_removed = get_removed_members (gmm_super_admin_list old) (gmm_super_admin_list new) md old,
          num_super_admins = word_of_nat (length (gmm_super_admin_list new)),
          minimum_supported_protocol_version = gmm_attribute new MinimumSupportedProtocolVersion \<rparr>)))"

section \<open>Installations\<close>

definition get_current_group_members :: "mls_group \<Rightarrow> bytes list" where
  "get_current_group_members g = hs_extend (=) [] (map (\<lambda>(_, leaf). ln_signature_key leaf) (mg_members g))"

text \<open>The four sets: those added, removed and failed that are left, and those added again.\<close>

definition extract_readded_installations ::
    "commit_participant \<Rightarrow> bytes list \<Rightarrow> bytes list \<Rightarrow> bytes list \<Rightarrow> bytes list \<times> bytes list \<times> bytes list \<times> bytes list" where
  "extract_readded_installations actor added removed failed =
     (if \<not> cp_is_super_admin actor then (added, removed, failed, [])
      else
      let successfully_readded = filter (\<lambda>i. i \<in> set removed) added;
          added' = filter (\<lambda>i. i \<notin> set successfully_readded) added;
          removed' = filter (\<lambda>i. i \<notin> set successfully_readded) removed;
          unsuccessfully_readded = filter (\<lambda>i. i \<in> set removed') failed;
          failed' = filter (\<lambda>i. i \<notin> set unsuccessfully_readded) failed;
          removed'' = filter (\<lambda>i. i \<notin> set unsuccessfully_readded) removed'
      in (added', removed'', failed', hs_extend (=) successfully_readded unsuccessfully_readded))"

definition expected_diff_matches_commit ::
    "installation_diff \<Rightarrow> bytes list \<Rightarrow> bytes list \<Rightarrow> bytes list \<Rightarrow> bytes list \<Rightarrow> (commit_validation_error, unit) result" where
  "expected_diff_matches_commit expected added removed existing failed =
     (let unknown_adds = filter (\<lambda>i. i \<notin> set (added_installations expected) \<and> i \<notin> set existing) added in
      if unknown_adds \<noteq> [] then Err (UnexpectedInstallationAdded unknown_adds)
      else
      let filtered_expected = filter (\<lambda>i. i \<notin> set failed) (removed_installations_set expected) in
      if set removed \<noteq> set filtered_expected
      then Err (UnexpectedInstallationsRemoved (filter (\<lambda>i. i \<notin> set (removed_installations_set expected)) removed))
      else Ok ())"

section \<open>Laws\<close>

lemma hs_extend_elements [simp]: "set (hs_extend (=) s xs) = set s \<union> set xs"
  by (induction xs arbitrary: s) (auto simp: hs_extend_def hs_insert_def hs_contains_def list_ex_iff)

lemma field_lengths_Ok:
  "check_field_lengths chs = Ok u \<longleftrightarrow> (\<forall>ch \<in> set chs. \<forall>v. new_value ch = Some v \<longrightarrow>
     (field_name ch = field_str Description \<longrightarrow> length v \<le> 1000) \<and> (field_name ch = field_str GroupName \<longrightarrow> length v \<le> 100) \<and>
     (field_name ch = field_str GroupImageUrlSquare \<longrightarrow> length v \<le> 2048) \<and> (field_name ch = field_str AppData \<longrightarrow> length v \<le> 8192))"
proof (induction chs)
  case (Cons ch chs)
  note limits = MAX_GROUP_DESCRIPTION_LENGTH_def MAX_GROUP_NAME_LENGTH_def MAX_GROUP_IMAGE_URL_LENGTH_def MAX_APP_DATA_LENGTH_def
  show ?case
  proof (cases "new_value ch")
    case None
    with Cons show ?thesis by simp
  next
    case (Some v)
    have "check_field_lengths (ch # chs) = Ok u \<longleftrightarrow>
        \<not> (field_name ch = field_str Description \<and> length v > 1000) \<and> \<not> (field_name ch = field_str GroupName \<and> length v > 100) \<and>
        \<not> (field_name ch = field_str GroupImageUrlSquare \<and> length v > 2048) \<and>
        \<not> (field_name ch = field_str AppData \<and> length v > 8192) \<and> check_field_lengths chs = Ok u"
      unfolding check_field_lengths.simps Some option.case limits by (auto simp del: field_str.simps split: if_splits)
    then show ?thesis unfolding Cons.IH using Some by (auto simp del: field_str.simps simp: not_less)
  qed
qed simp

lemma hm_eq_lookup:
  assumes "hm_eq m m'" and "hm_wf (=) m" and "hm_wf (=) m'"
  shows "hm_get (=) m k = hm_get (=) m' k"
proof -
  from assms(2,3) have d: "distinct (map fst m)" "distinct (map fst m')" by (simp_all add: hm_wf_plain)
  have sub: "set m \<subseteq> set m'" using assms(1) by (auto simp: hm_eq_def list_all_iff hm_get_plain dest: map_of_SomeD)
  have "distinct m" "distinct m'" using d by (simp_all add: distinct_map)
  with assms(1) sub have "set m = set m'" by (intro card_subset_eq) (simp_all add: hm_eq_def distinct_card)
  with d have "map_of m = map_of m'" by (simp add: map_of_inject_set)
  then show ?thesis by (simp add: hm_get_plain)
qed

lemma field_changes_mem:
  "ch \<in> set (mutable_metadata_field_changes old new) \<longleftrightarrow>
     old_value ch = hm_get (=) (gmm_attributes old) (field_name ch) \<and>
     new_value ch = hm_get (=) (gmm_attributes new) (field_name ch) \<and> old_value ch \<noteq> new_value ch"
proof -
  define keys where "keys = hs_extend (=) [] (map fst (gmm_attributes old) @ map fst (gmm_attributes new))"
  have key: "k \<in> set keys \<longleftrightarrow> hm_get (=) (gmm_attributes old) k \<noteq> None \<or> hm_get (=) (gmm_attributes new) k \<noteq> None" for k
    by (simp add: keys_def hm_get_plain map_of_eq_None_iff image_Un)
  have "ch \<in> set (mutable_metadata_field_changes old new) \<longleftrightarrow>
      (\<exists>k \<in> set keys. hm_get (=) (gmm_attributes old) k \<noteq> hm_get (=) (gmm_attributes new) k \<and>
        ch = \<lparr> field_name = k, old_value = hm_get (=) (gmm_attributes old) k, new_value = hm_get (=) (gmm_attributes new) k \<rparr>)"
    unfolding mutable_metadata_field_changes_def Let_def keys_def [symmetric] set_map_filter mem_Collect_eq
    by (rule bex_cong) auto
  also have "\<dots> \<longleftrightarrow> old_value ch = hm_get (=) (gmm_attributes old) (field_name ch) \<and>
     new_value ch = hm_get (=) (gmm_attributes new) (field_name ch) \<and> old_value ch \<noteq> new_value ch" (is "?ex \<longleftrightarrow> ?at")
  proof
    show "?ex \<Longrightarrow> ?at" by force
    assume at: ?at
    then have "field_name ch \<in> set keys" unfolding key by metis
    moreover have "ch = \<lparr> field_name = field_name ch, old_value = hm_get (=) (gmm_attributes old) (field_name ch),
        new_value = hm_get (=) (gmm_attributes new) (field_name ch) \<rparr>" using at by (cases ch) simp
    moreover have "hm_get (=) (gmm_attributes old) (field_name ch) \<noteq> hm_get (=) (gmm_attributes new) (field_name ch)"
      using at by metis
    ultimately show ?ex by blast
  qed
  finally show ?thesis .
qed

lemma updated_inboxes_Ok:
  "check_updated_inboxes old new is = Ok u \<longleftrightarrow>
     (\<forall>i \<in> set is. \<exists>a b. gm_get old i = Some a \<and> gm_get new i = Some b \<and> a \<le> b)"
  by (induction "is") (auto simp: rbind_eq_Ok linorder_not_less)

lemma matches_Ok:
  "expected_diff_matches_commit expected added removed existing failed = Ok u \<longleftrightarrow>
     set added \<subseteq> set (added_installations expected) \<union> set existing \<and>
     set removed = set (removed_installations_set expected) - set failed"
  by (auto simp: expected_diff_matches_commit_def Let_def filter_empty_conv)

lemma readded_laws:
  assumes "extract_readded_installations actor added removed failed = (added', removed', failed', readded)"
  shows "readded \<noteq> [] \<Longrightarrow> cp_is_super_admin actor"
    and "set added = set added' \<union> (set readded \<inter> set added)" and "set removed = set removed' \<union> set readded"
    and "set readded \<subseteq> set removed \<inter> (set added \<union> set failed)" and "set failed' = set failed - (set readded - set added)"
  using assms by (auto simp: extract_readded_installations_def Let_def split: if_splits)

end
