(* ===== verification/Commit_Proposals.thy ===== *)
theory Commit_Proposals
  imports Commit_Changes
begin

text \<open>
  The rules for single proposals in \<open>xmtp_mls/src/groups/validated_commit.rs\<close>: updates of the dictionary,
  inside a commit and on their own, and \<open>validate_proposal\<close>, which judges a proposal before it is stored.
  Shown: both ways of sending an update are judged alike, and the version floor cannot be lowered.
\<close>

section \<open>Updates of the dictionary\<close>

definition LibXMTPVersion_parse :: "'v app_libs \<Rightarrow> string \<Rightarrow> (commit_validation_error, 'v) result" where
  "LibXMTPVersion_parse L s = ok_or (semver_parse L s) (InvalidVersionFormat (Some s))"

definition enforce_min_version_monotonicity ::
    "'v::linorder app_libs \<Rightarrow> app_data_update_operation \<Rightarrow> bytes option \<Rightarrow> (commit_validation_error, unit) result" where
  "enforce_min_version_monotonicity L op old =
     (case old of
        None \<Rightarrow> Ok ()
      | Some old_bytes \<Rightarrow>
     (case from_utf8 old_bytes of
        None \<Rightarrow> Ok ()
      | Some old_str \<Rightarrow>
     (case LibXMTPVersion_parse L old_str of
        Err _ \<Rightarrow> Ok ()
      | Ok old_v \<Rightarrow>
     (case op of
        AdUpdate new_bytes \<Rightarrow>
          rbind (ok_or (from_utf8 new_bytes) (InvalidVersionFormat None)) (\<lambda>new_str.
          rbind (LibXMTPVersion_parse L new_str) (\<lambda>new_v.
          if new_v < old_v then Err (MinVersionDowngrade new_str old_str) else Ok ()))
      | AdRemove \<Rightarrow> Err (MinVersionRemoveOnExistingFloor old_str)))))"

fun check_changes ::
    "meta_codec \<Rightarrow> erased_component option \<Rightarrow> component_id \<Rightarrow> actor_authority \<Rightarrow> component_registry \<Rightarrow>
     expanded_component_change list \<Rightarrow> (commit_validation_error, unit) result" where
  "check_changes P component i actor registry [] = Ok ()"
| "check_changes P component i actor registry (change # rest) =
     (let cc = \<lparr> cc_component_id = i, cc_op = xc_op change, cc_actor = actor, cc_old_value = None, cc_new_value = xc_value change \<rparr> in
      rbind (map_err (\<lambda>_. InsufficientPermissions) (validate_component_write P cc registry)) (\<lambda>_.
      rbind (case component of
               Some c \<Rightarrow> map_err (\<lambda>_. InsufficientPermissions) (er_validate_invariant c cc registry)
             | None \<Rightarrow> Ok ()) (\<lambda>_.
      check_changes P component i actor registry rest)))"

definition validate_one_app_data_update_with_old_value ::
    "'v::linorder app_libs \<Rightarrow> runtime_registry \<Rightarrow> component_id \<Rightarrow> app_data_update_operation \<Rightarrow> actor_authority \<Rightarrow>
     component_registry \<Rightarrow> bytes option \<Rightarrow> (commit_validation_error, unit) result" where
  "validate_one_app_data_update_with_old_value L R i op actor registry old =
     rbind (if i = MIN_SUPPORTED_PROTOCOL_VERSION then enforce_min_version_monotonicity L op old else Ok ()) (\<lambda>_.
     let component = lookup_component L R i in
     rbind (case component of
              Some c \<Rightarrow> map_err (\<lambda>_. InsufficientPermissions) (er_expand_to_changes c op old)
            | None \<Rightarrow> map_err (\<lambda>_. InsufficientPermissions) (expand_app_data_update_to_changes L R i op old registry)) (\<lambda>changes.
     check_changes (al_meta L) component i actor registry changes))"

definition validate_one_app_data_update ::
    "'v::linorder app_libs \<Rightarrow> runtime_registry \<Rightarrow> component_id \<Rightarrow> app_data_update_operation \<Rightarrow> actor_authority \<Rightarrow>
     component_registry \<Rightarrow> mls_group \<Rightarrow> (commit_validation_error, unit) result" where
  "validate_one_app_data_update L R i op actor registry g =
     validate_one_app_data_update_with_old_value L R i op actor registry (read_from_app_data_dict i (mg_extensions g))"

fun app_data_update_proposer_leaf :: "mls_sender \<Rightarrow> (commit_validation_error, u32) result" where
  "app_data_update_proposer_leaf (MemberSender i) = Ok i"
| "app_data_update_proposer_leaf ExternalSender = Err ActorNotMember"
| "app_data_update_proposer_leaf NewMemberCommitSender = Err ActorNotMember"
| "app_data_update_proposer_leaf NewMemberProposalSender = Err ActorNotMember"

text \<open>The loop over the updates of a commit remembers the participants it has extracted.\<close>

fun app_data_updates_loop ::
    "'v::linorder app_libs \<Rightarrow> group_protos \<Rightarrow> runtime_registry \<Rightarrow> mls_group \<Rightarrow> group_metadata \<Rightarrow> group_mutable_metadata \<Rightarrow>
     component_registry \<Rightarrow> (mls_sender \<times> component_id \<times> app_data_update_operation) list \<Rightarrow>
     (u32, commit_participant) hash_map \<Rightarrow> (commit_validation_error, unit) result" where
  "app_data_updates_loop L G R g md gmm registry [] participants = Ok ()"
| "app_data_updates_loop L G R g md gmm registry ((s, i, op) # rest) participants =
     rbind (app_data_update_proposer_leaf s) (\<lambda>leaf.
     rbind (case hm_get (=) participants leaf of
              Some cached \<Rightarrow> Ok (cached, participants)
            | None \<Rightarrow>
                rbind (extract_commit_participant G leaf g md gmm) (\<lambda>fresh. Ok (fresh, hm_insert (=) leaf fresh participants)))
       (\<lambda>(proposer, participants').
     rbind (validate_one_app_data_update L R i op (actor_authority_of proposer) registry g) (\<lambda>_.
     app_data_updates_loop L G R g md gmm registry rest participants')))"

definition queued_app_data_updates :: "staged_commit \<Rightarrow> (mls_sender \<times> component_id \<times> app_data_update_operation) list" where
  "queued_app_data_updates c =
     List.map_filter (\<lambda>q. case qp_proposal q of AppDataUpdateProposal i op \<Rightarrow> Some (qp_sender q, i, op) | _ \<Rightarrow> None)
       (queued_proposals c)"

definition validate_app_data_update_proposals_in_commit ::
    "'v::linorder app_libs \<Rightarrow> group_protos \<Rightarrow> runtime_registry \<Rightarrow> staged_commit \<Rightarrow> mls_group \<Rightarrow> group_metadata \<Rightarrow>
     group_mutable_metadata \<Rightarrow> component_registry option \<Rightarrow> (commit_validation_error, unit) result" where
  "validate_app_data_update_proposals_in_commit L G R c g md gmm preloaded_registry =
     (let proposals = queued_app_data_updates c in
      if proposals = [] then Ok ()
      else
      rbind (case preloaded_registry of
               Some r \<Rightarrow> Ok r
             | None \<Rightarrow> map_err VcComponentSource (load_component_registry L (mg_extensions g))) (\<lambda>registry.
      app_data_updates_loop L G R g md gmm registry proposals []))"

section \<open>Proposals on their own\<close>

definition unsupported :: "mls_proposal \<Rightarrow> (commit_validation_error, unit) result" where
  "unsupported p = Err (UnsupportedProposalType (proposal_type_name p))"

definition validate_add ::
    "group_protos \<Rightarrow> policy_set \<Rightarrow> group_metadata \<Rightarrow> commit_participant \<Rightarrow> leaf_node \<Rightarrow> (commit_validation_error, unit) result" where
  "validate_add G ps md proposer leaf =
     rbind (inbox_id_from_credential G (ln_credential leaf)) (\<lambda>added.
     let i = \<lparr> ib_inbox_id = added, ib_is_creator = False, ib_is_admin = False, ib_is_super_admin = False,
               ib_proposer = Some proposer \<rparr> in
     if \<not> MembershipPolicies_evaluate (add_member_policy ps) proposer i then
       (let is_dm_add = (case md_dm_members md of
              None \<Rightarrow> False
            | Some dm \<Rightarrow> (added = member_one_inbox_id dm \<or> added = member_two_inbox_id dm) \<and> added \<noteq> cp_inbox_id proposer)
        in if \<not> is_dm_add then Err InsufficientPermissions else Ok ())
     else Ok ())"

definition validate_remove ::
    "group_protos \<Rightarrow> mls_group \<Rightarrow> policy_set \<Rightarrow> group_metadata \<Rightarrow> group_mutable_metadata \<Rightarrow> commit_participant \<Rightarrow> u32 \<Rightarrow>
     (commit_validation_error, unit) result" where
  "validate_remove G g ps md gmm proposer removed =
     rbind (ok_or (member_at g removed) SubjectDoesNotExist) (\<lambda>leaf.
     rbind (inbox_id_from_credential G (ln_credential leaf)) (\<lambda>inbox_id.
     if gmm_is_super_admin gmm inbox_id then Err InsufficientPermissions
     else
     let i = \<lparr> ib_inbox_id = inbox_id, ib_is_creator = (md_creator_inbox_id md = inbox_id),
               ib_is_admin = inbox_id \<in> set (gmm_admin_list gmm), ib_is_super_admin = gmm_is_super_admin gmm inbox_id,
               ib_proposer = Some proposer \<rparr> in
     if \<not> MembershipPolicies_evaluate (remove_member_policy ps) proposer i then Err InsufficientPermissions else Ok ()))"

fun check_field_policies ::
    "policy_set \<Rightarrow> commit_participant \<Rightarrow> metadata_field_change list \<Rightarrow> (commit_validation_error, unit) result" where
  "check_field_policies ps proposer [] = Ok ()"
| "check_field_policies ps proposer (change # rest) =
     (case hm_get (=) (update_metadata_policy ps) (field_name change) of
        Some policy \<Rightarrow>
          if \<not> MetadataPolicies_evaluate policy proposer change then Err InsufficientPermissions
          else check_field_policies ps proposer rest
      | None \<Rightarrow> check_field_policies ps proposer rest)"

definition validate_metadata_changes ::
    "policy_set \<Rightarrow> commit_participant \<Rightarrow> mutable_metadata_validation_info \<Rightarrow> (commit_validation_error, unit) result" where
  "validate_metadata_changes ps proposer changes =
     rbind (check_field_policies ps proposer (metadata_field_changes changes)) (\<lambda>_.
     if admins_added changes \<noteq> [] \<and> \<not> PermissionsPolicies_evaluate (add_admin_policy ps) proposer
     then Err InsufficientPermissions
     else if admins_removed changes \<noteq> [] \<and> \<not> PermissionsPolicies_evaluate (remove_admin_policy ps) proposer
     then Err InsufficientPermissions
     else if (super_admins_added changes \<noteq> [] \<or> super_admins_removed changes \<noteq> []) \<and> \<not> cp_is_super_admin proposer
     then Err InsufficientPermissions
     else Ok ())"

definition validate_gce ::
    "'v app_libs \<Rightarrow> group_protos \<Rightarrow> mls_group \<Rightarrow> policy_set \<Rightarrow> group_metadata \<Rightarrow> group_mutable_metadata \<Rightarrow>
     commit_participant \<Rightarrow> extensions \<Rightarrow> (commit_validation_error, unit) result" where
  "validate_gce L G g ps md gmm proposer new_x =
     (let existing = mg_extensions g;
          old_meta = find_mutable_metadata_extension existing;
          new_meta = find_mutable_metadata_extension new_x
      in
      if old_meta \<noteq> None \<and> new_meta = None then Err InsufficientPermissions
      else
      rbind (if old_meta \<noteq> None \<and> new_meta \<noteq> None \<and> old_meta \<noteq> new_meta then
               rbind (extract_metadata_changes L md gmm existing new_x) (validate_metadata_changes ps proposer)
             else Ok ()) (\<lambda>_.
      if is_migrated_extensions existing then
        (if list_ex (\<lambda>i. find_unknown_extension new_x i \<noteq> None)
              [GROUP_PERMISSIONS_EXTENSION_ID, MUTABLE_METADATA_EXTENSION_ID, GROUP_MEMBERSHIP_EXTENSION_ID]
         then Err InsufficientPermissions else Ok ())
      else
      rbind (map_err VcGroupMutablePermissions (GroupMutablePermissions_from_extensions G existing)) (\<lambda>old_permissions.
      if \<not> cp_is_super_admin proposer \<and> extract_permissions_changed G old_permissions new_x = Ok True
      then Err InsufficientPermissions else Ok ())))"

definition validate_proposal ::
    "'v::linorder app_libs \<Rightarrow> group_protos \<Rightarrow> runtime_registry \<Rightarrow> queued_proposal \<Rightarrow> mls_group \<Rightarrow> policy_set \<Rightarrow>
     group_metadata \<Rightarrow> group_mutable_metadata \<Rightarrow> (commit_validation_error, unit) result" where
  "validate_proposal L G R q g ps md gmm =
     rbind (sender_participant G (qp_sender q) g md gmm) (\<lambda>proposer.
     case qp_proposal q of
       AddProposal leaf \<Rightarrow> validate_add G ps md proposer leaf
     | RemoveProposal i \<Rightarrow> validate_remove G g ps md gmm proposer i
     | GroupContextExtensionsProposal new_x \<Rightarrow> validate_gce L G g ps md gmm proposer new_x
     | UpdateProposal leaf \<Rightarrow>
         rbind (inbox_id_from_credential G (ln_credential leaf)) (\<lambda>new_inbox_id.
         if new_inbox_id \<noteq> cp_inbox_id proposer then Err ActorNotMember else Ok ())
     | AppDataUpdateProposal i op \<Rightarrow>
         rbind (map_err VcComponentSource (load_component_registry L (mg_extensions g))) (\<lambda>registry.
         validate_one_app_data_update L R i op (actor_authority_of proposer) registry g)
     | p \<Rightarrow> unsupported p)"

section \<open>Laws\<close>

lemma monotonic_Ok:
  assumes "enforce_min_version_monotonicity L op (Some old_bytes) = Ok u" and "from_utf8 old_bytes = Some s" and "semver_parse L s = Some v"
  obtains bs s' v' where "op = AdUpdate bs" and "from_utf8 bs = Some s'" and "semver_parse L s' = Some v'" and "v \<le> v'"
  using assms by (cases op) (auto simp: enforce_min_version_monotonicity_def LibXMTPVersion_parse_def rbind_eq_Ok split: if_splits)

text \<open>What the loop over the updates of a commit accepts; the memory of participants does not matter.\<close>

definition update_accepted ::
    "'v::linorder app_libs \<Rightarrow> group_protos \<Rightarrow> runtime_registry \<Rightarrow> mls_group \<Rightarrow> group_metadata \<Rightarrow> group_mutable_metadata \<Rightarrow>
     component_registry \<Rightarrow> mls_sender \<times> component_id \<times> app_data_update_operation \<Rightarrow> bool" where
  "update_accepted L G R g md gmm registry u =
     (case u of (s, i, op) \<Rightarrow>
       (case sender_participant G s g md gmm of
          Ok p \<Rightarrow> validate_one_app_data_update L R i op (actor_authority_of p) registry g = Ok ()
        | Err _ \<Rightarrow> False))"

lemma update_accepted_simps:
  "update_accepted L G R g md gmm registry (MemberSender leaf, i, op) \<longleftrightarrow>
     (\<exists>p. extract_commit_participant G leaf g md gmm = Ok p \<and>
        validate_one_app_data_update L R i op (actor_authority_of p) registry g = Ok ())"
  "\<not> update_accepted L G R g md gmm registry (ExternalSender, i, op)"
  "\<not> update_accepted L G R g md gmm registry (NewMemberProposalSender, i, op)"
  "\<not> update_accepted L G R g md gmm registry (NewMemberCommitSender, i, op)"
  by (auto simp: update_accepted_def sender_participant_def split: sum.splits)

lemma updates_loop_Ok:
  assumes "\<And>leaf p. hm_get (=) participants leaf = Some p \<Longrightarrow> extract_commit_participant G leaf g md gmm = Ok p"
  shows "app_data_updates_loop L G R g md gmm registry us participants = Ok () \<longleftrightarrow>
    list_all (update_accepted L G R g md gmm registry) us"
  using assms
proof (induction us arbitrary: participants)
  case (Cons u us)
  obtain s i op where u: "u = (s, i, op)" by (cases u)
  show ?case
  proof (cases s)
    case (MemberSender leaf)
    show ?thesis
    proof (cases "extract_commit_participant G leaf g md gmm")
      case (Inl e)
      with Cons.prems have "hm_get (=) participants leaf = None" by (cases "hm_get (=) participants leaf") auto
      with Inl show ?thesis by (simp add: u MemberSender update_accepted_simps)
    next
      case (Inr p)
      let ?next = "case hm_get (=) participants leaf of Some cached \<Rightarrow> participants | None \<Rightarrow> hm_insert (=) leaf p participants"
      have "extract_commit_participant G l g md gmm = Ok q" if "hm_get (=) ?next l = Some q" for l q
        using that Cons.prems Inr by (auto simp: plain.hm_get_insert split: option.splits if_splits)
      from Cons.IH [OF this] have ih: "app_data_updates_loop L G R g md gmm registry us ?next = Ok () \<longleftrightarrow>
          list_all (update_accepted L G R g md gmm registry) us" .
      have one: "app_data_updates_loop L G R g md gmm registry (u # us) participants =
          rbind (validate_one_app_data_update L R i op (actor_authority_of p) registry g) (\<lambda>_.
            app_data_updates_loop L G R g md gmm registry us ?next)"
        using Inr Cons.prems [of leaf] by (cases "hm_get (=) participants leaf") (auto simp: u MemberSender)
      show ?thesis unfolding one rbind_eq_Ok ih using Inr by (simp add: u MemberSender update_accepted_simps)
    qed
  qed (simp_all add: u update_accepted_simps)
qed simp

lemma updates_loop_start:
  "app_data_updates_loop L G R g md gmm registry us [] = Ok () \<longleftrightarrow> list_all (update_accepted L G R g md gmm registry) us"
  by (rule updates_loop_Ok) simp

lemma in_commit_Ok:
  "validate_app_data_update_proposals_in_commit L G R c g md gmm pre = Ok () \<longleftrightarrow>
     queued_app_data_updates c = [] \<or>
     (\<exists>registry. (case pre of Some r \<Rightarrow> registry = r | None \<Rightarrow> load_component_registry L (mg_extensions g) = Ok registry) \<and>
        list_all (update_accepted L G R g md gmm registry) (queued_app_data_updates c))"
  by (auto simp: validate_app_data_update_proposals_in_commit_def Let_def rbind_eq_Ok updates_loop_start split: option.splits)

fun is_app_data_update :: "queued_proposal \<Rightarrow> bool" where
  "is_app_data_update q = (case qp_proposal q of AppDataUpdateProposal _ _ \<Rightarrow> True | _ \<Rightarrow> False)"

lemma queued_updates_all:
  "list_all P (queued_app_data_updates c) \<longleftrightarrow>
     (\<forall>q i op. q \<in> set (queued_proposals c) \<and> qp_proposal q = AppDataUpdateProposal i op \<longrightarrow> P (qp_sender q, i, op))"
proof -
  have u: "(case qp_proposal q of AppDataUpdateProposal i op \<Rightarrow> Some (qp_sender q, i, op) | _ \<Rightarrow> None) = Some y \<longleftrightarrow>
      (\<exists>i op. qp_proposal q = AppDataUpdateProposal i op \<and> y = (qp_sender q, i, op))" for q y
    by (cases "qp_proposal q") auto
  show ?thesis unfolding queued_app_data_updates_def list_all_iff set_map_filter u by blast
qed

lemma queued_updates_none:
  "queued_app_data_updates c = [] \<longleftrightarrow> filter is_app_data_update (queued_proposals c) = []"
proof -
  have "queued_app_data_updates c = [] \<longleftrightarrow> list_all (\<lambda>_. False) (queued_app_data_updates c)"
    by (cases "queued_app_data_updates c") simp_all
  also have "\<dots> \<longleftrightarrow> filter is_app_data_update (queued_proposals c) = []"
    unfolding queued_updates_all by (auto simp: filter_empty_conv split: mls_proposal.splits)
  finally show ?thesis .
qed

lemma update_proposals_of: "app_data_update_proposals c = map snd (queued_app_data_updates c)"
proof -
  have "List.map_filter (\<lambda>q. case qp_proposal q of AppDataUpdateProposal i op \<Rightarrow> Some (i, op) | _ \<Rightarrow> None) qs =
      map snd (List.map_filter (\<lambda>q. case qp_proposal q of AppDataUpdateProposal i op \<Rightarrow> Some (qp_sender q, i, op) | _ \<Rightarrow> None) qs)" for qs
    by (induction qs) (auto simp: List.map_filter_simps split: mls_proposal.splits)
  then show ?thesis by (simp add: app_data_update_proposals_def queued_app_data_updates_def)
qed

lemma alone_accepted:
  assumes "qp_proposal q = AppDataUpdateProposal i op"
  shows "validate_proposal L G R q g ps md gmm = Ok () \<longleftrightarrow>
    (\<exists>registry. load_component_registry L (mg_extensions g) = Ok registry \<and>
       update_accepted L G R g md gmm registry (qp_sender q, i, op))"
  using assms by (cases "sender_participant G (qp_sender q) g md gmm")
    (auto simp: validate_proposal_def update_accepted_def rbind_eq_Ok)

definition updates_valid_alone ::
    "'v::linorder app_libs \<Rightarrow> group_protos \<Rightarrow> runtime_registry \<Rightarrow> staged_commit \<Rightarrow> mls_group \<Rightarrow> policy_set \<Rightarrow>
     group_metadata \<Rightarrow> group_mutable_metadata \<Rightarrow> bool" where
  "updates_valid_alone L G R c g ps md gmm \<longleftrightarrow>
     list_all (\<lambda>q. validate_proposal L G R q g ps md gmm = Ok ()) (filter is_app_data_update (queued_proposals c))"

text \<open>
  Property C15. An update of the dictionary is judged alike inside a commit and as a message of its own:
  a commit's updates pass exactly when each of them would pass alone, whatever the policies of the
  group, whether the registry is loaded on the way or was loaded before.
\<close>

theorem app_data_judged_alike:
  "(validate_app_data_update_proposals_in_commit L G R c g md gmm None = Ok ()) = updates_valid_alone L G R c g ps md gmm \<and>
   (validate_app_data_update_proposals_in_commit L G R c g md gmm (ok_opt (load_component_registry L (mg_extensions g))) = Ok ()) =
     updates_valid_alone L G R c g ps md gmm"
proof -
  let ?alone = "updates_valid_alone L G R c g ps md gmm"
  let ?load = "load_component_registry L (mg_extensions g)"
  have "?alone \<longleftrightarrow> queued_app_data_updates c = [] \<or>
      (\<exists>registry. ?load = Ok registry \<and> list_all (update_accepted L G R g md gmm registry) (queued_app_data_updates c))"
  proof (cases "queued_app_data_updates c = []")
    case True
    then show ?thesis unfolding updates_valid_alone_def queued_updates_none by simp
  next
    case False
    then obtain q0 where q0: "q0 \<in> set (queued_proposals c)" "is_app_data_update q0"
      unfolding queued_updates_none by (auto simp: filter_empty_conv simp del: is_app_data_update.simps)
    have "?alone \<longleftrightarrow> (\<forall>q i op. q \<in> set (queued_proposals c) \<and> qp_proposal q = AppDataUpdateProposal i op \<longrightarrow>
        (\<exists>registry. ?load = Ok registry \<and> update_accepted L G R g md gmm registry (qp_sender q, i, op)))"
      unfolding updates_valid_alone_def list_all_iff using alone_accepted by (fastforce split: mls_proposal.splits)
    with q0 False show ?thesis unfolding queued_updates_all
      by (auto split: mls_proposal.splits) (metis sum.inject(2))+
  qed
  then show ?thesis unfolding in_commit_Ok by (cases ?load) (simp_all add: ok_opt_def)
qed

section \<open>The floor\<close>

lemma floor_component: "apply_app_data_update_payload L R MIN_SUPPORTED_PROTOCOL_VERSION bs old registry = Ok v \<Longrightarrow> v = bs"
  by (auto simp: apply_app_data_update_payload_def lookup_component_eq is_xmtp_range_def WELL_KNOWN_def component_defs
     apply_passthrough_def component_id_defs is_immutable_def rbind_eq_Ok split: if_splits)

text \<open>A value of the floor that a client can read as a version.\<close>

definition floor_version :: "'v app_libs \<Rightarrow> bytes \<Rightarrow> 'v option" where
  "floor_version L bs = Option.bind (from_utf8 bs) (semver_parse L)"

lemma floor_after_updates:
  assumes "post_commit_loop L R MIN_SUPPORTED_PROTOCOL_VERSION registry ops old = Ok new"
    and "\<forall>op \<in> set ops. \<exists>bs v'. op = AdUpdate bs \<and> floor_version L bs = Some v' \<and> v \<le> v'"
    and "\<exists>bs v'. old = Some bs \<and> floor_version L bs = Some v' \<and> (v :: 'v::linorder) \<le> v'"
  shows "\<exists>bs v'. new = Some bs \<and> floor_version L bs = Some v' \<and> v \<le> v'"
  using assms
proof (induction L R "MIN_SUPPORTED_PROTOCOL_VERSION" registry ops old rule: post_commit_loop.induct)
  case (2 L R registry payload ops current)
  from "2.prems"(1) obtain w where w: "apply_app_data_update_payload L R MIN_SUPPORTED_PROTOCOL_VERSION payload current registry = Ok w"
    "post_commit_loop L R MIN_SUPPORTED_PROTOCOL_VERSION registry ops (Some w) = Ok new" by (auto simp: rbind_eq_Ok)
  show ?case by (rule "2.hyps" [OF w(1) w(2)]) (use "2.prems"(2) floor_component [OF w(1)] in auto)
qed auto

lemma floor_kept:
  assumes "list_all (update_accepted L G R g md gmm registry) (queued_app_data_updates c)"
    and "dict_get (mg_extensions g) MIN_SUPPORTED_PROTOCOL_VERSION = Some bs" and "floor_version L bs = Some v"
    and "read_post_commit_component_bytes L R' MIN_SUPPORTED_PROTOCOL_VERSION (mg_extensions g) (app_data_update_proposals c) registry' = Ok new"
  shows "\<exists>bs' v'. new = Some bs' \<and> floor_version L bs' = Some v' \<and> v \<le> v'"
proof -
  let ?ops = "map snd (filter (\<lambda>p. fst p = MIN_SUPPORTED_PROTOCOL_VERSION) (app_data_update_proposals c))"
  have old: "\<exists>bs' v'. read_from_app_data_dict MIN_SUPPORTED_PROTOCOL_VERSION (mg_extensions g) = Some bs' \<and>
      floor_version L bs' = Some v' \<and> v \<le> v'"
    using assms(2,3) by (simp add: read_from_app_data_dict_def)
  have ops: "\<forall>op \<in> set ?ops. \<exists>bs v'. op = AdUpdate bs \<and> floor_version L bs = Some v' \<and> v \<le> v'"
  proof
    fix op assume "op \<in> set ?ops"
    then obtain s where "(s, MIN_SUPPORTED_PROTOCOL_VERSION, op) \<in> set (queued_app_data_updates c)"
      unfolding update_proposals_of by force
    with assms(1) have "update_accepted L G R g md gmm registry (s, MIN_SUPPORTED_PROTOCOL_VERSION, op)"
      by (simp add: list_all_iff)
    then obtain p where "validate_one_app_data_update L R MIN_SUPPORTED_PROTOCOL_VERSION op (actor_authority_of p) registry g = Ok ()"
      by (cases s) (auto simp: update_accepted_simps)
    then have "enforce_min_version_monotonicity L op (Some bs) = Ok ()"
      using assms(2) by (auto simp: validate_one_app_data_update_def validate_one_app_data_update_with_old_value_def
          read_from_app_data_dict_def rbind_eq_Ok)
    then show "\<exists>bs v'. op = AdUpdate bs \<and> floor_version L bs = Some v' \<and> v \<le> v'"
      using assms(3) by (auto simp: floor_version_def bind_eq_Some_conv elim: monotonic_Ok)
  qed
  show ?thesis
  proof (cases "?ops = []")
    case True
    with old assms(4) show ?thesis by (auto simp: read_post_commit_component_bytes_def Let_def)
  next
    case False
    with assms(4) have "post_commit_loop L R' MIN_SUPPORTED_PROTOCOL_VERSION registry' ?ops
        (read_from_app_data_dict MIN_SUPPORTED_PROTOCOL_VERSION (mg_extensions g)) = Ok new"
      by (simp add: read_post_commit_component_bytes_def Let_def)
    from floor_after_updates [OF this ops old] show ?thesis .
  qed
qed

end
