(* ===== verification/Validated_Commit.thy ===== *)
theory Validated_Commit
  imports Bootstrap Commit_Proposals
begin

text \<open>
  \<open>ValidatedCommit::from_staged_commit\<close> of \<open>xmtp_mls/src/groups/validated_commit.rs\<close>: the verdict of a client
  on a commit. It combines the version floor, the metadata, the bootstrap validator, the proposals, the
  identity logs of the members concerned and the policies of the group. The database of identity
  updates is threaded through, since looking up an association state may load and cache.
\<close>

section \<open>The context of a client\<close>

record 'v commit_context =
  cx_libs :: "'v app_libs"
  cx_protos :: group_protos
  cx_runtime :: runtime_registry
  cx_identity :: identity_env
  cx_network :: identity_network
  cx_semver :: 'v
  cx_version :: string

fun vc_of_read :: "immutable_read_error \<Rightarrow> commit_validation_error" where
  "vc_of_read (ReadGmm e) = VcGroupMutableMetadata e"
| "vc_of_read (ReadMetadata e) = VcGroupMetadata e"

definition commit_immutable_metadata ::
    "'v commit_context \<Rightarrow> extensions \<Rightarrow> (commit_validation_error, group_metadata) result" where
  "commit_immutable_metadata X x = map_err vc_of_read (read_immutable_metadata (cx_libs X) (cx_protos X) x)"

definition commit_mutable_metadata ::
    "'v commit_context \<Rightarrow> extensions \<Rightarrow> (commit_validation_error, group_mutable_metadata) result" where
  "commit_mutable_metadata X x =
     map_err VcGroupMutableMetadata
       (if is_migrated_extensions x then
          map_err gmm_of_source (merge_app_data_into_mutable_metadata (cx_libs X)
            \<lparr> gmm_attributes = [], gmm_admin_list = [], gmm_super_admin_list = [] \<rparr> x)
        else gmm_from_extensions (cx_libs X) x)"

definition commit_permissions ::
    "'v commit_context \<Rightarrow> extensions \<Rightarrow> (commit_validation_error, group_mutable_permissions) result" where
  "commit_permissions X x =
     (if is_migrated_extensions x then map_err VcComponentSource (membership_policy_set_from_registry (cx_libs X) x)
      else map_err VcGroupMutablePermissions (GroupMutablePermissions_from_extensions (cx_protos X) x))"

section \<open>The expected difference\<close>

record expected_diff =
  old_group_membership :: group_membership
  new_group_membership :: group_membership
  expected_installation_diff :: installation_diff
  ed_added_inboxes :: "inbox list"
  ed_removed_inboxes :: "inbox list"

definition attributed_inbox ::
    "group_metadata \<Rightarrow> group_mutable_metadata \<Rightarrow> bool \<Rightarrow> commit_participant option \<Rightarrow>
     (string, commit_participant) hash_map \<Rightarrow> string \<Rightarrow> (commit_validation_error, inbox) result" where
  "attributed_inbox md gmm proposals_enabled gce_proposer inbox_proposers i =
     (case (case hm_get (=) inbox_proposers i of Some p \<Rightarrow> Some p | None \<Rightarrow> gce_proposer) of
        Some p \<Rightarrow> Ok (build_inbox_with_proposer i md gmm p)
      | None \<Rightarrow> if proposals_enabled then Err ProposerNotFound else Ok (build_inbox i md gmm))"

definition extract_expected_diff_with_proposers ::
    "'v commit_context \<Rightarrow> identity_db \<Rightarrow> staged_commit \<Rightarrow> extensions \<Rightarrow> group_metadata \<Rightarrow> group_mutable_metadata \<Rightarrow> bool \<Rightarrow>
     proposal_changes \<Rightarrow> (commit_validation_error, expected_diff) result \<times> identity_db" where
  "extract_expected_diff_with_proposers X db c existing md gmm proposals_enabled ch =
     (case
        rbind (extract_group_membership (cx_libs X) (cx_protos X) existing) (\<lambda>old.
        rbind (get_latest_group_membership (cx_libs X) (cx_protos X) c) (\<lambda>new.
        let mdiff = gm_diff old new in
        rbind (validate_membership_diff old new mdiff) (\<lambda>_.
        rbind (try_map (attributed_inbox md gmm proposals_enabled (pc_gce_proposer ch) (pc_added_inbox_proposers ch))
                 (md_added_inboxes mdiff)) (\<lambda>added.
        rbind (try_map (attributed_inbox md gmm proposals_enabled (pc_gce_proposer ch) (pc_removed_inbox_proposers ch))
                 (md_removed_inboxes mdiff)) (\<lambda>removed.
        Ok (old, new, mdiff, added, removed))))))
      of Err e \<Rightarrow> (Err e, db)
       | Ok (old, new, mdiff, added, removed) \<Rightarrow>
           (case get_installation_diff (cx_identity X) (cx_network X) db old new mdiff of
              (r, db') \<Rightarrow>
                (rbind (map_err VcInstallationDiff r) (\<lambda>d.
                 Ok \<lparr> old_group_membership = old, new_group_membership = new, expected_installation_diff = d,
                      ed_added_inboxes = added, ed_removed_inboxes = removed \<rparr>), db')))"

definition from_staged_commit_with_proposers ::
    "'v commit_context \<Rightarrow> identity_db \<Rightarrow> staged_commit \<Rightarrow> mls_group \<Rightarrow> bool \<Rightarrow> proposal_changes \<Rightarrow>
     (commit_validation_error, expected_diff) result \<times> identity_db" where
  "from_staged_commit_with_proposers X db c g proposals_enabled ch =
     (case
        rbind (commit_immutable_metadata X (mg_extensions g)) (\<lambda>md.
        rbind (commit_mutable_metadata X (mg_extensions g)) (\<lambda>gmm.
        rbind (reject_psk_proposals c) (\<lambda>_.
        if length (mg_group_id g) \<noteq> 16 then Err VcConversion else Ok (md, gmm))))
      of Err e \<Rightarrow> (Err e, db)
       | Ok (md, gmm) \<Rightarrow>
           extract_expected_diff_with_proposers X db c (mg_extensions g) md gmm proposals_enabled ch)"

section \<open>Credentials\<close>

definition credential_sequence_id ::
    "group_membership \<Rightarrow> group_membership \<Rightarrow> string \<Rightarrow> (commit_validation_error, int option) result" where
  "credential_sequence_id old new i =
     (case gm_get new i of
        None \<Rightarrow> Err SubjectDoesNotExist
      | Some n \<Rightarrow> if n = 0 \<and> gm_get old i = Some 0 then Ok None else Ok (Some (sint n)))"

definition verify_credential ::
    "'v commit_context \<Rightarrow> group_membership \<Rightarrow> group_membership \<Rightarrow> identity_db \<Rightarrow> commit_participant \<Rightarrow>
     (commit_validation_error, unit) result \<times> identity_db" where
  "verify_credential X old new db p =
     (case credential_sequence_id old new (cp_inbox_id p) of
        Err e \<Rightarrow> (Err e, db)
      | Ok to_sequence_id \<Rightarrow>
          (case get_association_state (cx_identity X) db (cp_inbox_id p) to_sequence_id of
             (r, db') \<Rightarrow>
               (rbind (map_err VcInstallationDiff r) (\<lambda>s.
                if st_get s (Installation (cp_installation_id p)) = None
                then Err (InboxValidationFailed (cp_inbox_id p)) else Ok ()), db')))"

fun verify_credentials ::
    "'v commit_context \<Rightarrow> group_membership \<Rightarrow> group_membership \<Rightarrow> identity_db \<Rightarrow> commit_participant list \<Rightarrow>
     (commit_validation_error, unit) result \<times> identity_db" where
  "verify_credentials X old new db [] = (Ok (), db)"
| "verify_credentials X old new db (p # ps) =
     (case verify_credential X old new db p of
        (Err e, db') \<Rightarrow> (Err e, db')
      | (Ok _, db') \<Rightarrow> verify_credentials X old new db' ps)"

section \<open>From a staged commit to a validated one\<close>

text \<open>What does not need the identity database: everything up to the changes made by the proposals.\<close>

record commit_reading =
  cr_permissions :: group_mutable_permissions
  cr_info :: mutable_metadata_validation_info
  cr_permissions_changed :: bool
  cr_actor :: commit_participant
  cr_proposers :: "commit_participant list"
  cr_changes :: proposal_changes

definition migrated_info ::
    "'v commit_context \<Rightarrow> staged_commit \<Rightarrow> extensions \<Rightarrow>
     (commit_validation_error, mutable_metadata_validation_info \<times> component_registry) result" where
  "migrated_info X c x =
     rbind (map_err (\<lambda>e. VcGroupMutableMetadata (gmm_of_source e)) (load_component_registry (cx_libs X) x)) (\<lambda>registry.
     rbind (map_err (\<lambda>e. VcGroupMutableMetadata (gmm_of_source e))
              (read_post_commit_component_bytes (cx_libs X) (cx_runtime X) MIN_SUPPORTED_PROTOCOL_VERSION x
                 (app_data_update_proposals c) registry)) (\<lambda>min_version_bytes.
     rbind (case min_version_bytes of
              Some bs \<Rightarrow> map_err VcGroupMutableMetadata
                (rbind (ok_or (from_utf8 bs) (MalformedComponent (Some MIN_SUPPORTED_PROTOCOL_VERSION))) (\<lambda>s. Ok (Some s)))
            | None \<Rightarrow> Ok None) (\<lambda>min_version.
     Ok (default_validation_info\<lparr> minimum_supported_protocol_version := min_version \<rparr>, registry))))"

definition read_commit ::
    "'v::linorder commit_context \<Rightarrow> staged_commit \<Rightarrow> u32 \<Rightarrow> mls_group \<Rightarrow> group_metadata \<Rightarrow> group_mutable_metadata \<Rightarrow>
     (commit_validation_error, commit_reading) result" where
  "read_commit X c committer g md gmm =
     (let x = mg_extensions g; G = cx_protos X in
      rbind (commit_permissions X x) (\<lambda>group_permissions.
      rbind (if is_migrated_extensions x then
               rbind (migrated_info X c x) (\<lambda>(info, registry). Ok (info, Some registry))
             else
               rbind (extract_metadata_changes (cx_libs X) md gmm x (new_extensions c)) (\<lambda>info. Ok (info, None)))
        (\<lambda>(info, migrated_registry).
      rbind (check_field_lengths (metadata_field_changes info)) (\<lambda>_.
      rbind (if is_migrated_extensions x then Ok False
             else extract_permissions_changed G group_permissions (new_extensions c)) (\<lambda>permissions_changed.
      rbind (extract_committer_and_proposers G c committer g md gmm) (\<lambda>(actor, proposers).
      rbind (reject_psk_proposals c) (\<lambda>_.
      rbind (validate_app_data_update_proposals_in_commit (cx_libs X) G (cx_runtime X) c g md gmm migrated_registry) (\<lambda>_.
      rbind (get_proposal_changes G c g md gmm) (\<lambda>ch.
      Ok \<lparr> cr_permissions = group_permissions, cr_info = info, cr_permissions_changed = permissions_changed,
           cr_actor = actor, cr_proposers = proposers, cr_changes = ch \<rparr>)))))))))"

text \<open>The verdict once all parts of the commit are known.\<close>

definition judge_commit ::
    "'v::linorder commit_context \<Rightarrow> mls_group \<Rightarrow> group_mutable_permissions \<Rightarrow> validated_commit \<Rightarrow>
     (commit_validation_error, validated_commit) result" where
  "judge_commit X g group_permissions verified_commit =
     rbind (if is_migrated_extensions (mg_extensions g) then Ok group_permissions
            else map_err VcGroupMutablePermissions (extract_group_permissions (cx_protos X) g)) (\<lambda>policy_set.
     if \<not> evaluate_commit (gmp_policies policy_set) verified_commit then Err InsufficientPermissions
     else
     (case minimum_supported_protocol_version (metadata_validation_info verified_commit) of
        None \<Rightarrow> Ok verified_commit
      | Some min_version \<Rightarrow>
          rbind (LibXMTPVersion_parse (cx_libs X) min_version) (\<lambda>min_supported_version.
          if min_supported_version > cx_semver X then Err (ProtocolVersionTooLow min_version) else Ok verified_commit)))"

definition steady_state_commit ::
    "'v::linorder commit_context \<Rightarrow> identity_db \<Rightarrow> staged_commit \<Rightarrow> u32 \<Rightarrow> mls_group \<Rightarrow> group_metadata \<Rightarrow> group_mutable_metadata \<Rightarrow>
     (commit_validation_error, validated_commit) result \<times> identity_db" where
  "steady_state_commit X db c committer g md gmm =
     (case read_commit X c committer g md gmm of
        Err e \<Rightarrow> (Err e, db)
      | Ok r \<Rightarrow>
     (case from_staged_commit_with_proposers X db c g (check_proposals_enabled (mg_extensions g)) (cr_changes r) of
        (Err e, db1) \<Rightarrow> (Err e, db1)
      | (Ok d, db1) \<Rightarrow>
          (let added = pc_added_installations (cr_changes r); removed = pc_removed_installations (cr_changes r) in
     (case extract_readded_installations (cr_actor r) added removed
             (hs_extend (=) [] (failed_installations (new_group_membership d))) of
        (added', removed', failed', readded) \<Rightarrow>
     (case expected_diff_matches_commit (expected_installation_diff d) added' removed' (get_current_group_members g) failed' of
        Err e \<Rightarrow> (Err e, db1)
      | Ok _ \<Rightarrow>
     (case verify_credentials X (old_group_membership d) (new_group_membership d) db1
             (pc_credentials_to_verify (cr_changes r) @ [cr_actor r]) of
        (Err e, db2) \<Rightarrow> (Err e, db2)
      | (Ok _, db2) \<Rightarrow>
          (judge_commit X g (cr_permissions r)
             \<lparr> vc_actor = cr_actor r, vc_proposers = cr_proposers r, added_inboxes = ed_added_inboxes d,
               removed_inboxes = ed_removed_inboxes d, readded_installations = readded, metadata_validation_info = cr_info r,
               installations_changed = (added \<noteq> [] \<or> removed \<noteq> []), permissions_changed = cr_permissions_changed r,
               vc_dm_members = md_dm_members md \<rparr>, db2)))))))"

definition from_staged_commit ::
    "'v::linorder commit_context \<Rightarrow> identity_db \<Rightarrow> staged_commit \<Rightarrow> u32 \<Rightarrow> mls_group \<Rightarrow>
     (commit_validation_error, validated_commit) result \<times> identity_db" where
  "from_staged_commit X db c committer g =
     (let x = mg_extensions g in
      case (if is_migrated_extensions x then committed_floor_exceeding (cx_libs X) x (cx_semver X) else None) of
        Some min_version \<Rightarrow> (Err (ProtocolVersionTooLow min_version), db)
      | None \<Rightarrow>
     (case rbind (commit_immutable_metadata X x) (\<lambda>md. rbind (commit_mutable_metadata X x) (\<lambda>gmm. Ok (md, gmm))) of
        Err e \<Rightarrow> (Err e, db)
      | Ok (md, gmm) \<Rightarrow>
          if is_bootstrap_commit c x
          then (validate_bootstrap_and_build (cx_libs X) (cx_protos X) c committer g md gmm (cx_version X), db)
          else steady_state_commit X db c committer g md gmm))"

section \<open>Reading a validated commit\<close>

datatype commit_type =
    GroupCreation | BackupRestore | Welcome | KeyUpdate | MetadataUpdate | UpdateGroupMembership | UpdateAdminList | UpdatePermission
  | RemovedFromGroup

definition debug_commit_type :: "validated_commit \<Rightarrow> commit_type" where
  "debug_commit_type vc =
     (let info = metadata_validation_info vc in
      if added_inboxes vc \<noteq> [] \<or> removed_inboxes vc \<noteq> [] \<or> installations_changed vc then UpdateGroupMembership
      else if permissions_changed vc then UpdatePermission
      else if admins_added info \<noteq> [] \<or> admins_removed info \<noteq> [] \<or> super_admins_added info \<noteq> [] \<or> super_admins_removed info \<noteq> []
      then UpdateAdminList
      else if metadata_field_changes info \<noteq> [] then MetadataUpdate
      else KeyUpdate)"

definition ValidatedCommit_is_empty :: "validated_commit \<Rightarrow> bool" where
  "ValidatedCommit_is_empty vc \<longleftrightarrow>
     added_inboxes vc = [] \<and> removed_inboxes vc = [] \<and> MutableMetadataValidationInfo_is_empty (metadata_validation_info vc)"

record group_updated =
  initiated_by_inbox_id :: string
  gu_added_inboxes :: "string list"
  gu_removed_inboxes :: "string list"
  gu_metadata_field_changes :: "metadata_field_change list"
  gu_left_inboxes :: "string list"
  added_admin_inboxes :: "string list"
  removed_admin_inboxes :: "string list"
  added_super_admin_inboxes :: "string list"
  removed_super_admin_inboxes :: "string list"

definition GroupUpdated_from_with :: "validated_commit \<Rightarrow> string list \<Rightarrow> group_updated" where
  "GroupUpdated_from_with vc pending_removals =
     (let info = metadata_validation_info vc;
          (left, removed) = partition (\<lambda>i. ib_inbox_id i \<in> set pending_removals) (removed_inboxes vc)
      in \<lparr> initiated_by_inbox_id = cp_inbox_id (vc_actor vc), gu_added_inboxes = map ib_inbox_id (added_inboxes vc),
           gu_removed_inboxes = map ib_inbox_id removed, gu_metadata_field_changes = metadata_field_changes info,
           gu_left_inboxes = map ib_inbox_id left, added_admin_inboxes = map ib_inbox_id (admins_added info),
           removed_admin_inboxes = map ib_inbox_id (admins_removed info),
           added_super_admin_inboxes = map ib_inbox_id (super_admins_added info),
           removed_super_admin_inboxes = map ib_inbox_id (super_admins_removed info) \<rparr>)"

end
