(* ===== verification/Commit_Verdict.thy ===== *)
theory Commit_Verdict
  imports Validated_Commit
begin

text \<open>
  What it means that a client accepted a commit: whose installations may enter a group, who may commit,
  how the membership moves, what happens to roles, and that the version floor only rises.
\<close>

section \<open>The steps of an accepted commit\<close>

lemma judge_Ok:
  assumes "judge_commit X g p vc = Ok vc'"
  shows "vc' = vc"
    and "is_migrated_extensions (mg_extensions g) \<Longrightarrow> evaluate_commit (gmp_policies p) vc"
    and "\<not> is_migrated_extensions (mg_extensions g) \<Longrightarrow>
      \<exists>q. extract_group_permissions (cx_protos X) g = Ok q \<and> evaluate_commit (gmp_policies q) vc"
    and "minimum_supported_protocol_version (metadata_validation_info vc) = Some s \<Longrightarrow>
      \<exists>v. semver_parse (cx_libs X) s = Some v \<and> v \<le> cx_semver X"
  using assms
  by (auto simp: judge_commit_def rbind_eq_Ok LibXMTPVersion_parse_def not_less split: if_splits option.splits)

lemma steady_Ok:
  assumes "steady_state_commit X db c committer g md gmm = (Ok vc, db')"
  obtains r d db1 added removed failed readded where "read_commit X c committer g md gmm = Ok r"
    and "from_staged_commit_with_proposers X db c g (check_proposals_enabled (mg_extensions g)) (cr_changes r) = (Ok d, db1)"
    and "extract_readded_installations (cr_actor r) (pc_added_installations (cr_changes r)) (pc_removed_installations (cr_changes r))
      (hs_extend (=) [] (failed_installations (new_group_membership d))) = (added, removed, failed, readded)"
    and "expected_diff_matches_commit (expected_installation_diff d) added removed (get_current_group_members g) failed = Ok ()"
    and "verify_credentials X (old_group_membership d) (new_group_membership d) db1
      (pc_credentials_to_verify (cr_changes r) @ [cr_actor r]) = (Ok (), db')"
    and "judge_commit X g (cr_permissions r) vc = Ok vc" and "vc_actor vc = cr_actor r"
    and "added_inboxes vc = ed_added_inboxes d" and "removed_inboxes vc = ed_removed_inboxes d"
    and "readded_installations vc = readded" and "metadata_validation_info vc = cr_info r"
    and "permissions_changed vc = cr_permissions_changed r"
proof -
  from assms obtain r where r: "read_commit X c committer g md gmm = Ok r"
    by (auto simp: steady_state_commit_def split: sum.splits)
  with assms obtain d db1 where d: "from_staged_commit_with_proposers X db c g (check_proposals_enabled (mg_extensions g)) (cr_changes r) = (Ok d, db1)"
    by (auto simp: steady_state_commit_def split: sum.splits prod.splits)
  obtain added removed failed readded where re: "extract_readded_installations (cr_actor r) (pc_added_installations (cr_changes r))
      (pc_removed_installations (cr_changes r)) (hs_extend (=) [] (failed_installations (new_group_membership d))) =
      (added, removed, failed, readded)" by (metis prod_cases4)
  from assms obtain u where m: "expected_diff_matches_commit (expected_installation_diff d) added removed (get_current_group_members g) failed = Ok u"
    by (auto simp: steady_state_commit_def r d re Let_def split: sum.splits)
  with assms obtain w where w: "verify_credentials X (old_group_membership d) (new_group_membership d) db1
      (pc_credentials_to_verify (cr_changes r) @ [cr_actor r]) = (Ok w, db')"
    by (auto simp: steady_state_commit_def r d re Let_def split: sum.splits prod.splits)
  let ?vc = "\<lparr> vc_actor = cr_actor r, vc_proposers = cr_proposers r, added_inboxes = ed_added_inboxes d,
               removed_inboxes = ed_removed_inboxes d, readded_installations = readded, metadata_validation_info = cr_info r,
               installations_changed = (pc_added_installations (cr_changes r) \<noteq> [] \<or> pc_removed_installations (cr_changes r) \<noteq> []),
               permissions_changed = cr_permissions_changed r, vc_dm_members = md_dm_members md \<rparr>"
  from assms have "judge_commit X g (cr_permissions r) ?vc = Ok vc"
    by (simp add: steady_state_commit_def r d re m w Let_def)
  with judge_Ok(1) [OF this] have "judge_commit X g (cr_permissions r) vc = Ok vc" "vc = ?vc" by simp_all
  with that [of r d db1 added removed failed readded] r d re m w show ?thesis by simp
qed

lemma accepted_steady:
  assumes "from_staged_commit X db c committer g = (Ok vc, db')" and "\<not> is_bootstrap_commit c (mg_extensions g)"
  obtains md gmm where "commit_immutable_metadata X (mg_extensions g) = Ok md" and "commit_mutable_metadata X (mg_extensions g) = Ok gmm"
    and "steady_state_commit X db c committer g md gmm = (Ok vc, db')"
  using assms by (auto simp: from_staged_commit_def Let_def rbind_eq_Ok split: option.splits sum.splits if_splits)

lemma expected_Ok:
  assumes "from_staged_commit_with_proposers X db c g enabled ch = (Ok d, db1)"
  shows "extract_group_membership (cx_libs X) (cx_protos X) (mg_extensions g) = Ok (old_group_membership d)"
    and "get_latest_group_membership (cx_libs X) (cx_protos X) c = Ok (new_group_membership d)"
    and "validate_membership_diff (old_group_membership d) (new_group_membership d)
      (gm_diff (old_group_membership d) (new_group_membership d)) = Ok ()"
    and "get_installation_diff (cx_identity X) (cx_network X) db (old_group_membership d) (new_group_membership d)
      (gm_diff (old_group_membership d) (new_group_membership d)) = (Ok (expected_installation_diff d), db1)"
    and "\<exists>md gmm. commit_immutable_metadata X (mg_extensions g) = Ok md \<and> commit_mutable_metadata X (mg_extensions g) = Ok gmm \<and>
      try_map (attributed_inbox md gmm enabled (pc_gce_proposer ch) (pc_added_inbox_proposers ch))
        (md_added_inboxes (gm_diff (old_group_membership d) (new_group_membership d))) = Ok (ed_added_inboxes d) \<and>
      try_map (attributed_inbox md gmm enabled (pc_gce_proposer ch) (pc_removed_inbox_proposers ch))
        (md_removed_inboxes (gm_diff (old_group_membership d) (new_group_membership d))) = Ok (ed_removed_inboxes d)"
  using assms
  by (auto simp: from_staged_commit_with_proposers_def extract_expected_diff_with_proposers_def Let_def rbind_eq_Ok
      split: sum.splits prod.splits if_splits)

lemma membership_diff_Ok:
  assumes "validate_membership_diff old new (gm_diff old new) = Ok u" and "gm_get old i = Some a" and "gm_get new i = Some b"
  shows "a \<le> b"
proof (cases "a = b")
  case False
  have "(i, a) \<in> set (gm_members old)" using assms(2) by (auto simp: gm_get_def hm_get_plain dest: map_of_SomeD)
  with False assms(3) have "i \<in> set (md_updated_inboxes (gm_diff old new))" by (force simp: gm_diff_updated)
  with assms show ?thesis by (auto simp: validate_membership_diff_def updated_inboxes_Ok)
qed simp

lemma changed_inboxes_in_new:
  "i \<in> set (md_added_inboxes (gm_diff old new) @ md_updated_inboxes (gm_diff old new)) \<Longrightarrow> gm_get new i \<noteq> None"
  using gm_get_None [of new i] by (auto simp: gm_diff_added gm_diff_updated)

lemma removed_inboxes_iff:
  "i \<in> set (md_removed_inboxes (gm_diff old new)) \<longleftrightarrow> gm_get old i \<noteq> None \<and> gm_get new i = None"
  by (auto simp: gm_diff_removed gm_get_None)

lemma attributed_Ok:
  assumes "try_map (attributed_inbox md gmm enabled gce by_inbox) is = Ok ibs"
  shows "map ib_inbox_id ibs = is" and "ib \<in> set ibs \<Longrightarrow> ib_is_super_admin ib = gmm_is_super_admin gmm (ib_inbox_id ib)"
proof -
  have "ib_inbox_id ib = i \<and> ib_is_super_admin ib = gmm_is_super_admin gmm i"
    if "attributed_inbox md gmm enabled gce by_inbox i = Ok ib" for i ib
    using that by (auto simp: attributed_inbox_def build_inbox_def build_inbox_with_proposer_def split: option.splits if_splits)
  with assms have all: "list_all2 (\<lambda>i ib. ib_inbox_id ib = i \<and> ib_is_super_admin ib = gmm_is_super_admin gmm i) is ibs"
    by (simp add: try_map_Ok_iff list_all2_mono)
  show "map ib_inbox_id ibs = is" using all by (induction rule: list_all2_induct) simp_all
  show "ib \<in> set ibs \<Longrightarrow> ib_is_super_admin ib = gmm_is_super_admin gmm (ib_inbox_id ib)"
    using all by (induction rule: list_all2_induct) auto
qed

section \<open>The proposals of a commit\<close>

text \<open>The installations that the proposals of a commit add and remove.\<close>

definition keys_added :: "staged_commit \<Rightarrow> bytes list" where
  "keys_added c =
     List.map_filter (\<lambda>q. case qp_proposal q of AddProposal leaf \<Rightarrow> Some (ln_signature_key leaf) | _ \<Rightarrow> None) (queued_proposals c)"

definition keys_removed :: "staged_commit \<Rightarrow> mls_group \<Rightarrow> bytes list" where
  "keys_removed c g =
     List.map_filter (\<lambda>q. case qp_proposal q of RemoveProposal i \<Rightarrow> map_option ln_signature_key (member_at g i) | _ \<Rightarrow> None)
       (queued_proposals c)"

lemma hs_insert_elements [simp]: "set (hs_insert (=) x s) = insert x (set s)"
  by (auto simp: hs_insert_def hs_contains_def list_ex_iff)

lemma proposal_changes_sets:
  assumes "proposal_changes_loop G g md gmm qs ch = Ok ch'"
  shows "set (pc_added_installations ch') = set (pc_added_installations ch) \<union>
      set (List.map_filter (\<lambda>q. case qp_proposal q of AddProposal leaf \<Rightarrow> Some (ln_signature_key leaf) | _ \<Rightarrow> None) qs) \<and>
    set (pc_removed_installations ch') = set (pc_removed_installations ch) \<union>
      set (List.map_filter (\<lambda>q. case qp_proposal q of RemoveProposal i \<Rightarrow> map_option ln_signature_key (member_at g i) | _ \<Rightarrow> None) qs) \<and>
    set (pc_credentials_to_verify ch) \<subseteq> set (pc_credentials_to_verify ch') \<and>
    (\<forall>q leaf. q \<in> set qs \<and> qp_proposal q = UpdateProposal leaf \<longrightarrow>
       (\<exists>p \<in> set (pc_credentials_to_verify ch'). CommitParticipant_from_leaf_node G leaf md gmm = Ok p))"
  using assms
proof (induction qs arbitrary: ch)
  case (Cons q qs)
  then obtain p ch1 where s: "sender_participant G (qp_sender q) g md gmm = Ok p"
    "proposal_change G g md gmm p (qp_proposal q) ch = Ok ch1" "proposal_changes_loop G g md gmm qs ch1 = Ok ch'"
    by (auto simp: rbind_eq_Ok)
  from Cons.IH [OF s(3)] s(2) show ?case
    by (cases "qp_proposal q") (auto simp: proposal_change_def rbind_eq_Ok List.map_filter_simps)
qed (simp add: List.map_filter_simps)

lemma changes_Ok:
  assumes "get_proposal_changes G c g md gmm = Ok ch"
  shows "set (pc_added_installations ch) = set (keys_added c)" and "set (pc_removed_installations ch) = set (keys_removed c g)"
    and "q \<in> set (queued_proposals c) \<Longrightarrow> qp_proposal q = UpdateProposal leaf \<Longrightarrow>
      \<exists>p \<in> set (pc_credentials_to_verify ch). CommitParticipant_from_leaf_node G leaf md gmm = Ok p"
  using proposal_changes_sets [OF assms [unfolded get_proposal_changes_def]]
  by (simp_all add: no_changes_def keys_added_def keys_removed_def)

lemma removed_are_members:
  assumes "k \<in> set (keys_removed c g)"
  shows "k \<in> set (get_current_group_members g)"
proof -
  from assms obtain q where "q \<in> set (queued_proposals c)" and q: "(case qp_proposal q of RemoveProposal i \<Rightarrow> map_option ln_signature_key (member_at g i) | _ \<Rightarrow> None) = Some k"
    unfolding keys_removed_def set_map_filter mem_Collect_eq by (rule bexE)
  then obtain i leaf where "member_at g i = Some leaf" "k = ln_signature_key leaf" by (cases "qp_proposal q") auto
  then have "(i, leaf) \<in> set (mg_members g)" "k = ln_signature_key leaf" by (auto simp: member_at_def dest: map_of_SomeD)
  then show ?thesis by (force simp: get_current_group_members_def)
qed

lemma migrated_info_Ok:
  assumes "migrated_info X c x = Ok (info, registry)"
  obtains new where "load_component_registry (cx_libs X) x = Ok registry"
    and "read_post_commit_component_bytes (cx_libs X) (cx_runtime X) MIN_SUPPORTED_PROTOCOL_VERSION x
      (app_data_update_proposals c) registry = Ok new"
    and "minimum_supported_protocol_version info = Option.bind new from_utf8"
proof -
  from assms obtain registry' new v where new: "load_component_registry (cx_libs X) x = Ok registry'"
    "read_post_commit_component_bytes (cx_libs X) (cx_runtime X) MIN_SUPPORTED_PROTOCOL_VERSION x
      (app_data_update_proposals c) registry' = Ok new"
    and v: "(case new of
              Some bs \<Rightarrow> map_err VcGroupMutableMetadata
                (rbind (ok_or (from_utf8 bs) (MalformedComponent (Some MIN_SUPPORTED_PROTOCOL_VERSION))) (\<lambda>s. Ok (Some s)))
            | None \<Rightarrow> Ok None) = Ok v"
    and "Ok (default_validation_info\<lparr> minimum_supported_protocol_version := v \<rparr>, registry') = Ok (info, registry)"
    unfolding migrated_info_def rbind_eq_Ok map_err_eq_Ok by blast
  then have "registry' = registry" and "minimum_supported_protocol_version info = v" by auto
  with v have "minimum_supported_protocol_version info = Option.bind new from_utf8"
    by (cases new) (auto simp: rbind_eq_Ok)
  with new that \<open>registry' = registry\<close> show ?thesis by blast
qed

lemma read_Ok:
  assumes "read_commit X c committer g md gmm = Ok r"
  shows "get_proposal_changes (cx_protos X) c g md gmm = Ok (cr_changes r)"
    and "extract_commit_participant (cx_protos X) committer g md gmm = Ok (cr_actor r)"
    and "commit_permissions X (mg_extensions g) = Ok (cr_permissions r)"
    and "\<not> is_migrated_extensions (mg_extensions g) \<Longrightarrow>
      extract_metadata_changes (cx_libs X) md gmm (mg_extensions g) (new_extensions c) = Ok (cr_info r) \<and>
      extract_permissions_changed (cx_protos X) (cr_permissions r) (new_extensions c) = Ok (cr_permissions_changed r)"
    and "is_migrated_extensions (mg_extensions g) \<Longrightarrow> \<exists>registry. migrated_info X c (mg_extensions g) = Ok (cr_info r, registry) \<and>
      validate_app_data_update_proposals_in_commit (cx_libs X) (cx_protos X) (cx_runtime X) c g md gmm (Some registry) = Ok ()"
  using assms by (auto simp: read_commit_def Let_def rbind_eq_Ok dest: committer_Ok(1) split: if_splits prod.splits)

lemma verified_credentials:
  assumes "verify_credentials X old new db ps = (Ok u, db')" and "hex_lossless (env_hex (cx_identity X))" and "cache_ok (cx_identity X) db"
  shows "idb_updates db' = idb_updates db \<and> cache_ok (cx_identity X) db' \<and>
    (\<forall>p \<in> set ps. \<exists>n s. credential_sequence_id old new (cp_inbox_id p) = Ok n \<and>
       replay (cx_identity X) db (cp_inbox_id p) n = Ok s \<and> installed s (cp_installation_id p))"
  using assms(1,3)
proof (induction ps arbitrary: db)
  case (Cons p ps)
  then obtain w db1 where one: "verify_credential X old new db p = (Ok w, db1)" and rest: "verify_credentials X old new db1 ps = (Ok u, db')"
    by (auto split: prod.splits sum.splits)
  from one obtain n s where n: "credential_sequence_id old new (cp_inbox_id p) = Ok n"
    "get_association_state (cx_identity X) db (cp_inbox_id p) n = (Ok s, db1)" "installed s (cp_installation_id p)"
    by (auto simp: verify_credential_def rbind_eq_Ok installed_def split: sum.splits prod.splits if_splits)
  note look = cached_lookup [OF assms(2) Cons.prems(2), of "cp_inbox_id p" n, unfolded n(2), simplified]
  have same: "replay (cx_identity X) db1 = replay (cx_identity X) db" by (rule replay_cong [OF look(2)])
  have "replay (cx_identity X) db (cp_inbox_id p) n = Ok s" using look(1) by simp
  with n(1,3) Cons.IH [OF rest look(3)] look(2) show ?case unfolding same by simp
qed simp

section \<open>Whose installations enter the group\<close>

text \<open>
  Property C1. Nobody slips an installation into a group: whatever a commit's proposals say and whoever
  sends them, an installation that an accepted commit adds and that was not in the group already is
  installed, by the replayed identity log, for an inbox of the membership after the commit.
\<close>

theorem added_installations_authentic:
  assumes "hex_lossless (env_hex (cx_identity X))" and "network_newer (cx_network X)" and "db_ok db" and "cache_ok (cx_identity X) db"
    and "from_staged_commit X db c committer g = (Ok vc, db')" and "\<not> is_bootstrap_commit c (mg_extensions g)"
    and "k \<in> set (keys_added c)" and "k \<notin> set (get_current_group_members g)"
  shows "\<exists>old new i before after.
    extract_group_membership (cx_libs X) (cx_protos X) (mg_extensions g) = Ok old \<and>
    get_latest_group_membership (cx_libs X) (cx_protos X) c = Ok new \<and> gm_get new i \<noteq> None \<and>
    inbox_change (cx_identity X) db' old new i before after \<and> installed after k"
proof -
  from assms(5,6) obtain md gmm where "steady_state_commit X db c committer g md gmm = (Ok vc, db')" by (rule accepted_steady)
  then obtain r d db1 added removed failed readded where r: "read_commit X c committer g md gmm = Ok r"
    and d: "from_staged_commit_with_proposers X db c g (check_proposals_enabled (mg_extensions g)) (cr_changes r) = (Ok d, db1)"
    and re: "extract_readded_installations (cr_actor r) (pc_added_installations (cr_changes r)) (pc_removed_installations (cr_changes r))
      (hs_extend (=) [] (failed_installations (new_group_membership d))) = (added, removed, failed, readded)"
    and m: "expected_diff_matches_commit (expected_installation_diff d) added removed (get_current_group_members g) failed = Ok ()"
    and v: "verify_credentials X (old_group_membership d) (new_group_membership d) db1
      (pc_credentials_to_verify (cr_changes r) @ [cr_actor r]) = (Ok (), db')"
    by (rule steady_Ok)
  note sets = changes_Ok [OF read_Ok(1) [OF r]]
  have "k \<in> set added"
    using assms(7,8) readded_laws(2,4) [OF re] removed_are_members [of k c g] unfolding sets by blast
  with m assms(8) have k: "k \<in> set (added_installations (expected_installation_diff d))" by (auto simp: matches_Ok)
  note expected = expected_Ok [OF d]
  note states = installation_diff_states [OF assms(1-4) expected(4), of k]
  with k obtain i before after where i: "i \<in> set (md_added_inboxes (gm_diff (old_group_membership d) (new_group_membership d)) @
      md_updated_inboxes (gm_diff (old_group_membership d) (new_group_membership d)))"
    "inbox_change (cx_identity X) db1 (old_group_membership d) (new_group_membership d) i before after" "installed after k" by blast
  have "cache_ok (cx_identity X) db1" using states by blast
  with verified_credentials [OF v assms(1)] have "idb_updates db' = idb_updates db1" by blast
  then have "inbox_change (cx_identity X) db' (old_group_membership d) (new_group_membership d) i before after"
    using i(2) inbox_change_cong [of db' db1] by metis
  with expected(1,2) i(3) changed_inboxes_in_new [OF i(1)] show ?thesis by blast
qed

section \<open>Who may commit\<close>


section \<open>How the membership moves\<close>

lemma accepted_evaluated:
  assumes "judge_commit X g p vc = Ok vc"
  shows "\<exists>ps. evaluate_commit ps vc"
  using judge_Ok(2,3) [OF assms] by blast

text \<open>
  Property C12. An accepted commit moves the membership forward only: no inbox that stays goes back in its
  identity log, the commit reports exactly the inboxes that join and leave, and no super admin leaves.
\<close>

theorem accepted_membership_moves_forward:
  assumes "from_staged_commit X db c committer g = (Ok vc, db')" and "\<not> is_bootstrap_commit c (mg_extensions g)"
  shows "\<exists>old new gmm. extract_group_membership (cx_libs X) (cx_protos X) (mg_extensions g) = Ok old \<and>
    get_latest_group_membership (cx_libs X) (cx_protos X) c = Ok new \<and> commit_mutable_metadata X (mg_extensions g) = Ok gmm \<and>
    (\<forall>i a b. gm_get old i = Some a \<and> gm_get new i = Some b \<longrightarrow> a \<le> b) \<and>
    map ib_inbox_id (added_inboxes vc) = md_added_inboxes (gm_diff old new) \<and>
    map ib_inbox_id (removed_inboxes vc) = md_removed_inboxes (gm_diff old new) \<and>
    (\<forall>i a. gmm_is_super_admin gmm i \<and> gm_get old i = Some a \<longrightarrow> gm_get new i \<noteq> None)"
proof -
  from assms obtain md gmm where gmm: "commit_mutable_metadata X (mg_extensions g) = Ok gmm"
    and st: "steady_state_commit X db c committer g md gmm = (Ok vc, db')" by (rule accepted_steady)
  from st obtain r d db1 where "read_commit X c committer g md gmm = Ok r"
    and d: "from_staged_commit_with_proposers X db c g (check_proposals_enabled (mg_extensions g)) (cr_changes r) = (Ok d, db1)"
    and j: "judge_commit X g (cr_permissions r) vc = Ok vc"
    and vc: "added_inboxes vc = ed_added_inboxes d" "removed_inboxes vc = ed_removed_inboxes d" by (rule steady_Ok) (rule that; assumption)
  note expected = expected_Ok [OF d]
  let ?diff = "gm_diff (old_group_membership d) (new_group_membership d)"
  from expected(5) gmm obtain md' where
    a: "try_map (attributed_inbox md' gmm (check_proposals_enabled (mg_extensions g)) (pc_gce_proposer (cr_changes r))
        (pc_added_inbox_proposers (cr_changes r))) (md_added_inboxes ?diff) = Ok (ed_added_inboxes d)"
    and m: "try_map (attributed_inbox md' gmm (check_proposals_enabled (mg_extensions g)) (pc_gce_proposer (cr_changes r))
        (pc_removed_inbox_proposers (cr_changes r))) (md_removed_inboxes ?diff) = Ok (ed_removed_inboxes d)" by auto
  obtain ps where "evaluate_commit ps vc" using accepted_evaluated [OF j] by blast
  then have "\<forall>ib \<in> set (ed_removed_inboxes d). \<not> ib_is_super_admin ib"
    by (simp add: evaluate_commit_def Let_def list_ex_iff vc)
  with attributed_Ok [OF m] have "\<forall>i \<in> set (md_removed_inboxes ?diff). \<not> gmm_is_super_admin gmm i" by (metis image_iff set_map)
  then have "\<forall>i a. gmm_is_super_admin gmm i \<and> gm_get (old_group_membership d) i = Some a \<longrightarrow> gm_get (new_group_membership d) i \<noteq> None"
    by (metis removed_inboxes_iff option.distinct(1))
  with expected(1,2) gmm membership_diff_Ok [OF expected(3)] attributed_Ok(1) [OF a] attributed_Ok(1) [OF m] show ?thesis
    unfolding vc by blast
qed

section \<open>Roles\<close>

lemma metadata_changes_Ok:
  assumes "extract_metadata_changes L md old x x' = Ok info"
    and "find_mutable_metadata_extension x \<noteq> find_mutable_metadata_extension x'"
  obtains bs new where "find_mutable_metadata_extension x' = Some bs" and "gmm_from_bytes L bs = Ok new"
    and "super_admins_added info = get_added_members (gmm_super_admin_list old) (gmm_super_admin_list new) md old"
    and "super_admins_removed info = get_removed_members (gmm_super_admin_list old) (gmm_super_admin_list new) md old"
  using assms by (auto simp: extract_metadata_changes_def rbind_eq_Ok split: if_splits)

lemma no_members_changed:
  assumes "get_added_members old new md gmm = []" and "get_removed_members old new md gmm = []"
  shows "set new = set old"
  using assms by (auto simp: get_added_members_def get_removed_members_def filter_empty_conv)

text \<open>
  Property C13. In a group that was not migrated only a super admin can touch the super admins and the
  policies: after any other member's accepted commit both are what they were.
\<close>

theorem roles_need_super_admin:
  assumes "from_staged_commit X db c committer g = (Ok vc, db')" and "\<not> is_bootstrap_commit c (mg_extensions g)"
    and "\<not> is_migrated_extensions (mg_extensions g)" and "\<not> cp_is_super_admin (vc_actor vc)"
  shows "\<exists>gmm gmm' p p'. gmm_from_extensions (cx_libs X) (mg_extensions g) = Ok gmm \<and>
    gmm_from_extensions (cx_libs X) (new_extensions c) = Ok gmm' \<and> set (gmm_super_admin_list gmm') = set (gmm_super_admin_list gmm) \<and>
    GroupMutablePermissions_from_extensions (cx_protos X) (mg_extensions g) = Ok p \<and>
    GroupMutablePermissions_from_extensions (cx_protos X) (new_extensions c) = Ok p' \<and> permissions_eq p p'"
proof -
  from assms(1,2) obtain md gmm where gmm: "commit_mutable_metadata X (mg_extensions g) = Ok gmm"
    and st: "steady_state_commit X db c committer g md gmm = (Ok vc, db')" by (rule accepted_steady)
  from st obtain r where r: "read_commit X c committer g md gmm = Ok r" and j: "judge_commit X g (cr_permissions r) vc = Ok vc"
    and vc: "metadata_validation_info vc = cr_info r" "permissions_changed vc = cr_permissions_changed r" by (rule steady_Ok) (rule that; assumption)
  obtain ps where "evaluate_commit ps vc" using accepted_evaluated [OF j] by blast
  with assms(4) have none: "super_admins_added (cr_info r) = []" "super_admins_removed (cr_info r) = []" "\<not> cr_permissions_changed r"
    by (auto simp: evaluate_commit_def Let_def vc)
  from gmm assms(3) have old: "gmm_from_extensions (cx_libs X) (mg_extensions g) = Ok gmm" by (simp add: commit_mutable_metadata_def)
  note changes = read_Ok(4) [OF r assms(3)]
  have "\<exists>gmm'. gmm_from_extensions (cx_libs X) (new_extensions c) = Ok gmm' \<and> set (gmm_super_admin_list gmm') = set (gmm_super_admin_list gmm)"
  proof (cases "find_mutable_metadata_extension (mg_extensions g) = find_mutable_metadata_extension (new_extensions c)")
    case True
    with old show ?thesis by (simp add: gmm_from_extensions_def)
  next
    case False
    from changes have "extract_metadata_changes (cx_libs X) md gmm (mg_extensions g) (new_extensions c) = Ok (cr_info r)" ..
    then obtain bs gmm' where "find_mutable_metadata_extension (new_extensions c) = Some bs" "gmm_from_bytes (cx_libs X) bs = Ok gmm'"
      "super_admins_added (cr_info r) = get_added_members (gmm_super_admin_list gmm) (gmm_super_admin_list gmm') md gmm"
      "super_admins_removed (cr_info r) = get_removed_members (gmm_super_admin_list gmm) (gmm_super_admin_list gmm') md gmm"
      using False by (rule metadata_changes_Ok)
    with none(1,2) no_members_changed [of "gmm_super_admin_list gmm" _ md gmm] show ?thesis
      by (auto simp: gmm_from_extensions_def)
  qed
  moreover have "GroupMutablePermissions_from_extensions (cx_protos X) (mg_extensions g) = Ok (cr_permissions r)"
    using read_Ok(3) [OF r] assms(3) by (simp add: commit_permissions_def)
  moreover from changes none(3) obtain p' where "GroupMutablePermissions_from_extensions (cx_protos X) (new_extensions c) = Ok p'"
    "permissions_eq (cr_permissions r) p'" by (auto simp: extract_permissions_changed_def rbind_eq_Ok)
  ultimately show ?thesis using old by blast
qed

section \<open>The version floor\<close>

text \<open>
  Property C6. The version floor only rises: if a migrated group has a readable floor and a client
  accepts a commit, then in the dictionary after the commit's updates there is still a readable floor,
  it is not below the old one, and it is not above the version of the client.
\<close>

theorem floor_only_rises:
  assumes "from_staged_commit X db c committer g = (Ok vc, db')" and "is_migrated_extensions (mg_extensions g)"
    and "dict_get (mg_extensions g) MIN_SUPPORTED_PROTOCOL_VERSION = Some bs" and "floor_version (cx_libs X) bs = Some v"
    and "load_component_registry (cx_libs X) (mg_extensions g) = Ok registry"
    and "apply_in_order (cx_libs X) (cx_runtime X) registry (app_data_update_proposals c) (dict_get (mg_extensions g)) = Ok d"
  shows "\<exists>bs' v'. d MIN_SUPPORTED_PROTOCOL_VERSION = Some bs' \<and> floor_version (cx_libs X) bs' = Some v' \<and> v \<le> v' \<and> v' \<le> cx_semver X"
proof -
  have "\<not> is_bootstrap_commit c (mg_extensions g)" using assms(2) by (simp add: is_bootstrap_commit_def check_proposals_enabled_def)
  with assms(1) obtain md gmm where "steady_state_commit X db c committer g md gmm = (Ok vc, db')" by (rule accepted_steady)
  then obtain r where r: "read_commit X c committer g md gmm = Ok r" and j: "judge_commit X g (cr_permissions r) vc = Ok vc"
    and vc: "metadata_validation_info vc = cr_info r" by (rule steady_Ok) (rule that; assumption)
  let ?read = "read_post_commit_component_bytes (cx_libs X) (cx_runtime X) MIN_SUPPORTED_PROTOCOL_VERSION (mg_extensions g)
      (app_data_update_proposals c) registry"
  obtain registry' where info: "migrated_info X c (mg_extensions g) = Ok (cr_info r, registry')"
    and accepted: "validate_app_data_update_proposals_in_commit (cx_libs X) (cx_protos X) (cx_runtime X) c g md gmm (Some registry') = Ok ()"
    using read_Ok(5) [OF r assms(2)] by blast
  from info obtain new where "load_component_registry (cx_libs X) (mg_extensions g) = Ok registry'"
    and "read_post_commit_component_bytes (cx_libs X) (cx_runtime X) MIN_SUPPORTED_PROTOCOL_VERSION (mg_extensions g)
      (app_data_update_proposals c) registry' = Ok new"
    and min: "minimum_supported_protocol_version (cr_info r) = Option.bind new from_utf8" by (rule migrated_info_Ok)
  with assms(5) have same: "registry' = registry" and new: "?read = Ok new" by auto
  from accepted have "list_all (update_accepted (cx_libs X) (cx_protos X) (cx_runtime X) g md gmm registry) (queued_app_data_updates c)"
    unfolding in_commit_Ok same by auto
  from floor_kept [OF this assms(3,4) new] obtain bs' v' where f: "new = Some bs'" "floor_version (cx_libs X) bs' = Some v'" "v \<le> v'"
    by blast
  then obtain s where s: "from_utf8 bs' = Some s" "semver_parse (cx_libs X) s = Some v'" by (auto simp: floor_version_def bind_eq_Some_conv)
  with min f(1) have "minimum_supported_protocol_version (metadata_validation_info vc) = Some s" by (simp add: vc)
  from judge_Ok(4) [OF j this] s(2) have "v' \<le> cx_semver X" by simp
  moreover have "new = d MIN_SUPPORTED_PROTOCOL_VERSION"
    using post_commit_in_order [OF assms(6), of MIN_SUPPORTED_PROTOCOL_VERSION] new
    by (auto simp: read_post_commit_component_bytes_def Let_def read_from_app_data_dict_def split: if_splits)
  ultimately show ?thesis using f by blast
qed

end
