(* ===== verification/Commit_Instance.thy ===== *)
theory Commit_Instance
  imports Commit_Verdict Bootstrap_Instance
begin

text \<open>
  Two commits that a client accepts: one that brings a new installation of a member into a group that was
  not migrated, and one that raises the version floor of a migrated group. They show that what the
  theorems on accepted commits assume can hold together.
\<close>

section \<open>An identity with two installations\<close>

text \<open>The first update creates the inbox with installation 7, the second adds installation 8.\<close>

abbreviation crew_inbox :: string where
  "crew_inbox \<equiv> Identity_Updates.demo_inbox"

definition crew_u1 :: unverified_identity_update where
  "crew_u1 = \<lparr> vi_inbox_id = crew_inbox, vi_client_timestamp_ns = 1, vi_actions =
     [VCreateInbox \<lparr> vc_unsigned = \<lparr> uc_nonce = 0, uc_account_identifier = IdEthereum demo_address \<rparr>,
        vc_initial_signature = URecoverableEcdsa (replicate 65 1) \<rparr>,
      VAddAssociation \<lparr> va_unsigned = \<lparr> ua_new_member_identifier = Installation [7] \<rparr>,
        va_new_signature = UInstallationKey (replicate 64 2) [7],
        va_existing_signature = URecoverableEcdsa (replicate 65 3) \<rparr>] \<rparr>"

definition crew_u2 :: unverified_identity_update where
  "crew_u2 = \<lparr> vi_inbox_id = crew_inbox, vi_client_timestamp_ns = 2, vi_actions =
     [VAddAssociation \<lparr> va_unsigned = \<lparr> ua_new_member_identifier = Installation [8] \<rparr>,
        va_new_signature = UInstallationKey (replicate 64 5) [8],
        va_existing_signature = URecoverableEcdsa (replicate 65 4) \<rparr>] \<rparr>"

definition crew_env :: identity_env where
  "crew_env = demo_env\<lparr> prost_decode := (\<lambda>b. Some (UnverifiedIdentityUpdate_to_proto plain_crypto (if b = [1] then crew_u1 else crew_u2))) \<rparr>"

definition crew_added :: "u8 \<Rightarrow> u8 \<Rightarrow> u8 \<Rightarrow> action" where
  "crew_added k a b = AddAssociation \<lparr> new_member_signature = \<lparr> signer = Installation [k], sig_kind = InstallationKey,
       raw_bytes = replicate 64 a, sig_chain_id = None \<rparr>,
     new_member_identifier = Installation [k], existing_member_signature = demo_ecdsa_sig b \<rparr>"

definition crew_v1 :: identity_update where
  "crew_v1 = \<lparr> iu_inbox_id = crew_inbox, iu_client_timestamp_ns = 1, actions =
     [CreateInbox \<lparr> ci_nonce = 0, ci_account_identifier = IdEthereum demo_address,
        initial_identifier_signature = demo_ecdsa_sig 1 \<rparr>, crew_added 7 2 3] \<rparr>"

definition crew_v2 :: identity_update where
  "crew_v2 = \<lparr> iu_inbox_id = crew_inbox, iu_client_timestamp_ns = 2, actions = [crew_added 8 5 4] \<rparr>"

definition crew_member :: "u8 \<Rightarrow> u64 \<Rightarrow> member_identifier \<times> member" where
  "crew_member k t = (Installation [k], Member_new (Installation [k]) (Some (Ethereum demo_address)) (Some t) None)"

definition crew_s1 :: association_state where
  "crew_s1 = \<lparr> inbox_id = crew_inbox,
     members = [(Ethereum demo_address, Member_new (Ethereum demo_address) None None None), crew_member 7 1],
     recovery_identifier = IdEthereum demo_address, seen_signatures = [replicate 65 1, replicate 65 3, replicate 64 2] \<rparr>"

definition crew_s2 :: association_state where
  "crew_s2 = crew_s1\<lparr> members := members crew_s1 @ [crew_member 8 2],
     seen_signatures := seen_signatures crew_s1 @ [replicate 65 4, replicate 64 5] \<rparr>"

lemma crew_env_hex: "env_hex crew_env = plain_crypto"
  using demo_env_hex by (simp add: crew_env_def)

lemma crew_lossless: "hex_lossless (env_hex crew_env)"
  unfolding crew_env_hex by (rule plain_hex_lossless)

lemma crew_cache_ok: "cache_ok crew_env demo_db2"
  by (simp add: cache_ok_def read_from_cache_def demo_db2_def)

lemma crew_v: "UnverifiedIdentityUpdate_to_verified demo_libs crew_u1 = Ok crew_v1"
  "UnverifiedIdentityUpdate_to_verified demo_libs crew_u2 = Ok crew_v2"
proof -
  have low: "to_lower_s demo_libs (replicate 65 3) = Ok (replicate 65 3)" "to_lower_s demo_libs (replicate 65 4) = Ok (replicate 65 4)"
    by code_simp+
  have "mi_eth (h160addr_to_string demo_libs (replicate 40 97)) = Ok (Ethereum demo_address)" by code_simp
  with low have e: "UnverifiedSignature_to_verified demo_libs msg (URecoverableEcdsa (replicate 65 3)) = Ok (demo_ecdsa_sig 3)"
    "UnverifiedSignature_to_verified demo_libs msg (URecoverableEcdsa (replicate 65 4)) = Ok (demo_ecdsa_sig 4)" for msg
    by (simp_all add: from_recoverable_ecdsa_def) (simp_all add: demo_libs_def demo_ecdsa_sig_def)
  have k: "UnverifiedSignature_to_verified demo_libs msg (UInstallationKey (replicate 64 5) [8]) =
      Ok \<lparr> signer = Installation [8], sig_kind = InstallationKey, raw_bytes = replicate 64 5, sig_chain_id = None \<rparr>" for msg
    by (simp add: from_installation_key_def demo_libs_def)
  show "UnverifiedIdentityUpdate_to_verified demo_libs crew_u1 = Ok crew_v1"
    by (simp add: UnverifiedIdentityUpdate_to_verified_def crew_u1_def crew_v1_def crew_added_def e demo_ecdsa demo_ed25519
        demo_ecdsa_sig_def del: UnverifiedSignature_to_verified.simps)
  show "UnverifiedIdentityUpdate_to_verified demo_libs crew_u2 = Ok crew_v2"
    by (simp add: UnverifiedIdentityUpdate_to_verified_def crew_u2_def crew_v2_def crew_added_def e k
        del: UnverifiedSignature_to_verified.simps)
qed

lemma crew_verified:
  "verified_log crew_env [demo_row1] = Ok [crew_v1]" "verified_log crew_env [demo_row2] = Ok [crew_v2]"
  "verified_log crew_env [demo_row1, demo_row2] = Ok [crew_v1, crew_v2]"
proof -
  have "to_unverified crew_env demo_row1 = Ok crew_u1" "to_unverified crew_env demo_row2 = Ok crew_u2"
    by (simp_all only: to_unverified_def crew_env_hex) code_simp+
  then show "verified_log crew_env [demo_row1] = Ok [crew_v1]" "verified_log crew_env [demo_row2] = Ok [crew_v2]"
    "verified_log crew_env [demo_row1, demo_row2] = Ok [crew_v1, crew_v2]"
    by (simp_all add: verified_log_def verify_updates_def) (simp_all add: crew_env_def demo_env_def crew_v)
qed

lemma crew_states: "get_state plain_crypto [crew_v1] = Ok crew_s1" "get_state plain_crypto [crew_v1, crew_v2] = Ok crew_s2"
  "apply_updates plain_crypto [crew_v2] crew_s1 = Ok crew_s2"
  by code_simp+

lemma crew_replay:
  assumes "idb_updates db = [demo_row1, demo_row2]"
  shows "replay crew_env db crew_inbox (Some 1) = Ok crew_s1" and "replay crew_env db crew_inbox (Some 2) = Ok crew_s2"
proof -
  have "get_identity_updates demo_db2 crew_inbox None (Some 1) = [demo_row1]"
    "get_identity_updates demo_db2 crew_inbox None (Some 2) = [demo_row1, demo_row2]"
    by code_simp+
  moreover have "replay crew_env db = replay crew_env demo_db2" using assms by (intro replay_cong) (simp add: demo_db2_def)
  moreover have "si_sequence_id demo_row1 = 1" "si_sequence_id demo_row2 = 2" by (simp_all add: demo_row1_def demo_row2_def)
  ultimately show "replay crew_env db crew_inbox (Some 1) = Ok crew_s1" "replay crew_env db crew_inbox (Some 2) = Ok crew_s2"
    using crew_env_hex by (simp_all add: replay_def crew_verified crew_states)
qed

lemma crew_lookup:
  assumes "idb_updates db = [demo_row1, demo_row2]" and "cache_ok crew_env db" and "n = 1 \<and> s = crew_s1 \<or> n = 2 \<and> s = crew_s2"
  obtains db1 where "get_association_state crew_env db crew_inbox (Some n) = (Ok s, db1)"
    and "idb_updates db1 = [demo_row1, demo_row2]" and "cache_ok crew_env db1"
  using cached_lookup [OF crew_lossless assms(2), of crew_inbox "Some n"] crew_replay [OF assms(1)] assms(1,3) that
  by (metis prod.collapse)

lemma crew_diff:
  obtains db2 where "get_association_state_diff crew_env demo_db2 crew_inbox (Some 1) (Some 2) = (Ok (st_diff crew_s1 crew_s2), db2)"
    and "idb_updates db2 = [demo_row1, demo_row2]" and "cache_ok crew_env db2"
proof -
  obtain db1 where db1: "get_association_state crew_env demo_db2 crew_inbox (Some 1) = (Ok crew_s1, db1)"
      "idb_updates db1 = [demo_row1, demo_row2]"
    by (rule crew_lookup [OF _ crew_cache_ok, of 1 crew_s1]) (simp_all add: demo_db2_def)
  have "get_identity_updates demo_db2 crew_inbox (Some 1) (Some 2) = [demo_row2]" by code_simp
  then have "get_identity_updates db1 crew_inbox (Some 1) (Some 2) = [demo_row2]"
    using db1(2) by (simp add: get_identity_updates_def demo_db2_def)
  moreover have "si_sequence_id demo_row2 = 2" by (simp add: demo_row2_def)
  ultimately obtain db2 where d: "get_association_state_diff crew_env demo_db2 crew_inbox (Some 1) (Some 2) = (Ok (st_diff crew_s1 crew_s2), db2)"
    using crew_env_hex crew_states(3) by (simp add: get_association_state_diff_def db1(1) crew_verified)
  from diff_is_replay_diff [OF crew_lossless crew_cache_ok d] that [OF d] show ?thesis by (simp add: demo_db2_def)
qed

section \<open>A commit that brings the second installation\<close>

definition crew_protos :: group_protos where
  "crew_protos = legacy_protos\<lparr> mls_credential_decode := (\<lambda>_. Some crew_inbox),
     membership_proto_decode := (\<lambda>bs. Some ([(crew_inbox, if bs = [] then 1 else 2)], [])) \<rparr>"

definition crew_context :: "nat commit_context" where
  "crew_context = \<lparr> cx_libs = legacy_libs, cx_protos = crew_protos, cx_runtime = [], cx_identity = crew_env,
     cx_network = demo_net, cx_semver = 0, cx_version = [] \<rparr>"

definition crew_leaf :: "u8 \<Rightarrow> leaf_node" where
  "crew_leaf k = \<lparr> ln_signature_key = [k], ln_credential = BasicCredential [] \<rparr>"

definition crew_group :: mls_group where
  "crew_group = \<lparr> mg_group_id = replicate 16 0, mg_extensions = legacy_extensions, mg_members = [(0, crew_leaf 7)] \<rparr>"

definition crew_extensions :: extensions where
  "crew_extensions = legacy_extensions\<lparr> unknown_extensions :=
     [(MUTABLE_METADATA_EXTENSION_ID, []), (GROUP_MEMBERSHIP_EXTENSION_ID, [1]), (GROUP_PERMISSIONS_EXTENSION_ID, [])] \<rparr>"

definition crew_commit :: staged_commit where
  "crew_commit = \<lparr> queued_proposals = map (\<lambda>p. \<lparr> qp_sender = MemberSender 0, qp_proposal = p \<rparr>)
     [GroupContextExtensionsProposal crew_extensions, AddProposal (crew_leaf 8)], new_extensions = crew_extensions \<rparr>"

definition crew_actor :: commit_participant where
  "crew_actor = CommitParticipant_build crew_inbox [7] legacy_metadata legacy_mutable_metadata"

definition crew_membership :: "u64 \<Rightarrow> group_membership" where
  "crew_membership n = \<lparr> gm_members = [(crew_inbox, n)], failed_installations = [] \<rparr>"

definition crew_changes :: proposal_changes where
  "crew_changes = no_changes\<lparr> pc_added_installations := [[8]], pc_added_inbox_proposers := [(crew_inbox, crew_actor)],
     pc_gce_proposer := Some crew_actor \<rparr>"

lemma crew_context_sel [simp]:
  "cx_libs crew_context = legacy_libs" "cx_protos crew_context = crew_protos" "cx_runtime crew_context = []"
  "cx_identity crew_context = crew_env" "cx_network crew_context = demo_net" "cx_semver crew_context = 0"
  by (simp_all add: crew_context_def)

lemma crew_plain_member: "cp_is_super_admin crew_actor = False" "cp_inbox_id crew_actor = crew_inbox" "cp_installation_id crew_actor = [7]"
proof -
  have "crew_inbox \<noteq> legacy_inbox_hex" by code_simp
  then show "cp_is_super_admin crew_actor = False" "cp_inbox_id crew_actor = crew_inbox" "cp_installation_id crew_actor = [7]"
    by (simp_all add: crew_actor_def CommitParticipant_build_def gmm_is_super_admin_def legacy_mutable_metadata_def)
qed

lemma crew_not_migrated [simp]: "\<not> is_migrated_extensions legacy_extensions" "\<not> is_migrated_extensions crew_extensions"
  by (simp_all add: is_migrated_extensions_def dict_get_def legacy_extensions_def crew_extensions_def)

lemma crew_mutable: "commit_mutable_metadata crew_context legacy_extensions = Ok legacy_mutable_metadata"
  by (simp add: commit_mutable_metadata_def legacy_gmm legacy_mutable_metadata_def)

lemma crew_immutable: "commit_immutable_metadata crew_context legacy_extensions = Ok legacy_metadata"
  by (simp add: commit_immutable_metadata_def read_immutable_metadata_def metadata_from_extensions_def metadata_from_bytes_def
      metadata_from_proto_def legacy_extensions_def crew_protos_def legacy_protos_def conversation_type_of_i32_def legacy_metadata_def
      is_migrated_extensions_def dict_get_def)

lemma crew_memberships:
  "extract_group_membership legacy_libs crew_protos legacy_extensions = Ok (crew_membership 1)"
  "get_latest_group_membership legacy_libs crew_protos crew_commit = Ok (crew_membership 2)"
  by (simp_all add: extract_group_membership_def get_latest_group_membership_def read_group_membership_from_dict_def crew_commit_def
      find_extension_def legacy_extensions_def crew_extensions_def extension_id_defs crew_protos_def crew_membership_def
      is_migrated_extensions_def dict_get_def)

lemma crew_participant:
  "extract_commit_participant crew_protos 0 crew_group legacy_metadata legacy_mutable_metadata = Ok crew_actor"
  by (simp add: extract_commit_participant_def member_at_def crew_group_def crew_leaf_def inbox_id_from_credential_def crew_protos_def
      crew_actor_def)

lemma crew_proposals:
  "get_proposal_changes crew_protos crew_commit crew_group legacy_metadata legacy_mutable_metadata = Ok crew_changes"
  "extract_committer_and_proposers crew_protos crew_commit 0 crew_group legacy_metadata legacy_mutable_metadata = Ok (crew_actor, [crew_actor])"
proof -
  have "inbox_id_from_credential crew_protos (BasicCredential []) = Ok crew_inbox" by (simp add: inbox_id_from_credential_def crew_protos_def)
  then show "get_proposal_changes crew_protos crew_commit crew_group legacy_metadata legacy_mutable_metadata = Ok crew_changes"
    by (simp add: get_proposal_changes_def crew_commit_def sender_participant_def crew_participant proposal_change_def crew_leaf_def
        crew_changes_def no_changes_def hs_insert_def hs_contains_def hm_contains_key_def)
  show "extract_committer_and_proposers crew_protos crew_commit 0 crew_group legacy_metadata legacy_mutable_metadata = Ok (crew_actor, [crew_actor])"
    by (simp add: extract_committer_and_proposers_def crew_commit_def crew_participant)
qed

lemma crew_permissions:
  obtains q where "GroupMutablePermissions_from_extensions crew_protos legacy_extensions = Ok q"
    and "GroupMutablePermissions_from_extensions crew_protos crew_extensions = Ok q" and "permissions_eq q q"
proof -
  have "is_ok (PolicySet_from_proto demo_policies)" by code_simp
  then obtain ps where ps: "PolicySet_from_proto demo_policies = Ok ps" by (auto simp: is_ok_iff)
  then have "update_metadata_policy ps = [(''group_name'', metadata_allow)]"
    by (auto simp: PolicySet_from_proto_def demo_policies_def rbind_eq_Ok MetadataPolicies_try_from_def metadata_decode_def hm_from_iter_def metadata_allow_def)
  then have "permissions_eq \<lparr> gmp_policies = ps \<rparr> \<lparr> gmp_policies = ps \<rparr>"
    by (simp add: permissions_eq_def Let_def hm_eq_def hm_get_plain)
  with ps that [of "\<lparr> gmp_policies = ps \<rparr>"] show ?thesis
    by (simp add: GroupMutablePermissions_from_extensions_def GroupMutablePermissions_from_bytes_def GroupMutablePermissions_from_proto_def
        find_extension_def legacy_extensions_def crew_extensions_def extension_id_defs crew_protos_def legacy_protos_def)
qed

lemma crew_reading:
  obtains r where "read_commit crew_context crew_commit 0 crew_group legacy_metadata legacy_mutable_metadata = Ok r"
    and "cr_changes r = crew_changes" and "cr_actor r = crew_actor" and "cr_info r = default_validation_info"
    and "\<not> cr_permissions_changed r"
proof -
  obtain q where q: "GroupMutablePermissions_from_extensions crew_protos legacy_extensions = Ok q"
    "GroupMutablePermissions_from_extensions crew_protos crew_extensions = Ok q" "permissions_eq q q" by (rule crew_permissions)
  have "find_mutable_metadata_extension legacy_extensions = Some []" "find_mutable_metadata_extension crew_extensions = Some []"
    by (simp_all add: find_mutable_metadata_extension_def find_extension_def legacy_extensions_def crew_extensions_def extension_id_defs)
  moreover have "gmm_attribute legacy_mutable_metadata MinimumSupportedProtocolVersion = None"
    by (simp add: gmm_attribute_def legacy_mutable_metadata_def)
  ultimately have info: "extract_metadata_changes legacy_libs legacy_metadata legacy_mutable_metadata legacy_extensions crew_extensions =
      Ok default_validation_info"
    by (simp add: extract_metadata_changes_def default_validation_info_def)
  have none: "reject_psk_proposals crew_commit = Ok ()" "queued_app_data_updates crew_commit = []"
    by (simp_all add: reject_psk_proposals_def queued_app_data_updates_def crew_commit_def List.map_filter_simps)
  have x: "mg_extensions crew_group = legacy_extensions" "new_extensions crew_commit = crew_extensions"
    by (simp_all add: crew_group_def crew_commit_def)
  have short: "check_field_lengths (metadata_field_changes default_validation_info) = Ok ()"
    by (simp add: default_validation_info_def)
  have "read_commit crew_context crew_commit 0 crew_group legacy_metadata legacy_mutable_metadata =
      Ok \<lparr> cr_permissions = q, cr_info = default_validation_info, cr_permissions_changed = False, cr_actor = crew_actor,
        cr_proposers = [crew_actor], cr_changes = crew_changes \<rparr>"
    by (simp add: read_commit_def Let_def x commit_permissions_def q info short extract_permissions_changed_def crew_proposals
        none validate_app_data_update_proposals_in_commit_def)
  with that show ?thesis by simp
qed

lemma crew_accepted:
  obtains vc db' where "from_staged_commit crew_context demo_db2 crew_commit 0 crew_group = (Ok vc, db')" and "vc_actor vc = crew_actor"
proof -
  have x: "mg_extensions crew_group = legacy_extensions" "length (mg_group_id crew_group) = 16" by (simp_all add: crew_group_def)
  obtain r where r: "read_commit crew_context crew_commit 0 crew_group legacy_metadata legacy_mutable_metadata = Ok r"
    "cr_changes r = crew_changes" "cr_actor r = crew_actor" "cr_info r = default_validation_info" "\<not> cr_permissions_changed r"
    by (rule crew_reading)
  have md: "gm_diff (crew_membership 1) (crew_membership 2) = \<lparr> md_added_inboxes = [], md_removed_inboxes = [], md_updated_inboxes = [crew_inbox] \<rparr>"
    by code_simp
  have seq: "gm_get (crew_membership 1) crew_inbox = Some 1" "gm_get (crew_membership 2) crew_inbox = Some 2"
    by (simp_all add: crew_membership_def gm_get_def hm_get_plain)
  have need: "filter_inbox_ids_needing_updates demo_db2 [(crew_inbox, 2)] = []"
    by (simp add: filter_inbox_ids_needing_updates_def get_latest_sequence_id_def demo_db2_def demo_row1_def demo_row2_def)
  obtain db2 where db2: "get_association_state_diff crew_env demo_db2 crew_inbox (Some 1) (Some 2) = (Ok (st_diff crew_s1 crew_s2), db2)"
    "idb_updates db2 = [demo_row1, demo_row2]" "cache_ok crew_env db2" by (rule crew_diff)
  let ?idiff = "\<lparr> added_installations = [[8]], removed_installations_set = [] \<rparr>"
  have sets: "new_installations (st_diff crew_s1 crew_s2) = [[8]]" "removed_installations (st_diff crew_s1 crew_s2) = []" by code_simp+
  have diff: "get_installation_diff crew_env demo_net demo_db2 (crew_membership 1) (crew_membership 2)
      (gm_diff (crew_membership 1) (crew_membership 2)) = (Ok ?idiff, db2)"
    by (simp add: get_installation_diff_def md seq need load_identity_updates_def db2(1) starting_sequence_id_def ending_sequence_id_def sets
        hs_extend_def hs_insert_def hs_contains_def)
  let ?d = "\<lparr> old_group_membership = crew_membership 1, new_group_membership = crew_membership 2, expected_installation_diff = ?idiff,
      ed_added_inboxes = [], ed_removed_inboxes = [] \<rparr>"
  have psk: "reject_psk_proposals crew_commit = Ok ()" by (simp add: reject_psk_proposals_def crew_commit_def)
  have d: "from_staged_commit_with_proposers crew_context demo_db2 crew_commit crew_group False crew_changes = (Ok ?d, db2)"
    by (simp add: from_staged_commit_with_proposers_def extract_expected_diff_with_proposers_def x crew_immutable crew_mutable psk
        crew_memberships Let_def diff [unfolded md] validate_membership_diff_def seq md)
  obtain db3 where db3: "get_association_state crew_env db2 crew_inbox (Some 2) = (Ok crew_s2, db3)"
    by (rule crew_lookup [OF db2(2,3), of 2 crew_s2]) simp_all
  have in_state: "st_get crew_s2 (Installation [7]) \<noteq> None" by code_simp
  have "credential_sequence_id (crew_membership 1) (crew_membership 2) crew_inbox = Ok (Some 2)"
    by (simp add: credential_sequence_id_def seq)
  with db3 in_state have v: "verify_credentials crew_context (crew_membership 1) (crew_membership 2) db2 [crew_actor] = (Ok (), db3)"
    by (simp add: verify_credential_def crew_plain_member)
  let ?vc = "\<lparr> vc_actor = crew_actor, vc_proposers = cr_proposers r, added_inboxes = [], removed_inboxes = [], readded_installations = [],
      metadata_validation_info = default_validation_info, installations_changed = True, permissions_changed = False,
      vc_dm_members = md_dm_members legacy_metadata \<rparr>"
  obtain q where "GroupMutablePermissions_from_extensions crew_protos legacy_extensions = Ok q" by (rule crew_permissions)
  moreover have "evaluate_commit ps ?vc" for ps
    by (simp add: evaluate_commit_def Let_def default_validation_info_def evaluate_policy_with_proposer_def evaluate_metadata_policy_def)
  ultimately have j: "judge_commit crew_context crew_group (cr_permissions r) ?vc = Ok ?vc"
    by (simp add: judge_commit_def x extract_group_permissions_def default_validation_info_def)
  have enabled: "check_proposals_enabled legacy_extensions = False" by (simp add: check_proposals_enabled_def)
  have kept: "extract_readded_installations crew_actor [[8]] [] [] = ([[8]], [], [], [])"
    by (simp add: extract_readded_installations_def crew_plain_member)
  have parts: "pc_added_installations crew_changes = [[8]]" "pc_removed_installations crew_changes = []"
    "pc_credentials_to_verify crew_changes = []" "failed_installations (crew_membership 2) = []" "hs_extend (=) [] [] = ([] :: bytes list)"
    by (simp_all add: crew_changes_def no_changes_def crew_membership_def hs_extend_def)
  have matches: "expected_diff_matches_commit ?idiff [[8]] [] (get_current_group_members crew_group) [] = Ok ()"
    by (simp add: matches_Ok)
  have "steady_state_commit crew_context demo_db2 crew_commit 0 crew_group legacy_metadata legacy_mutable_metadata = (Ok ?vc, db3)"
    using r(5) by (simp add: steady_state_commit_def r(1-4) x enabled d parts kept matches v j del: verify_credentials.simps)
  moreover have "\<not> is_bootstrap_commit crew_commit legacy_extensions"
    by (simp add: is_bootstrap_commit_def crew_commit_def)
  ultimately have "from_staged_commit crew_context demo_db2 crew_commit 0 crew_group = (Ok ?vc, db3)"
    by (simp add: from_staged_commit_def x crew_immutable crew_mutable)
  with that show ?thesis by simp
qed

section \<open>What the theorems say of it\<close>

lemma crew_db_ok: "db_ok demo_db2"
  by (auto simp: db_ok_def demo_db2_def demo_row1_def demo_row2_def)

lemma crew_steady: "\<not> is_bootstrap_commit crew_commit (mg_extensions crew_group)"
  by (simp add: is_bootstrap_commit_def crew_commit_def)

lemma crew_contexts: "hex_lossless (env_hex (cx_identity crew_context))" "network_newer (cx_network crew_context)"
  "cache_ok (cx_identity crew_context) demo_db2"
  using crew_lossless demo_network crew_cache_ok by simp_all

theorem added_installations_authentic_witness:
  "\<exists>db' i before after. [8] \<in> set (keys_added crew_commit) \<and>
     inbox_change crew_env db' (crew_membership 1) (crew_membership 2) i before after \<and> installed after [8]"
proof -
  obtain vc db' where acc: "from_staged_commit crew_context demo_db2 crew_commit 0 crew_group = (Ok vc, db')"
    by (rule crew_accepted)
  have k: "[8] \<in> set (keys_added crew_commit)" "[8] \<notin> set (get_current_group_members crew_group)"
    by (simp_all add: keys_added_def crew_commit_def crew_leaf_def List.map_filter_simps get_current_group_members_def crew_group_def)
  have x: "mg_extensions crew_group = legacy_extensions" by (simp add: crew_group_def)
  from added_installations_authentic [OF crew_contexts(1,2) crew_db_ok crew_contexts(3) acc crew_steady k] k(1) show ?thesis
    by (simp add: x crew_memberships) blast
qed


theorem accepted_membership_moves_forward_witness:
  "\<exists>vc db'. from_staged_commit crew_context demo_db2 crew_commit 0 crew_group = (Ok vc, db') \<and>
     map ib_inbox_id (added_inboxes vc) = md_added_inboxes (gm_diff (crew_membership 1) (crew_membership 2))"
proof -
  obtain vc db' where acc: "from_staged_commit crew_context demo_db2 crew_commit 0 crew_group = (Ok vc, db')"
    by (rule crew_accepted)
  have x: "mg_extensions crew_group = legacy_extensions" by (simp add: crew_group_def)
  from accepted_membership_moves_forward [OF acc crew_steady] acc show ?thesis
    by (auto simp: x crew_memberships)
qed

theorem roles_need_super_admin_witness:
  "\<exists>gmm'. gmm_from_extensions legacy_libs (new_extensions crew_commit) = Ok gmm' \<and>
     set (gmm_super_admin_list gmm') = {legacy_inbox_hex}"
proof -
  obtain vc db' where acc: "from_staged_commit crew_context demo_db2 crew_commit 0 crew_group = (Ok vc, db')" "vc_actor vc = crew_actor"
    by (rule crew_accepted)
  have x: "mg_extensions crew_group = legacy_extensions" by (simp add: crew_group_def)
  then have "\<not> is_migrated_extensions (mg_extensions crew_group)" "\<not> cp_is_super_admin (vc_actor vc)"
    by (simp_all add: acc(2) crew_plain_member)
  from roles_need_super_admin [OF acc(1) crew_steady this] show ?thesis by (auto simp: x legacy_gmm)
qed

section \<open>A commit that raises the version floor\<close>

text \<open>Every member may write every component of this group; its floor is version 1.2.0.\<close>

definition floor_meta :: component_metadata where
  "floor_meta = new_component_metadata (component_permissions (KindBase 1) (KindBase 1) (KindBase 1)) TyString"

definition floor_libs :: "nat app_libs" where
  "floor_libs = rfc_libs\<lparr> al_hex := plain_crypto, al_meta := \<lparr> meta_decode = (\<lambda>_. Some floor_meta), meta_encode = (\<lambda>_. [7]) \<rparr> \<rparr>"

definition floor_registry :: component_registry where
  "floor_registry = \<lparr> reg_inner = \<lparr> entries = [\<lparr> e_key = MIN_SUPPORTED_PROTOCOL_VERSION, e_value = [7] \<rparr>] \<rparr> \<rparr>"

definition floor_dict :: "bytes \<Rightarrow> app_dict" where
  "floor_dict bs = Map.empty(COMPONENT_REGISTRY \<mapsto> [0x06, 0x80, 0x00, 0x80, 0x0A, 0x01, 0x07], CONVERSATION_TYPE \<mapsto> [0, 0, 0, 1],
     CREATOR_INBOX_ID \<mapsto> 0 # as_bytes legacy_inbox_hex, MIN_SUPPORTED_PROTOCOL_VERSION \<mapsto> bs)"

definition floor_extensions :: "bytes \<Rightarrow> extensions" where
  "floor_extensions bs = \<lparr> unknown_extensions = [(GROUP_MEMBERSHIP_EXTENSION_ID, [1])], app_data_dictionary = Some (floor_dict bs),
     immutable_metadata = None, required_capabilities = Some [AppDataDictionaryType] \<rparr>"

definition floor_old :: bytes where "floor_old = [0x31, 0x2E, 0x32, 0x2E, 0x30]"
definition floor_new :: bytes where "floor_new = [0x31, 0x2E, 0x33, 0x2E, 0x30]"

definition floor_context :: "nat commit_context" where
  "floor_context = crew_context\<lparr> cx_libs := floor_libs, cx_semver := 200 \<rparr>"

definition floor_group :: mls_group where
  "floor_group = crew_group\<lparr> mg_extensions := floor_extensions floor_old \<rparr>"

definition floor_commit :: staged_commit where
  "floor_commit = \<lparr> queued_proposals = [\<lparr> qp_sender = MemberSender 0,
       qp_proposal = AppDataUpdateProposal MIN_SUPPORTED_PROTOCOL_VERSION (AdUpdate floor_new) \<rparr>],
     new_extensions = floor_extensions floor_new \<rparr>"

definition floor_mutable :: group_mutable_metadata where
  "floor_mutable = \<lparr> gmm_attributes = [(''minimum_supported_protocol_version'', ''1.2.0'')], gmm_admin_list = [], gmm_super_admin_list = [] \<rparr>"

lemma floor_dict_simps [simp]:
  "floor_dict bs COMPONENT_REGISTRY = Some [0x06, 0x80, 0x00, 0x80, 0x0A, 0x01, 0x07]" "floor_dict bs CONVERSATION_TYPE = Some [0, 0, 0, 1]"
  "floor_dict bs CREATOR_INBOX_ID = Some (0 # as_bytes legacy_inbox_hex)" "floor_dict bs MIN_SUPPORTED_PROTOCOL_VERSION = Some bs"
  "i \<notin> {COMPONENT_REGISTRY, CONVERSATION_TYPE, CREATOR_INBOX_ID, MIN_SUPPORTED_PROTOCOL_VERSION} \<Longrightarrow> floor_dict bs i = None"
  by (simp_all add: floor_dict_def component_id_defs)

lemma floor_parts [simp]:
  "dict_get (floor_extensions bs) i = floor_dict bs i" "is_migrated_extensions (floor_extensions bs)"
  "mg_extensions floor_group = floor_extensions floor_old" "length (mg_group_id floor_group) = 16"
  "cx_libs floor_context = floor_libs" "cx_protos floor_context = crew_protos" "cx_runtime floor_context = []"
  "cx_identity floor_context = crew_env" "cx_network floor_context = demo_net" "cx_semver floor_context = 200"
  "app_data_update_proposals floor_commit = [(MIN_SUPPORTED_PROTOCOL_VERSION, AdUpdate floor_new)]"
  by (simp_all add: dict_get_def floor_extensions_def is_migrated_extensions_def floor_group_def crew_group_def floor_context_def
      app_data_update_proposals_def floor_commit_def List.map_filter_simps)

lemma floor_versions:
  "from_utf8 floor_old = Some ''1.2.0''" "from_utf8 floor_new = Some ''1.3.0''" "semver_parse floor_libs ''1.2.0'' = Some 120"
  "semver_parse floor_libs ''1.3.0'' = Some 130"
  by (simp_all add: floor_old_def floor_new_def from_utf8_def floor_libs_def rfc_libs_def toy_semver_def char_of_def bit_iff_odd_drop_bit)

lemma floor_loads: "load_component_registry floor_libs (floor_extensions bs) = Ok floor_registry"
proof -
  have "registry_codec floor_libs = registry_codec rfc_libs" by (simp add: registry_codec_def floor_libs_def)
  moreover have "tls_deserialize_exact (registry_codec rfc_libs) [0x06, 0x80, 0x00, 0x80, 0x0A, 0x01, 0x07] = Ok (reg_inner floor_registry)"
    by (simp add: floor_registry_def rfc_codec_simps component_id_defs)
  ultimately show ?thesis by (simp add: load_component_registry_def reg_from_bytes_def)
qed

lemma floor_lookup:
  "lookup_component floor_libs [] MIN_SUPPORTED_PROTOCOL_VERSION = Some (passthrough_string_component MIN_SUPPORTED_PROTOCOL_VERSION)"
  "\<not> is_immutable MIN_SUPPORTED_PROTOCOL_VERSION" "\<not> is_hardcoded MIN_SUPPORTED_PROTOCOL_VERSION"
  by (simp_all add: lookup_component_eq is_xmtp_range_def WELL_KNOWN_def component_id_defs is_immutable_def is_hardcoded_def)

lemma floor_applies:
  "apply_app_data_update_payload floor_libs [] MIN_SUPPORTED_PROTOCOL_VERSION floor_new (Some floor_old) floor_registry = Ok floor_new"
  by (simp add: apply_app_data_update_payload_def floor_lookup passthrough_string_component_def decode_utf8_def floor_versions
      apply_passthrough_def)

lemma floor_written:
  "validate_one_app_data_update floor_libs [] MIN_SUPPORTED_PROTOCOL_VERSION (AdUpdate floor_new) actor floor_registry floor_group = Ok ()"
proof -
  have "reg_get (al_meta floor_libs) floor_registry MIN_SUPPORTED_PROTOCOL_VERSION = Ok (Some floor_meta)"
    unfolding reg_get_eq
    by (rule exI [of _ "[7]"]) (simp add: floor_registry_def TlsMap_get_def binary_search_by_def binary_search_loop.simps
        decode_recognized_Ok range_defs component_id_defs floor_libs_def floor_meta_def validate_metadata_def
        new_component_metadata_def component_permissions_def cmp_def)
  then have "validate_component_write (al_meta floor_libs) \<lparr> cc_component_id = MIN_SUPPORTED_PROTOCOL_VERSION, cc_op = op, cc_actor = actor,
      cc_old_value = None, cc_new_value = v \<rparr> floor_registry = Ok ()" for op v
    by (cases op) (simp_all add: write_accepted floor_lookup floor_meta_def new_component_metadata_def component_permissions_def
        evaluate_base_policy_def)
  moreover have "er_validate_invariant (passthrough_string_component MIN_SUPPORTED_PROTOCOL_VERSION) ch registry = Ok ()" for ch registry
    by (simp add: passthrough_string_component_def no_invariant_def)
  ultimately show ?thesis
    by (simp add: validate_one_app_data_update_def validate_one_app_data_update_with_old_value_def enforce_min_version_monotonicity_def
        read_from_app_data_dict_def floor_versions LibXMTPVersion_parse_def floor_lookup)
       (simp add: passthrough_string_component_def decode_utf8_def floor_versions)
qed

lemma floor_immutable: "commit_immutable_metadata floor_context (floor_extensions floor_old) = Ok legacy_metadata"
proof -
  have "inbox_id_ok legacy_inbox" by (rule inbox_id_of_hex_ok [OF legacy_hex])
  moreover have "tls_serialize (InboxId_codec rfc9000) legacy_inbox = Ok (0 # as_bytes legacy_inbox_hex)"
    by (simp add: InboxId_codec_def legacy_inbox_bytes INBOX_ID_VERSION_def rfc9000_def rfc9000_write_def)
  ultimately have "tls_deserialize_exact (InboxId_codec (al_vlen floor_libs)) (0 # as_bytes legacy_inbox_hex) = Ok legacy_inbox"
    using tls_codec.read_exact [OF rfc.inbox.tls_codec_axioms] by (simp add: floor_libs_def rfc_libs_def)
  moreover have "InboxId_to_hex (hex_encode (al_hex floor_libs)) legacy_inbox = legacy_inbox_hex"
    by (simp add: floor_libs_def InboxId_to_hex_def legacy_inbox_bytes plain_crypto_def as_bytes_def comp_def unat_of_char)
  moreover have "app_data_dictionary (floor_extensions floor_old) = Some (floor_dict floor_old)" by (simp add: floor_extensions_def)
  moreover have "DM_MEMBERS \<notin> {COMPONENT_REGISTRY, CONVERSATION_TYPE, CREATOR_INBOX_ID, MIN_SUPPORTED_PROTOCOL_VERSION}"
    "ONESHOT_MESSAGE \<notin> {COMPONENT_REGISTRY, CONVERSATION_TYPE, CREATOR_INBOX_ID, MIN_SUPPORTED_PROTOCOL_VERSION}"
    by (simp_all add: component_id_defs)
  moreover have "i32_from_be_bytes [0, 0, 0, 1] = Some 1" by code_simp
  ultimately show ?thesis
    by (simp add: commit_immutable_metadata_def read_immutable_metadata_def read_group_metadata_from_extensions_def transpose_opt_def
        metadata_from_proto_def seed_to_proto_def conversation_type_of_i32_def legacy_metadata_def)
qed

lemma floor_mutable_reads: "commit_mutable_metadata floor_context (floor_extensions floor_old) = Ok floor_mutable"
proof -
  have d: "app_data_dictionary (floor_extensions floor_old) = Some (floor_dict floor_old)" by (simp add: floor_extensions_def)
  have none: "floor_dict floor_old i = None" if "i \<in> {GROUP_NAME, GROUP_DESCRIPTION, GROUP_IMAGE_URL, MESSAGE_DISAPPEAR_FROM_NS,
      MESSAGE_DISAPPEAR_IN_NS, COMMIT_LOG_SIGNER, APP_DATA, ADMIN_LIST, SUPER_ADMIN_LIST}" for i
    by (rule floor_dict_simps(5)) (use that in \<open>auto simp: component_id_defs\<close>)
  have "decode_metadata_component floor_libs MIN_SUPPORTED_PROTOCOL_VERSION floor_old = Ok ''1.2.0''"
    by (simp add: decode_metadata_component_def floor_versions) (simp add: component_id_defs)
  then show ?thesis
    by (simp add: commit_mutable_metadata_def merge_app_data_into_mutable_metadata_def merge_dict_into_mutable_metadata_def d
        METADATA_FIELD_COMPONENT_MAP_def none merge_list_def floor_mutable_def set_attribute_def)
qed

lemma floor_accepted:
  obtains vc db' where "from_staged_commit floor_context demo_db2 floor_commit 0 floor_group = (Ok vc, db')"
proof -
  let ?a = "CommitParticipant_build crew_inbox [7] legacy_metadata floor_mutable"
  have actor: "extract_commit_participant crew_protos 0 floor_group legacy_metadata floor_mutable = Ok ?a"
    by (simp add: extract_commit_participant_def member_at_def floor_group_def crew_group_def crew_leaf_def inbox_id_from_credential_def
        crew_protos_def)
  have plain: "cp_is_super_admin ?a = False" "cp_inbox_id ?a = crew_inbox" "cp_installation_id ?a = [7]"
    by (simp_all add: CommitParticipant_build_def gmm_is_super_admin_def floor_mutable_def)
  obtain q where q: "commit_permissions floor_context (floor_extensions floor_old) = Ok q"
    by (cases "membership_policies_of floor_libs floor_registry")
      (simp add: commit_permissions_def membership_policy_set_from_registry_def floor_loads)
  let ?info = "default_validation_info\<lparr> minimum_supported_protocol_version := Some ''1.3.0'' \<rparr>"
  have info: "migrated_info floor_context floor_commit (floor_extensions floor_old) = Ok (?info, floor_registry)"
    by (simp add: migrated_info_def floor_loads read_post_commit_component_bytes_def Let_def read_from_app_data_dict_def floor_applies
        floor_versions)
  have psk: "reject_psk_proposals floor_commit = Ok ()" by (simp add: reject_psk_proposals_def floor_commit_def)
  have updates: "validate_app_data_update_proposals_in_commit floor_libs crew_protos [] floor_commit floor_group legacy_metadata floor_mutable
      (Some floor_registry) = Ok ()"
    by (simp add: validate_app_data_update_proposals_in_commit_def queued_app_data_updates_def floor_commit_def List.map_filter_simps
        hm_get_plain actor floor_written)
  have committer: "extract_committer_and_proposers crew_protos floor_commit 0 floor_group legacy_metadata floor_mutable = Ok (?a, [?a])"
    by (simp add: extract_committer_and_proposers_def floor_commit_def actor)
  have changes: "get_proposal_changes crew_protos floor_commit floor_group legacy_metadata floor_mutable = Ok no_changes"
    by (simp add: get_proposal_changes_def floor_commit_def sender_participant_def actor proposal_change_def)
  have short: "check_field_lengths (metadata_field_changes default_validation_info) = Ok ()" by (simp add: default_validation_info_def)
  let ?r = "\<lparr> cr_permissions = q, cr_info = ?info, cr_permissions_changed = False, cr_actor = ?a, cr_proposers = [?a], cr_changes = no_changes \<rparr>"
  have r: "read_commit floor_context floor_commit 0 floor_group legacy_metadata floor_mutable = Ok ?r"
    by (simp add: read_commit_def Let_def q info short committer psk updates changes)
  have "new_extensions floor_commit = floor_extensions floor_new" "latest_membership_extensions (queued_proposals floor_commit) e = e" for e
    by (simp_all add: floor_commit_def)
  moreover have "GROUP_MEMBERSHIP \<notin> {COMPONENT_REGISTRY, CONVERSATION_TYPE, CREATOR_INBOX_ID, MIN_SUPPORTED_PROTOCOL_VERSION}"
    by (simp add: component_id_defs)
  ultimately have ms: "extract_group_membership floor_libs crew_protos (floor_extensions floor_old) = Ok (crew_membership 2)"
    "get_latest_group_membership floor_libs crew_protos floor_commit = Ok (crew_membership 2)"
    by (simp_all add: extract_group_membership_def get_latest_group_membership_def read_group_membership_from_dict_def find_extension_def)
      (simp_all add: floor_extensions_def crew_protos_def crew_membership_def)
  have md: "gm_diff (crew_membership 2) (crew_membership 2) = \<lparr> md_added_inboxes = [], md_removed_inboxes = [], md_updated_inboxes = [] \<rparr>"
    by code_simp
  let ?d = "\<lparr> old_group_membership = crew_membership 2, new_group_membership = crew_membership 2,
      expected_installation_diff = \<lparr> added_installations = [], removed_installations_set = [] \<rparr>, ed_added_inboxes = [], ed_removed_inboxes = [] \<rparr>"
  have d: "from_staged_commit_with_proposers floor_context demo_db2 floor_commit floor_group True no_changes = (Ok ?d, demo_db2)"
    by (simp add: from_staged_commit_with_proposers_def extract_expected_diff_with_proposers_def floor_immutable floor_mutable_reads psk
        ms Let_def validate_membership_diff_def md get_installation_diff_def filter_inbox_ids_needing_updates_def load_identity_updates_def)
  obtain db3 where db3: "get_association_state crew_env demo_db2 crew_inbox (Some 2) = (Ok crew_s2, db3)"
    by (rule crew_lookup [OF _ crew_cache_ok, of 2 crew_s2]) (simp_all add: demo_db2_def)
  have in_state: "st_get crew_s2 (Installation [7]) \<noteq> None" by code_simp
  have "credential_sequence_id (crew_membership 2) (crew_membership 2) crew_inbox = Ok (Some 2)"
    by (simp add: credential_sequence_id_def crew_membership_def gm_get_def hm_get_plain)
  with db3 in_state have v: "verify_credentials floor_context (crew_membership 2) (crew_membership 2) demo_db2 [?a] = (Ok (), db3)"
    by (simp add: verify_credential_def plain)
  let ?vc = "\<lparr> vc_actor = ?a, vc_proposers = [?a], added_inboxes = [], removed_inboxes = [], readded_installations = [],
      metadata_validation_info = ?info, installations_changed = False, permissions_changed = False,
      vc_dm_members = md_dm_members legacy_metadata \<rparr>"
  have "evaluate_commit ps ?vc" for ps
    by (simp add: evaluate_commit_def Let_def default_validation_info_def evaluate_policy_with_proposer_def evaluate_metadata_policy_def)
  then have j: "judge_commit floor_context floor_group q ?vc = Ok ?vc"
    by (simp add: judge_commit_def LibXMTPVersion_parse_def floor_versions)
  have parts: "pc_added_installations no_changes = []" "pc_removed_installations no_changes = []" "pc_credentials_to_verify no_changes = []"
    "failed_installations (crew_membership 2) = []" "hs_extend (=) [] [] = ([] :: bytes list)"
    by (simp_all add: no_changes_def crew_membership_def hs_extend_def)
  have kept: "extract_readded_installations ?a [] [] [] = ([], [], [], [])" by (simp add: extract_readded_installations_def plain)
  have "expected_diff_matches_commit \<lparr> added_installations = [], removed_installations_set = [] \<rparr> [] [] existing [] = Ok ()" for existing
    by (simp add: matches_Ok)
  then have "steady_state_commit floor_context demo_db2 floor_commit 0 floor_group legacy_metadata floor_mutable = (Ok ?vc, db3)"
    by (simp add: steady_state_commit_def r check_proposals_enabled_def d parts kept v j del: verify_credentials.simps)
  moreover have "committed_floor_exceeding floor_libs (floor_extensions floor_old) 200 = None"
    by (simp add: committed_floor_exceeding_def floor_versions)
  ultimately have "from_staged_commit floor_context demo_db2 floor_commit 0 floor_group = (Ok ?vc, db3)"
    by (simp add: from_staged_commit_def floor_immutable floor_mutable_reads is_bootstrap_commit_def check_proposals_enabled_def)
  with that show ?thesis by simp
qed

theorem floor_only_rises_witness:
  "\<exists>d bs' v'. apply_in_order floor_libs [] floor_registry (app_data_update_proposals floor_commit) (floor_dict floor_old) = Ok d \<and>
     d MIN_SUPPORTED_PROTOCOL_VERSION = Some bs' \<and> floor_version floor_libs bs' = Some v' \<and> 120 \<le> v' \<and> v' \<le> 200"
proof -
  obtain vc db' where acc: "from_staged_commit floor_context demo_db2 floor_commit 0 floor_group = (Ok vc, db')"
    by (rule floor_accepted)
  obtain d where d: "apply_in_order floor_libs [] floor_registry (app_data_update_proposals floor_commit) (floor_dict floor_old) = Ok d"
    by (simp add: floor_applies)
  have v: "floor_version floor_libs floor_old = Some 120" by (simp add: floor_version_def floor_versions)
  have get: "dict_get (floor_extensions floor_old) = floor_dict floor_old" by (intro ext) simp
  from floor_only_rises [OF acc, of floor_old 120 floor_registry d] d v show ?thesis by (simp add: floor_loads get)
qed

end
