(* ===== verification/Commit_Log.thy ===== *)
theory Commit_Log
  imports Validated_Commit
begin

text \<open>
  The commit log of a client, by which members find out that their groups have forked:
  \<open>xmtp_mls/src/groups/commit_log.rs\<close>, \<open>commit_log_key.rs\<close>, \<open>mls_ext/commit_log_storer.rs\<close> and the queries
  of \<open>xmtp_db\<close> they rely on. Every commit a client processes is logged locally; members publish their
  logs signed with the key of the group, download what others published, and compare.

  Row ids and cursors are integers, since their conversions between \<open>i32\<close>, \<open>i64\<close> and \<open>u64\<close> keep the value;
  sequence ids and epochs are 64-bit words, whose signed and unsigned forms have the same bits. The
  columns that only serve debugging are left out, and database failures too, except the ones the
  source raises itself. The commit type of a row is a constructor instead of its name.
\<close>

section \<open>Rows\<close>

datatype commit_result = UnknownResult | Success | WrongEpoch | Undecryptable | InvalidResult

fun commit_result_i32 :: "commit_result \<Rightarrow> int" where
  "commit_result_i32 Success = 1"
| "commit_result_i32 WrongEpoch = 2"
| "commit_result_i32 Undecryptable = 3"
| "commit_result_i32 InvalidResult = 4"
| "commit_result_i32 UnknownResult = 0"

text \<open>A number that is no result of the protocol counts as unspecified.\<close>

definition commit_result_of_i32 :: "int \<Rightarrow> commit_result" where
  "commit_result_of_i32 n =
     (if n = 1 then Success else if n = 2 then WrongEpoch else if n = 3 then Undecryptable else if n = 4 then InvalidResult
      else UnknownResult)"

record local_commit_log =
  ll_rowid :: int
  ll_group_id :: bytes
  ll_commit_sequence_id :: u64
  ll_last_epoch_authenticator :: bytes
  ll_commit_result :: commit_result
  ll_applied_epoch_number :: u64
  ll_applied_epoch_authenticator :: bytes
  ll_commit_type :: "commit_type option"

record remote_commit_log =
  rl_rowid :: int
  rl_log_sequence_id :: u64
  rl_group_id :: bytes
  rl_commit_sequence_id :: u64
  rl_commit_result :: commit_result
  rl_applied_epoch_number :: u64
  rl_applied_epoch_authenticator :: bytes

record plaintext_commit_log_entry =
  pe_group_id :: bytes
  pe_commit_sequence_id :: u64
  pe_last_epoch_authenticator :: bytes
  pe_commit_result :: int
  pe_applied_epoch_number :: u64
  pe_applied_epoch_authenticator :: bytes

definition plaintext_of_local :: "local_commit_log \<Rightarrow> plaintext_commit_log_entry" where
  "plaintext_of_local l = \<lparr> pe_group_id = ll_group_id l, pe_commit_sequence_id = ll_commit_sequence_id l,
     pe_last_epoch_authenticator = ll_last_epoch_authenticator l, pe_commit_result = commit_result_i32 (ll_commit_result l),
     pe_applied_epoch_number = ll_applied_epoch_number l, pe_applied_epoch_authenticator = ll_applied_epoch_authenticator l \<rparr>"

record log_signature =
  ls_bytes :: bytes
  ls_public_key :: bytes

record commit_log_entry =
  ce_sequence_id :: u64
  ce_serialized :: bytes
  ce_signature :: "log_signature option"

record query_commit_log_response =
  qr_group_id :: bytes
  qr_entries :: "commit_log_entry list"

record publish_commit_log_request =
  pr_group_id :: bytes
  pr_serialized :: bytes
  pr_signature :: "log_signature option"

section \<open>The database\<close>

datatype entity_kind = CommitLogUpload | CommitLogDownload | CommitLogForkCheckLocal | CommitLogForkCheckRemote

text \<open>
  The rows of the groups stand in the order of their creation; \<open>cg_allowed\<close> says that the consent record of
  the group exists and is \<open>Allowed\<close>.
\<close>

record commit_log_group =
  cg_id :: bytes
  cg_conversation_type :: conversation_type
  cg_should_publish :: bool
  cg_allowed :: bool
  cg_public_key :: "bytes option"
  cg_is_forked :: "bool option"

record commit_log_db =
  local_log_rows :: "local_commit_log list"
  remote_log_rows :: "remote_commit_log list"
  refresh_state :: "(bytes \<times> entity_kind, int) hash_map"
  log_groups :: "commit_log_group list"
  commit_log_keys :: "(bytes, bytes) hash_map"

definition next_rowid :: "int list \<Rightarrow> int" where
  "next_rowid ids = (if ids = [] then 1 else Max (set ids) + 1)"

definition store_local :: "commit_log_db \<Rightarrow> local_commit_log \<Rightarrow> commit_log_db" where
  "store_local db l = db\<lparr> local_log_rows := local_log_rows db @ [l\<lparr> ll_rowid := next_rowid (map ll_rowid (local_log_rows db)) \<rparr>] \<rparr>"

definition store_remote :: "commit_log_db \<Rightarrow> remote_commit_log \<Rightarrow> commit_log_db" where
  "store_remote db r = db\<lparr> remote_log_rows := remote_log_rows db @ [r\<lparr> rl_rowid := next_rowid (map rl_rowid (remote_log_rows db)) \<rparr>] \<rparr>"

definition get_cursor :: "commit_log_db \<Rightarrow> bytes \<Rightarrow> entity_kind \<Rightarrow> int" where
  "get_cursor db g k = (case hm_get (=) (refresh_state db) (g, k) of Some n \<Rightarrow> n | None \<Rightarrow> 0)"

text \<open>
  A cursor is written only when that moves it forward. Reading an absent cursor gives 0; that the source also
  stores the 0 then makes no difference to cursors that are not negative.
\<close>

definition update_cursor :: "commit_log_db \<Rightarrow> bytes \<Rightarrow> entity_kind \<Rightarrow> int \<Rightarrow> commit_log_db" where
  "update_cursor db g k n =
     (case hm_get (=) (refresh_state db) (g, k) of
        Some old \<Rightarrow> if old < n then db\<lparr> refresh_state := hm_insert (=) (g, k) n (refresh_state db) \<rparr> else db
      | None \<Rightarrow> db\<lparr> refresh_state := hm_insert (=) (g, k) n (refresh_state db) \<rparr>)"

datatype commit_log_error =
    ClConversion
  | CursorExceedsI32
  | DuplicateCommitLogPublicKey bytes
  | GroupNotFound
  | ClGroupError
  | CryptoError
  | ClApi

datatype log_order = AscendingByRowid | DescendingByRowid

definition get_local_commit_log_after_cursor ::
    "commit_log_db \<Rightarrow> bytes \<Rightarrow> int \<Rightarrow> log_order \<Rightarrow> (commit_log_error, local_commit_log list) result" where
  "get_local_commit_log_after_cursor db g after_cursor order =
     (if after_cursor > 2 ^ 31 - 1 then Err CursorExceedsI32
      else
      let rows = sort_key ll_rowid
            (filter (\<lambda>l. ll_group_id l = g \<and> ll_rowid l > after_cursor \<and> ll_commit_sequence_id l \<noteq> 0) (local_log_rows db))
      in Ok (case order of AscendingByRowid \<Rightarrow> rows | DescendingByRowid \<Rightarrow> rev rows))"

definition get_remote_commit_log_after_cursor ::
    "commit_log_db \<Rightarrow> bytes \<Rightarrow> int \<Rightarrow> log_order \<Rightarrow> (commit_log_error, remote_commit_log list) result" where
  "get_remote_commit_log_after_cursor db g after_cursor order =
     (if after_cursor > 2 ^ 31 - 1 then Err CursorExceedsI32
      else
      let rows = sort_key rl_rowid
            (filter (\<lambda>r. rl_group_id r = g \<and> rl_rowid r > after_cursor \<and> rl_commit_sequence_id r \<noteq> 0) (remote_log_rows db))
      in Ok (case order of AscendingByRowid \<Rightarrow> rows | DescendingByRowid \<Rightarrow> rev rows))"

definition last_of :: "('a \<Rightarrow> int) \<Rightarrow> 'a list \<Rightarrow> 'a option" where
  "last_of key xs = (if xs = [] then None else Some (last (sort_key key xs)))"

definition get_latest_log_for_group :: "commit_log_db \<Rightarrow> bytes \<Rightarrow> local_commit_log option" where
  "get_latest_log_for_group db g = last_of ll_rowid (filter (\<lambda>l. ll_group_id l = g) (local_log_rows db))"

definition get_local_commit_log_cursor :: "commit_log_db \<Rightarrow> bytes \<Rightarrow> int option" where
  "get_local_commit_log_cursor db g = map_option ll_rowid (get_latest_log_for_group db g)"

definition get_latest_chain_start_rowid :: "commit_log_db \<Rightarrow> bytes \<Rightarrow> int option" where
  "get_latest_chain_start_rowid db g =
     map_option ll_rowid (last_of ll_rowid (filter (\<lambda>l. ll_group_id l = g \<and> ll_commit_sequence_id l = 0) (local_log_rows db)))"

definition get_latest_remote_log_for_group :: "commit_log_db \<Rightarrow> bytes \<Rightarrow> remote_commit_log option" where
  "get_latest_remote_log_for_group db g =
     last_of (\<lambda>r. sint (rl_log_sequence_id r)) (filter (\<lambda>r. rl_group_id r = g) (remote_log_rows db))"

definition find_group :: "commit_log_db \<Rightarrow> bytes \<Rightarrow> commit_log_group option" where
  "find_group db g = find (\<lambda>c. cg_id c = g) (log_groups db)"

definition set_group_commit_log_public_key :: "commit_log_db \<Rightarrow> bytes \<Rightarrow> bytes \<Rightarrow> (commit_log_error, commit_log_db) result" where
  "set_group_commit_log_public_key db g pk =
     (if list_ex (\<lambda>c. cg_id c = g \<and> cg_public_key c = None) (log_groups db)
      then Ok (db\<lparr> log_groups := map (\<lambda>c. if cg_id c = g \<and> cg_public_key c = None then c\<lparr> cg_public_key := Some pk \<rparr> else c)
                 (log_groups db) \<rparr>)
      else Err (DuplicateCommitLogPublicKey g))"

definition set_group_commit_log_forked_status :: "commit_log_db \<Rightarrow> bytes \<Rightarrow> bool option \<Rightarrow> commit_log_db" where
  "set_group_commit_log_forked_status db g is_forked =
     db\<lparr> log_groups := map (\<lambda>c. if cg_id c = g then c\<lparr> cg_is_forked := is_forked \<rparr> else c) (log_groups db) \<rparr>"

definition get_group_commit_log_forked_status :: "commit_log_db \<Rightarrow> bytes \<Rightarrow> (commit_log_error, bool option) result" where
  "get_group_commit_log_forked_status db g = map_err (\<lambda>_. GroupNotFound) (ok_or (map_option cg_is_forked (find_group db g)) ())"

definition get_conversation_ids_for_remote_log_publish :: "commit_log_db \<Rightarrow> commit_log_group list" where
  "get_conversation_ids_for_remote_log_publish db =
     filter (\<lambda>c. (cg_conversation_type c = Dm \<or> cg_conversation_type c = Group \<and> cg_should_publish c) \<and> cg_allowed c) (log_groups db)"

definition get_conversation_ids_for_remote_log_download :: "commit_log_db \<Rightarrow> commit_log_group list" where
  "get_conversation_ids_for_remote_log_download db =
     filter (\<lambda>c. cg_conversation_type c \<notin> set virtual_types \<and> cg_allowed c) (log_groups db)"

definition get_conversation_ids_for_fork_check :: "commit_log_db \<Rightarrow> bytes list" where
  "get_conversation_ids_for_fork_check db =
     map cg_id (filter (\<lambda>c. cg_conversation_type c \<notin> set virtual_types \<and> cg_is_forked c \<noteq> Some True) (log_groups db))"

section \<open>Logging what was processed\<close>

definition ENABLE_COMMIT_LOG :: bool where "ENABLE_COMMIT_LOG \<longleftrightarrow> True"

text \<open>
  The storer wraps the operations of OpenMLS on a group; the epoch and its authenticator before and after
  are arguments. The row id is assigned when the row is stored.
\<close>

definition chain_start :: "bytes \<Rightarrow> u64 \<Rightarrow> bytes \<Rightarrow> commit_type \<Rightarrow> local_commit_log" where
  "chain_start g epoch auth ty = \<lparr> ll_rowid = 0, ll_group_id = g, ll_commit_sequence_id = 0, ll_last_epoch_authenticator = [],
     ll_commit_result = Success, ll_applied_epoch_number = epoch, ll_applied_epoch_authenticator = auth, ll_commit_type = Some ty \<rparr>"

definition from_creation_logged :: "commit_log_db \<Rightarrow> bytes \<Rightarrow> u64 \<Rightarrow> bytes \<Rightarrow> commit_log_db" where
  "from_creation_logged db g epoch auth =
     (if ENABLE_COMMIT_LOG then store_local db (chain_start g epoch auth GroupCreation) else db)"

definition from_backup_stub_logged :: "commit_log_db \<Rightarrow> bytes \<Rightarrow> u64 \<Rightarrow> bytes \<Rightarrow> commit_log_db" where
  "from_backup_stub_logged db g epoch auth =
     (if ENABLE_COMMIT_LOG then store_local db (chain_start g epoch auth BackupRestore) else db)"

definition from_welcome_logged :: "commit_log_db \<Rightarrow> bytes \<Rightarrow> u64 \<Rightarrow> bytes \<Rightarrow> commit_log_db" where
  "from_welcome_logged db g epoch auth =
     (if ENABLE_COMMIT_LOG then store_local db (chain_start g epoch auth Welcome) else db)"

datatype merge_error = MergeFailed | EpochAuthenticatorNotAdvanced bytes u64 u64

text \<open>\<open>merged\<close> is what merging the staged commit gives: the new epoch and its authenticator.\<close>

definition merge_staged_commit_logged ::
    "commit_log_db \<Rightarrow> bytes \<Rightarrow> bool \<Rightarrow> u64 \<Rightarrow> bytes \<Rightarrow> (merge_error, u64 \<times> bytes) result \<Rightarrow> validated_commit \<Rightarrow> u64 \<Rightarrow>
     (merge_error, commit_log_db) result" where
  "merge_staged_commit_logged db g removed_us last_epoch_number last_auth merged validated_commit staged_sequence_id =
     rbind merged (\<lambda>(epoch, applied_auth).
     if removed_us then
       Ok (if ENABLE_COMMIT_LOG then
             store_local db \<lparr> ll_rowid = 0, ll_group_id = g, ll_commit_sequence_id = staged_sequence_id, ll_last_epoch_authenticator = last_auth,
               ll_commit_result = Success, ll_applied_epoch_number = last_epoch_number, ll_applied_epoch_authenticator = last_auth,
               ll_commit_type = Some RemovedFromGroup \<rparr>
           else db)
     else if applied_auth = last_auth then Err (EpochAuthenticatorNotAdvanced g staged_sequence_id epoch)
     else
       Ok (if ENABLE_COMMIT_LOG then
             store_local db \<lparr> ll_rowid = 0, ll_group_id = g, ll_commit_sequence_id = staged_sequence_id, ll_last_epoch_authenticator = last_auth,
               ll_commit_result = Success, ll_applied_epoch_number = epoch, ll_applied_epoch_authenticator = applied_auth,
               ll_commit_type = Some (debug_commit_type validated_commit) \<rparr>
           else db))"

definition mark_failed_commit_logged ::
    "commit_log_db \<Rightarrow> bytes \<Rightarrow> u64 \<Rightarrow> u64 \<Rightarrow> u64 \<Rightarrow> bytes \<Rightarrow> commit_result \<Rightarrow> commit_log_db" where
  "mark_failed_commit_logged db g commit_sequence_id commit_epoch last_epoch_number last_auth commit_result =
     (if \<not> ENABLE_COMMIT_LOG then db
      else
      let maybe_recently_welcomed =
            (case get_latest_log_for_group db g of Some l \<Rightarrow> ll_commit_type l = Some Welcome | None \<Rightarrow> True)
      in
      if commit_epoch \<le> last_epoch_number \<and> maybe_recently_welcomed then db
      else store_local db \<lparr> ll_rowid = 0, ll_group_id = g, ll_commit_sequence_id = commit_sequence_id,
             ll_last_epoch_authenticator = last_auth, ll_commit_result = commit_result, ll_applied_epoch_number = last_epoch_number,
             ll_applied_epoch_authenticator = last_auth, ll_commit_type = None \<rparr>)"

section \<open>Keys\<close>

text \<open>
  Ed25519, protobuf, key generation and the groups of OpenMLS are arguments. \<open>lv_metadata\<close> is the
  mutable metadata of a group if the group can be loaded, \<open>lv_is_dm\<close> whether it is stored with the id of a direct
  message, and \<open>lv_update_signer\<close> whether handing a key to
  \<open>update_commit_log_signer\<close> succeeds.
\<close>

record log_env =
  lv_hex :: id_crypto
  lv_verify :: "bytes \<Rightarrow> bytes \<Rightarrow> bytes \<Rightarrow> bool"
  lv_sign :: "bytes \<Rightarrow> bytes \<Rightarrow> bytes option"
  lv_to_public_key :: "bytes \<Rightarrow> bytes option"
  lv_generate :: "bytes \<Rightarrow> bytes option"
  lv_encode :: "plaintext_commit_log_entry \<Rightarrow> bytes"
  lv_decode :: "bytes \<Rightarrow> plaintext_commit_log_entry option"
  lv_metadata :: "bytes \<Rightarrow> group_mutable_metadata option"
  lv_is_dm :: "bytes \<Rightarrow> bool"
  lv_update_signer :: "bytes \<Rightarrow> bytes \<Rightarrow> bool"

definition public_key_matches_private_key :: "log_env \<Rightarrow> bytes \<Rightarrow> bytes \<Rightarrow> bool" where
  "public_key_matches_private_key E pk sk \<longleftrightarrow> lv_to_public_key E sk = Some pk"

definition verify_commit_log_signature :: "log_env \<Rightarrow> commit_log_entry \<Rightarrow> bytes \<Rightarrow> bool" where
  "verify_commit_log_signature E entry expected_public_key \<longleftrightarrow>
     (case ce_signature entry of
        None \<Rightarrow> False
      | Some s \<Rightarrow> ls_public_key s = expected_public_key \<and> lv_verify E (ce_serialized entry) expected_public_key (ls_bytes s))"

text \<open>The keys that are handed on, in order, are part of the result.\<close>

definition maybe_share_private_key ::
    "log_env \<Rightarrow> commit_log_db \<Rightarrow> bytes \<Rightarrow> bytes \<Rightarrow> (commit_log_error, bytes list) result" where
  "maybe_share_private_key E db g consensus_public_key =
     (case hm_get (=) (commit_log_keys db) g of
        None \<Rightarrow> Ok []
      | Some sk \<Rightarrow>
          if \<not> public_key_matches_private_key E consensus_public_key sk then Ok []
          else
          if lv_is_dm E g then Ok []
          else
          rbind (ok_or (lv_metadata E g) ClGroupError) (\<lambda>metadata.
          if (case gmm_commit_log_signer (lv_hex E) metadata of
                None \<Rightarrow> True
              | Some shared \<Rightarrow> \<not> public_key_matches_private_key E consensus_public_key shared)
          then (if lv_update_signer E g sk then Ok [sk] else Err ClGroupError)
          else Ok []))"

definition group_id_try_from :: "bytes \<Rightarrow> (commit_log_error, bytes) result" where
  "group_id_try_from g = (if length g = 16 then Ok g else Err ClConversion)"

fun derive_from_entries ::
    "log_env \<Rightarrow> commit_log_db \<Rightarrow> bytes \<Rightarrow> commit_log_entry list \<Rightarrow> (commit_log_error, bytes option \<times> commit_log_db \<times> bytes list) result" where
  "derive_from_entries E db g [] = Ok (None, db, [])"
| "derive_from_entries E db g (entry # log_entries) =
     (case ce_signature entry of
        None \<Rightarrow> derive_from_entries E db g log_entries
      | Some s \<Rightarrow>
          if verify_commit_log_signature E entry (ls_public_key s) then
            rbind (maybe_share_private_key E db g (ls_public_key s)) (\<lambda>shared.
            rbind (set_group_commit_log_public_key db g (ls_public_key s)) (\<lambda>db'.
            Ok (Some (ls_public_key s), db', shared)))
          else derive_from_entries E db g log_entries)"

definition derive_consensus_public_key ::
    "log_env \<Rightarrow> commit_log_db \<Rightarrow> query_commit_log_response \<Rightarrow> (commit_log_error, bytes option \<times> commit_log_db \<times> bytes list) result" where
  "derive_consensus_public_key E db response =
     rbind (group_id_try_from (qr_group_id response)) (\<lambda>g. derive_from_entries E db g (qr_entries response))"

definition key_fits :: "log_env \<Rightarrow> bytes option \<Rightarrow> bytes \<Rightarrow> bool" where
  "key_fits E consensus sk \<longleftrightarrow> (case consensus of None \<Rightarrow> True | Some pk \<Rightarrow> public_key_matches_private_key E pk sk)"

definition write_commit_log_key :: "commit_log_db \<Rightarrow> bytes \<Rightarrow> bytes \<Rightarrow> commit_log_db" where
  "write_commit_log_key db g sk = db\<lparr> commit_log_keys := hm_insert (=) g sk (commit_log_keys db) \<rparr>"

definition get_or_create_signing_key ::
    "log_env \<Rightarrow> commit_log_db \<Rightarrow> commit_log_group \<Rightarrow> (commit_log_error, bytes option \<times> commit_log_db) result" where
  "get_or_create_signing_key E db c =
     (case Option.bind (hm_get (=) (commit_log_keys db) (cg_id c)) (\<lambda>sk. if key_fits E (cg_public_key c) sk then Some sk else None) of
        Some sk \<Rightarrow> Ok (Some sk, db)
      | None \<Rightarrow>
          rbind (ok_or (lv_metadata E (cg_id c)) ClGroupError) (\<lambda>metadata.
          case Option.bind (gmm_commit_log_signer (lv_hex E) metadata)
                 (\<lambda>sk. if key_fits E (cg_public_key c) sk then Some sk else None) of
            Some sk \<Rightarrow> Ok (Some sk, write_commit_log_key db (cg_id c) sk)
          | None \<Rightarrow>
              if cg_public_key c = None then
                rbind (ok_or (lv_generate E (cg_id c)) CryptoError) (\<lambda>sk.
                Ok (Some sk, write_commit_log_key db (cg_id c) sk))
              else Ok (None, db)))"

section \<open>Publishing\<close>

definition sign_entry :: "log_env \<Rightarrow> bytes \<Rightarrow> bytes \<Rightarrow> plaintext_commit_log_entry \<Rightarrow> (commit_log_error, publish_commit_log_request) result" where
  "sign_entry E g sk entry =
     (let serialized = lv_encode E entry in
      rbind (ok_or (lv_sign E serialized sk) CryptoError) (\<lambda>sig.
      rbind (ok_or (lv_to_public_key E sk) CryptoError) (\<lambda>pk.
      Ok \<lparr> pr_group_id = g, pr_serialized = serialized, pr_signature = Some \<lparr> ls_bytes = sig, ls_public_key = pk \<rparr> \<rparr>)))"

definition sign_group_logs ::
    "log_env \<Rightarrow> commit_log_db \<Rightarrow> commit_log_group \<Rightarrow> plaintext_commit_log_entry list \<Rightarrow>
     (commit_log_error, publish_commit_log_request list \<times> commit_log_db) result" where
  "sign_group_logs E db c log_entries =
     rbind (get_or_create_signing_key E db c) (\<lambda>(key, db').
     case key of
       None \<Rightarrow> Ok ([], db')
     | Some sk \<Rightarrow> rbind (try_map (sign_entry E (cg_id c) sk) log_entries) (\<lambda>signed. Ok (signed, db')))"

record conversation_cursor_info =
  cc_conversation_id :: bytes
  num_entries_published :: nat
  last_entry_published_sequence_id :: u64
  last_entry_published_rowid :: int

fun prepare_publish_commit_log_info ::
    "log_env \<Rightarrow> commit_log_db \<Rightarrow> commit_log_group list \<Rightarrow>
     (commit_log_error, conversation_cursor_info list \<times> publish_commit_log_request list \<times> commit_log_db) result" where
  "prepare_publish_commit_log_info E db [] = Ok ([], [], db)"
| "prepare_publish_commit_log_info E db (c # cs) =
     (let local_cursor = (case get_local_commit_log_cursor db (cg_id c) of Some n \<Rightarrow> n | None \<Rightarrow> 0);
          published = get_cursor db (cg_id c) CommitLogUpload
      in
      if local_cursor \<le> sint (word_of_int published :: u32) then prepare_publish_commit_log_info E db cs
      else
      rbind (get_local_commit_log_after_cursor db (cg_id c) published AscendingByRowid) (\<lambda>logs.
      let log_entries = map plaintext_of_local (filter (\<lambda>l. ll_commit_type l \<noteq> Some RemovedFromGroup) logs) in
      if logs = [] then prepare_publish_commit_log_info E db cs
      else
      rbind (sign_group_logs E db c log_entries) (\<lambda>(signed, db').
      rbind (prepare_publish_commit_log_info E db' cs) (\<lambda>(infos, all_entries, db'').
      Ok (\<lparr> cc_conversation_id = cg_id c, num_entries_published = length log_entries,
            last_entry_published_sequence_id = (if log_entries = [] then 0 else pe_commit_sequence_id (last log_entries)),
            last_entry_published_rowid = ll_rowid (last logs) \<rparr> # infos,
          signed @ all_entries, db'')))))"

text \<open>\<open>publish\<close> says whether the network takes the log_entries.\<close>

definition publish_commit_logs_to_remote ::
    "log_env \<Rightarrow> (publish_commit_log_request list \<Rightarrow> bool) \<Rightarrow> commit_log_db \<Rightarrow>
     (commit_log_error, conversation_cursor_info list \<times> publish_commit_log_request list) result \<times> commit_log_db" where
  "publish_commit_logs_to_remote E publish db =
     (case prepare_publish_commit_log_info E db (get_conversation_ids_for_remote_log_publish db) of
        Err e \<Rightarrow> (Err e, db)
      | Ok (infos, all_entries, db') \<Rightarrow>
          if all_entries = [] then (Ok (infos, []), db')
          else if \<not> publish all_entries then (Err ClApi, db')
          else
            (Ok (infos, all_entries),
             fold (\<lambda>i d. update_cursor d (cc_conversation_id i) CommitLogUpload (last_entry_published_rowid i)) infos db'))"

section \<open>Downloading\<close>

text \<open>
  The checks of an entry against the row saved last; \<open>applied_epoch_number + 1\<close> wraps here, where a debug
  build would panic.
\<close>

definition should_skip_remote_commit_log_entry ::
    "log_env \<Rightarrow> bytes \<Rightarrow> remote_commit_log option \<Rightarrow> commit_log_entry \<Rightarrow> plaintext_commit_log_entry \<Rightarrow> bytes \<Rightarrow> bool" where
  "should_skip_remote_commit_log_entry E g latest_saved serialized_entry entry consensus_public_key \<longleftrightarrow>
     (if pe_group_id entry \<noteq> g \<or> pe_commit_sequence_id entry = 0 then True
      else if \<not> verify_commit_log_signature E serialized_entry consensus_public_key then True
      else
      case latest_saved of
        None \<Rightarrow> False
      | Some latest \<Rightarrow>
          let is_applied = pe_commit_result entry = commit_result_i32 Success in
          pe_commit_sequence_id entry \<le> rl_commit_sequence_id latest
          \<or> is_applied \<and> rl_applied_epoch_authenticator latest \<noteq> []
              \<and> pe_last_epoch_authenticator entry \<noteq> rl_applied_epoch_authenticator latest
          \<or> is_applied \<and> pe_applied_epoch_number entry \<noteq> rl_applied_epoch_number latest + 1
          \<or> \<not> is_applied
              \<and> (pe_applied_epoch_authenticator entry \<noteq> rl_applied_epoch_authenticator latest
                 \<or> pe_applied_epoch_number entry \<noteq> rl_applied_epoch_number latest))"

definition remote_row :: "u64 \<Rightarrow> plaintext_commit_log_entry \<Rightarrow> remote_commit_log" where
  "remote_row log_sequence_id entry = \<lparr> rl_rowid = 0, rl_log_sequence_id = log_sequence_id, rl_group_id = pe_group_id entry,
     rl_commit_sequence_id = pe_commit_sequence_id entry, rl_commit_result = commit_result_of_i32 (pe_commit_result entry),
     rl_applied_epoch_number = pe_applied_epoch_number entry, rl_applied_epoch_authenticator = pe_applied_epoch_authenticator entry \<rparr>"

fun save_entries ::
    "log_env \<Rightarrow> bytes \<Rightarrow> bytes \<Rightarrow> remote_commit_log option \<Rightarrow> commit_log_entry list \<Rightarrow> commit_log_db \<Rightarrow> nat \<times> commit_log_db" where
  "save_entries E g pk latest_saved [] db = (0, db)"
| "save_entries E g pk latest_saved (entry # log_entries) db =
     (case lv_decode E (ce_serialized entry) of
        None \<Rightarrow> save_entries E g pk latest_saved log_entries db
      | Some log_entry \<Rightarrow>
          if should_skip_remote_commit_log_entry E g latest_saved entry log_entry pk then save_entries E g pk latest_saved log_entries db
          else
          let row = remote_row (ce_sequence_id entry) log_entry;
              (n, db') = save_entries E g pk (Some row) log_entries (store_remote db row)
          in (Suc n, db'))"

definition save_remote_commit_log_entries_and_update_cursors ::
    "log_env \<Rightarrow> commit_log_db \<Rightarrow> query_commit_log_response \<Rightarrow> bytes option \<Rightarrow> (commit_log_error, nat \<times> commit_log_db) result" where
  "save_remote_commit_log_entries_and_update_cursors E db response consensus_public_key =
     rbind (group_id_try_from (qr_group_id response)) (\<lambda>g.
     let (num_entries_saved, db') =
           (case consensus_public_key of
              None \<Rightarrow> (0, db)
            | Some pk \<Rightarrow> save_entries E g pk (get_latest_remote_log_for_group db g) (qr_entries response) db)
     in Ok (num_entries_saved,
            if qr_entries response = [] then db'
            else update_cursor db' g CommitLogDownload (sint (ce_sequence_id (last (qr_entries response))))))"

definition commit_log_requests :: "commit_log_db \<Rightarrow> (bytes \<times> int) list" where
  "commit_log_requests db =
     map (\<lambda>c. (cg_id c, get_cursor db (cg_id c) CommitLogDownload)) (get_conversation_ids_for_remote_log_download db)"

text \<open>The responses are saved one after the other; the first failure stops, and what is stored stays.\<close>

fun save_responses ::
    "log_env \<Rightarrow> (bytes, bytes option) hash_map \<Rightarrow> query_commit_log_response list \<Rightarrow> commit_log_db \<Rightarrow> (bytes, nat) hash_map \<Rightarrow>
     (commit_log_error, (bytes, nat) hash_map) result \<times> commit_log_db" where
  "save_responses E keys [] db saved = (Ok saved, db)"
| "save_responses E keys (response # responses) db saved =
     (if qr_entries response = [] then save_responses E keys responses db saved
      else
      let known = Option.bind (hm_get (=) keys (qr_group_id response)) id in
      case (if known = None
            then rbind (derive_consensus_public_key E db response) (\<lambda>(pk, db', _). Ok (pk, db'))
            else Ok (known, db)) of
        Err e \<Rightarrow> (Err e, db)
      | Ok (consensus_public_key, db') \<Rightarrow>
          (case save_remote_commit_log_entries_and_update_cursors E db' response consensus_public_key of
             Err e \<Rightarrow> (Err e, db')
           | Ok (n, db'') \<Rightarrow> save_responses E keys responses db'' (hm_insert (=) (qr_group_id response) n saved)))"

text \<open>\<open>query\<close> is the service: it answers the requests, or fails.\<close>

definition save_remote_commit_log ::
    "log_env \<Rightarrow> ((bytes \<times> int) list \<Rightarrow> query_commit_log_response list option) \<Rightarrow> commit_log_db \<Rightarrow>
     (commit_log_error, (bytes, nat) hash_map) result \<times> commit_log_db" where
  "save_remote_commit_log E query db =
     (let keys = hm_from_iter (=) (map (\<lambda>c. (cg_id c, cg_public_key c)) (get_conversation_ids_for_remote_log_download db));
          requests = commit_log_requests db
      in
      if requests = [] then (Ok [], db)
      else
      case query requests of
        None \<Rightarrow> (Err ClApi, db)
      | Some responses \<Rightarrow> save_responses E keys responses db [])"

section \<open>Detecting forks\<close>

definition find_matching_remote_log :: "remote_commit_log list \<Rightarrow> u64 \<Rightarrow> remote_commit_log option" where
  "find_matching_remote_log remote_logs commit_sequence_id = find (\<lambda>r. rl_commit_sequence_id r = commit_sequence_id) remote_logs"

definition terminal_removal :: "local_commit_log \<Rightarrow> bool" where
  "terminal_removal l \<longleftrightarrow> ll_commit_result l = Success \<and> ll_applied_epoch_authenticator l = ll_last_epoch_authenticator l"

fun compare_logs ::
    "bytes \<Rightarrow> remote_commit_log list \<Rightarrow> bool \<Rightarrow> local_commit_log list \<Rightarrow> commit_log_db \<Rightarrow> bool option \<times> commit_log_db" where
  "compare_logs g remote_logs up_to_date [] db = (None, db)"
| "compare_logs g remote_logs up_to_date (l # ls) db =
     (if terminal_removal l then
        compare_logs g remote_logs up_to_date ls (update_cursor db g CommitLogForkCheckLocal (ll_rowid l))
      else
      case find_matching_remote_log remote_logs (ll_commit_sequence_id l) of
        None \<Rightarrow> compare_logs g remote_logs False ls db
      | Some r \<Rightarrow>
          let db' = update_cursor (update_cursor db g CommitLogForkCheckLocal (ll_rowid l)) g CommitLogForkCheckRemote (rl_rowid r) in
          if ll_applied_epoch_authenticator l \<noteq> rl_applied_epoch_authenticator r then (Some True, db')
          else if up_to_date then (Some False, db')
          else (None, db'))"

definition check_conversation_fork_state ::
    "commit_log_db \<Rightarrow> bytes \<Rightarrow> (commit_log_error, bool option) result \<times> commit_log_db" where
  "check_conversation_fork_state db g =
     (let checked = get_cursor db g CommitLogForkCheckLocal;
          checked_remote = get_cursor db g CommitLogForkCheckRemote;
          crossed = (case get_latest_chain_start_rowid db g of Some anchor \<Rightarrow> anchor > checked | None \<Rightarrow> False);
          local_cursor = (if crossed then the (get_latest_chain_start_rowid db g) else checked);
          db' = (if crossed then update_cursor db g CommitLogForkCheckLocal local_cursor else db)
      in
      case rbind (get_local_commit_log_after_cursor db' g local_cursor DescendingByRowid) (\<lambda>local_logs.
           rbind (get_remote_commit_log_after_cursor db' g checked_remote DescendingByRowid) (\<lambda>remote_logs.
           Ok (local_logs, remote_logs))) of
        Err e \<Rightarrow> (Err e, db')
      | Ok (local_logs, remote_logs) \<Rightarrow>
          if local_logs = [] then
            (if crossed then (Ok None, db') else (get_group_commit_log_forked_status db' g, db'))
          else
          let (verdict, db'') = compare_logs g remote_logs True local_logs db' in (Ok verdict, db''))"

text \<open>Each group is judged in a transaction: a failure leaves the database as it was, and stops.\<close>

fun update_forked_groups :: "bytes list \<Rightarrow> commit_log_db \<Rightarrow> (commit_log_error, unit) result \<times> commit_log_db" where
  "update_forked_groups [] db = (Ok (), db)"
| "update_forked_groups (g # gs) db =
     (case group_id_try_from g of
        Err e \<Rightarrow> (Err e, db)
      | Ok g' \<Rightarrow>
          (case check_conversation_fork_state db g' of
             (Err e, _) \<Rightarrow> (Err e, db)
           | (Ok is_forked, db') \<Rightarrow> update_forked_groups gs (set_group_commit_log_forked_status db' g' is_forked)))"

definition update_forked_state :: "commit_log_db \<Rightarrow> (commit_log_error, unit) result \<times> commit_log_db" where
  "update_forked_state db = update_forked_groups (get_conversation_ids_for_fork_check db) db"

end
