(* ===== verification/Fork_Detection.thy ===== *)
theory Fork_Detection
  imports Commit_Log
begin

text \<open>
  What the commit log promises: the saved remote log of a group is one chain of commits, signed with the key
  of the group, whatever the service sends; and the verdict on a fork compares the newest commit of the
  member with that chain. The first is an invariant of every sequence of operations on the log, the second
  rests on it.
\<close>

section \<open>Queries\<close>

lemma sort_key_sorted: "sorted (map f xs) \<Longrightarrow> sort_key f xs = xs"
  by (induction xs) (auto simp: insort_is_Cons)

lemma sorted_wrt_map_filter: "sorted_wrt R (map f xs) \<Longrightarrow> sorted_wrt R (map f (filter P xs))"
  by (induction xs) auto

lemma strict_sorted_map: "sorted_wrt (<) (map f xs) \<Longrightarrow> sorted (map f xs)" for f :: "'a \<Rightarrow> int"
  by (rule strict_sorted_imp_sorted)

lemma sort_key_filter_rows: "sorted_wrt (<) (map f xs) \<Longrightarrow> sort_key f (filter P xs) = filter P xs" for f :: "'a \<Rightarrow> int"
  by (intro sort_key_sorted strict_sorted_map sorted_wrt_map_filter)

lemma last_of_sorted: "sorted_wrt (<) (map f xs) \<Longrightarrow> last_of f xs = (if xs = [] then None else Some (last xs))"
  by (simp add: last_of_def sort_key_sorted strict_sorted_map)

lemma next_rowid_greater: "n \<in> set ids \<Longrightarrow> n < next_rowid ids"
  by (auto simp: next_rowid_def intro!: zle_add1_eq_le [THEN iffD2] Max_ge)

lemma next_rowid_pos: "\<forall>n \<in> set ids. 0 < n \<Longrightarrow> 0 < next_rowid ids"
  using Max_in [of "set ids"] by (fastforce simp: next_rowid_def)

lemma sorted_next_rowid:
  "sorted_wrt (<) (map f xs @ [next_rowid (map f xs)]) \<longleftrightarrow> sorted_wrt (<) (map f xs)"
  using next_rowid_greater [of _ "map f xs"] by (auto simp: sorted_wrt_append)

lemma get_cursor_update:
  "0 \<le> n \<Longrightarrow> get_cursor (update_cursor db g k n) g' k' =
     (if g' = g \<and> k' = k then max (get_cursor db g k) n else get_cursor db g' k')"
  by (auto simp: update_cursor_def get_cursor_def plain.hm_get_insert max_def split: option.splits)

lemma update_cursor_frame [simp]:
  "local_log_rows (update_cursor db g k n) = local_log_rows db"
  "remote_log_rows (update_cursor db g k n) = remote_log_rows db"
  "log_groups (update_cursor db g k n) = log_groups db"
  "commit_log_keys (update_cursor db g k n) = commit_log_keys db"
  by (auto simp: update_cursor_def split: option.splits)

section \<open>The saved remote log is a chain\<close>

definition remote_rows :: "commit_log_db \<Rightarrow> bytes \<Rightarrow> remote_commit_log list" where
  "remote_rows db g = filter (\<lambda>r. rl_group_id r = g) (remote_log_rows db)"

definition log_id :: "remote_commit_log \<Rightarrow> int" where
  "log_id r = sint (rl_log_sequence_id r)"

definition follows :: "remote_commit_log \<Rightarrow> remote_commit_log \<Rightarrow> bool" where
  "follows a b \<longleftrightarrow> rl_commit_sequence_id a < rl_commit_sequence_id b \<and>
     (if rl_commit_result b = Success then rl_applied_epoch_number b = rl_applied_epoch_number a + 1
      else rl_applied_epoch_number b = rl_applied_epoch_number a \<and>
           rl_applied_epoch_authenticator b = rl_applied_epoch_authenticator a)"

definition chained :: "remote_commit_log list \<Rightarrow> bool" where
  "chained rs \<longleftrightarrow> successively follows rs \<and> sorted_wrt (<) (map log_id rs) \<and> (\<forall>r \<in> set rs. rl_commit_sequence_id r \<noteq> 0)"

lemma chained_Nil [simp]: "chained []"
  by (simp add: chained_def)

lemma chained_snoc:
  "chained (rs @ [r]) \<longleftrightarrow> chained rs \<and> rl_commit_sequence_id r \<noteq> 0
     \<and> (rs = [] \<or> follows (last rs) r) \<and> (\<forall>a \<in> set rs. log_id a < log_id r)"
  by (auto simp: chained_def successively_append_iff sorted_wrt_append)

lemma chained_commits_sorted: "chained rs \<Longrightarrow> sorted_wrt (<) (map rl_commit_sequence_id rs)"
proof -
  assume "chained rs"
  then have "successively (\<lambda>a b. rl_commit_sequence_id a < rl_commit_sequence_id b) rs"
    by (auto simp: chained_def follows_def elim: successively_mono)
  then have "successively (<) (map rl_commit_sequence_id rs)" by (simp add: successively_map)
  then show ?thesis by (simp add: successively_conv_sorted_wrt)
qed

lemma latest_remote:
  "chained (remote_rows db g) \<Longrightarrow>
     get_latest_remote_log_for_group db g = (if remote_rows db g = [] then None else Some (last (remote_rows db g)))"
  by (simp add: get_latest_remote_log_for_group_def remote_rows_def [symmetric] last_of_sorted chained_def
      log_id_def [abs_def, symmetric])

lemma commit_result_of_i32_Success [simp]: "commit_result_of_i32 n = Success \<longleftrightarrow> n = 1"
  by (auto simp: commit_result_of_i32_def)

text \<open>What passes the checks continues the chain.\<close>

lemma not_skipped:
  assumes "\<not> should_skip_remote_commit_log_entry E g latest entry e pk"
  shows "pe_group_id e = g" "pe_commit_sequence_id e \<noteq> 0" "verify_commit_log_signature E entry pk"
    "latest = Some a \<Longrightarrow> follows a (remote_row n e)"
  using assms
  by (auto simp: should_skip_remote_commit_log_entry_def Let_def follows_def remote_row_def
      split: if_splits option.splits)

lemma follows_rowid [simp]:
  "follows (a\<lparr> rl_rowid := n \<rparr>) b = follows a b" "follows a (b\<lparr> rl_rowid := n \<rparr>) = follows a b"
  by (simp_all add: follows_def)

lemma log_id_rowid [simp]: "log_id (a\<lparr> rl_rowid := n \<rparr>) = log_id a" "log_id (remote_row s e) = sint s"
  by (simp_all add: log_id_def remote_row_def)

definition same_row :: "remote_commit_log option \<Rightarrow> remote_commit_log list \<Rightarrow> bool" where
  "same_row latest rs \<longleftrightarrow>
     (case latest of None \<Rightarrow> rs = [] | Some a \<Rightarrow> rs \<noteq> [] \<and> a\<lparr> rl_rowid := 0 \<rparr> = (last rs)\<lparr> rl_rowid := 0 \<rparr>)"

lemma same_row_follows:
  assumes "same_row latest rs" "rs \<noteq> []" "\<And>a. latest = Some a \<Longrightarrow> follows a b"
  shows "follows (last rs) b"
proof -
  from assms obtain a where "latest = Some a" "a\<lparr> rl_rowid := 0 \<rparr> = (last rs)\<lparr> rl_rowid := 0 \<rparr>"
    by (auto simp: same_row_def split: option.splits)
  with assms(3) [of a] show ?thesis by (metis follows_rowid(1))
qed

lemma store_remote_frame [simp]:
  "local_log_rows (store_remote db r) = local_log_rows db"
  "refresh_state (store_remote db r) = refresh_state db"
  "log_groups (store_remote db r) = log_groups db"
  "commit_log_keys (store_remote db r) = commit_log_keys db"
  "get_cursor (store_remote db r) = get_cursor db"
  by (auto simp: store_remote_def get_cursor_def fun_eq_iff)

lemma remote_rows_store:
  "remote_rows (store_remote db r) g =
     remote_rows db g @ (if rl_group_id r = g then [r\<lparr> rl_rowid := next_rowid (map rl_rowid (remote_log_rows db)) \<rparr>] else [])"
  by (simp add: remote_rows_def store_remote_def)

lemma save_entries_chained:
  assumes "chained (remote_rows db g)" "same_row latest (remote_rows db g)"
    and "sorted_wrt (<) (map (\<lambda>e. sint (ce_sequence_id e)) es)"
    and "\<forall>r \<in> set (remote_rows db g). \<forall>e \<in> set es. log_id r < sint (ce_sequence_id e)"
  shows "chained (remote_rows (snd (save_entries E g pk latest es db)) g)"
  using assms
proof (induction es arbitrary: latest db)
  case Nil
  then show ?case by simp
next
  case (Cons entry es)
  show ?case
  proof (cases "\<exists>e. lv_decode E (ce_serialized entry) = Some e \<and> \<not> should_skip_remote_commit_log_entry E g latest entry e pk")
    case False
    with Cons show ?thesis by (auto split: option.splits)
  next
    case True
    then obtain e where e: "lv_decode E (ce_serialized entry) = Some e"
      "\<not> should_skip_remote_commit_log_entry E g latest entry e pk" by auto
    note kept = not_skipped [OF e(2)]
    define row where "row = remote_row (ce_sequence_id entry) e"
    have row: "rl_group_id row = g" "rl_commit_sequence_id row \<noteq> 0" "log_id row = sint (ce_sequence_id entry)"
      using kept by (auto simp: row_def remote_row_def log_id_def)
    have "remote_rows db g = [] \<or> follows (last (remote_rows db g)) row"
      using same_row_follows [OF Cons.prems(2)] kept(4) by (auto simp: row_def)
    then have "chained (remote_rows (snd (save_entries E g pk (Some row) es (store_remote db row))) g)"
      by (intro Cons.IH) (use Cons.prems row in \<open>auto simp: remote_rows_store chained_snoc same_row_def\<close>)
    with e show ?thesis by (simp add: row_def case_prod_beta Let_def)
  qed
qed

definition rowids_ok :: "int list \<Rightarrow> bool" where
  "rowids_ok ids \<longleftrightarrow> sorted_wrt (<) ids \<and> (\<forall>n \<in> set ids. 0 < n)"

lemma rowids_ok_snoc: "rowids_ok ids \<Longrightarrow> rowids_ok (ids @ [next_rowid ids])"
  by (auto simp: rowids_ok_def sorted_wrt_append next_rowid_greater next_rowid_pos)

lemma rowids_ok_store_remote:
  "rowids_ok (map rl_rowid (remote_log_rows db)) \<Longrightarrow> rowids_ok (map rl_rowid (remote_log_rows (store_remote db r)))"
  using rowids_ok_snoc by (simp add: store_remote_def)

text \<open>A row that an entry gives, apart from the row id.\<close>

definition row_of_entry :: "log_env \<Rightarrow> bytes \<Rightarrow> bytes \<Rightarrow> commit_log_entry \<Rightarrow> remote_commit_log \<Rightarrow> bool" where
  "row_of_entry E g pk entry r \<longleftrightarrow>
     (\<exists>e n. lv_decode E (ce_serialized entry) = Some e \<and> verify_commit_log_signature E entry pk \<and> pe_group_id e = g
        \<and> r = (remote_row (ce_sequence_id entry) e)\<lparr> rl_rowid := n \<rparr>)"

lemma row_of_entry_group: "row_of_entry E g pk entry r \<Longrightarrow> rl_group_id r = g"
  by (auto simp: row_of_entry_def remote_row_def)

lemma row_of_entry_id: "row_of_entry E g pk entry r \<Longrightarrow> log_id r = sint (ce_sequence_id entry)"
  by (auto simp: row_of_entry_def)

definition extends_remote :: "log_env \<Rightarrow> bytes \<Rightarrow> bytes \<Rightarrow> commit_log_entry list \<Rightarrow> commit_log_db \<Rightarrow> commit_log_db \<Rightarrow> bool" where
  "extends_remote E g pk es db db' \<longleftrightarrow>
     (\<exists>rows. db' = db\<lparr> remote_log_rows := remote_log_rows db @ rows \<rparr> \<and> (\<forall>r \<in> set rows. \<exists>e \<in> set es. row_of_entry E g pk e r)
        \<and> (rowids_ok (map rl_rowid (remote_log_rows db)) \<longrightarrow> rowids_ok (map rl_rowid (remote_log_rows db'))))"

lemma extends_remote_refl: "extends_remote E g pk es db db"
  by (auto simp: extends_remote_def intro!: exI [of _ "[]"])

lemma extends_remote_trans:
  "extends_remote E g pk es db db' \<Longrightarrow> extends_remote E g pk es db' db'' \<Longrightarrow> extends_remote E g pk es db db''"
  by (fastforce simp: extends_remote_def)

lemma extends_remote_mono:
  "extends_remote E g pk es db db' \<Longrightarrow> set es \<subseteq> set es' \<Longrightarrow> extends_remote E g pk es' db db'"
  unfolding extends_remote_def by blast

lemma extends_remote_store:
  assumes "lv_decode E (ce_serialized entry) = Some e" "\<not> should_skip_remote_commit_log_entry E g latest entry e pk" "entry \<in> set es"
  shows "extends_remote E g pk es db (store_remote db (remote_row (ce_sequence_id entry) e))"
proof -
  let ?row = "(remote_row (ce_sequence_id entry) e)\<lparr> rl_rowid := next_rowid (map rl_rowid (remote_log_rows db)) \<rparr>"
  have "row_of_entry E g pk entry ?row"
    using assms not_skipped [OF assms(2)] by (auto simp: row_of_entry_def)
  with assms(3) show ?thesis
    using rowids_ok_store_remote [of db] unfolding extends_remote_def store_remote_def
    by (intro exI [of _ "[?row]"]) auto
qed

lemma save_entries_extends: "extends_remote E g pk es db (snd (save_entries E g pk latest es db))"
proof (induction es arbitrary: latest db)
  case Nil
  then show ?case by (simp add: extends_remote_refl)
next
  case (Cons entry es)
  note IH = Cons [THEN extends_remote_mono, of "entry # es"]
  show ?case
  proof (cases "\<exists>e. lv_decode E (ce_serialized entry) = Some e \<and> \<not> should_skip_remote_commit_log_entry E g latest entry e pk")
    case False
    with IH show ?thesis by (auto split: option.splits)
  next
    case True
    then obtain e where e: "lv_decode E (ce_serialized entry) = Some e"
      "\<not> should_skip_remote_commit_log_entry E g latest entry e pk" by auto
    show ?thesis
      using extends_remote_trans [OF extends_remote_store [OF e, of "entry # es"] IH] e
      by (simp add: case_prod_beta Let_def subset_insertI)
  qed
qed

lemma extends_remote_rows:
  assumes "extends_remote E g pk es db db'"
  shows "\<exists>rows. remote_rows db' g = remote_rows db g @ rows \<and> (\<forall>r \<in> set rows. \<exists>e \<in> set es. row_of_entry E g pk e r)
    \<and> (\<forall>h. h \<noteq> g \<longrightarrow> remote_rows db' h = remote_rows db h)"
proof -
  from assms obtain rows where rows: "db' = db\<lparr> remote_log_rows := remote_log_rows db @ rows \<rparr>"
    "\<forall>r \<in> set rows. \<exists>e \<in> set es. row_of_entry E g pk e r" by (auto simp: extends_remote_def)
  then have "filter (\<lambda>r. rl_group_id r = g) rows = rows" "\<And>h. h \<noteq> g \<Longrightarrow> filter (\<lambda>r. rl_group_id r = h) rows = []"
    using row_of_entry_group by (fastforce simp: filter_id_conv filter_empty_conv)+
  with rows show ?thesis by (intro exI [of _ rows]) (auto simp: remote_rows_def)
qed

definition remote_ok :: "commit_log_db \<Rightarrow> bool" where
  "remote_ok db \<longleftrightarrow> rowids_ok (map rl_rowid (remote_log_rows db)) \<and>
     (\<forall>g. chained (remote_rows db g) \<and> 0 \<le> get_cursor db g CommitLogDownload \<and>
        (\<forall>r \<in> set (remote_rows db g). log_id r \<le> get_cursor db g CommitLogDownload))"

text \<open>What the service promises of a page: ascending, and after the cursor that was asked for.\<close>

definition pages_after :: "int \<Rightarrow> commit_log_entry list \<Rightarrow> bool" where
  "pages_after cursor es \<longleftrightarrow> sorted_wrt (<) (map (\<lambda>e. sint (ce_sequence_id e)) es) \<and> (\<forall>e \<in> set es. cursor < sint (ce_sequence_id e))"

definition answers :: "(bytes \<times> int) list \<Rightarrow> query_commit_log_response list \<Rightarrow> bool" where
  "answers requests responses \<longleftrightarrow> distinct (map qr_group_id responses) \<and>
     (\<forall>response \<in> set responses. \<exists>cursor. (qr_group_id response, cursor) \<in> set requests \<and> pages_after cursor (qr_entries response))"

lemma pages_after_last: "pages_after cursor es \<Longrightarrow> e \<in> set es \<Longrightarrow> sint (ce_sequence_id e) \<le> sint (ce_sequence_id (last es))"
  by (cases es rule: rev_cases) (auto simp: pages_after_def sorted_wrt_append less_imp_le)

lemma save_step:
  assumes "save_remote_commit_log_entries_and_update_cursors E db response pk = Ok (n, db')"
  shows "\<exists>mid. (pk = None \<and> mid = db \<or> (\<exists>k. pk = Some k \<and> mid = snd (save_entries E (qr_group_id response) k
        (get_latest_remote_log_for_group db (qr_group_id response)) (qr_entries response) db)))
     \<and> db' = (if qr_entries response = [] then mid
              else update_cursor mid (qr_group_id response) CommitLogDownload (sint (ce_sequence_id (last (qr_entries response)))))"
  using assms
  by (cases pk) (auto simp: save_remote_commit_log_entries_and_update_cursors_def group_id_try_from_def Let_def case_prod_beta
      split: if_splits)

lemma extends_remote_frame:
  assumes "extends_remote E g pk es db db'"
  shows "local_log_rows db' = local_log_rows db" "refresh_state db' = refresh_state db" "log_groups db' = log_groups db"
    "commit_log_keys db' = commit_log_keys db" "get_cursor db' = get_cursor db"
    "\<exists>rows. remote_log_rows db' = remote_log_rows db @ rows"
  using assms by (auto simp: extends_remote_def get_cursor_def fun_eq_iff)

text \<open>Saving a page keeps the invariant, and touches one group only.\<close>

definition page_saved :: "bytes \<Rightarrow> commit_log_db \<Rightarrow> commit_log_db \<Rightarrow> bool" where
  "page_saved g db db' \<longleftrightarrow> local_log_rows db' = local_log_rows db \<and> log_groups db' = log_groups db
     \<and> commit_log_keys db' = commit_log_keys db
     \<and> (\<forall>h k. h \<noteq> g \<or> k \<noteq> CommitLogDownload \<longrightarrow> get_cursor db' h k = get_cursor db h k)
     \<and> (\<exists>rows. remote_log_rows db' = remote_log_rows db @ rows)"

lemma save_entries_ok:
  assumes ok: "remote_ok db" and page: "pages_after (get_cursor db (qr_group_id response) CommitLogDownload) (qr_entries response)"
    and saved: "save_remote_commit_log_entries_and_update_cursors E db response pk = Ok (n, db')"
  shows "remote_ok db' \<and> page_saved (qr_group_id response) db db'"
proof -
  let ?g = "qr_group_id response" and ?es = "qr_entries response"
  let ?latest = "get_latest_remote_log_for_group db ?g" and ?cursor = "sint (ce_sequence_id (last (qr_entries response)))"
  from save_step [OF saved] obtain mid where
    mid: "pk = None \<and> mid = db \<or> (\<exists>k. pk = Some k \<and> mid = snd (save_entries E ?g k ?latest ?es db))"
    and db': "db' = (if ?es = [] then mid else update_cursor mid ?g CommitLogDownload ?cursor)" by blast
  have chain: "chained (remote_rows db ?g)" and below: "\<forall>r \<in> set (remote_rows db ?g). log_id r \<le> get_cursor db ?g CommitLogDownload"
    and pos: "0 \<le> get_cursor db ?g CommitLogDownload" using ok by (auto simp: remote_ok_def)
  have latest: "same_row ?latest (remote_rows db ?g)" using chain by (simp add: latest_remote same_row_def)
  obtain k where ext: "extends_remote E ?g k ?es db mid"
    using mid extends_remote_refl save_entries_extends by metis
  have "\<forall>r \<in> set (remote_rows db ?g). \<forall>e \<in> set ?es. log_id r < sint (ce_sequence_id e)"
    using below page by (fastforce simp: pages_after_def)
  then have mid_chain: "chained (remote_rows mid ?g)"
    using mid chain save_entries_chained [OF chain latest] page by (auto simp: pages_after_def)
  obtain rows where rows: "remote_rows mid ?g = remote_rows db ?g @ rows"
      "\<forall>r \<in> set rows. \<exists>e \<in> set ?es. row_of_entry E ?g k e r" "\<And>h. h \<noteq> ?g \<Longrightarrow> remote_rows mid h = remote_rows db h"
    using extends_remote_rows [OF ext] by blast
  have new: "?es \<noteq> [] \<and> log_id r \<le> ?cursor" if "r \<in> set rows" for r
  proof -
    from rows(2) that obtain e where "e \<in> set ?es" "log_id r = sint (ce_sequence_id e)" by (blast dest: row_of_entry_id)
    with pages_after_last [OF page] show ?thesis by fastforce
  qed
  have up: "0 \<le> ?cursor \<and> get_cursor db ?g CommitLogDownload \<le> ?cursor" if "?es \<noteq> []"
    using page pos last_in_set [OF that] unfolding pages_after_def by (meson less_imp_le order_trans)
  note frame = extends_remote_frame [OF ext]
  have cursors: "get_cursor db' h k' = (if h = ?g \<and> k' = CommitLogDownload \<and> ?es \<noteq> [] then ?cursor else get_cursor db h k')" for h k'
    using up by (auto simp: db' get_cursor_update frame)
  have rows': "remote_rows db' h = remote_rows mid h" for h by (simp add: db' remote_rows_def)
  have "rowids_ok (map rl_rowid (remote_log_rows mid))" using ext ok by (auto simp: extends_remote_def remote_ok_def)
  moreover have "chained (remote_rows db' h) \<and> 0 \<le> get_cursor db' h CommitLogDownload \<and>
      (\<forall>r \<in> set (remote_rows db' h). log_id r \<le> get_cursor db' h CommitLogDownload)" for h
  proof (cases "h = ?g")
    case True
    have "log_id r \<le> get_cursor db' h CommitLogDownload" if "r \<in> set (remote_rows db' h)" for r
      using that new [of r] below up True by (cases "?es = []") (auto simp: rows' cursors rows(1) intro: order_trans)
    with mid_chain up pos True show ?thesis by (auto simp: rows' cursors)
  next
    case False
    with ok show ?thesis by (simp add: rows' cursors rows(3) remote_ok_def)
  qed
  ultimately have "remote_ok db'" by (auto simp: remote_ok_def db')
  moreover have "page_saved ?g db db'" using frame cursors by (auto simp: page_saved_def db')
  ultimately show ?thesis ..
qed

definition statuses :: "commit_log_group list \<Rightarrow> (bytes \<times> bool option) list" where
  "statuses gs = map (\<lambda>c. (cg_id c, cg_is_forked c)) gs"

definition downloaded :: "commit_log_db \<Rightarrow> commit_log_db \<Rightarrow> bool" where
  "downloaded db db' \<longleftrightarrow> local_log_rows db' = local_log_rows db \<and> statuses (log_groups db') = statuses (log_groups db)
     \<and> (\<forall>h k. k \<noteq> CommitLogDownload \<longrightarrow> get_cursor db' h k = get_cursor db h k)
     \<and> (\<exists>rows. remote_log_rows db' = remote_log_rows db @ rows)"

lemma downloaded_refl: "downloaded db db"
  by (simp add: downloaded_def)

lemma downloaded_trans: "downloaded db db' \<Longrightarrow> downloaded db' db'' \<Longrightarrow> downloaded db db''"
  by (auto simp: downloaded_def)

lemma page_saved_downloaded: "page_saved g db db' \<Longrightarrow> downloaded db db'"
  by (auto simp: page_saved_def downloaded_def)

lemma remote_ok_groups [simp]: "remote_ok (db\<lparr> log_groups := gs \<rparr>) = remote_ok db"
  by (simp add: remote_ok_def remote_rows_def get_cursor_def)

lemma get_cursor_groups [simp]: "get_cursor (db\<lparr> log_groups := gs \<rparr>) = get_cursor db"
  by (simp add: get_cursor_def fun_eq_iff)

lemma derive_from_entries_groups:
  "derive_from_entries E db g es = Ok (pk, db', shared) \<Longrightarrow>
     \<exists>gs. db' = db\<lparr> log_groups := gs \<rparr> \<and> statuses gs = statuses (log_groups db)"
proof (induction es)
  case Nil
  then show ?case by (auto intro: exI [of _ "log_groups db"])
next
  case (Cons e es)
  then show ?case
    by (auto simp: rbind_eq_Ok set_group_commit_log_public_key_def statuses_def split: option.splits if_splits)
qed

lemma derive_groups:
  "derive_consensus_public_key E db response = Ok (pk, db', shared) \<Longrightarrow>
     \<exists>gs. db' = db\<lparr> log_groups := gs \<rparr> \<and> statuses gs = statuses (log_groups db)"
  by (auto simp: derive_consensus_public_key_def rbind_eq_Ok dest: derive_from_entries_groups)

lemma save_responses_ok:
  assumes "remote_ok db" "distinct (map qr_group_id responses)"
    and "\<forall>response \<in> set responses. pages_after (get_cursor db (qr_group_id response) CommitLogDownload) (qr_entries response)"
  shows "remote_ok (snd (save_responses E keys responses db saved)) \<and> downloaded db (snd (save_responses E keys responses db saved))"
  using assms
proof (induction responses arbitrary: db saved)
  case Nil
  then show ?case by (simp add: downloaded_refl)
next
  case (Cons response responses)
  let ?known = "Option.bind (hm_get (=) keys (qr_group_id response)) id"
  let ?key = "if ?known = None
      then rbind (derive_consensus_public_key E db response) (\<lambda>(pk, db', _). Ok (pk, db'))
      else Ok (?known, db)"
  show ?case
  proof (cases "qr_entries response = []")
    case True
    with Cons show ?thesis by simp
  next
    case nonempty: False
    show ?thesis
    proof (cases ?key)
      case (Inl e)
      with nonempty Cons.prems show ?thesis by (simp add: Let_def downloaded_refl)
    next
      case (Inr r)
      obtain pk mid where r: "r = (pk, mid)" by fastforce
      have "\<exists>gs. mid = db\<lparr> log_groups := gs \<rparr> \<and> statuses gs = statuses (log_groups db)"
        using Inr by (auto simp: r rbind_eq_Ok dest: derive_groups split: if_splits intro: exI [of _ "log_groups db"])
      then have mid: "remote_ok mid" "downloaded db mid" "get_cursor mid = get_cursor db"
        using Cons.prems by (auto simp: downloaded_def)
      show ?thesis
      proof (cases "save_remote_commit_log_entries_and_update_cursors E mid response pk")
        case (Inl e)
        with nonempty Inr mid show ?thesis by (simp add: Let_def r)
      next
        case saved: (Inr q)
        obtain n db' where q: "q = (n, db')" by fastforce
        have step: "remote_ok db'" "page_saved (qr_group_id response) mid db'"
          using save_entries_ok [OF mid(1) _ saved [unfolded q]] Cons.prems mid(3) by auto
        have "\<forall>x \<in> set responses. pages_after (get_cursor db' (qr_group_id x) CommitLogDownload) (qr_entries x)"
          using Cons.prems step(2) mid(3) by (auto simp: page_saved_def image_iff)
        then show ?thesis
          using Cons.IH [OF step(1)] Cons.prems nonempty Inr saved downloaded_trans page_saved_downloaded [OF step(2)] mid(2)
          by (simp add: Let_def r q)
      qed
    qed
  qed
qed

lemma save_remote_commit_log_ok:
  assumes ok: "remote_ok db"
    and "\<forall>responses. query (commit_log_requests db) = Some responses \<longrightarrow> answers (commit_log_requests db) responses"
  shows "remote_ok (snd (save_remote_commit_log E query db)) \<and> downloaded db (snd (save_remote_commit_log E query db))"
proof (cases "query (commit_log_requests db)")
  case None
  with ok show ?thesis by (simp add: save_remote_commit_log_def Let_def downloaded_refl)
next
  case (Some responses)
  then have "distinct (map qr_group_id responses)"
    "\<forall>response \<in> set responses. pages_after (get_cursor db (qr_group_id response) CommitLogDownload) (qr_entries response)"
    using assms(2) by (fastforce simp: answers_def commit_log_requests_def)+
  from save_responses_ok [OF ok this] Some ok show ?thesis
    by (simp add: save_remote_commit_log_def Let_def downloaded_refl)
qed

section \<open>The verdict on a fork\<close>

definition local_rows :: "commit_log_db \<Rightarrow> bytes \<Rightarrow> local_commit_log list" where
  "local_rows db g = filter (\<lambda>l. ll_group_id l = g \<and> ll_commit_sequence_id l \<noteq> 0) (local_log_rows db)"

definition consensus :: "commit_log_db \<Rightarrow> bytes \<Rightarrow> u64 \<Rightarrow> remote_commit_log option" where
  "consensus db g c = find (\<lambda>r. rl_commit_sequence_id r = c) (remote_rows db g)"

text \<open>
  The specification: among the commits after the cursor and after the last chain start that did not remove
  the member, the newest one that the chain of the group knows decides, and it decides for agreement only if it is the
  newest of all.
\<close>

fun newest_decides :: "(u64 \<Rightarrow> remote_commit_log option) \<Rightarrow> bool \<Rightarrow> local_commit_log list \<Rightarrow> bool option" where
  "newest_decides known newest [] = None"
| "newest_decides known newest (l # ls) =
     (case known (ll_commit_sequence_id l) of
        None \<Rightarrow> newest_decides known False ls
      | Some r \<Rightarrow>
          if ll_applied_epoch_authenticator l \<noteq> rl_applied_epoch_authenticator r then Some True
          else if newest then Some False else None)"

definition fork_verdict :: "commit_log_db \<Rightarrow> bytes \<Rightarrow> bool option" where
  "fork_verdict db g =
     (let checked = get_cursor db g CommitLogForkCheckLocal;
          start = (case get_latest_chain_start_rowid db g of Some n \<Rightarrow> max checked n | None \<Rightarrow> checked);
          rows = rev (filter (\<lambda>l. start < ll_rowid l) (local_rows db g))
      in
      if rows = [] then
        (if checked < start then None else Option.bind (map_option cg_is_forked (find_group db g)) id)
      else newest_decides (consensus db g) True (filter (\<lambda>l. \<not> terminal_removal l) rows))"

lemma compare_logs_verdict:
  "\<forall>l \<in> set ls. find_matching_remote_log rs (ll_commit_sequence_id l) = known (ll_commit_sequence_id l) \<Longrightarrow>
     fst (compare_logs g rs up ls db) = newest_decides known up (filter (\<lambda>l. \<not> terminal_removal l) ls)"
  by (induction ls arbitrary: up db) (auto simp: Let_def split: option.splits)

text \<open>Where the cursors of the check stand: at rows, and at the same commit of both logs.\<close>

definition checked_ok :: "commit_log_db \<Rightarrow> bytes \<Rightarrow> bool" where
  "checked_ok db g \<longleftrightarrow>
     (get_cursor db g CommitLogForkCheckLocal = 0 \<or>
       (\<exists>l \<in> set (local_log_rows db). ll_group_id l = g \<and> ll_rowid l = get_cursor db g CommitLogForkCheckLocal)) \<and>
     (get_cursor db g CommitLogForkCheckRemote = 0 \<or>
       (\<exists>l \<in> set (local_rows db g). \<exists>r \<in> set (remote_rows db g).
          ll_commit_sequence_id l = rl_commit_sequence_id r \<and> ll_rowid l \<le> get_cursor db g CommitLogForkCheckLocal
          \<and> rl_rowid r = get_cursor db g CommitLogForkCheckRemote))"

definition local_ok :: "commit_log_db \<Rightarrow> bool" where
  "local_ok db \<longleftrightarrow> rowids_ok (map ll_rowid (local_log_rows db)) \<and>
     (\<forall>g. sorted_wrt (<) (map ll_commit_sequence_id (local_rows db g)))"

lemma sorted_wrt_orders_agree:
  fixes f :: "'a \<Rightarrow> 'b :: linorder" and h :: "'a \<Rightarrow> 'c :: linorder"
  assumes "sorted_wrt (<) (map f xs)" "sorted_wrt (<) (map h xs)" "x \<in> set xs" "y \<in> set xs"
  shows "f x < f y \<longleftrightarrow> h x < h y"
  using assms by (induction xs) auto

lemma find_unique:
  assumes "inj_on f (set xs)"
  shows "find (\<lambda>x. f x = c) xs = Some x \<longleftrightarrow> x \<in> set xs \<and> f x = c"
  using assms by (induction xs) (auto simp: inj_on_def)

lemma find_same:
  assumes "inj_on f (set ys)" "set xs \<subseteq> set ys" "\<And>y. y \<in> set ys \<Longrightarrow> f y = c \<Longrightarrow> y \<in> set xs"
  shows "find (\<lambda>x. f x = c) xs = find (\<lambda>x. f x = c) ys"
proof -
  have "find (\<lambda>x. f x = c) xs = Some x \<longleftrightarrow> find (\<lambda>x. f x = c) ys = Some x" for x
    using assms(2,3) find_unique [OF assms(1)] find_unique [OF inj_on_subset [OF assms(1,2)]] by blast
  then show ?thesis by (metis option.exhaust)
qed

lemma local_rows_sorted:
  "local_ok db \<Longrightarrow> sorted_wrt (<) (map ll_rowid (local_rows db g)) \<and> sorted_wrt (<) (map ll_commit_sequence_id (local_rows db g))"
  by (auto simp: local_ok_def rowids_ok_def local_rows_def intro: sorted_wrt_map_filter)

lemma remote_rows_sorted:
  "remote_ok db \<Longrightarrow> sorted_wrt (<) (map rl_rowid (remote_rows db g)) \<and> sorted_wrt (<) (map rl_commit_sequence_id (remote_rows db g))"
  by (auto simp: remote_ok_def rowids_ok_def remote_rows_def intro: sorted_wrt_map_filter chained_commits_sorted)

lemma get_remote_after:
  assumes "remote_ok db" "cursor < 2 ^ 31"
  shows "get_remote_commit_log_after_cursor db g cursor DescendingByRowid = Ok (rev (filter (\<lambda>r. cursor < rl_rowid r) (remote_rows db g)))"
proof -
  have "filter (\<lambda>r. rl_group_id r = g \<and> cursor < rl_rowid r \<and> rl_commit_sequence_id r \<noteq> 0) (remote_log_rows db) =
      filter (\<lambda>r. cursor < rl_rowid r) (remote_rows db g)"
    using assms(1) by (auto simp: remote_ok_def chained_def remote_rows_def intro!: filter_cong)
  with assms show ?thesis
    using remote_rows_sorted [OF assms(1), of g] by (simp add: get_remote_commit_log_after_cursor_def sort_key_filter_rows)
qed

lemma get_local_after:
  assumes "local_ok db" "cursor < 2 ^ 31"
  shows "get_local_commit_log_after_cursor db g cursor DescendingByRowid = Ok (rev (filter (\<lambda>l. cursor < ll_rowid l) (local_rows db g)))"
proof -
  have "filter (\<lambda>l. ll_group_id l = g \<and> cursor < ll_rowid l \<and> ll_commit_sequence_id l \<noteq> 0) (local_log_rows db) =
      filter (\<lambda>l. cursor < ll_rowid l) (local_rows db g)"
    by (auto simp: local_rows_def intro!: filter_cong)
  with assms show ?thesis
    using local_rows_sorted [OF assms(1), of g] by (simp add: get_local_commit_log_after_cursor_def sort_key_filter_rows)
qed

text \<open>The rows that the remote cursor leaves out are of no use for the commits still to be compared.\<close>

lemma match_after_cursor:
  assumes "local_ok db" "remote_ok db" "checked_ok db g" "l \<in> set (local_rows db g)"
    and "get_cursor db g CommitLogForkCheckLocal < ll_rowid l"
  shows "find_matching_remote_log (rev (filter (\<lambda>r. get_cursor db g CommitLogForkCheckRemote < rl_rowid r) (remote_rows db g)))
      (ll_commit_sequence_id l) = consensus db g (ll_commit_sequence_id l)"
  unfolding find_matching_remote_log_def consensus_def
proof (rule find_same)
  note rem = remote_rows_sorted [OF assms(2), of g] and loc = local_rows_sorted [OF assms(1), of g]
  show "inj_on rl_commit_sequence_id (set (remote_rows db g))"
    using rem by (simp add: strict_sorted_iff distinct_map)
  fix r assume r: "r \<in> set (remote_rows db g)" "rl_commit_sequence_id r = ll_commit_sequence_id l"
  have "get_cursor db g CommitLogForkCheckRemote < rl_rowid r"
  proof (cases "get_cursor db g CommitLogForkCheckRemote = 0")
    case True
    with r assms(2) show ?thesis by (auto simp: remote_ok_def rowids_ok_def remote_rows_def)
  next
    case False
    then obtain l0 r0 where 0: "l0 \<in> set (local_rows db g)" "r0 \<in> set (remote_rows db g)"
      "ll_commit_sequence_id l0 = rl_commit_sequence_id r0" "ll_rowid l0 \<le> get_cursor db g CommitLogForkCheckLocal"
      "rl_rowid r0 = get_cursor db g CommitLogForkCheckRemote"
      using assms(3) by (auto simp: checked_ok_def)
    then have "ll_commit_sequence_id l0 < ll_commit_sequence_id l"
      using sorted_wrt_orders_agree [of ll_rowid _ ll_commit_sequence_id l0 l] loc assms(4,5) by fastforce
    then have "rl_rowid r0 < rl_rowid r"
      using sorted_wrt_orders_agree [of rl_rowid _ rl_commit_sequence_id r0 r] rem 0 r by fastforce
    with 0 show ?thesis by simp
  qed
  with r show "r \<in> set (rev (filter (\<lambda>r. get_cursor db g CommitLogForkCheckRemote < rl_rowid r) (remote_rows db g)))" by simp
qed auto

text \<open>A check moves the cursors of its group, and nothing else.\<close>

definition cursors_moved :: "bytes \<Rightarrow> commit_log_db \<Rightarrow> commit_log_db \<Rightarrow> bool" where
  "cursors_moved g db db' \<longleftrightarrow> local_log_rows db' = local_log_rows db \<and> remote_log_rows db' = remote_log_rows db
     \<and> log_groups db' = log_groups db \<and> commit_log_keys db' = commit_log_keys db
     \<and> (\<forall>h k. h \<noteq> g \<or> k \<notin> {CommitLogForkCheckLocal, CommitLogForkCheckRemote} \<longrightarrow> get_cursor db' h k = get_cursor db h k)"

lemma cursors_moved_refl [simp]: "cursors_moved g db db"
  by (simp add: cursors_moved_def)

lemma cursors_moved_trans: "cursors_moved g db db' \<Longrightarrow> cursors_moved g db' db'' \<Longrightarrow> cursors_moved g db db''"
  by (simp add: cursors_moved_def)

lemma cursors_moved_update:
  "0 \<le> n \<Longrightarrow> k = CommitLogForkCheckLocal \<or> k = CommitLogForkCheckRemote \<Longrightarrow> cursors_moved g db (update_cursor db g k n)"
  by (auto simp: cursors_moved_def get_cursor_update)

lemma cursors_moved_rows:
  assumes "cursors_moved g db db'"
  shows "local_rows db' = local_rows db" "remote_rows db' = remote_rows db" "consensus db' = consensus db"
  using assms by (auto simp: cursors_moved_def local_rows_def remote_rows_def consensus_def fun_eq_iff)

lemma cursors_moved_ok:
  assumes "cursors_moved g db db'"
  shows "local_ok db' = local_ok db" "remote_ok db' = remote_ok db" "h \<noteq> g \<Longrightarrow> checked_ok db' h = checked_ok db h"
  using assms cursors_moved_rows [OF assms]
  by (auto simp: cursors_moved_def local_ok_def remote_ok_def checked_ok_def)

lemma checked_local:
  assumes "checked_ok db g" "l \<in> set (local_log_rows db)" "ll_group_id l = g" "0 < ll_rowid l"
  shows "checked_ok (update_cursor db g CommitLogForkCheckLocal (ll_rowid l)) g"
proof -
  let ?db' = "update_cursor db g CommitLogForkCheckLocal (ll_rowid l)"
  have moved: "cursors_moved g db ?db'" using assms(4) by (simp add: cursors_moved_update)
  have "get_cursor ?db' g CommitLogForkCheckLocal = max (get_cursor db g CommitLogForkCheckLocal) (ll_rowid l)"
    "get_cursor ?db' g CommitLogForkCheckRemote = get_cursor db g CommitLogForkCheckRemote"
    using assms(4) by (simp_all add: get_cursor_update)
  with assms(1-3) show ?thesis
    unfolding checked_ok_def cursors_moved_rows [OF moved] update_cursor_frame max_def
    by (auto intro: order_trans)
qed

lemma checked_remote:
  assumes "checked_ok db g" "l \<in> set (local_rows db g)" "r \<in> set (remote_rows db g)"
    "ll_commit_sequence_id l = rl_commit_sequence_id r" "ll_rowid l \<le> get_cursor db g CommitLogForkCheckLocal"
    "get_cursor db g CommitLogForkCheckRemote < rl_rowid r" "0 < rl_rowid r"
  shows "checked_ok (update_cursor db g CommitLogForkCheckRemote (rl_rowid r)) g"
proof -
  let ?db' = "update_cursor db g CommitLogForkCheckRemote (rl_rowid r)"
  have moved: "cursors_moved g db ?db'" using assms(7) by (simp add: cursors_moved_update)
  have "get_cursor ?db' g CommitLogForkCheckRemote = rl_rowid r"
    "get_cursor ?db' g CommitLogForkCheckLocal = get_cursor db g CommitLogForkCheckLocal"
    using assms(6,7) by (simp_all add: get_cursor_update)
  with assms(1-5) show ?thesis
    unfolding checked_ok_def cursors_moved_rows [OF moved] update_cursor_frame by metis
qed

lemma compare_logs_keeps:
  assumes "local_ok db" "remote_ok db" "checked_ok db g" "set ls \<subseteq> set (local_rows db g)"
    and "\<forall>r \<in> set rs. r \<in> set (remote_rows db g) \<and> get_cursor db g CommitLogForkCheckRemote < rl_rowid r"
  shows "cursors_moved g db (snd (compare_logs g rs up ls db)) \<and> checked_ok (snd (compare_logs g rs up ls db)) g"
  using assms
proof (induction ls arbitrary: up db)
  case Nil
  then show ?case by simp
next
  case (Cons l ls)
  have l: "l \<in> set (local_log_rows db)" "ll_group_id l = g" "0 < ll_rowid l"
    using Cons.prems by (auto simp: local_rows_def local_ok_def rowids_ok_def)
  let ?db = "update_cursor db g CommitLogForkCheckLocal (ll_rowid l)"
  have moved: "cursors_moved g db ?db" using l by (simp add: cursors_moved_update)
  note same = cursors_moved_rows [OF moved] cursors_moved_ok [OF moved]
  have ok: "checked_ok ?db g" using checked_local Cons.prems(3) l by blast
  show ?case
  proof (cases "terminal_removal l")
    case True
    have "cursors_moved g ?db (snd (compare_logs g rs up ls ?db)) \<and> checked_ok (snd (compare_logs g rs up ls ?db)) g"
      using Cons.prems ok l by (intro Cons.IH) (auto simp: same get_cursor_update)
    with True moved show ?thesis by (auto intro: cursors_moved_trans)
  next
    case alive: False
    show ?thesis
    proof (cases "find_matching_remote_log rs (ll_commit_sequence_id l)")
      case None
      with alive Cons show ?thesis by simp
    next
      case (Some r)
      then have r: "r \<in> set (remote_rows db g)" "get_cursor db g CommitLogForkCheckRemote < rl_rowid r"
        "rl_commit_sequence_id r = ll_commit_sequence_id l"
        using Cons.prems(5) by (auto simp: find_matching_remote_log_def find_Some_iff)
      have pos: "0 < rl_rowid r" using r(1) Cons.prems(2) by (auto simp: remote_ok_def rowids_ok_def remote_rows_def)
      let ?db' = "update_cursor ?db g CommitLogForkCheckRemote (rl_rowid r)"
      have "checked_ok ?db' g"
        using r pos l Cons.prems(4) by (intro checked_remote [OF ok, of l]) (auto simp: same get_cursor_update)
      moreover have "cursors_moved g db ?db'"
        by (intro cursors_moved_trans [OF moved] cursors_moved_update) (use pos in auto)
      ultimately show ?thesis using alive Some by (simp add: Let_def)
    qed
  qed
qed

definition rowids_fit :: "commit_log_db \<Rightarrow> bool" where
  "rowids_fit db \<longleftrightarrow> (\<forall>l \<in> set (local_log_rows db). ll_rowid l < 2 ^ 31) \<and> (\<forall>r \<in> set (remote_log_rows db). rl_rowid r < 2 ^ 31)"

lemma last_sort_key_in:
  assumes "xs \<noteq> []"
  shows "last (sort_key f xs) \<in> set xs"
proof -
  have "length (sort_key f xs) = length xs" by simp
  with assms have "sort_key f xs \<noteq> []" by (metis list.size(3) length_0_conv)
  from last_in_set [OF this] show ?thesis by simp
qed

lemma chain_start_row:
  assumes "get_latest_chain_start_rowid db g = Some n"
  shows "\<exists>l \<in> set (local_log_rows db). ll_group_id l = g \<and> ll_rowid l = n"
proof -
  let ?rows = "filter (\<lambda>l. ll_group_id l = g \<and> ll_commit_sequence_id l = 0) (local_log_rows db)"
  have "?rows \<noteq> []" "n = ll_rowid (last (sort_key ll_rowid ?rows))"
    using assms by (auto simp: get_latest_chain_start_rowid_def last_of_def split: if_splits)
  with last_sort_key_in [of ?rows ll_rowid] show ?thesis by auto
qed

lemma checked_fits:
  assumes "checked_ok db g" "rowids_fit db"
  shows "get_cursor db g CommitLogForkCheckLocal < 2 ^ 31" "get_cursor db g CommitLogForkCheckRemote < 2 ^ 31"
  using assms by (auto simp: checked_ok_def rowids_fit_def remote_rows_def)

lemma check_conversation_fork_state_exact:
  assumes ok: "local_ok db" "remote_ok db" "checked_ok db g" "rowids_fit db" and group: "find_group db g = Some c"
  shows "\<exists>db'. check_conversation_fork_state db g = (Ok (fork_verdict db g), db') \<and> cursors_moved g db db' \<and> checked_ok db' g"
proof -
  let ?checked = "get_cursor db g CommitLogForkCheckLocal" and ?checked_remote = "get_cursor db g CommitLogForkCheckRemote"
  define crossed where "crossed = (case get_latest_chain_start_rowid db g of Some anchor \<Rightarrow> anchor > ?checked | None \<Rightarrow> False)"
  define start where "start = (if crossed then the (get_latest_chain_start_rowid db g) else ?checked)"
  define db' where "db' = (if crossed then update_cursor db g CommitLogForkCheckLocal start else db)"
  have start: "start = (case get_latest_chain_start_rowid db g of Some n \<Rightarrow> max ?checked n | None \<Rightarrow> ?checked)"
    by (auto simp: start_def crossed_def split: option.splits)
  have crossed_iff: "crossed \<longleftrightarrow> ?checked < start" by (auto simp: start crossed_def split: option.splits)
  have anchor: "\<exists>l \<in> set (local_log_rows db). ll_group_id l = g \<and> ll_rowid l = start" if crossed
    using that chain_start_row [of db g] by (auto simp: start_def crossed_def split: option.splits)
  have pos: "0 < start" if crossed
    using anchor [OF that] ok(1) by (auto simp: local_ok_def rowids_ok_def)
  have moved: "cursors_moved g db db'" using pos by (auto simp: db'_def less_imp_le intro: cursors_moved_update)
  note same = cursors_moved_rows [OF moved] cursors_moved_ok [OF moved]
  have checked': "checked_ok db' g"
    using ok(3) anchor pos checked_local [OF ok(3)] by (auto simp: db'_def)
  have cursors: "get_cursor db' g CommitLogForkCheckLocal = start" "get_cursor db' g CommitLogForkCheckRemote = ?checked_remote"
  proof (atomize (full), cases crossed)
    case True
    with pos crossed_iff have "0 < start" "?checked < start" by blast+
    with True show "get_cursor db' g CommitLogForkCheckLocal = start \<and> get_cursor db' g CommitLogForkCheckRemote = ?checked_remote"
      by (simp add: db'_def get_cursor_update)
  qed (simp add: db'_def start_def)
  have fit: "rowids_fit db'" using ok(4) moved by (simp add: rowids_fit_def cursors_moved_def)
  let ?rows = "rev (filter (\<lambda>l. start < ll_rowid l) (local_rows db g))"
  let ?remote = "rev (filter (\<lambda>r. ?checked_remote < rl_rowid r) (remote_rows db g))"
  have logs: "get_local_commit_log_after_cursor db' g start DescendingByRowid = Ok ?rows"
    "get_remote_commit_log_after_cursor db' g ?checked_remote DescendingByRowid = Ok ?remote"
    using get_local_after [of db' start g] get_remote_after [of db' ?checked_remote g] checked_fits [OF checked' fit] ok
    by (simp_all add: same cursors)
  have check: "check_conversation_fork_state db g =
      (if ?rows = [] then (if crossed then (Ok None, db') else (get_group_commit_log_forked_status db' g, db'))
       else let (verdict, db'') = compare_logs g ?remote True ?rows db' in (Ok verdict, db''))"
    unfolding check_conversation_fork_state_def Let_def crossed_def [symmetric] start_def [symmetric] db'_def [symmetric]
      logs rbind_simps by simp
  have spec: "fork_verdict db g =
      (if ?rows = [] then (if crossed then None else cg_is_forked c)
       else newest_decides (consensus db g) True (filter (\<lambda>l. \<not> terminal_removal l) ?rows))"
    using group by (simp add: fork_verdict_def Let_def crossed_iff flip: start)
  have status: "get_group_commit_log_forked_status db' g = Ok (cg_is_forked c)"
    using group moved by (simp add: get_group_commit_log_forked_status_def find_group_def cursors_moved_def map_err_def ok_or_def)
  show ?thesis
  proof (cases "?rows = []")
    case True
    with moved checked' show ?thesis unfolding check spec by (simp add: status)
  next
    case False
    have "fst (compare_logs g ?remote True ?rows db') = newest_decides (consensus db g) True (filter (\<lambda>l. \<not> terminal_removal l) ?rows)"
      using match_after_cursor [of db' g] ok checked' by (intro compare_logs_verdict) (auto simp: same cursors)
    moreover have "cursors_moved g db' (snd (compare_logs g ?remote True ?rows db')) \<and> checked_ok (snd (compare_logs g ?remote True ?rows db')) g"
      using ok checked' by (intro compare_logs_keeps) (auto simp: same cursors)
    ultimately show ?thesis
      using False moved unfolding check spec by (auto simp: case_prod_beta intro: cursors_moved_trans)
  qed
qed

definition forked_status :: "commit_log_db \<Rightarrow> bytes \<Rightarrow> bool option option" where
  "forked_status db g = map_option cg_is_forked (find_group db g)"

lemma forked_status_set:
  "forked_status (set_group_commit_log_forked_status db g v) h =
     (if h = g then map_option (\<lambda>_. v) (forked_status db g) else forked_status db h)"
proof -
  have "map_option cg_is_forked (find (\<lambda>c. cg_id c = h) (map (\<lambda>c. if cg_id c = g then c\<lparr> cg_is_forked := v \<rparr> else c) gs)) =
     (if h = g then map_option (\<lambda>_. v) (map_option cg_is_forked (find (\<lambda>c. cg_id c = g) gs))
      else map_option cg_is_forked (find (\<lambda>c. cg_id c = h) gs))" for gs
    by (induction gs) auto
  from this [of "log_groups db"] show ?thesis
    by (simp add: forked_status_def find_group_def set_group_commit_log_forked_status_def split: if_splits)
qed

lemma set_status_frame [simp]:
  "local_log_rows (set_group_commit_log_forked_status db g v) = local_log_rows db"
  "remote_log_rows (set_group_commit_log_forked_status db g v) = remote_log_rows db"
  "get_cursor (set_group_commit_log_forked_status db g v) = get_cursor db"
  "commit_log_keys (set_group_commit_log_forked_status db g v) = commit_log_keys db"
  by (simp_all add: set_group_commit_log_forked_status_def)

lemma fork_verdict_cong:
  assumes "local_log_rows db' = local_log_rows db" "remote_log_rows db' = remote_log_rows db"
    and "get_cursor db' g CommitLogForkCheckLocal = get_cursor db g CommitLogForkCheckLocal" "forked_status db' g = forked_status db g"
  shows "fork_verdict db' g = fork_verdict db g"
proof -
  have "local_rows db' g = local_rows db g" "consensus db' g = consensus db g"
    "get_latest_chain_start_rowid db' g = get_latest_chain_start_rowid db g"
    using assms(1,2) by (auto simp: local_rows_def consensus_def remote_rows_def get_latest_chain_start_rowid_def fun_eq_iff)
  with assms(3,4) show ?thesis by (simp only: fork_verdict_def forked_status_def)
qed

text \<open>The invariant of the whole log, apart from the groups.\<close>

definition logs_ok :: "commit_log_db \<Rightarrow> bool" where
  "logs_ok db \<longleftrightarrow> local_ok db \<and> remote_ok db \<and> (\<forall>g. checked_ok db g)"

lemma logs_ok_cong:
  assumes "local_log_rows db' = local_log_rows db" "remote_log_rows db' = remote_log_rows db"
    and "\<And>g k. k \<in> {CommitLogDownload, CommitLogForkCheckLocal, CommitLogForkCheckRemote} \<Longrightarrow> get_cursor db' g k = get_cursor db g k"
  shows "logs_ok db' = logs_ok db"
  using assms by (simp add: logs_ok_def local_ok_def remote_ok_def checked_ok_def local_rows_def remote_rows_def)

lemma logs_ok_set_status [simp]: "logs_ok (set_group_commit_log_forked_status db g v) = logs_ok db"
  by (rule logs_ok_cong) simp_all

lemma update_forked_groups_exact:
  assumes "logs_ok db" "rowids_fit db" "distinct gs" "\<forall>g \<in> set gs. length g = 16 \<and> forked_status db g \<noteq> None"
  shows "\<exists>db'. update_forked_groups gs db = (Ok (), db') \<and> logs_ok db' \<and> local_log_rows db' = local_log_rows db
    \<and> remote_log_rows db' = remote_log_rows db
    \<and> map cg_id (log_groups db') = map cg_id (log_groups db)
    \<and> (\<forall>h. forked_status db' h = (if h \<in> set gs then Some (fork_verdict db h) else forked_status db h))"
  using assms
proof (induction gs arbitrary: db)
  case Nil
  then show ?case by simp
next
  case (Cons g gs)
  from Cons.prems obtain c where c: "find_group db g = Some c" by (auto simp: forked_status_def)
  have ok: "local_ok db" "remote_ok db" "checked_ok db h" for h using Cons.prems(1) by (auto simp: logs_ok_def)
  from check_conversation_fork_state_exact [OF ok Cons.prems(2) c] obtain mid where
    mid: "check_conversation_fork_state db g = (Ok (fork_verdict db g), mid)" "cursors_moved g db mid" "checked_ok mid g" by blast
  let ?db = "set_group_commit_log_forked_status mid g (fork_verdict db g)"
  have rows: "local_log_rows mid = local_log_rows db" "remote_log_rows mid = remote_log_rows db" "log_groups mid = log_groups db"
    and cursor: "h \<noteq> g \<Longrightarrow> get_cursor mid h k = get_cursor db h k" for h k
    using mid(2) by (auto simp: cursors_moved_def)
  have "logs_ok mid" unfolding logs_ok_def using mid(3) ok cursors_moved_ok [OF mid(2)] by metis
  then have logs: "logs_ok ?db" by simp
  have status: "forked_status ?db h = (if h = g then Some (fork_verdict db g) else forked_status db h)" for h
    using c rows(3) by (simp add: forked_status_set) (simp add: forked_status_def find_group_def)
  have verdict: "fork_verdict ?db h = fork_verdict db h" if "h \<noteq> g" for h
    using that status by (intro fork_verdict_cong) (simp_all add: rows cursor)
  have fit: "rowids_fit ?db" using Cons.prems(2) by (simp add: rowids_fit_def rows)
  have "distinct gs" "\<forall>h \<in> set gs. length h = 16 \<and> forked_status ?db h \<noteq> None"
    using Cons.prems(3,4) status by auto
  from Cons.IH [OF logs fit this] obtain db' where db': "update_forked_groups gs ?db = (Ok (), db')" "logs_ok db'"
    "local_log_rows db' = local_log_rows ?db" "remote_log_rows db' = remote_log_rows ?db"
    "map cg_id (log_groups db') = map cg_id (log_groups ?db)"
    "\<forall>h. forked_status db' h = (if h \<in> set gs then Some (fork_verdict ?db h) else forked_status ?db h)"
    by blast
  have "map cg_id (log_groups ?db) = map cg_id (log_groups db)"
    by (simp add: set_group_commit_log_forked_status_def rows(3))
  then have "forked_status db' h = (if h \<in> set (g # gs) then Some (fork_verdict db h) else forked_status db h)" for h
    using db'(6) Cons.prems(3) status verdict by (cases "h = g") auto
  with db' mid(1) Cons.prems(4) \<open>map cg_id (log_groups ?db) = _\<close> show ?case
    by (simp add: group_id_try_from_def rows)
qed

section \<open>Runs of the commit log\<close>

definition groups_ok :: "commit_log_group list \<Rightarrow> bool" where
  "groups_ok gs \<longleftrightarrow> distinct (map cg_id gs) \<and> (\<forall>c \<in> set gs. length (cg_id c) = 16)"

text \<open>The commits of a group are processed in the order of the service: a new one is the latest.\<close>

definition fresh_commit :: "commit_log_db \<Rightarrow> bytes \<Rightarrow> u64 \<Rightarrow> bool" where
  "fresh_commit db g c \<longleftrightarrow> (\<forall>l \<in> set (local_rows db g). ll_commit_sequence_id l < c)"

text \<open>
  Between the operations of the log, the rest of the client changes the rows of the groups: it adds groups
  that are not forked, and leaves the verdict on the others alone. Row ids fit their column.
\<close>

inductive log_step :: "log_env \<Rightarrow> commit_log_db \<Rightarrow> commit_log_db \<Rightarrow> bool" for E where
  Created: "log_step E db (from_creation_logged db g epoch auth)"
| Restored: "log_step E db (from_backup_stub_logged db g epoch auth)"
| Welcomed: "log_step E db (from_welcome_logged db g epoch auth)"
| Merged: "fresh_commit db g c \<Longrightarrow> merge_staged_commit_logged db g removed_us epoch auth merged commit c = Ok db' \<Longrightarrow> log_step E db db'"
| Failed: "fresh_commit db g c \<Longrightarrow> log_step E db (mark_failed_commit_logged db g c commit_epoch epoch auth failure)"
| Downloaded: "\<forall>responses. query (commit_log_requests db) = Some responses \<longrightarrow> answers (commit_log_requests db) responses \<Longrightarrow>
    log_step E db (snd (save_remote_commit_log E query db))"
| Judged: "rowids_fit db \<Longrightarrow> log_step E db (snd (update_forked_state db))"
| Published: "log_step E db (snd (publish_commit_logs_to_remote E publish db))"
| Regrouped: "groups_ok gs \<Longrightarrow>
    \<forall>c \<in> set gs. cg_is_forked c = None \<or> (\<exists>c' \<in> set (log_groups db). cg_id c' = cg_id c \<and> cg_is_forked c' = cg_is_forked c) \<Longrightarrow>
    log_step E db (db\<lparr> log_groups := gs \<rparr>)"

definition empty_db :: commit_log_db where
  "empty_db = \<lparr> local_log_rows = [], remote_log_rows = [], refresh_state = [], log_groups = [], commit_log_keys = [] \<rparr>"

inductive reachable :: "log_env \<Rightarrow> commit_log_db \<Rightarrow> bool" for E where
  Start: "reachable E empty_db"
| Step: "reachable E db \<Longrightarrow> log_step E db db' \<Longrightarrow> reachable E db'"

text \<open>A member and its group disagree about a commit that did not remove the member.\<close>

definition evidence :: "commit_log_db \<Rightarrow> bytes \<Rightarrow> bool" where
  "evidence db g \<longleftrightarrow> (\<exists>l \<in> set (local_rows db g). \<exists>r \<in> set (remote_rows db g). \<not> terminal_removal l
     \<and> ll_commit_sequence_id l = rl_commit_sequence_id r \<and> ll_applied_epoch_authenticator l \<noteq> rl_applied_epoch_authenticator r)"

definition log_inv :: "commit_log_db \<Rightarrow> bool" where
  "log_inv db \<longleftrightarrow> logs_ok db \<and> groups_ok (log_groups db) \<and> (\<forall>g. forked_status db g = Some (Some True) \<longrightarrow> evidence db g)"

definition grows :: "commit_log_db \<Rightarrow> commit_log_db \<Rightarrow> bool" where
  "grows db db' \<longleftrightarrow> (\<exists>ls rs. local_log_rows db' = local_log_rows db @ ls \<and> remote_log_rows db' = remote_log_rows db @ rs)"

lemma evidence_grows: "grows db db' \<Longrightarrow> evidence db g \<Longrightarrow> evidence db' g"
  by (fastforce simp: grows_def evidence_def local_rows_def remote_rows_def)

lemma log_inv_step:
  assumes "log_inv db" "logs_ok db'" "grows db db'" "groups_ok (log_groups db')"
    and "\<And>g. forked_status db' g = Some (Some True) \<Longrightarrow> forked_status db g = Some (Some True) \<or> evidence db g"
  shows "log_inv db'"
  using assms evidence_grows unfolding log_inv_def by blast

subsection \<open>Logging\<close>

lemma store_local_frame [simp]:
  "remote_log_rows (store_local db l) = remote_log_rows db" "log_groups (store_local db l) = log_groups db"
  "get_cursor (store_local db l) = get_cursor db" "forked_status (store_local db l) = forked_status db"
  "remote_rows (store_local db l) = remote_rows db"
  by (simp_all add: store_local_def get_cursor_def fun_eq_iff forked_status_def find_group_def remote_rows_def)

lemma local_rows_store:
  "local_rows (store_local db l) g =
     local_rows db g @ (if ll_group_id l = g \<and> ll_commit_sequence_id l \<noteq> 0
                        then [l\<lparr> ll_rowid := next_rowid (map ll_rowid (local_log_rows db)) \<rparr>] else [])"
  by (simp add: local_rows_def store_local_def)

lemma store_local_logs_ok:
  assumes "logs_ok db" "ll_commit_sequence_id l = 0 \<or> fresh_commit db (ll_group_id l) (ll_commit_sequence_id l)"
  shows "logs_ok (store_local db l)"
proof -
  have "local_ok (store_local db l)"
    using assms rowids_ok_snoc [of "map ll_rowid (local_log_rows db)"]
    by (auto simp: logs_ok_def local_ok_def local_rows_store sorted_wrt_append fresh_commit_def) (simp_all add: store_local_def)
  moreover have "remote_ok (store_local db l)" using assms(1) by (simp add: logs_ok_def remote_ok_def)
  moreover have "checked_ok (store_local db l) g" for g
    using assms(1) unfolding logs_ok_def checked_ok_def store_local_frame local_rows_store
    by (auto simp: store_local_def)
  ultimately show ?thesis by (simp add: logs_ok_def)
qed

lemma grows_store_local: "grows db (store_local db l)"
  by (simp add: grows_def store_local_def)

lemma store_local_inv:
  assumes "log_inv db" "ll_commit_sequence_id l = 0 \<or> fresh_commit db (ll_group_id l) (ll_commit_sequence_id l)"
  shows "log_inv (store_local db l)"
  using assms store_local_logs_ok [of db l]
  by (intro log_inv_step [OF assms(1)] grows_store_local) (auto simp: log_inv_def)

lemma log_operations_inv:
  assumes "log_inv db"
  shows "log_inv (from_creation_logged db g epoch auth)" "log_inv (from_backup_stub_logged db g epoch auth)"
    "log_inv (from_welcome_logged db g epoch auth)"
    "fresh_commit db g c \<Longrightarrow> merge_staged_commit_logged db g removed_us epoch auth merged commit c = Ok db' \<Longrightarrow> log_inv db'"
    "fresh_commit db g c \<Longrightarrow> log_inv (mark_failed_commit_logged db g c commit_epoch epoch auth failure)"
  using assms
  by (auto simp: from_creation_logged_def from_backup_stub_logged_def from_welcome_logged_def chain_start_def ENABLE_COMMIT_LOG_def
      merge_staged_commit_logged_def mark_failed_commit_logged_def rbind_eq_Ok Let_def split: if_splits intro!: store_local_inv)

subsection \<open>Publishing, downloading, judging\<close>

lemma get_cursor_update_other: "g' \<noteq> g \<or> k' \<noteq> k \<Longrightarrow> get_cursor (update_cursor db g k n) g' k' = get_cursor db g' k'"
  by (auto simp: update_cursor_def get_cursor_def plain.hm_get_insert split: option.splits)

lemma get_or_create_signing_key_frame:
  "get_or_create_signing_key E db c = Ok (key, db') \<Longrightarrow> \<exists>keys. db' = db\<lparr> commit_log_keys := keys \<rparr>"
  by (auto simp: get_or_create_signing_key_def write_commit_log_key_def rbind_eq_Ok split: option.splits if_splits
      intro: exI [of _ "commit_log_keys db"])

lemma sign_group_logs_frame:
  "sign_group_logs E db c es = Ok (requests, db') \<Longrightarrow> \<exists>keys. db' = db\<lparr> commit_log_keys := keys \<rparr>"
  by (auto simp: sign_group_logs_def rbind_eq_Ok split: option.splits dest: get_or_create_signing_key_frame)

lemma prepare_frame:
  "prepare_publish_commit_log_info E db cs = Ok (infos, es, db') \<Longrightarrow> \<exists>keys. db' = db\<lparr> commit_log_keys := keys \<rparr>"
proof (induction cs arbitrary: db infos es db')
  case Nil
  then show ?case by (auto intro: exI [of _ "commit_log_keys db"])
next
  case (Cons c cs)
  then show ?case
    by (fastforce simp: Let_def rbind_eq_Ok split: if_splits dest!: sign_group_logs_frame)
qed

definition published :: "commit_log_db \<Rightarrow> commit_log_db \<Rightarrow> bool" where
  "published db db' \<longleftrightarrow> local_log_rows db' = local_log_rows db \<and> remote_log_rows db' = remote_log_rows db
     \<and> log_groups db' = log_groups db \<and> (\<forall>h k. k \<noteq> CommitLogUpload \<longrightarrow> get_cursor db' h k = get_cursor db h k)"

lemma upload_cursors:
  "published db (fold (\<lambda>i d. update_cursor d (cc_conversation_id i) CommitLogUpload (last_entry_published_rowid i)) infos db)"
proof (induction infos arbitrary: db)
  case Nil
  then show ?case by (simp add: published_def)
next
  case (Cons i infos)
  from Cons [of "update_cursor db (cc_conversation_id i) CommitLogUpload (last_entry_published_rowid i)"] show ?case
    by (simp add: published_def get_cursor_update_other)
qed

lemma get_cursor_keys [simp]: "get_cursor (db\<lparr> commit_log_keys := keys \<rparr>) = get_cursor db"
  by (simp add: get_cursor_def fun_eq_iff)

lemma publish_frame: "published db (snd (publish_commit_logs_to_remote E publish db))"
proof (cases "prepare_publish_commit_log_info E db (get_conversation_ids_for_remote_log_publish db)")
  case (Inl e)
  then show ?thesis by (simp add: publish_commit_logs_to_remote_def published_def)
next
  case (Inr q)
  obtain infos es db' where q: "q = (infos, es, db')" by (cases q) auto
  with Inr obtain keys where "db' = db\<lparr> commit_log_keys := keys \<rparr>" using prepare_frame by blast
  with Inr q upload_cursors [of db' infos] show ?thesis
    by (auto simp: publish_commit_logs_to_remote_def published_def)
qed

lemma published_inv:
  assumes "log_inv db" "published db db'"
  shows "log_inv db'"
proof (rule log_inv_step [OF assms(1)])
  show "logs_ok db'" using assms logs_ok_cong [of db' db] by (auto simp: published_def log_inv_def)
qed (use assms in \<open>auto simp: published_def log_inv_def grows_def forked_status_def find_group_def\<close>)

lemma forked_status_map_of: "forked_status db g = map_of (statuses (log_groups db)) g"
proof -
  have "map_option cg_is_forked (find (\<lambda>c. cg_id c = g) gs) = map_of (map (\<lambda>c. (cg_id c, cg_is_forked c)) gs) g" for gs
    by (induction gs) auto
  then show ?thesis by (simp add: forked_status_def find_group_def statuses_def)
qed

lemma groups_ok_statuses: "groups_ok gs \<longleftrightarrow> distinct (map fst (statuses gs)) \<and> (\<forall>p \<in> set (statuses gs). length (fst p) = 16)"
  by (simp add: groups_ok_def statuses_def comp_def)

lemma downloaded_inv:
  assumes "log_inv db" "remote_ok db'" "downloaded db db'"
  shows "log_inv db'"
proof (rule log_inv_step [OF assms(1)])
  obtain rs where rs: "remote_log_rows db' = remote_log_rows db @ rs" using assms(3) by (auto simp: downloaded_def)
  then have "set (remote_rows db g) \<subseteq> set (remote_rows db' g)" for g by (auto simp: remote_rows_def)
  moreover have "local_log_rows db' = local_log_rows db" "local_rows db' = local_rows db"
    using assms(3) by (auto simp: downloaded_def local_rows_def fun_eq_iff)
  ultimately show "logs_ok db'"
    using assms unfolding log_inv_def logs_ok_def checked_ok_def local_ok_def downloaded_def by fastforce
  show "grows db db'" using assms(3) by (auto simp: grows_def downloaded_def)
qed (use assms in \<open>auto simp: downloaded_def log_inv_def groups_ok_statuses forked_status_map_of\<close>)

lemma newest_decides_True:
  "newest_decides known newest ls = Some True \<Longrightarrow>
     \<exists>l \<in> set ls. \<exists>r. known (ll_commit_sequence_id l) = Some r \<and> ll_applied_epoch_authenticator l \<noteq> rl_applied_epoch_authenticator r"
  by (induction ls arbitrary: newest) (auto split: option.splits if_splits)

lemma fork_verdict_True:
  assumes "fork_verdict db g = Some True"
  shows "forked_status db g = Some (Some True) \<or> evidence db g"
proof (rule disjCI)
  assume "\<not> evidence db g"
  then have "newest_decides (consensus db g) True (filter (\<lambda>l. \<not> terminal_removal l) rows) \<noteq> Some True"
    if "set rows \<subseteq> set (local_rows db g)" for rows
    using that unfolding evidence_def consensus_def
    by (fastforce dest!: newest_decides_True simp: find_Some_iff)
  with assms show "forked_status db g = Some (Some True)"
    by (auto simp: fork_verdict_def Let_def forked_status_def bind_eq_Some_conv split: if_splits option.splits)
qed

lemma update_forked_state_spec:
  assumes "log_inv db" "rowids_fit db"
  shows "\<exists>db'. update_forked_state db = (Ok (), db') \<and> logs_ok db' \<and> local_log_rows db' = local_log_rows db
    \<and> remote_log_rows db' = remote_log_rows db \<and> map cg_id (log_groups db') = map cg_id (log_groups db)
    \<and> (\<forall>h. forked_status db' h =
         (if h \<in> set (get_conversation_ids_for_fork_check db) then Some (fork_verdict db h) else forked_status db h))"
  unfolding update_forked_state_def
proof (rule update_forked_groups_exact)
  show "logs_ok db" "rowids_fit db" using assms by (auto simp: log_inv_def)
  show "distinct (get_conversation_ids_for_fork_check db)"
    using assms(1) by (auto simp: get_conversation_ids_for_fork_check_def log_inv_def groups_ok_def distinct_map_filter)
  show "\<forall>g \<in> set (get_conversation_ids_for_fork_check db). length g = 16 \<and> forked_status db g \<noteq> None"
    using assms(1) by (auto simp: get_conversation_ids_for_fork_check_def log_inv_def groups_ok_def forked_status_def
        find_group_def find_None_iff)
qed

lemma judged_inv:
  assumes "log_inv db" "rowids_fit db"
  shows "log_inv (snd (update_forked_state db))"
proof -
  obtain db' where db': "update_forked_state db = (Ok (), db')" "logs_ok db'" "local_log_rows db' = local_log_rows db"
    "remote_log_rows db' = remote_log_rows db" "map cg_id (log_groups db') = map cg_id (log_groups db)"
    "\<forall>h. forked_status db' h =
         (if h \<in> set (get_conversation_ids_for_fork_check db) then Some (fork_verdict db h) else forked_status db h)"
    using update_forked_state_spec [OF assms] by blast
  have "log_inv db'"
  proof (rule log_inv_step [OF assms(1) db'(2)])
    show "grows db db'" using db'(3,4) by (simp add: grows_def)
    show "groups_ok (log_groups db')"
      using assms(1) db'(5) unfolding log_inv_def groups_ok_def by (metis image_eqI list.set_map imageE)
  qed (use db'(6) fork_verdict_True in \<open>auto split: if_splits\<close>)
  with db'(1) show ?thesis by simp
qed

lemma log_step_inv: "log_step E db db' \<Longrightarrow> log_inv db \<Longrightarrow> log_inv db'"
proof (induction rule: log_step.induct)
  case (Downloaded query db)
  from Downloaded.prems have "remote_ok db" by (simp add: log_inv_def logs_ok_def)
  with save_remote_commit_log_ok [of db query E] Downloaded.hyps show ?case using downloaded_inv [OF Downloaded.prems] by blast
next
  case (Regrouped gs db)
  let ?db = "db\<lparr> log_groups := gs \<rparr>"
  show ?case
  proof (rule log_inv_step [OF Regrouped.prems])
    show "logs_ok ?db" using Regrouped.prems logs_ok_cong [of ?db db] by (simp add: log_inv_def)
    fix g assume "forked_status ?db g = Some (Some True)"
    then obtain c where "c \<in> set gs" "cg_id c = g" "cg_is_forked c = Some True"
      by (auto simp: forked_status_map_of statuses_def dest!: map_of_SomeD)
    with Regrouped.hyps(2) obtain c' where "c' \<in> set (log_groups db)" "cg_id c' = g" "cg_is_forked c' = Some True" by fastforce
    then have "(g, Some True) \<in> set (statuses (log_groups db))" by (auto simp: statuses_def intro!: rev_image_eqI)
    moreover have "distinct (map fst (statuses (log_groups db)))"
      using Regrouped.prems by (simp add: log_inv_def groups_ok_statuses)
    ultimately show "forked_status db g = Some (Some True) \<or> evidence db g"
      by (simp add: forked_status_map_of)
  qed (use Regrouped.hyps in \<open>simp_all add: grows_def\<close>)
next
  case (Published db publish)
  then show ?case using published_inv publish_frame by blast
next
  case (Judged db)
  then show ?case using judged_inv by blast
qed (simp_all add: log_operations_inv)

lemma reachable_inv: "reachable E db \<Longrightarrow> log_inv db"
proof (induction rule: reachable.induct)
  case Start
  show ?case
    by (simp add: log_inv_def logs_ok_def local_ok_def remote_ok_def checked_ok_def rowids_ok_def empty_db_def local_rows_def
        remote_rows_def get_cursor_def forked_status_def find_group_def groups_ok_def)
qed (blast intro: log_step_inv)

section \<open>What the log promises\<close>

text \<open>
  Property C8. Whatever the service sends in answer to the queries, as long as its pages ascend after the
  cursor that was asked for, the saved remote log of a group is one chain in every state a client can reach: the commits
  ascend, an applied commit advances the epoch by one, and any other leaves the epoch and its authenticator
  alone.
\<close>

theorem remote_log_is_a_chain:
  assumes "reachable E db"
  shows "successively follows (remote_rows db g) \<and> (\<forall>r \<in> set (remote_rows db g). rl_commit_sequence_id r \<noteq> 0)
    \<and> get_latest_remote_log_for_group db g = (if remote_rows db g = [] then None else Some (last (remote_rows db g)))"
  using reachable_inv [OF assms] latest_remote [of db g] by (simp add: log_inv_def logs_ok_def remote_ok_def chained_def)

lemma save_entries_count:
  "length (remote_log_rows (snd (save_entries E g pk latest es db))) = length (remote_log_rows db) + fst (save_entries E g pk latest es db)"
  by (induction es arbitrary: latest db) (auto simp: Let_def case_prod_beta store_remote_def split: option.split)

text \<open>
  Property C21. Only what the holder of the group's key signed is saved: the rows that a page adds to the
  database are decoded from entries of the page whose signature verifies under the consensus public key, they belong to the
  group of the page, and there are as many as reported.
\<close>

theorem saved_rows_are_signed:
  assumes "save_remote_commit_log_entries_and_update_cursors E db response pk = Ok (n, db')"
  shows "\<exists>rows. remote_log_rows db' = remote_log_rows db @ rows \<and> length rows = n \<and>
    (\<forall>r \<in> set rows. rl_group_id r = qr_group_id response \<and>
       (\<exists>k entry e i. pk = Some k \<and> entry \<in> set (qr_entries response) \<and> verify_commit_log_signature E entry k
          \<and> lv_decode E (ce_serialized entry) = Some e \<and> r = (remote_row (ce_sequence_id entry) e)\<lparr> rl_rowid := i \<rparr>))"
proof (cases pk)
  case None
  with assms show ?thesis
    by (auto simp: save_remote_commit_log_entries_and_update_cursors_def rbind_eq_Ok Let_def split: if_splits)
next
  case (Some k)
  define g where "g = qr_group_id response"
  define q where "q = save_entries E g k (get_latest_remote_log_for_group db g) (qr_entries response) db"
  have n: "n = fst q" and rows_eq: "remote_log_rows db' = remote_log_rows (snd q)"
    using assms Some
    by (auto simp: save_remote_commit_log_entries_and_update_cursors_def rbind_eq_Ok Let_def group_id_try_from_def g_def q_def
        split: if_splits prod.splits)
  obtain rows where rows: "remote_log_rows (snd q) = remote_log_rows db @ rows"
    "\<forall>r \<in> set rows. \<exists>e \<in> set (qr_entries response). row_of_entry E g k e r"
    using save_entries_extends [of E g k "qr_entries response" db "get_latest_remote_log_for_group db g"]
    by (auto simp: extends_remote_def q_def)
  have "length rows = n"
    using save_entries_count [of E g k "get_latest_remote_log_for_group db g" "qr_entries response" db] rows(1) n
    by (simp add: q_def)
  with rows rows_eq Some show ?thesis
    using row_of_entry_group by (intro exI [of _ rows]) (fastforce simp: row_of_entry_def g_def)
qed


text \<open>
  Property C16. No false alarm: in every state a client can reach, a group marked as forked has a commit in
  the local log, one that did not remove the member, whose epoch authenticator differs from the one the
  saved chain of the group has for the same commit.
\<close>

theorem forked_has_evidence:
  assumes "reachable E db" "forked_status db g = Some (Some True)"
  shows "\<exists>l \<in> set (local_rows db g). \<exists>r \<in> set (remote_rows db g). \<not> terminal_removal l
    \<and> ll_commit_sequence_id l = rl_commit_sequence_id r \<and> ll_applied_epoch_authenticator l \<noteq> rl_applied_epoch_authenticator r"
  using reachable_inv [OF assms(1)] assms(2) unfolding evidence_def [symmetric] log_inv_def by blast

lemma next_rowid_beyond_checked:
  assumes "logs_ok db"
  shows "get_cursor db g CommitLogForkCheckLocal < next_rowid (map ll_rowid (local_log_rows db))"
proof -
  have at: "get_cursor db g CommitLogForkCheckLocal = 0 \<or>
      (\<exists>l \<in> set (local_log_rows db). ll_rowid l = get_cursor db g CommitLogForkCheckLocal)"
    using assms unfolding logs_ok_def checked_ok_def by blast
  have "0 < next_rowid (map ll_rowid (local_log_rows db))"
    using assms by (intro next_rowid_pos) (simp add: logs_ok_def local_ok_def rowids_ok_def)
  with at next_rowid_greater [of _ "map ll_rowid (local_log_rows db)"] show ?thesis by (metis image_eqI list.set_map)
qed

lemma chain_start_after_welcome:
  assumes "logs_ok db"
  shows "get_latest_chain_start_rowid (from_welcome_logged db g epoch auth) g = Some (next_rowid (map ll_rowid (local_log_rows db)))"
proof -
  let ?db = "from_welcome_logged db g epoch auth"
  let ?starts = "filter (\<lambda>l. ll_group_id l = g \<and> ll_commit_sequence_id l = 0) (local_log_rows ?db)"
  have "logs_ok ?db" using assms by (simp add: from_welcome_logged_def ENABLE_COMMIT_LOG_def store_local_logs_ok chain_start_def)
  then have "sorted_wrt (<) (map ll_rowid ?starts)"
    by (auto simp: logs_ok_def local_ok_def rowids_ok_def intro: sorted_wrt_map_filter)
  moreover have "?starts \<noteq> []" "ll_rowid (last ?starts) = next_rowid (map ll_rowid (local_log_rows db))"
    by (simp_all add: from_welcome_logged_def ENABLE_COMMIT_LOG_def store_local_def chain_start_def)
  ultimately show ?thesis by (simp add: get_latest_chain_start_rowid_def last_of_sorted)
qed

text \<open>
  Property C28. A new welcome starts the log of a member over, so that nothing is known about forks, and the
  check would say so. But a group marked as forked is not checked any more: it keeps that mark when the member is added again.
\<close>

theorem forked_survives_welcome:
  assumes "reachable E db" "rowids_fit (from_welcome_logged db g epoch auth)" "forked_status db g = Some (Some True)"
  shows "fork_verdict (from_welcome_logged db g epoch auth) g = None \<and>
    forked_status (snd (update_forked_state (from_welcome_logged db g epoch auth))) g = Some (Some True)"
proof
  let ?db = "from_welcome_logged db g epoch auth"
  have inv: "log_inv db" "log_inv ?db" using reachable_inv [OF assms(1)] log_operations_inv(3) by blast+
  then have ok: "logs_ok db" "groups_ok (log_groups ?db)" by (auto simp: log_inv_def)
  have frame: "get_cursor ?db = get_cursor db" "local_rows ?db g = local_rows db g" "forked_status ?db g = forked_status db g"
    by (simp_all add: from_welcome_logged_def ENABLE_COMMIT_LOG_def local_rows_store chain_start_def)
  have "\<forall>l \<in> set (local_rows db g). \<not> next_rowid (map ll_rowid (local_log_rows db)) < ll_rowid l"
    using next_rowid_greater [of _ "map ll_rowid (local_log_rows db)"] by (fastforce simp: local_rows_def)
  with next_rowid_beyond_checked [OF ok(1), of g] show "fork_verdict ?db g = None"
    by (auto simp: fork_verdict_def Let_def chain_start_after_welcome [OF ok(1)] frame max_def filter_empty_conv)
  from assms(3) obtain c where "c \<in> set (log_groups ?db)" "cg_id c = g" "cg_is_forked c = Some True"
    by (auto simp: forked_status_map_of statuses_def from_welcome_logged_def ENABLE_COMMIT_LOG_def dest!: map_of_SomeD)
  then have "g \<notin> set (get_conversation_ids_for_fork_check ?db)"
    using ok(2) by (auto simp: get_conversation_ids_for_fork_check_def groups_ok_def distinct_map dest: inj_onD)
  with update_forked_state_spec [OF inv(2) assms(2)] assms(3)
  show "forked_status (snd (update_forked_state ?db)) g = Some (Some True)" by (auto simp: frame)
qed

end
