(* ===== verification/Log_Exchange.thy ===== *)
theory Log_Exchange
  imports Fork_Detection
begin

text \<open>
  The commit log between members: what one client publishes and another one saves. An honest history that
  continues what is saved arrives complete; a client without the key of a group counts the commits of that group as published
  although it sends none of them.
\<close>

section \<open>Publishing without a key\<close>

lemma sign_entry_group: "sign_entry E g sk e = Ok r \<Longrightarrow> pr_group_id r = g"
  by (auto simp: sign_entry_def Let_def rbind_eq_Ok)

lemma try_map_sign_group: "try_map (sign_entry E g sk) es = Ok rs \<Longrightarrow> r \<in> set rs \<Longrightarrow> pr_group_id r = g"
  by (induction es arbitrary: rs) (auto simp: rbind_eq_Ok dest: sign_entry_group)

lemma signing_key_others:
  "get_or_create_signing_key E db c = Ok (key, db') \<Longrightarrow> g \<noteq> cg_id c \<Longrightarrow>
     hm_get (=) (commit_log_keys db') g = hm_get (=) (commit_log_keys db) g"
  by (auto simp: get_or_create_signing_key_def write_commit_log_key_def rbind_eq_Ok plain.hm_get_insert split: option.splits if_splits)

lemma sign_group_logs_group:
  assumes "sign_group_logs E db c es = Ok (rs, db')"
  shows "\<forall>r \<in> set rs. pr_group_id r = cg_id c"
    "g \<noteq> cg_id c \<Longrightarrow> hm_get (=) (commit_log_keys db') g = hm_get (=) (commit_log_keys db) g"
proof -
  obtain key where key: "get_or_create_signing_key E db c = Ok (key, db')"
    "key = None \<and> rs = [] \<or> (\<exists>sk. key = Some sk \<and> try_map (sign_entry E (cg_id c) sk) es = Ok rs)"
    using assms unfolding sign_group_logs_def rbind_eq_Ok by (force split: option.splits simp: rbind_eq_Ok)
  then show "\<forall>r \<in> set rs. pr_group_id r = cg_id c" using try_map_sign_group by fastforce
  show "g \<noteq> cg_id c \<Longrightarrow> hm_get (=) (commit_log_keys db') g = hm_get (=) (commit_log_keys db) g"
    using signing_key_others [OF key(1)] .
qed

definition same_logs :: "commit_log_db \<Rightarrow> commit_log_db \<Rightarrow> bool" where
  "same_logs db db' \<longleftrightarrow> (\<exists>keys. db' = db\<lparr> commit_log_keys := keys \<rparr>)"

lemma same_logs_eqs:
  assumes "same_logs db db'"
  shows "get_cursor db' = get_cursor db" "local_log_rows db' = local_log_rows db"
    "get_local_commit_log_cursor db' = get_local_commit_log_cursor db"
    "get_local_commit_log_after_cursor db' = get_local_commit_log_after_cursor db"
  using assms
  by (auto simp: same_logs_def get_local_commit_log_cursor_def get_latest_log_for_group_def get_local_commit_log_after_cursor_def fun_eq_iff)

lemma prepare_Cons:
  assumes "prepare_publish_commit_log_info E db (c # cs) = Ok (infos, es, db')"
  shows "prepare_publish_commit_log_info E db cs = Ok (infos, es, db') \<or>
    (\<exists>log_entries rs mid i infos' es'. sign_group_logs E db c log_entries = Ok (rs, mid)
       \<and> prepare_publish_commit_log_info E mid cs = Ok (infos', es', db') \<and> infos = i # infos' \<and> es = rs @ es'
       \<and> cc_conversation_id i = cg_id c)"
proof (cases "prepare_publish_commit_log_info E db cs = Ok (infos, es, db')")
  case False
  with assms obtain logs where
    "rbind (sign_group_logs E db c (map plaintext_of_local (filter (\<lambda>l. ll_commit_type l \<noteq> Some RemovedFromGroup) logs)))
       (\<lambda>(rs, mid). rbind (prepare_publish_commit_log_info E mid cs) (\<lambda>(infos', es', db'').
          Ok (\<lparr> cc_conversation_id = cg_id c,
                num_entries_published = length (map plaintext_of_local (filter (\<lambda>l. ll_commit_type l \<noteq> Some RemovedFromGroup) logs)),
                last_entry_published_sequence_id =
                  (if map plaintext_of_local (filter (\<lambda>l. ll_commit_type l \<noteq> Some RemovedFromGroup) logs) = [] then 0
                   else pe_commit_sequence_id (last (map plaintext_of_local (filter (\<lambda>l. ll_commit_type l \<noteq> Some RemovedFromGroup) logs)))),
                last_entry_published_rowid = ll_rowid (last logs) \<rparr> # infos', rs @ es', db''))) = Ok (infos, es, db')"
    unfolding prepare_publish_commit_log_info.simps Let_def by (force simp: rbind_eq_Ok split: if_splits)
  then show ?thesis by (fastforce simp: rbind_eq_Ok)
qed simp

lemma prepare_groups:
  "prepare_publish_commit_log_info E db cs = Ok (infos, es, db') \<Longrightarrow>
     set (map cc_conversation_id infos) \<subseteq> set (map cg_id cs) \<and> pr_group_id ` set es \<subseteq> set (map cg_id cs)
     \<and> (distinct (map cg_id cs) \<longrightarrow> distinct (map cc_conversation_id infos))"
proof (induction cs arbitrary: db infos es db')
  case Nil
  then show ?case by simp
next
  case (Cons c cs)
  from prepare_Cons [OF Cons.prems] show ?case
  proof
    assume "prepare_publish_commit_log_info E db cs = Ok (infos, es, db')"
    from Cons.IH [OF this] show ?thesis by auto
  next
    assume "\<exists>log_entries rs mid i infos' es'. sign_group_logs E db c log_entries = Ok (rs, mid)
       \<and> prepare_publish_commit_log_info E mid cs = Ok (infos', es', db') \<and> infos = i # infos' \<and> es = rs @ es'
       \<and> cc_conversation_id i = cg_id c"
    then obtain log_entries rs mid i infos' es' where *: "sign_group_logs E db c log_entries = Ok (rs, mid)"
      "prepare_publish_commit_log_info E mid cs = Ok (infos', es', db')" "infos = i # infos'" "es = rs @ es'"
      "cc_conversation_id i = cg_id c" by blast
    from Cons.IH [OF *(2)] sign_group_logs_group(1) [OF *(1)] show ?thesis unfolding *(3,4) using *(5) by auto
  qed
qed

text \<open>There are new commits, but no key to sign them with.\<close>

definition no_key :: "log_env \<Rightarrow> commit_log_group \<Rightarrow> bool" where
  "no_key E c \<longleftrightarrow> cg_public_key c \<noteq> None \<and>
     (\<exists>m. lv_metadata E (cg_id c) = Some m \<and>
        (case gmm_commit_log_signer (lv_hex E) m of Some sk \<Rightarrow> \<not> key_fits E (cg_public_key c) sk | None \<Rightarrow> True))"

lemma no_key_signs_nothing:
  assumes "no_key E c" "hm_get (=) (commit_log_keys db) (cg_id c) = None"
  shows "sign_group_logs E db c es = Ok ([], db)"
proof -
  from assms(1) obtain pk m where m: "cg_public_key c = Some pk" "lv_metadata E (cg_id c) = Some m"
    "case gmm_commit_log_signer (lv_hex E) m of Some sk \<Rightarrow> \<not> key_fits E (cg_public_key c) sk | None \<Rightarrow> True"
    by (auto simp: no_key_def)
  from m(3) have "Option.bind (gmm_commit_log_signer (lv_hex E) m) (\<lambda>sk. if key_fits E (cg_public_key c) sk then Some sk else None) = None"
    by (auto split: option.splits)
  with m(1,2) assms(2) show ?thesis by (simp add: sign_group_logs_def get_or_create_signing_key_def ok_or_def)
qed

lemma prepare_without_key:
  assumes "prepare_publish_commit_log_info E db cs = Ok (infos, es, db')" "distinct (map cg_id cs)" "c \<in> set cs" "no_key E c"
    and "hm_get (=) (commit_log_keys db) (cg_id c) = None"
    and "get_local_commit_log_after_cursor db (cg_id c) (get_cursor db (cg_id c) CommitLogUpload) AscendingByRowid = Ok logs" "logs \<noteq> []"
    and "\<exists>n. get_local_commit_log_cursor db (cg_id c) = Some n \<and> sint (word_of_int (get_cursor db (cg_id c) CommitLogUpload) :: u32) < n"
  shows "cg_id c \<notin> pr_group_id ` set es
    \<and> (\<exists>i \<in> set infos. cc_conversation_id i = cg_id c \<and> last_entry_published_rowid i = ll_rowid (last logs))"
  using assms
proof (induction cs arbitrary: db infos es db')
  case Nil
  then show ?case by simp
next
  case (Cons b cs)
  show ?case
  proof (cases "b = c")
    case True
    then have "cg_id c \<notin> set (map cg_id cs)" using Cons.prems(2) by simp
    with Cons.prems True no_key_signs_nothing [OF Cons.prems(4,5)] show ?thesis
      by (auto simp: Let_def rbind_eq_Ok split: if_splits dest!: prepare_groups)
  next
    case False
    with Cons.prems(2,3) have c: "c \<in> set cs" "cg_id c \<noteq> cg_id b" by (auto simp: image_iff)
    show ?thesis
    proof (cases "prepare_publish_commit_log_info E db cs = Ok (infos, es, db')")
      case True
      from Cons.IH [OF this _ c(1)] Cons.prems show ?thesis by simp
    next
      case sends: False
      then obtain log_entries rs mid infos' es' i where
        *: "sign_group_logs E db b log_entries = Ok (rs, mid)" "prepare_publish_commit_log_info E mid cs = Ok (infos', es', db')"
          "infos = i # infos'" "es = rs @ es'"
        using prepare_Cons [OF Cons.prems(1)] by blast
      have same: "same_logs db mid" using sign_group_logs_frame [OF *(1)] by (auto simp: same_logs_def)
      have "cg_id c \<notin> pr_group_id ` set es'
          \<and> (\<exists>i \<in> set infos'. cc_conversation_id i = cg_id c \<and> last_entry_published_rowid i = ll_rowid (last logs))"
        using Cons.IH [OF *(2) _ c(1)] Cons.prems c(2) sign_group_logs_group(2) [OF *(1), of "cg_id c"]
        by (simp add: same_logs_eqs [OF same])
      with c(2) sign_group_logs_group(1) [OF *(1)] show ?thesis by (auto simp: *(3,4))
    qed
  qed
qed

lemma upload_cursor_after:
  assumes "distinct (map cc_conversation_id infos)" "i \<in> set infos" "0 \<le> last_entry_published_rowid i"
  shows "get_cursor (fold (\<lambda>i d. update_cursor d (cc_conversation_id i) CommitLogUpload (last_entry_published_rowid i)) infos db)
      (cc_conversation_id i) CommitLogUpload = max (get_cursor db (cc_conversation_id i) CommitLogUpload) (last_entry_published_rowid i)"
proof -
  have keep: "get_cursor (fold (\<lambda>i d. update_cursor d (cc_conversation_id i) CommitLogUpload (last_entry_published_rowid i)) js db) h CommitLogUpload =
      get_cursor db h CommitLogUpload" if "h \<notin> set (map cc_conversation_id js)" for js h db
    using that by (induction js arbitrary: db) (auto simp: get_cursor_update_other)
  show ?thesis
    using assms
  proof (induction infos arbitrary: db)
    case Nil
    then show ?case by simp
  next
    case (Cons j js)
    show ?case
    proof (cases "i = j")
      case True
      with Cons.prems show ?thesis by (simp add: keep get_cursor_update)
    next
      case False
      with Cons.prems have "i \<in> set js" by simp
      then have "cc_conversation_id i \<in> set (map cc_conversation_id js)" by simp
      with Cons.prems(1) have "cc_conversation_id i \<noteq> cc_conversation_id j" by auto
      with \<open>i \<in> set js\<close> Cons show ?thesis by (simp add: get_cursor_update_other)
    qed
  qed
qed

text \<open>
  Property C29. When a client has no key to sign the commits of a group with, and publishes commits of other
  groups, it sends nothing for that group and yet leaves nothing to be published: the cursor moves past the commits, so a key
  that arrives later does not help them.
\<close>

theorem unsigned_commits_count_as_published:
  assumes "reachable E db" "rowids_fit db" "0 \<le> get_cursor db (cg_id c) CommitLogUpload"
    and "c \<in> set (get_conversation_ids_for_remote_log_publish db)" "no_key E c" "hm_get (=) (commit_log_keys db) (cg_id c) = None"
    and "get_local_commit_log_after_cursor db (cg_id c) (get_cursor db (cg_id c) CommitLogUpload) AscendingByRowid = Ok logs" "logs \<noteq> []"
    and "publish_commit_logs_to_remote E publish db = (Ok (infos, sent), db')" "sent \<noteq> []"
  shows "(\<forall>e \<in> set sent. pr_group_id e \<noteq> cg_id c)
    \<and> get_local_commit_log_after_cursor db' (cg_id c) (get_cursor db' (cg_id c) CommitLogUpload) AscendingByRowid = Ok []"
proof -
  let ?g = "cg_id c" and ?published = "get_cursor db (cg_id c) CommitLogUpload"
  have inv: "log_inv db" "local_ok db" using reachable_inv [OF assms(1)] by (auto simp: log_inv_def logs_ok_def)
  have "?published < 2 ^ 31" using assms(7) by (auto simp: get_local_commit_log_after_cursor_def split: if_splits)
  with assms(3) have narrow: "sint (word_of_int ?published :: u32) = ?published"
    by (simp add: sint_sbintrunc' signed_take_bit_int_eq_self)
  have logs: "logs = filter (\<lambda>l. ?published < ll_rowid l) (local_rows db ?g)"
    using get_local_after [OF inv(2) \<open>?published < 2 ^ 31\<close>, of ?g] assms(7)
    by (auto simp: get_local_commit_log_after_cursor_def Let_def split: if_splits)
  with assms(8) have newest: "last logs \<in> set (local_rows db ?g)" "?published < ll_rowid (last logs)"
    using last_in_set [OF assms(8)] by auto
  obtain n where n: "get_local_commit_log_cursor db ?g = Some n" "ll_rowid (last logs) \<le> n"
  proof -
    let ?all = "filter (\<lambda>l. ll_group_id l = ?g) (local_log_rows db)"
    have all: "sorted_wrt (<) (map ll_rowid ?all)" "last logs \<in> set ?all"
      using inv(2) newest(1) by (auto simp: local_ok_def rowids_ok_def local_rows_def intro: sorted_wrt_map_filter)
    then have "ll_rowid (last logs) \<le> ll_rowid (last ?all)"
      by (cases ?all rule: rev_cases) (auto simp: sorted_wrt_append less_imp_le)
    moreover have "?all \<noteq> []" using all(2) by (metis empty_iff empty_set)
    with all(1) have "get_local_commit_log_cursor db ?g = Some (ll_rowid (last ?all))"
      unfolding get_local_commit_log_cursor_def get_latest_log_for_group_def last_of_sorted [OF all(1)] by simp
    ultimately show thesis using that by blast
  qed
  have ids: "distinct (map cg_id (get_conversation_ids_for_remote_log_publish db))"
    using inv(1) by (auto simp: get_conversation_ids_for_remote_log_publish_def log_inv_def groups_ok_def distinct_map_filter)
  obtain mid where prep: "prepare_publish_commit_log_info E db (get_conversation_ids_for_remote_log_publish db) = Ok (infos, sent, mid)"
    and db': "db' = fold (\<lambda>i d. update_cursor d (cc_conversation_id i) CommitLogUpload (last_entry_published_rowid i)) infos mid"
    using assms(9,10) by (auto simp: publish_commit_logs_to_remote_def split: sum.splits if_splits)
  have "\<exists>n. get_local_commit_log_cursor db ?g = Some n \<and> sint (word_of_int ?published :: u32) < n"
    using n newest(2) narrow by auto
  from prepare_without_key [OF prep ids assms(4,5,6,7,8) this] obtain i where
    i: "?g \<notin> pr_group_id ` set sent" "i \<in> set infos" "cc_conversation_id i = ?g" "last_entry_published_rowid i = ll_rowid (last logs)"
    by blast
  have same: "same_logs db mid" using prepare_frame [OF prep] by (simp add: same_logs_def)
  have "get_cursor db' ?g CommitLogUpload = ll_rowid (last logs)"
    using upload_cursor_after [of infos i mid] prepare_groups [OF prep] ids i newest(2) assms(3)
    by (simp add: db' same_logs_eqs [OF same])
  moreover have "local_log_rows db' = local_log_rows db"
    using upload_cursors [of mid infos] same_logs_eqs(2) [OF same] by (simp add: db' published_def)
  moreover have "\<forall>l \<in> set (local_rows db ?g). \<not> ll_rowid (last logs) < ll_rowid l"
  proof -
    have "sorted_wrt (<) (map ll_rowid logs)" using local_rows_sorted [OF inv(2), of ?g] by (simp add: logs sorted_wrt_map_filter)
    then have "\<forall>l \<in> set logs. ll_rowid l \<le> ll_rowid (last logs)"
      using assms(8) by (cases logs rule: rev_cases) (auto simp: sorted_wrt_append less_imp_le)
    then show ?thesis using newest(2) by (fastforce simp: logs)
  qed
  moreover have "ll_rowid (last logs) < 2 ^ 31" using assms(2) newest(1) by (auto simp: rowids_fit_def local_rows_def)
  moreover from calculation(3) have "filter (\<lambda>l. ll_group_id l = ?g \<and> ll_rowid (last logs) < ll_rowid l \<and> ll_commit_sequence_id l \<noteq> 0)
      (local_log_rows db) = []" by (auto simp: local_rows_def filter_empty_conv)
  ultimately have "get_local_commit_log_after_cursor db' ?g (get_cursor db' ?g CommitLogUpload) AscendingByRowid = Ok []"
    by (simp add: get_local_commit_log_after_cursor_def)
  moreover from i(1) have "\<forall>e \<in> set sent. pr_group_id e \<noteq> ?g" by (metis image_eqI)
  ultimately show ?thesis by blast
qed

section \<open>An honest log arrives\<close>

text \<open>
  What a row tells other members, and how an honest member's commits follow each other: an applied commit
  starts from the state before, any other leaves it.
\<close>

definition told_local :: "local_commit_log \<Rightarrow> u64 \<times> commit_result \<times> u64 \<times> bytes" where
  "told_local l = (ll_commit_sequence_id l, ll_commit_result l, ll_applied_epoch_number l, ll_applied_epoch_authenticator l)"

definition told_remote :: "remote_commit_log \<Rightarrow> u64 \<times> commit_result \<times> u64 \<times> bytes" where
  "told_remote r = (rl_commit_sequence_id r, rl_commit_result r, rl_applied_epoch_number r, rl_applied_epoch_authenticator r)"

fun honest_after :: "u64 \<times> commit_result \<times> u64 \<times> bytes \<Rightarrow> local_commit_log \<Rightarrow> bool" where
  "honest_after (c, _, epoch, auth) l \<longleftrightarrow> c < ll_commit_sequence_id l \<and>
     (if ll_commit_result l = Success then ll_last_epoch_authenticator l = auth \<and> ll_applied_epoch_number l = epoch + 1
      else ll_applied_epoch_authenticator l = auth \<and> ll_applied_epoch_number l = epoch)"

definition honest_log :: "bytes \<Rightarrow> local_commit_log list \<Rightarrow> bool" where
  "honest_log g ls \<longleftrightarrow> successively (\<lambda>a. honest_after (told_local a)) ls \<and>
     (\<forall>l \<in> set ls. ll_group_id l = g \<and> ll_commit_sequence_id l \<noteq> 0)"

text \<open>Ed25519 and protobuf, as documented: what was signed verifies, and what was encoded decodes.\<close>

definition sound_env :: "log_env \<Rightarrow> bool" where
  "sound_env E \<longleftrightarrow>
     (\<forall>m sk sig pk. lv_sign E m sk = Some sig \<longrightarrow> lv_to_public_key E sk = Some pk \<longrightarrow> lv_verify E m pk sig) \<and>
     (\<forall>e. lv_decode E (lv_encode E e) = Some e)"

text \<open>The service hands on what it got, and adds its sequence ids.\<close>

definition relayed :: "publish_commit_log_request list \<Rightarrow> commit_log_entry list \<Rightarrow> bool" where
  "relayed requests es \<longleftrightarrow> list_all2 (\<lambda>r e. ce_serialized e = pr_serialized r \<and> ce_signature e = pr_signature r) requests es"

lemma honest_entry_kept:
  assumes "sound_env E" "lv_to_public_key E sk = Some pk" "sign_entry E g sk (plaintext_of_local l) = Ok r"
    and "ce_serialized e = pr_serialized r" "ce_signature e = pr_signature r"
    and "ll_group_id l = g" "ll_commit_sequence_id l \<noteq> 0" "\<And>a. latest = Some a \<Longrightarrow> honest_after (told_remote a) l"
  shows "lv_decode E (ce_serialized e) = Some (plaintext_of_local l)"
    "\<not> should_skip_remote_commit_log_entry E g latest e (plaintext_of_local l) pk"
    "told_remote (remote_row n (plaintext_of_local l)) = told_local l"
proof -
  from assms(2,3) obtain sig where sig: "lv_sign E (lv_encode E (plaintext_of_local l)) sk = Some sig"
    "r = \<lparr> pr_group_id = g, pr_serialized = lv_encode E (plaintext_of_local l), pr_signature = Some \<lparr> ls_bytes = sig, ls_public_key = pk \<rparr> \<rparr>"
    by (auto simp: sign_entry_def Let_def rbind_eq_Ok ok_or_def split: option.splits)
  then show "lv_decode E (ce_serialized e) = Some (plaintext_of_local l)"
    using assms(1,4) by (simp add: sound_env_def)
  have "verify_commit_log_signature E e pk"
    using sig assms(1,2,4,5) by (auto simp: verify_commit_log_signature_def sound_env_def)
  moreover have "commit_result_i32 k = 1 \<longleftrightarrow> k = Success" for k by (cases k) simp_all
  ultimately show "\<not> should_skip_remote_commit_log_entry E g latest e (plaintext_of_local l) pk"
    using assms(6-8) by (auto simp: should_skip_remote_commit_log_entry_def plaintext_of_local_def told_remote_def Let_def
        split: option.split if_splits)
  have "commit_result_of_i32 (commit_result_i32 k) = k" for k by (cases k) (simp_all add: commit_result_of_i32_def)
  then show "told_remote (remote_row n (plaintext_of_local l)) = told_local l"
    by (simp add: told_remote_def told_local_def remote_row_def plaintext_of_local_def)
qed

lemma save_honest_entries:
  assumes "sound_env E" "lv_to_public_key E sk = Some pk" "try_map (sign_entry E g sk) (map plaintext_of_local ls) = Ok requests"
    and "relayed requests es" "honest_log g ls" "\<And>a. latest = Some a \<Longrightarrow> ls = [] \<or> honest_after (told_remote a) (hd ls)"
  shows "fst (save_entries E g pk latest es db) = length ls
    \<and> (\<exists>rows. remote_log_rows (snd (save_entries E g pk latest es db)) = remote_log_rows db @ rows \<and> map told_remote rows = map told_local ls)"
  using assms(3-)
proof (induction ls arbitrary: requests es latest db)
  case Nil
  then show ?case by (simp add: relayed_def)
next
  case (Cons l ls)
  then obtain r rs where r: "sign_entry E g sk (plaintext_of_local l) = Ok r"
    "try_map (sign_entry E g sk) (map plaintext_of_local ls) = Ok rs" "requests = r # rs" by (auto simp: rbind_eq_Ok)
  with Cons.prems(2) obtain e es' where e: "es = e # es'" "ce_serialized e = pr_serialized r" "ce_signature e = pr_signature r"
    "relayed rs es'" by (auto simp: relayed_def list_all2_Cons1)
  have l: "ll_group_id l = g" "ll_commit_sequence_id l \<noteq> 0" "honest_log g ls" "ls = [] \<or> honest_after (told_local l) (hd ls)"
    using Cons.prems(3) by (auto simp: honest_log_def successively_Cons)
  have latest: "\<And>a. latest = Some a \<Longrightarrow> honest_after (told_remote a) l" using Cons.prems(4) by simp
  note kept = honest_entry_kept [OF assms(1,2) r(1) e(2,3) l(1,2) latest]
  let ?row = "remote_row (ce_sequence_id e) (plaintext_of_local l)"
  have "ls = [] \<or> honest_after (told_remote a) (hd ls)" if "Some ?row = Some a" for a
    using that l(4) kept(3) by auto
  from Cons.IH [OF r(2) e(4) l(3) this, where db = "store_remote db ?row"] obtain rows where
    "fst (save_entries E g pk (Some ?row) es' (store_remote db ?row)) = length ls"
    "remote_log_rows (snd (save_entries E g pk (Some ?row) es' (store_remote db ?row))) = remote_log_rows (store_remote db ?row) @ rows"
    "map told_remote rows = map told_local ls" by blast
  moreover have "told_remote (?row\<lparr> rl_rowid := n \<rparr>) = told_local l" for n
    using kept(3) by (simp add: told_remote_def)
  ultimately show ?case using kept(1,2) by (simp add: e(1) Let_def case_prod_beta store_remote_def)
qed


end
