(* ===== verification/Fork_Recovery.thy ===== *)
theory Fork_Recovery
  imports Fork_Detection
begin

text \<open>
  What a client does about a fork: it asks the members who may add it again (\<open>xmtp_mls/src/groups/commit_log.rs\<close>,
  from \<open>permitted_readders\<close> on), they record the request (\<open>oneshot.rs\<close>), check it and add the installation
  again, and both sides note the answer (\<open>xmtp_db/src/encrypted_store/readd_status.rs\<close>).

  Sequence ids are the signed numbers of their columns here. The groups of OpenMLS, sending messages,
  syncing and the commit that adds an installation again are arguments; every other effect is on the state.
\<close>

section \<open>Requests and answers in the database\<close>

record readd_status =
  rd_group_id :: bytes
  rd_installation_id :: bytes
  requested_at_sequence_id :: "int option"
  responded_at_sequence_id :: "int option"

type_synonym readd_table = "readd_status list"

definition get_readd_status :: "readd_table \<Rightarrow> bytes \<Rightarrow> bytes \<Rightarrow> readd_status option" where
  "get_readd_status t g i = find (\<lambda>r. rd_group_id r = g \<and> rd_installation_id r = i) t"

definition is_awaiting_readd :: "readd_table \<Rightarrow> bytes \<Rightarrow> bytes \<Rightarrow> bool" where
  "is_awaiting_readd t g i =
     (case get_readd_status t g i of
        None \<Rightarrow> False
      | Some r \<Rightarrow>
          (case requested_at_sequence_id r of
             None \<Rightarrow> False
           | Some requested_at \<Rightarrow> requested_at \<ge> (case responded_at_sequence_id r of Some n \<Rightarrow> n | None \<Rightarrow> 0)))"

text \<open>A sequence id is written over an absent or a smaller one.\<close>

definition raises :: "int option \<Rightarrow> int \<Rightarrow> bool" where
  "raises old n \<longleftrightarrow> (case old of None \<Rightarrow> True | Some m \<Rightarrow> m < n)"

definition upsert ::
    "(readd_status \<Rightarrow> readd_status) \<Rightarrow> readd_status \<Rightarrow> readd_table \<Rightarrow> readd_table" where
  "upsert change new_status t =
     (if list_ex (\<lambda>r. rd_group_id r = rd_group_id new_status \<and> rd_installation_id r = rd_installation_id new_status) t
      then map (\<lambda>r. if rd_group_id r = rd_group_id new_status \<and> rd_installation_id r = rd_installation_id new_status
                    then change r else r) t
      else t @ [new_status])"

definition update_requested_at_sequence_id :: "readd_table \<Rightarrow> bytes \<Rightarrow> bytes \<Rightarrow> int \<Rightarrow> readd_table" where
  "update_requested_at_sequence_id t g i n =
     upsert (\<lambda>r. if raises (requested_at_sequence_id r) n then r\<lparr> requested_at_sequence_id := Some n \<rparr> else r)
       \<lparr> rd_group_id = g, rd_installation_id = i, requested_at_sequence_id = Some n, responded_at_sequence_id = None \<rparr> t"

definition update_responded_at_sequence_id :: "readd_table \<Rightarrow> bytes \<Rightarrow> bytes \<Rightarrow> int \<Rightarrow> readd_table" where
  "update_responded_at_sequence_id t g i n =
     upsert (\<lambda>r. if raises (responded_at_sequence_id r) n then r\<lparr> responded_at_sequence_id := Some n \<rparr> else r)
       \<lparr> rd_group_id = g, rd_installation_id = i, requested_at_sequence_id = None, responded_at_sequence_id = Some n \<rparr> t"

definition delete_other_readd_statuses :: "readd_table \<Rightarrow> bytes \<Rightarrow> bytes \<Rightarrow> readd_table" where
  "delete_other_readd_statuses t g self_installation_id =
     filter (\<lambda>r. \<not> (rd_group_id r = g \<and> rd_installation_id r \<noteq> self_installation_id)) t"

definition delete_readd_statuses :: "readd_table \<Rightarrow> bytes \<Rightarrow> bytes list \<Rightarrow> readd_table" where
  "delete_readd_statuses t g others =
     filter (\<lambda>r. \<not> (rd_group_id r = g \<and> rd_installation_id r \<in> set others)) t"

text \<open>A comparison with NULL is not true in SQL.\<close>

definition awaits_response :: "readd_status \<Rightarrow> bool" where
  "awaits_response r \<longleftrightarrow>
     (case requested_at_sequence_id r of
        None \<Rightarrow> False
      | Some requested_at \<Rightarrow> (case responded_at_sequence_id r of None \<Rightarrow> True | Some n \<Rightarrow> requested_at \<ge> n))"

definition get_readds_awaiting_response :: "readd_table \<Rightarrow> bytes \<Rightarrow> bytes \<Rightarrow> readd_table" where
  "get_readds_awaiting_response t g self_installation_id =
     filter (\<lambda>r. rd_group_id r = g \<and> rd_installation_id r \<noteq> self_installation_id \<and> awaits_response r) t"

text \<open>The groups are joined with their saved remote log, and with the requests.\<close>

definition get_conversation_ids_for_requesting_readds :: "commit_log_db \<Rightarrow> (bytes \<times> int option) list" where
  "get_conversation_ids_for_requesting_readds db =
     map (\<lambda>c. (cg_id c,
          let ids = map (\<lambda>r. sint (rl_commit_sequence_id r)) (filter (\<lambda>r. rl_group_id r = cg_id c) (remote_log_rows db))
          in if ids = [] then None else Some (Max (set ids))))
       (filter (\<lambda>c. cg_conversation_type c \<notin> set virtual_types \<and> cg_is_forked c = Some True) (log_groups db))"

definition get_conversation_ids_for_responding_readds :: "commit_log_db \<Rightarrow> readd_table \<Rightarrow> bytes list" where
  "get_conversation_ids_for_responding_readds db t =
     map cg_id (filter (\<lambda>c. list_ex (\<lambda>r. rd_group_id r = cg_id c \<and> awaits_response r) t) (log_groups db))"

section \<open>Errors\<close>

text \<open>What another part of the client reports says itself whether to try again and whether the database is gone.\<close>

datatype cause = Cause (cause_retryable: bool) (cause_needs_reconnect: bool)

datatype recovery_error =
    StorageFailed cause
  | DieselFailed cause
  | ApiFailed cause
  | ConnectionFailed cause
  | ProstFailed
  | KeystoreFailed cause
  | GroupFailed cause
  | CryptoFailed
  | TryFromSliceFailed
  | ConversionFailed
  | GroupReaddValidationError string
  | SyncFailed cause
  | FailedToSendReadd bytes recovery_error
  | FailedReadds "recovery_error list"
  | MissingLatestCommitSequenceId bytes

fun is_retryable :: "recovery_error \<Rightarrow> bool" where
  "is_retryable (StorageFailed e) = cause_retryable e"
| "is_retryable (DieselFailed e) = cause_retryable e"
| "is_retryable (ApiFailed e) = cause_retryable e"
| "is_retryable (ConnectionFailed e) = cause_retryable e"
| "is_retryable ProstFailed = False"
| "is_retryable (KeystoreFailed e) = cause_retryable e"
| "is_retryable (GroupFailed e) = cause_retryable e"
| "is_retryable CryptoFailed = False"
| "is_retryable TryFromSliceFailed = False"
| "is_retryable ConversionFailed = False"
| "is_retryable (GroupReaddValidationError _) = False"
| "is_retryable (SyncFailed e) = cause_retryable e"
| "is_retryable (FailedToSendReadd _ e) = is_retryable e"
| "is_retryable (FailedReadds es) = list_ex is_retryable es"
| "is_retryable (MissingLatestCommitSequenceId _) = False"

fun needs_db_reconnect :: "recovery_error \<Rightarrow> bool" where
  "needs_db_reconnect (StorageFailed e) = cause_needs_reconnect e"
| "needs_db_reconnect (ConnectionFailed e) = cause_needs_reconnect e"
| "needs_db_reconnect (GroupFailed e) = cause_needs_reconnect e"
| "needs_db_reconnect (FailedToSendReadd _ e) = needs_db_reconnect e"
| "needs_db_reconnect (FailedReadds es) = list_ex needs_db_reconnect es"
| "needs_db_reconnect _ = False"

section \<open>Asking to be added again\<close>

datatype fork_recovery_policy = NoRecovery | AllowlistedGroups | AllGroups

record fork_recovery_opts =
  enable_recovery_requests :: fork_recovery_policy
  groups_to_request_recovery :: "string list"
  disable_recovery_responses :: bool

text \<open>The state these operations share; \<open>rs_rest\<close> is everything else the client keeps.\<close>

record 'w recovery_state =
  rs_log :: commit_log_db
  rs_readds :: readd_table
  rs_rest :: 'w

text \<open>
  \<open>rv_group\<close> is the type and the id of a direct message of a stored group, \<open>rv_members\<close> the signature keys of its members,
  \<open>rv_consent\<close> whether its consent record says allowed, if there is one. Sending, syncing and adding again may change the whole state.
\<close>

record 'w recovery_env =
  rv_inbox_id :: string
  rv_installation_id :: bytes
  rv_hex :: "bytes \<Rightarrow> string"
  rv_group :: "'w recovery_state \<Rightarrow> bytes \<Rightarrow> (recovery_error, conversation_type \<times> string option) result"
  rv_super_admins :: "'w recovery_state \<Rightarrow> bytes \<Rightarrow> (recovery_error, string list) result"
  rv_is_super_admin :: "'w recovery_state \<Rightarrow> bytes \<Rightarrow> string \<Rightarrow> (recovery_error, bool) result"
  rv_consent :: "'w recovery_state \<Rightarrow> bytes \<Rightarrow> bool option"
  rv_active :: "'w recovery_state \<Rightarrow> bytes \<Rightarrow> (recovery_error, bool) result"
  rv_members :: "'w recovery_state \<Rightarrow> bytes \<Rightarrow> (recovery_error, bytes list) result"
  rv_send :: "string list \<Rightarrow> bytes \<Rightarrow> u64 \<Rightarrow> 'w recovery_state \<Rightarrow> (recovery_error, unit) result \<times> 'w recovery_state"
  rv_sync :: "bytes \<Rightarrow> 'w recovery_state \<Rightarrow> (recovery_error, unit) result \<times> 'w recovery_state"
  rv_readd :: "bytes \<Rightarrow> bytes list \<Rightarrow> 'w recovery_state \<Rightarrow> (recovery_error, unit) result \<times> 'w recovery_state"

text \<open>
  The id of a direct message is \<open>dm:\<close> and the two inbox ids with a colon between them; a shorter string would
  make the slices of the source panic.
\<close>

definition other_inbox_id :: "string \<Rightarrow> string \<Rightarrow> string" where
  "other_inbox_id dm_id i =
     (let inboxes = drop 3 dm_id in if take (length i) inboxes = i then drop (length i + 1) inboxes else take (length i) inboxes)"

definition permitted_readders :: "'w recovery_env \<Rightarrow> 'w recovery_state \<Rightarrow> bytes \<Rightarrow> (recovery_error, string list) result" where
  "permitted_readders E s g =
     rbind (rv_group E s g) (\<lambda>(ty, dm_id).
     if ty = Dm then Ok (case dm_id of None \<Rightarrow> [] | Some d \<Rightarrow> [other_inbox_id d (rv_inbox_id E)])
     else rv_super_admins E s g)"

definition request_readd ::
    "'w recovery_env \<Rightarrow> 'w recovery_state \<Rightarrow> bytes \<times> int option \<Rightarrow> (recovery_error, unit) result \<times> 'w recovery_state" where
  "request_readd E s = (\<lambda>(g, latest).
     if is_awaiting_readd (rs_readds s) g (rv_installation_id E) then (Ok (), s)
     else
     case latest of
       None \<Rightarrow> (Err (MissingLatestCommitSequenceId g), s)
     | Some n \<Rightarrow>
         (case permitted_readders E s g of
            Err e \<Rightarrow> (Err e, s)
          | Ok readders \<Rightarrow>
              (case rv_send E readders g (word_of_int n) s of
                 (Err e, s') \<Rightarrow> (Err e, s')
               | (Ok _, s') \<Rightarrow>
                   (Ok (), s'\<lparr> rs_readds := update_requested_at_sequence_id (rs_readds s') g (rv_installation_id E) n \<rparr>))))"

text \<open>Letters outside ASCII never lower to hexadecimal digits, so only ASCII matters here.\<close>

definition normalize_hex :: "string \<Rightarrow> string" where
  "normalize_hex s = (let lower = map ascii_lower s in if take 2 lower = ''0x'' then drop 2 lower else lower)"

fun send_requests ::
    "'w recovery_env \<Rightarrow> (bytes \<times> int option) list \<Rightarrow> recovery_error list \<Rightarrow> 'w recovery_state \<Rightarrow>
     (recovery_error, unit) result \<times> 'w recovery_state" where
  "send_requests E [] failures s = (if failures = [] then Ok () else Err (FailedReadds failures), s)"
| "send_requests E (x # xs) failures s =
     (case request_readd E s x of
        (Ok _, s') \<Rightarrow> send_requests E xs failures s'
      | (Err source, s') \<Rightarrow>
          if needs_db_reconnect source then (Err source, s')
          else send_requests E xs (failures @ [FailedToSendReadd (fst x) source]) s')"

definition groups_to_ask :: "'w recovery_env \<Rightarrow> fork_recovery_opts \<Rightarrow> commit_log_db \<Rightarrow> (bytes \<times> int option) list" where
  "groups_to_ask E opts db =
     (let forked = get_conversation_ids_for_requesting_readds db in
      if enable_recovery_requests opts = AllowlistedGroups
      then filter (\<lambda>x. normalize_hex (rv_hex E (fst x)) \<in> set (map normalize_hex (groups_to_request_recovery opts))) forked
      else forked)"

definition send_outgoing_readd_requests ::
    "'w recovery_env \<Rightarrow> fork_recovery_opts \<Rightarrow> 'w recovery_state \<Rightarrow> (recovery_error, unit) result \<times> 'w recovery_state" where
  "send_outgoing_readd_requests E opts s =
     (if enable_recovery_requests opts = NoRecovery then (Ok (), s) else send_requests E (groups_to_ask E opts (rs_log s)) [] s)"

section \<open>Receiving a request\<close>

definition validate_readd_request :: "'w recovery_env \<Rightarrow> 'w recovery_state \<Rightarrow> bytes \<Rightarrow> bytes \<Rightarrow> bool" where
  "validate_readd_request E s g sender \<longleftrightarrow>
     (case rv_consent E s g of
        None \<Rightarrow> False
      | Some allowed \<Rightarrow> allowed \<and> (case rv_members E s g of Err _ \<Rightarrow> False | Ok in_group \<Rightarrow> sender \<in> set in_group))"

definition process_message ::
    "'w recovery_env \<Rightarrow> 'w recovery_state \<Rightarrow> bytes \<Rightarrow> oneshot_message \<Rightarrow> (recovery_error, unit) result \<times> 'w recovery_state" where
  "process_message E s sender message =
     (case message of
        Some request \<Rightarrow>
          if validate_readd_request E s (rr_group_id request) sender then
            (case group_id_try_from (rr_group_id request) of
               Err _ \<Rightarrow> (Err ConversionFailed, s)
             | Ok g \<Rightarrow> (Ok (), s\<lparr> rs_readds :=
                 update_requested_at_sequence_id (rs_readds s) g sender (sint (rr_latest_commit_sequence_id request)) \<rparr>))
          else (Ok (), s)
      | None \<Rightarrow> (Ok (), s))"

definition process_welcome ::
    "'w recovery_env \<Rightarrow> 'w recovery_state \<Rightarrow> bytes \<Rightarrow> oneshot_message option \<Rightarrow> (recovery_error, unit) result \<times> 'w recovery_state" where
  "process_welcome E s sender message = (case message of Some m \<Rightarrow> process_message E s sender m | None \<Rightarrow> (Ok (), s))"

definition mark_readd_requests_as_responded :: "readd_table \<Rightarrow> bytes \<Rightarrow> bytes list \<Rightarrow> int \<Rightarrow> readd_table" where
  "mark_readd_requests_as_responded t g readded n = fold (\<lambda>i t. update_responded_at_sequence_id t g i n) readded t"

section \<open>Answering requests\<close>

text \<open>A check that cannot be made reports a database error that may pass and needs no new connection.\<close>

definition fork_check_failed :: "commit_log_error \<Rightarrow> recovery_error" where
  "fork_check_failed e = (if e = GroupNotFound then StorageFailed (Cause True False) else ConnectionFailed (Cause True False))"

definition validate_pending_readds ::
    "'w recovery_env \<Rightarrow> 'w recovery_state \<Rightarrow> bytes \<Rightarrow> (recovery_error, bytes list) result \<times> 'w recovery_state" where
  "validate_pending_readds E s g =
     (case rv_group E s g of
        Err e \<Rightarrow> (Err e, s)
      | Ok _ \<Rightarrow>
     (case rv_sync E g s of
        (Err e, s1) \<Rightarrow> (Err e, s1)
      | (Ok _, s1) \<Rightarrow>
          if rv_consent E s1 g \<noteq> Some True then (Err (GroupReaddValidationError ''Group is not consented''), s1)
          else
     (case rv_active E s1 g of
        Err e \<Rightarrow> (Err e, s1)
      | Ok active \<Rightarrow>
          if \<not> active then (Err (GroupReaddValidationError ''Group is not active''), s1)
          else
     (case rv_is_super_admin E s1 g (rv_inbox_id E) of
        Err e \<Rightarrow> (Err e, s1)
      | Ok is_super \<Rightarrow>
          if \<not> is_super then (Err (GroupReaddValidationError ''No longer super admin of group''), s1)
          else
     (case check_conversation_fork_state (rs_log s1) g of
        (Err e, db) \<Rightarrow> (Err (fork_check_failed e), s1\<lparr> rs_log := db \<rparr>)
      | (Ok fork_state, db) \<Rightarrow>
          let s2 = s1\<lparr> rs_log := db \<rparr> in
          if fork_state = Some True then (Err (GroupReaddValidationError ''Group is forked''), s2)
          else if fork_state = None then (Ok [], s2)
          else
          let requested = map rd_installation_id (get_readds_awaiting_response (rs_readds s2) g (rv_installation_id E)) in
     (case rv_members E s2 g of
        Err e \<Rightarrow> (Err e, s2)
      | Ok in_group \<Rightarrow>
          let verified = remdups (filter (\<lambda>m. m \<in> set requested) in_group);
              unverified = filter (\<lambda>i. i \<notin> set verified) requested
          in (Ok verified, s2\<lparr> rs_readds := delete_readd_statuses (rs_readds s2) g unverified \<rparr>)))))))"

fun answer_groups ::
    "'w recovery_env \<Rightarrow> bytes list \<Rightarrow> 'w recovery_state \<Rightarrow> (recovery_error, unit) result \<times> 'w recovery_state" where
  "answer_groups E [] s = (Ok (), s)"
| "answer_groups E (g # gs) s =
     (case validate_pending_readds E s g of
        (Ok validated, s') \<Rightarrow>
          if validated = [] then answer_groups E gs s'
          else
          (case rv_readd E g validated s' of
             (Err e, s'') \<Rightarrow> (Err e, s'')
           | (Ok _, s'') \<Rightarrow> answer_groups E gs s'')
      | (Err e, s') \<Rightarrow>
          if is_retryable e then (Err e, s')
          else answer_groups E gs (s'\<lparr> rs_readds := delete_other_readd_statuses (rs_readds s') g (rv_installation_id E) \<rparr>))"

definition handle_incoming_pending_readds ::
    "'w recovery_env \<Rightarrow> fork_recovery_opts \<Rightarrow> 'w recovery_state \<Rightarrow> (recovery_error, unit) result \<times> 'w recovery_state" where
  "handle_incoming_pending_readds E opts s =
     (if disable_recovery_responses opts then (Ok (), s)
      else answer_groups E (get_conversation_ids_for_responding_readds (rs_log s) (rs_readds s)) s)"

section \<open>A turn of the worker\<close>

datatype tick_error = LogFailed commit_log_error | RecoveryFailed recovery_error

text \<open>A turn downloads, judges, publishes, asks and answers, in this order, and stops at the first failure.\<close>

definition tick ::
    "log_env \<Rightarrow> 'w recovery_env \<Rightarrow> ((bytes \<times> int) list \<Rightarrow> query_commit_log_response list option) \<Rightarrow>
     (publish_commit_log_request list \<Rightarrow> bool) \<Rightarrow> fork_recovery_opts \<Rightarrow> 'w recovery_state \<Rightarrow>
     (tick_error, unit) result \<times> 'w recovery_state" where
  "tick L E query publish opts s =
     (case save_remote_commit_log L query (rs_log s) of
        (Err e, db) \<Rightarrow> (Err (LogFailed e), s\<lparr> rs_log := db \<rparr>)
      | (Ok _, db) \<Rightarrow>
     (case update_forked_state db of
        (Err e, db) \<Rightarrow> (Err (LogFailed e), s\<lparr> rs_log := db \<rparr>)
      | (Ok _, db) \<Rightarrow>
     (case publish_commit_logs_to_remote L publish db of
        (Err e, db) \<Rightarrow> (Err (LogFailed e), s\<lparr> rs_log := db \<rparr>)
      | (Ok _, db) \<Rightarrow>
     (case send_outgoing_readd_requests E opts (s\<lparr> rs_log := db \<rparr>) of
        (Err e, s) \<Rightarrow> (Err (RecoveryFailed e), s)
      | (Ok _, s) \<Rightarrow>
     (case handle_incoming_pending_readds E opts s of
        (Err e, s) \<Rightarrow> (Err (RecoveryFailed e), s)
      | (Ok _, s) \<Rightarrow> (Ok (), s))))))"

section \<open>What recovery promises\<close>

lemma get_readd_status_upsert:
  assumes "\<And>r. rd_group_id (change r) = rd_group_id r \<and> rd_installation_id (change r) = rd_installation_id r"
  shows "get_readd_status (upsert change new_status t) g i =
    (if g = rd_group_id new_status \<and> i = rd_installation_id new_status
     then (case get_readd_status t g i of Some r \<Rightarrow> Some (change r) | None \<Rightarrow> Some new_status)
     else get_readd_status t g i)"
proof -
  let ?new = "\<lambda>r :: readd_status. rd_group_id r = rd_group_id new_status \<and> rd_installation_id r = rd_installation_id new_status"
  let ?key = "\<lambda>r :: readd_status. rd_group_id r = g \<and> rd_installation_id r = i"
  have mapped: "find ?key (map (\<lambda>r. if ?new r then change r else r) t) =
      map_option (\<lambda>r. if ?new r then change r else r) (find ?key t)" for t
    using assms by (induction t) auto
  have appended: "find ?key (t @ [new_status]) = (case find ?key t of Some r \<Rightarrow> Some r | None \<Rightarrow> find ?key [new_status])"
    by (induction t) auto
  have own: ?thesis if key: "?new = ?key"
  proof -
    have here: "g = rd_group_id new_status \<and> i = rd_installation_id new_status" using fun_cong [OF key, of new_status] by simp
    show ?thesis
    proof (cases "find ?key t")
      case None
      then have "\<not> list_ex ?key t" by (auto simp: find_None_iff list_ex_iff)
      then have "upsert change new_status t = t @ [new_status]" unfolding upsert_def key by simp
      with None here appended show ?thesis by (simp add: get_readd_status_def)
    next
      case (Some r)
      then have ex: "list_ex ?key t" "?key r" by (auto simp: find_Some_iff list_ex_iff)
      then have "upsert change new_status t = map (\<lambda>r. if ?new r then change r else r) t" unfolding upsert_def key by simp
      with Some here ex(2) mapped [of t] show ?thesis by (simp add: get_readd_status_def)
    qed
  qed
  have other: ?thesis if key: "\<not> (g = rd_group_id new_status \<and> i = rd_installation_id new_status)"
  proof -
    have "map_option (\<lambda>r. if ?new r then change r else r) (find ?key t) = find ?key t"
      using key by (induction t) auto
    moreover have "find ?key [new_status] = None" using key by auto
    ultimately have "find ?key (upsert change new_status t) = find ?key t"
      unfolding upsert_def by (simp only: mapped appended split: if_split option.split) simp
    then show ?thesis unfolding get_readd_status_def if_not_P [OF key] .
  qed
  show ?thesis
  proof (cases "g = rd_group_id new_status \<and> i = rd_installation_id new_status")
    case True
    then have "?new = ?key" by (simp add: fun_eq_iff)
    then show ?thesis by (rule own)
  next
    case False
    then show ?thesis by (rule other)
  qed
qed

lemmas get_readd_status_updates =
  update_requested_at_sequence_id_def update_responded_at_sequence_id_def get_readd_status_upsert

lemma awaiting_after_request:
  assumes "\<not> is_awaiting_readd t g i" "0 \<le> n"
  shows "is_awaiting_readd (update_requested_at_sequence_id t g i n) g i \<longleftrightarrow>
    (case get_readd_status t g i of None \<Rightarrow> True | Some r \<Rightarrow> (case responded_at_sequence_id r of None \<Rightarrow> True | Some p \<Rightarrow> p \<le> n))"
  using assms
  by (auto simp: is_awaiting_readd_def get_readd_status_updates raises_def split: option.splits)

text \<open>
  Property C31. A request is sent once: when sending it succeeds, the client waits for an answer, and asks again for the same group
  without sending anything, unless an answer to a later commit than the one the request names is on record.
\<close>

theorem request_is_sent_once:
  assumes "request_readd E s (g, Some n) = (Ok (), s')" "\<not> is_awaiting_readd (rs_readds s) g (rv_installation_id E)" "0 \<le> n"
    and "\<And>to h m. rs_readds (snd (rv_send E to h m s)) = rs_readds s"
  shows "(case get_readd_status (rs_readds s) g (rv_installation_id E) of
            None \<Rightarrow> True
          | Some r \<Rightarrow> (case responded_at_sequence_id r of None \<Rightarrow> True | Some p \<Rightarrow> p \<le> n))
         \<longleftrightarrow> request_readd E s' (g, latest) = (Ok (), s') \<and> is_awaiting_readd (rs_readds s') g (rv_installation_id E)"
proof -
  from assms(1,2) obtain to s1 where sent: "rv_send E to g (word_of_int n) s = (Ok (), s1)"
    "s' = s1\<lparr> rs_readds := update_requested_at_sequence_id (rs_readds s1) g (rv_installation_id E) n \<rparr>"
    by (auto simp: request_readd_def split: sum.splits prod.splits)
  have "rs_readds s' = update_requested_at_sequence_id (rs_readds s) g (rv_installation_id E) n"
    using assms(4) [of to g "word_of_int n"] sent by simp
  with awaiting_after_request [OF assms(2,3)] show ?thesis by (auto simp: request_readd_def)
qed

lemma latest_commit_of:
  assumes "logs_ok db" "evidence db g"
  shows "remote_rows db g \<noteq> []"
  using assms(2) by (auto simp: evidence_def)

text \<open>
  Property C30. The forked groups always have a commit to name: in every state a client can reach, each group for which a request is due
  comes with the newest of its saved commits, so that no request fails for lack of one.
\<close>

theorem requests_name_a_commit:
  assumes "reachable L db" "(g, latest) \<in> set (get_conversation_ids_for_requesting_readds db)"
  shows "\<exists>r \<in> set (remote_rows db g). latest = Some (sint (rl_commit_sequence_id r))
    \<and> (\<forall>r' \<in> set (remote_rows db g). sint (rl_commit_sequence_id r') \<le> sint (rl_commit_sequence_id r))"
proof -
  let ?ids = "map (\<lambda>r. sint (rl_commit_sequence_id r)) (remote_rows db g)"
  have inv: "log_inv db" using reachable_inv [OF assms(1)] .
  from assms(2) obtain c where c: "c \<in> set (log_groups db)" "cg_id c = g" "cg_is_forked c = Some True"
    "latest = (if ?ids = [] then None else Some (Max (set ?ids)))"
    by (auto simp: get_conversation_ids_for_requesting_readds_def remote_rows_def)
  then have "(g, Some True) \<in> set (statuses (log_groups db))" by (auto simp: statuses_def intro!: rev_image_eqI)
  with inv have "forked_status db g = Some (Some True)"
    by (auto simp: forked_status_map_of log_inv_def groups_ok_statuses)
  with inv have "?ids \<noteq> []" by (auto simp: log_inv_def evidence_def)
  then have "Max (set ?ids) \<in> set ?ids" by (intro Max_in) auto
  then obtain r where "r \<in> set (remote_rows db g)" "sint (rl_commit_sequence_id r) = Max (set ?ids)" by auto
  with c(4) \<open>?ids \<noteq> []\<close> show ?thesis by (intro bexI [of _ r]) auto
qed

definition kinds :: "commit_log_db \<Rightarrow> (bytes \<times> conversation_type) list" where
  "kinds db = map (\<lambda>c. (cg_id c, cg_conversation_type c)) (log_groups db)"

lemma compare_logs_groups: "log_groups (snd (compare_logs g rs up ls db)) = log_groups db"
  by (induction ls arbitrary: up db) (auto simp: Let_def split: option.split)

lemma check_groups: "log_groups (snd (check_conversation_fork_state db g)) = log_groups db"
proof -
  have "log_groups (snd (case x of Err e \<Rightarrow> (Err e, db')
      | Ok (local_logs, remote_logs) \<Rightarrow>
          if local_logs = [] then (if crossed then (Ok None, db') else (get_group_commit_log_forked_status db' g, db'))
          else let (verdict, db'') = compare_logs g remote_logs True local_logs db' in (Ok verdict, db''))) = log_groups db'"
    for x :: "(commit_log_error, local_commit_log list \<times> remote_commit_log list) result" and crossed db'
    by (auto simp: compare_logs_groups case_prod_beta split: sum.split)
  then show ?thesis by (simp add: check_conversation_fork_state_def Let_def)
qed

lemma update_forked_groups_kinds: "kinds (snd (update_forked_groups gs db)) = kinds db"
proof (induction gs arbitrary: db)
  case Nil
  then show ?case by simp
next
  case (Cons g gs)
  have status: "kinds (set_group_commit_log_forked_status d h v) = kinds d" for d h v
    by (simp add: kinds_def set_group_commit_log_forked_status_def)
  have check: "kinds d = kinds db" if "check_conversation_fork_state db h = (r, d)" for h r d
    using that check_groups [of db h] by (simp add: kinds_def)
  show ?case
    by (auto simp: Cons.IH status check split: sum.split prod.split)
qed

text \<open>
  A member that was added again asks again. The welcome starts its log over and answers its
  request, but the mark on the group stays, so the group is still listed for a request and nothing holds the next
  one back.
\<close>

theorem readded_member_asks_again:
  assumes "reachable L db" "rowids_fit (from_welcome_logged db g epoch auth)" "forked_status db g = Some (Some True)"
    and "\<forall>c \<in> set (log_groups db). cg_id c = g \<longrightarrow> cg_conversation_type c \<notin> set virtual_types"
    and "get_readd_status t g me = Some r" "requested_at_sequence_id r = Some n" "n < p"
  shows "g \<in> fst ` set (get_conversation_ids_for_requesting_readds (snd (update_forked_state (from_welcome_logged db g epoch auth))))
    \<and> \<not> is_awaiting_readd (mark_readd_requests_as_responded t g [me] p) g me"
proof
  let ?db = "from_welcome_logged db g epoch auth"
  have inv: "log_inv ?db" using reachable_inv [OF assms(1)] log_operations_inv(3) by blast
  have frame: "forked_status ?db g = Some (Some True)" "kinds ?db = kinds db"
    using assms(3) by (simp_all add: from_welcome_logged_def ENABLE_COMMIT_LOG_def kinds_def)
  then have "(g, Some True) \<in> set (statuses (log_groups ?db))" by (simp add: forked_status_map_of map_of_SomeD)
  then have "g \<notin> set (get_conversation_ids_for_fork_check ?db)"
    using inv by (auto simp: statuses_def get_conversation_ids_for_fork_check_def log_inv_def groups_ok_def distinct_map dest: inj_onD)
  with update_forked_state_spec [OF inv assms(2)] frame(1)
  have "forked_status (snd (update_forked_state ?db)) g = Some (Some True)" by auto
  then obtain c where c: "c \<in> set (log_groups (snd (update_forked_state ?db)))" "cg_id c = g" "cg_is_forked c = Some True"
    by (auto simp: forked_status_map_of statuses_def dest!: map_of_SomeD)
  then have "(g, cg_conversation_type c) \<in> set (kinds (snd (update_forked_state ?db)))" by (auto simp: kinds_def intro!: rev_image_eqI)
  then have "cg_conversation_type c \<notin> set virtual_types"
    using assms(4) by (auto simp: update_forked_state_def update_forked_groups_kinds frame(2)) (auto simp: kinds_def)
  with c show "g \<in> fst ` set (get_conversation_ids_for_requesting_readds (snd (update_forked_state ?db)))"
    by (auto simp: get_conversation_ids_for_requesting_readds_def intro!: rev_image_eqI)
  show "\<not> is_awaiting_readd (mark_readd_requests_as_responded t g [me] p) g me"
    using assms(5-7) by (auto simp: mark_readd_requests_as_responded_def is_awaiting_readd_def get_readd_status_updates raises_def
        split: option.splits)
qed

lemma validated_cases:
  assumes "validate_pending_readds E s g = (Ok validated, s')" "i \<in> set validated"
  obtains s1 db in_group where "rv_sync E g s = (Ok (), s1)" "rv_consent E s1 g = Some True" "rv_active E s1 g = Ok True"
    "rv_is_super_admin E s1 g (rv_inbox_id E) = Ok True" "check_conversation_fork_state (rs_log s1) g = (Ok (Some False), db)"
    "rv_members E (s1\<lparr> rs_log := db \<rparr>) g = Ok in_group" "rs_log s' = db"
    "i \<in> set in_group" "i \<in> rd_installation_id ` set (get_readds_awaiting_response (rs_readds s1) g (rv_installation_id E))"
  using assms
  by (auto simp: validate_pending_readds_def Let_def split: sum.splits prod.splits if_splits option.splits)

text \<open>
  Property C17. Only members that asked are added again: an installation that the validation lets through is
  a member of the group, has a request that waits for an answer, and is not this client's; and this client, with all messages of the
  group processed, has consented to it, is active in it and one of its super admins, and knows its own log to
  agree with the group's.
\<close>

theorem readds_are_validated:
  assumes "validate_pending_readds E s g = (Ok validated, s')" "i \<in> set validated"
    and "\<forall>s1. rv_sync E g s = (Ok (), s1) \<longrightarrow> reachable L (rs_log s1) \<and> rowids_fit (rs_log s1) \<and> find_group (rs_log s1) g \<noteq> None"
  shows "\<exists>s1 in_group r. rv_sync E g s = (Ok (), s1) \<and> rv_consent E s1 g = Some True \<and> rv_active E s1 g = Ok True
    \<and> rv_is_super_admin E s1 g (rv_inbox_id E) = Ok True \<and> fork_verdict (rs_log s1) g = Some False
    \<and> rv_members E (s1\<lparr> rs_log := rs_log s' \<rparr>) g = Ok in_group \<and> i \<in> set in_group
    \<and> r \<in> set (rs_readds s1) \<and> rd_group_id r = g \<and> rd_installation_id r = i \<and> awaits_response r \<and> i \<noteq> rv_installation_id E"
proof -
  from validated_cases [OF assms(1,2)] obtain s1 db in_group where *: "rv_sync E g s = (Ok (), s1)" "rv_consent E s1 g = Some True"
    "rv_active E s1 g = Ok True" "rv_is_super_admin E s1 g (rv_inbox_id E) = Ok True"
    "check_conversation_fork_state (rs_log s1) g = (Ok (Some False), db)"
    "rv_members E (s1\<lparr> rs_log := db \<rparr>) g = Ok in_group" "rs_log s' = db"
    "i \<in> set in_group" "i \<in> rd_installation_id ` set (get_readds_awaiting_response (rs_readds s1) g (rv_installation_id E))" .
  from assms(3) *(1) obtain c where "log_inv (rs_log s1)" "rowids_fit (rs_log s1)" "find_group (rs_log s1) g = Some c"
    using reachable_inv by fast
  then have "fork_verdict (rs_log s1) g = Some False"
    using check_conversation_fork_state_exact [of "rs_log s1" g c] *(5) by (auto simp: log_inv_def logs_ok_def)
  moreover obtain r where "r \<in> set (rs_readds s1)" "rd_group_id r = g" "rd_installation_id r = i" "awaits_response r" "i \<noteq> rv_installation_id E"
    using *(9) by (auto simp: get_readds_awaiting_response_def)
  ultimately show ?thesis using *(1-4,6-8) by blast
qed

lemma find_distinct_keys:
  assumes "distinct (map (\<lambda>r. (rd_group_id r, rd_installation_id r)) t)"
  shows "get_readd_status t g i = Some r \<longleftrightarrow> r \<in> set t \<and> rd_group_id r = g \<and> rd_installation_id r = i"
  using assms unfolding get_readd_status_def by (induction t) (auto simp: image_iff)

text \<open>
  The check of a single request and the query for all of them agree on the ids of the
  protocol, which are not negative: another installation's request awaits an answer exactly if the query finds it.
\<close>

theorem awaiting_checks_agree:
  assumes "distinct (map (\<lambda>r. (rd_group_id r, rd_installation_id r)) t)" "\<forall>r \<in> set t. \<forall>n. requested_at_sequence_id r = Some n \<longrightarrow> 0 \<le> n"
  shows "i \<in> rd_installation_id ` set (get_readds_awaiting_response t g me) \<longleftrightarrow> i \<noteq> me \<and> is_awaiting_readd t g i"
proof -
  have "is_awaiting_readd t g i \<longleftrightarrow> (\<exists>r \<in> set t. rd_group_id r = g \<and> rd_installation_id r = i \<and> awaits_response r)"
  proof (cases "get_readd_status t g i")
    case None
    with find_distinct_keys [OF assms(1), of g i] show ?thesis by (auto simp: is_awaiting_readd_def)
  next
    case (Some r)
    have only: "r \<in> set t \<and> rd_group_id r = g \<and> rd_installation_id r = i"
      "r' \<in> set t \<and> rd_group_id r' = g \<and> rd_installation_id r' = i \<Longrightarrow> r' = r" for r'
      using find_distinct_keys [OF assms(1), of g i] Some by (blast, metis option.inject)
    have "is_awaiting_readd t g i \<longleftrightarrow> awaits_response r"
      using Some only(1) assms(2) by (auto simp: is_awaiting_readd_def awaits_response_def split: option.split)
    with only show ?thesis by blast
  qed
  then show ?thesis by (auto simp: get_readds_awaiting_response_def)
qed

end
