(* ===== verification/Log_Instance.thy ===== *)
theory Log_Instance
  imports Log_Exchange Fork_Recovery
begin

text \<open>
  Runs of the commit log at concrete inputs: a member with two groups logs a commit, downloads what its group
  says about it, and is judged to have forked or not; it publishes without a key, and it asks to be added again.
\<close>

definition group_a :: bytes where "group_a = replicate 16 1"
definition group_b :: bytes where "group_b = replicate 16 2"

lemma groups_simps [simp]:
  "length group_a = 16" "length group_b = 16" "group_a \<noteq> group_b" "group_b \<noteq> group_a"
  by (simp_all add: group_a_def group_b_def numeral_eq_Suc)

definition row_a :: commit_log_group where
  "row_a = \<lparr> cg_id = group_a, cg_conversation_type = Group, cg_should_publish = True, cg_allowed = True,
     cg_public_key = Some [7], cg_is_forked = None \<rparr>"

definition row_b :: commit_log_group where
  "row_b = \<lparr> cg_id = group_b, cg_conversation_type = Group, cg_should_publish = True, cg_allowed = True,
     cg_public_key = None, cg_is_forked = None \<rparr>"

lemmas row_simps [simp] = row_a_def row_b_def

text \<open>What the group says about commit 5; the member has the authenticator 0 after it.\<close>

definition told_entry :: "u8 \<Rightarrow> plaintext_commit_log_entry" where
  "told_entry auth = \<lparr> pe_group_id = group_a, pe_commit_sequence_id = 5, pe_last_epoch_authenticator = [0], pe_commit_result = 2,
     pe_applied_epoch_number = 0, pe_applied_epoch_authenticator = [auth] \<rparr>"

definition log_demo :: "u8 \<Rightarrow> log_env" where
  "log_demo auth = \<lparr> lv_hex = \<lparr> hex_encode = (\<lambda>_. []), hex_decode = (\<lambda>_. None), sha256_hex = id \<rparr>,
     lv_verify = (\<lambda>_ _ _. True), lv_sign = (\<lambda>m sk. Some []), lv_to_public_key = Some, lv_generate = (\<lambda>_. Some [3]),
     lv_encode = (\<lambda>_. []), lv_decode = (\<lambda>_. Some (told_entry auth)),
     lv_metadata = (\<lambda>_. Some \<lparr> gmm_attributes = [], gmm_admin_list = [], gmm_super_admin_list = [] \<rparr>),
     lv_is_dm = (\<lambda>_. False), lv_update_signer = (\<lambda>_ _. True) \<rparr>"

definition told_response :: query_commit_log_response where
  "told_response = \<lparr> qr_group_id = group_a,
     qr_entries = [\<lparr> ce_sequence_id = 1, ce_serialized = [], ce_signature = Some \<lparr> ls_bytes = [], ls_public_key = [7] \<rparr> \<rparr>] \<rparr>"

definition joined_db :: commit_log_db where
  "joined_db = from_creation_logged (empty_db\<lparr> log_groups := [row_a, row_b] \<rparr>) group_a 0 [0]"

definition logged_db :: commit_log_db where
  "logged_db = mark_failed_commit_logged (from_creation_logged joined_db group_b 0 [0]) group_a 5 1 0 [0] WrongEpoch"

definition saved_db :: "u8 \<Rightarrow> commit_log_db" where
  "saved_db auth = snd (save_remote_commit_log (log_demo auth) (\<lambda>_. Some [told_response]) logged_db)"

definition judged_db :: "u8 \<Rightarrow> commit_log_db" where
  "judged_db auth = snd (update_forked_state (saved_db auth))"

definition start_row :: "int \<Rightarrow> bytes \<Rightarrow> local_commit_log" where
  "start_row n g = \<lparr> ll_rowid = n, ll_group_id = g, ll_commit_sequence_id = 0, ll_last_epoch_authenticator = [],
     ll_commit_result = Success, ll_applied_epoch_number = 0, ll_applied_epoch_authenticator = [0], ll_commit_type = Some GroupCreation \<rparr>"

definition failed_row :: local_commit_log where
  "failed_row = \<lparr> ll_rowid = 3, ll_group_id = group_a, ll_commit_sequence_id = 5, ll_last_epoch_authenticator = [0],
     ll_commit_result = WrongEpoch, ll_applied_epoch_number = 0, ll_applied_epoch_authenticator = [0], ll_commit_type = None \<rparr>"

definition told_row :: "u8 \<Rightarrow> remote_commit_log" where
  "told_row auth = \<lparr> rl_rowid = 1, rl_log_sequence_id = 1, rl_group_id = group_a, rl_commit_sequence_id = 5,
     rl_commit_result = WrongEpoch, rl_applied_epoch_number = 0, rl_applied_epoch_authenticator = [auth] \<rparr>"

lemma joined_db_eq: "joined_db = \<lparr> local_log_rows = [start_row 1 group_a], remote_log_rows = [], refresh_state = [],
    log_groups = [row_a, row_b], commit_log_keys = [] \<rparr>"
  by (simp add: joined_db_def from_creation_logged_def ENABLE_COMMIT_LOG_def store_local_def chain_start_def empty_db_def
      next_rowid_def start_row_def)

lemma logged_db_eq: "logged_db = \<lparr> local_log_rows = [start_row 1 group_a, start_row 2 group_b, failed_row], remote_log_rows = [],
    refresh_state = [], log_groups = [row_a, row_b], commit_log_keys = [] \<rparr>"
  by (simp add: logged_db_def joined_db_eq from_creation_logged_def mark_failed_commit_logged_def ENABLE_COMMIT_LOG_def store_local_def
      chain_start_def next_rowid_def start_row_def failed_row_def get_latest_log_for_group_def last_of_def)

lemma saved_db_eq: "saved_db auth = \<lparr> local_log_rows = [start_row 1 group_a, start_row 2 group_b, failed_row],
    remote_log_rows = [told_row auth], refresh_state = [((group_a, CommitLogDownload), 1)], log_groups = [row_a, row_b], commit_log_keys = [] \<rparr>"
  by (simp add: saved_db_def logged_db_eq save_remote_commit_log_def commit_log_requests_def get_conversation_ids_for_remote_log_download_def
      virtual_types_def hm_from_iter_def told_response_def save_remote_commit_log_entries_and_update_cursors_def group_id_try_from_def
      get_latest_remote_log_for_group_def last_of_def log_demo_def should_skip_remote_commit_log_entry_def told_entry_def
      verify_commit_log_signature_def remote_row_def store_remote_def next_rowid_def told_row_def commit_result_of_i32_def
      update_cursor_def Let_def)

definition judged :: "u8 \<Rightarrow> bool option" where
  "judged auth = (if auth = 0 then Some False else Some True)"

lemma judged_db_eq: "update_forked_state (saved_db auth) = (Ok (), \<lparr> local_log_rows = [start_row 1 group_a, start_row 2 group_b, failed_row],
    remote_log_rows = [told_row auth],
    refresh_state = [((group_a, CommitLogDownload), 1), ((group_a, CommitLogForkCheckLocal), 3), ((group_a, CommitLogForkCheckRemote), 1),
      ((group_b, CommitLogForkCheckLocal), 2)],
    log_groups = [row_a\<lparr> cg_is_forked := judged auth \<rparr>, row_b], commit_log_keys = [] \<rparr>)"
  by (simp add: saved_db_eq update_forked_state_def get_conversation_ids_for_fork_check_def virtual_types_def group_id_try_from_def
      check_conversation_fork_state_def get_cursor_def get_latest_chain_start_rowid_def last_of_def start_row_def failed_row_def
      update_cursor_def get_local_commit_log_after_cursor_def get_remote_commit_log_after_cursor_def told_row_def
      terminal_removal_def find_matching_remote_log_def judged_def set_group_commit_log_forked_status_def Let_def)

lemma rowids_fit_judged: "rowids_fit (saved_db auth)" "rowids_fit logged_db"
  by (simp_all add: rowids_fit_def saved_db_eq logged_db_eq start_row_def failed_row_def told_row_def)

lemma told_response_answers: "answers (commit_log_requests logged_db) [told_response]"
  by (simp add: answers_def told_response_def commit_log_requests_def logged_db_eq get_conversation_ids_for_remote_log_download_def
      virtual_types_def get_cursor_def pages_after_def)

lemma logged_reachable: "reachable E logged_db"
proof -
  have "reachable E (empty_db\<lparr> log_groups := [row_a, row_b] \<rparr>)"
    by (rule reachable.Step [OF reachable.Start log_step.Regrouped]) (simp_all add: groups_ok_def)
  then have "reachable E joined_db" unfolding joined_db_def by (rule reachable.Step [OF _ log_step.Created])
  then have "reachable E (from_creation_logged joined_db group_b 0 [0])" by (rule reachable.Step [OF _ log_step.Created])
  moreover have "fresh_commit (from_creation_logged joined_db group_b 0 [0]) group_a 5"
    by (simp add: fresh_commit_def local_rows_def joined_db_eq from_creation_logged_def ENABLE_COMMIT_LOG_def store_local_def
        chain_start_def start_row_def)
  ultimately show ?thesis unfolding logged_db_def by (rule reachable.Step [OF _ log_step.Failed])
qed

lemma saved_reachable: "reachable (log_demo auth) (saved_db auth)"
  unfolding saved_db_def
  by (rule reachable.Step [OF logged_reachable log_step.Downloaded]) (simp add: told_response_answers)

lemma judged_reachable: "reachable (log_demo auth) (judged_db auth)"
  unfolding judged_db_def by (rule reachable.Step [OF saved_reachable log_step.Judged]) (rule rowids_fit_judged)

section \<open>Witnesses for the log and the verdicts\<close>

theorem remote_log_is_a_chain_witness: "get_latest_remote_log_for_group (saved_db 9) group_a = Some (told_row 9)"
  using remote_log_is_a_chain [OF saved_reachable, of 9 group_a] by (simp add: remote_rows_def saved_db_eq told_row_def)

theorem saved_rows_are_signed_witness:
  "\<exists>n db' rows. save_remote_commit_log_entries_and_update_cursors (log_demo 9) logged_db told_response (Some [7]) = Ok (n, db')
     \<and> remote_log_rows db' = rows \<and> length rows = n \<and> (\<forall>r \<in> set rows. rl_group_id r = group_a)"
proof -
  have "\<exists>n db'. save_remote_commit_log_entries_and_update_cursors (log_demo 9) logged_db told_response (Some [7]) = Ok (n, db')"
    by (simp add: save_remote_commit_log_entries_and_update_cursors_def told_response_def group_id_try_from_def Let_def case_prod_beta)
  then obtain n db' where run:
    "save_remote_commit_log_entries_and_update_cursors (log_demo 9) logged_db told_response (Some [7]) = Ok (n, db')" by blast
  from saved_rows_are_signed [OF run] show ?thesis
    using run by (auto simp: logged_db_eq told_response_def)
qed

lemma fork_verdict_saved: "fork_verdict (saved_db auth) group_a = judged auth"
  by (simp add: fork_verdict_def get_cursor_def get_latest_chain_start_rowid_def last_of_def local_rows_def saved_db_eq start_row_def
      failed_row_def told_row_def consensus_def remote_rows_def terminal_removal_def judged_def)

lemma judged_groups: "set (get_conversation_ids_for_fork_check (saved_db auth)) = {group_a, group_b}"
  by (simp add: get_conversation_ids_for_fork_check_def saved_db_eq virtual_types_def)


lemma judged_forked: "forked_status (judged_db 9) group_a = Some (Some True)"
  by (simp add: judged_db_def judged_db_eq forked_status_def find_group_def judged_def)

theorem forked_has_evidence_witness:
  "\<exists>l \<in> set (local_rows (judged_db 9) group_a). \<exists>r \<in> set (remote_rows (judged_db 9) group_a).
     ll_commit_sequence_id l = rl_commit_sequence_id r \<and> ll_applied_epoch_authenticator l \<noteq> rl_applied_epoch_authenticator r"
  using forked_has_evidence [OF judged_reachable judged_forked] by blast

theorem forked_survives_welcome_witness:
  "fork_verdict (from_welcome_logged (judged_db 9) group_a 4 [8]) group_a = None \<and>
   forked_status (snd (update_forked_state (from_welcome_logged (judged_db 9) group_a 4 [8]))) group_a = Some (Some True)"
proof -
  have "rowids_fit (from_welcome_logged (judged_db 9) group_a 4 [8])"
    by (simp add: rowids_fit_def judged_db_def judged_db_eq from_welcome_logged_def ENABLE_COMMIT_LOG_def store_local_def chain_start_def
        next_rowid_def start_row_def failed_row_def told_row_def)
  from forked_survives_welcome [OF judged_reachable this judged_forked] show ?thesis .
qed

section \<open>Publishing\<close>

definition unsent_db :: commit_log_db where
  "unsent_db = mark_failed_commit_logged logged_db group_b 6 1 0 [0] WrongEpoch"

definition other_row :: local_commit_log where
  "other_row = \<lparr> ll_rowid = 4, ll_group_id = group_b, ll_commit_sequence_id = 6, ll_last_epoch_authenticator = [0],
     ll_commit_result = WrongEpoch, ll_applied_epoch_number = 0, ll_applied_epoch_authenticator = [0], ll_commit_type = None \<rparr>"

lemma unsent_db_eq: "unsent_db = \<lparr> local_log_rows = [start_row 1 group_a, start_row 2 group_b, failed_row, other_row], remote_log_rows = [],
    refresh_state = [], log_groups = [row_a, row_b], commit_log_keys = [] \<rparr>"
  by (simp add: unsent_db_def logged_db_eq mark_failed_commit_logged_def ENABLE_COMMIT_LOG_def store_local_def next_rowid_def
      start_row_def failed_row_def other_row_def get_latest_log_for_group_def last_of_def)

lemma unsent_reachable: "reachable E unsent_db"
proof -
  have "fresh_commit logged_db group_b 6"
    by (simp add: fresh_commit_def local_rows_def logged_db_eq start_row_def failed_row_def)
  then show ?thesis unfolding unsent_db_def by (rule reachable.Step [OF logged_reachable log_step.Failed])
qed

definition sent_b :: publish_commit_log_request where
  "sent_b = \<lparr> pr_group_id = group_b, pr_serialized = [], pr_signature = Some \<lparr> ls_bytes = [], ls_public_key = [3] \<rparr> \<rparr>"

lemma publish_run: "\<exists>infos db'. publish_commit_logs_to_remote (log_demo 9) (\<lambda>_. True) unsent_db = (Ok (infos, [sent_b]), db')"
  by (simp add: publish_commit_logs_to_remote_def get_conversation_ids_for_remote_log_publish_def unsent_db_eq
      get_local_commit_log_cursor_def get_latest_log_for_group_def last_of_def get_cursor_def start_row_def failed_row_def other_row_def
      get_local_commit_log_after_cursor_def sign_group_logs_def get_or_create_signing_key_def log_demo_def gmm_commit_log_signer_def
      gmm_attribute_def write_commit_log_key_def sign_entry_def ok_or_def sent_b_def Let_def)

theorem unsigned_commits_count_as_published_witness:
  "\<exists>infos db'. publish_commit_logs_to_remote (log_demo 9) (\<lambda>_. True) unsent_db = (Ok (infos, [sent_b]), db')
     \<and> get_local_commit_log_after_cursor unsent_db group_a 0 AscendingByRowid = Ok [failed_row]
     \<and> get_local_commit_log_after_cursor db' group_a (get_cursor db' group_a CommitLogUpload) AscendingByRowid = Ok []"
proof -
  obtain infos db' where run: "publish_commit_logs_to_remote (log_demo 9) (\<lambda>_. True) unsent_db = (Ok (infos, [sent_b]), db')"
    using publish_run by blast
  have fit: "rowids_fit unsent_db" by (simp add: rowids_fit_def unsent_db_eq start_row_def failed_row_def other_row_def)
  have at: "get_cursor unsent_db group_a CommitLogUpload = 0" by (simp add: get_cursor_def unsent_db_eq)
  have row: "row_a \<in> set (get_conversation_ids_for_remote_log_publish unsent_db)"
    by (simp add: get_conversation_ids_for_remote_log_publish_def unsent_db_eq)
  have key: "no_key (log_demo 9) row_a" by (simp add: no_key_def log_demo_def gmm_commit_log_signer_def gmm_attribute_def)
  have none: "hm_get (=) (commit_log_keys unsent_db) (cg_id row_a) = None" by (simp add: unsent_db_eq)
  have logs: "get_local_commit_log_after_cursor unsent_db group_a 0 AscendingByRowid = Ok [failed_row]"
    by (simp add: get_local_commit_log_after_cursor_def unsent_db_eq start_row_def failed_row_def other_row_def)
  from unsigned_commits_count_as_published [OF unsent_reachable fit _ row key none _ _ run, of "[failed_row]"] run logs at show ?thesis
    by simp
qed

text \<open>A codec without loss: numbers in unary, byte strings after their length.\<close>

fun dec_nat :: "bytes \<Rightarrow> nat \<times> bytes" where
  "dec_nat [] = (0, [])"
| "dec_nat (b # bs) = (if b = 0 then (0, bs) else (let (n, rest) = dec_nat bs in (Suc n, rest)))"

definition enc_nat :: "nat \<Rightarrow> bytes" where "enc_nat n = replicate n 1 @ [0]"
definition enc_bytes :: "bytes \<Rightarrow> bytes" where "enc_bytes b = enc_nat (length b) @ b"
definition dec_bytes :: "bytes \<Rightarrow> bytes \<times> bytes" where "dec_bytes bs = (let (n, rest) = dec_nat bs in (take n rest, drop n rest))"
definition enc_int :: "int \<Rightarrow> bytes" where "enc_int i = (if i < 0 then 1 else 0) # enc_nat (nat \<bar>i\<bar>)"
definition dec_int :: "bytes \<Rightarrow> int \<times> bytes" where
  "dec_int bs = (let (n, rest) = dec_nat (tl bs) in (if hd bs = 1 then - int n else int n, rest))"

lemma dec_nat_enc [simp]: "dec_nat (enc_nat n @ rest) = (n, rest)"
  by (induction n) (simp_all add: enc_nat_def)

lemma dec_bytes_enc [simp]: "dec_bytes (enc_bytes b @ rest) = (b, rest)"
  by (simp add: enc_bytes_def dec_bytes_def)

lemma dec_int_enc [simp]: "dec_int (enc_int i @ rest) = (i, rest)"
  by (simp add: enc_int_def dec_int_def)

definition enc_entry :: "plaintext_commit_log_entry \<Rightarrow> bytes" where
  "enc_entry e = enc_bytes (pe_group_id e) @ enc_nat (unat (pe_commit_sequence_id e)) @ enc_bytes (pe_last_epoch_authenticator e)
     @ enc_int (pe_commit_result e) @ enc_nat (unat (pe_applied_epoch_number e)) @ enc_bytes (pe_applied_epoch_authenticator e)"

definition dec_entry :: "bytes \<Rightarrow> plaintext_commit_log_entry option" where
  "dec_entry bs =
     (let (g, bs1) = dec_bytes bs; (c, bs2) = dec_nat bs1; (l, bs3) = dec_bytes bs2; (r, bs4) = dec_int bs3;
          (n, bs5) = dec_nat bs4; (a, bs6) = dec_bytes bs5
      in Some \<lparr> pe_group_id = g, pe_commit_sequence_id = of_nat c, pe_last_epoch_authenticator = l, pe_commit_result = r,
           pe_applied_epoch_number = of_nat n, pe_applied_epoch_authenticator = a \<rparr>)"

lemma dec_entry_enc: "dec_entry (enc_entry e) = Some e"
proof -
  have "dec_bytes (enc_bytes b) = (b, [])" for b using dec_bytes_enc [of b "[]"] by simp
  then show ?thesis by (simp add: dec_entry_def enc_entry_def)
qed

definition sound_demo :: log_env where
  "sound_demo = (log_demo 0)\<lparr> lv_verify := (\<lambda>m pk sig. sig = pk @ m), lv_sign := (\<lambda>m sk. Some (sk @ m)),
     lv_encode := enc_entry, lv_decode := dec_entry \<rparr>"

lemma sound_demo: "sound_env sound_demo"
  by (simp add: sound_env_def sound_demo_def dec_entry_enc log_demo_def)

definition honest_row :: "int \<Rightarrow> u64 \<Rightarrow> u8 \<Rightarrow> local_commit_log" where
  "honest_row n c auth = \<lparr> ll_rowid = n, ll_group_id = group_a, ll_commit_sequence_id = c, ll_last_epoch_authenticator = [auth],
     ll_commit_result = Success, ll_applied_epoch_number = c, ll_applied_epoch_authenticator = [auth + 1], ll_commit_type = None \<rparr>"

lemma two_commits_honest: "honest_log group_a [honest_row 2 5 0, honest_row 3 6 1]"
  by (simp add: honest_log_def honest_row_def told_local_def)

definition keyed_db :: commit_log_db where
  "keyed_db = empty_db\<lparr> commit_log_keys := [(group_a, [7])] \<rparr>"


section \<open>Recovery\<close>

definition recovery_demo :: "unit recovery_env" where
  "recovery_demo = \<lparr> rv_inbox_id = ''me'', rv_installation_id = [1], rv_hex = (\<lambda>_. []),
     rv_group = (\<lambda>_ _. Ok (Group, None)), rv_super_admins = (\<lambda>_ _. Ok [''me'']), rv_is_super_admin = (\<lambda>_ _ _. Ok True),
     rv_consent = (\<lambda>_ _. Some True), rv_active = (\<lambda>_ _. Ok True), rv_members = (\<lambda>_ _. Ok [[1], [2]]),
     rv_send = (\<lambda>_ _ _ s. (Ok (), s)), rv_sync = (\<lambda>_ s. (Ok (), s)), rv_readd = (\<lambda>_ _ s. (Ok (), s)) \<rparr>"

definition asked_row :: "bytes \<Rightarrow> readd_status" where
  "asked_row i = \<lparr> rd_group_id = group_a, rd_installation_id = i, requested_at_sequence_id = Some 5, responded_at_sequence_id = None \<rparr>"

definition asked_state :: "unit recovery_state" where
  "asked_state = \<lparr> rs_log = saved_db 0, rs_readds = [asked_row [2], asked_row [3]], rs_rest = () \<rparr>"

theorem request_is_sent_once_witness:
  "\<exists>s'. request_readd recovery_demo asked_state (group_a, Some 5) = (Ok (), s') \<and> s' \<noteq> asked_state
     \<and> request_readd recovery_demo s' (group_a, None) = (Ok (), s')"
proof -
  have new: "get_readd_status (rs_readds asked_state) group_a (rv_installation_id recovery_demo) = None"
    by (simp add: get_readd_status_def asked_state_def asked_row_def recovery_demo_def)
  then have waits: "\<not> is_awaiting_readd (rs_readds asked_state) group_a (rv_installation_id recovery_demo)"
    by (simp add: is_awaiting_readd_def)
  have "\<exists>s'. request_readd recovery_demo asked_state (group_a, Some 5) = (Ok (), s') \<and> s' \<noteq> asked_state"
    using waits by (simp add: request_readd_def permitted_readders_def recovery_demo_def asked_state_def asked_row_def
        update_requested_at_sequence_id_def upsert_def)
  then obtain s' where run: "request_readd recovery_demo asked_state (group_a, Some 5) = (Ok (), s')" "s' \<noteq> asked_state" by blast
  have keeps: "rs_readds (snd (rv_send recovery_demo to h m asked_state)) = rs_readds asked_state" for to h m
    by (simp add: recovery_demo_def)
  from request_is_sent_once [OF run(1) waits _ keeps, of None] new run show ?thesis by auto
qed

theorem requests_name_a_commit_witness:
  "get_conversation_ids_for_requesting_readds (judged_db 9) = [(group_a, Some 5)] \<and>
   (\<exists>r \<in> set (remote_rows (judged_db 9) group_a). Some (5 :: int) = Some (sint (rl_commit_sequence_id r)))"
proof -
  have asks: "get_conversation_ids_for_requesting_readds (judged_db 9) = [(group_a, Some 5)]"
    by (simp add: get_conversation_ids_for_requesting_readds_def judged_db_def judged_db_eq judged_def virtual_types_def told_row_def)
  with requests_name_a_commit [OF judged_reachable [of 9], of group_a "Some 5"] show ?thesis by auto
qed

theorem readded_member_asks_again_witness:
  "group_a \<in> fst ` set (get_conversation_ids_for_requesting_readds (snd (update_forked_state (from_welcome_logged (judged_db 9) group_a 4 [8]))))
    \<and> \<not> is_awaiting_readd (mark_readd_requests_as_responded [asked_row [1]] group_a [[1]] 6) group_a [1]"
proof -
  have fit: "rowids_fit (from_welcome_logged (judged_db 9) group_a 4 [8])"
    by (simp add: rowids_fit_def judged_db_def judged_db_eq from_welcome_logged_def ENABLE_COMMIT_LOG_def store_local_def chain_start_def
        next_rowid_def start_row_def failed_row_def told_row_def)
  have kinds: "\<forall>c \<in> set (log_groups (judged_db 9)). cg_id c = group_a \<longrightarrow> cg_conversation_type c \<notin> set virtual_types"
    by (simp add: judged_db_def judged_db_eq virtual_types_def)
  show ?thesis
    by (rule readded_member_asks_again [OF judged_reachable fit judged_forked kinds, of _ _ "asked_row [1]" 5])
      (simp_all add: get_readd_status_def asked_row_def)
qed

theorem readds_are_validated_witness:
  "\<exists>s'. validate_pending_readds recovery_demo asked_state group_a = (Ok [[2]], s') \<and> fork_verdict (saved_db 0) group_a = Some False"
proof -
  have "\<exists>db. check_conversation_fork_state (saved_db 0) group_a = (Ok (Some False), db)"
    by (simp add: saved_db_eq check_conversation_fork_state_def get_cursor_def get_latest_chain_start_rowid_def last_of_def start_row_def failed_row_def
      update_cursor_def get_local_commit_log_after_cursor_def get_remote_commit_log_after_cursor_def told_row_def
      terminal_removal_def find_matching_remote_log_def Let_def)
  then obtain db where "check_conversation_fork_state (saved_db 0) group_a = (Ok (Some False), db)" by blast
  moreover have "get_readds_awaiting_response [asked_row [2], asked_row [3]] group_a [1] = [asked_row [2], asked_row [3]]"
    by (simp add: get_readds_awaiting_response_def asked_row_def awaits_response_def)
  ultimately have "\<exists>s'. validate_pending_readds recovery_demo asked_state group_a = (Ok [[2]], s')"
    by (simp add: validate_pending_readds_def recovery_demo_def asked_state_def Let_def) (simp add: asked_row_def)
  then obtain s' where run: "validate_pending_readds recovery_demo asked_state group_a = (Ok [[2]], s')" by blast
  have good: "\<forall>s1. rv_sync recovery_demo group_a asked_state = (Ok (), s1) \<longrightarrow>
      reachable (log_demo 0) (rs_log s1) \<and> rowids_fit (rs_log s1) \<and> find_group (rs_log s1) group_a \<noteq> None"
    by (simp add: recovery_demo_def asked_state_def saved_reachable rowids_fit_judged) (simp add: saved_db_eq find_group_def)
  from readds_are_validated [OF run _ good, of "[2]"] run show ?thesis
    by (auto simp: recovery_demo_def asked_state_def)
qed

theorem awaiting_checks_agree_witness:
  "[2] \<in> rd_installation_id ` set (get_readds_awaiting_response [asked_row [2]] group_a [1])"
  using awaiting_checks_agree [of "[asked_row [2]]" "[2]" group_a "[1]"]
  by (simp add: asked_row_def is_awaiting_readd_def get_readd_status_def)

end
