(* ===== verification/Spec2Isabelle.thy ===== *)
theory Spec2Isabelle
  imports Ordered Permissions Identity_Updates App_Data_Intents Bootstrap_Instance Commit_Instance Log_Instance
begin

text \<open>
  A model of the core of libxmtp, the Rust client of XMTP: an end-to-end encrypted group messenger built
  on MLS. The program receives envelopes from a network of originators, puts them in causal order,
  keeps for every inbox the set of identities and installations that may act for it, judges every
  commit of a group by the policies of that group, and finds out when a member and its group have come
  apart. Those decisions are what this library is about.

  \<^bold>\<open>Ordering\<close> (\<open>crates/xmtp_proto/src/types\<close>, \<open>crates/xmtp_api_d14n/src/protocol\<close>).

  \<^item> \<open>Cursors\<close>: \<open>cursor.rs\<close>, \<open>global_cursor.rs\<close>, \<open>vector_clock.rs\<close>. A clock is a sorted association list,
    as the B-tree of the code; sequence ids are 64-bit words and originators 32-bit words.
  \<^item> \<open>Topics\<close>: \<open>topic.rs\<close>, \<open>topic_cursor.rs\<close>, \<open>orphaned_envelope.rs\<close>.
  \<^item> \<open>Causal_Sort\<close>: \<open>sort/causal.rs\<close>, \<open>sort/timestamp.rs\<close>. The sort is in place and generic in the envelope,
    whose methods are a record of functions. It returns a permutation split into a causally ordered
    part and the envelopes whose dependencies are missing, and the split does not depend on the input order.
  \<^item> \<open>Cursor_Store\<close>: \<open>in_memory_cursor_store.rs\<close>, \<open>resolve/network_backoff.rs\<close>. Waiting for missing
    dependencies is a loop whose end depends on the backoff, so it is a partial function into an option;
    a backoff that gives up makes it return. The search for children recurses without a visited set, so it
    is partial too: it returns the transitive dependants of an acyclic icebox and nothing on a self-cycle.
  \<^item> \<open>Ordered\<close>: \<open>order.rs\<close>. The pipeline composed of the above, over any cursor store that keeps the
    contract \<open>icebox_store\<close>; the in-memory store is its interpretation.

  \<^bold>\<open>Identity\<close> (\<open>crates/xmtp_id/src/associations\<close>, \<open>crates/xmtp_mls/src/identity_updates.rs\<close>).

  \<^item> \<open>Members\<close>: \<open>member.rs\<close>, \<open>ident.rs\<close>; \<open>Association_State\<close>: \<open>state.rs\<close>; \<open>Association_Log\<close>:
    \<open>association_log.rs\<close>. An update is folded over a state and every rejection is an error value. Shown are
    who may add, revoke and recover, that signatures are used once, and the invariant of reachable states.
  \<^item> \<open>Signatures\<close>, \<open>Signature_Request\<close>: \<open>unverified.rs\<close>, \<open>verified_signature.rs\<close>, \<open>builder.rs\<close>. A built
    update carries the signatures that were asked for and nothing else.
  \<^item> \<open>Serialization\<close>: \<open>serialization.rs\<close>. Updates and states survive the wire.
  \<^item> \<open>Identity_Updates\<close>: the cached replay of a log, the differences between two sequence ids and the
    installations that follow from them. \<open>Group_Membership\<close>: \<open>group_membership.rs\<close>.

  \<^bold>\<open>Groups\<close> (\<open>crates/xmtp_mls/src/groups\<close>, \<open>crates/xmtp_mls_common/src\<close>).

  \<^item> \<open>Permissions\<close>: \<open>group_permissions.rs\<close>. Policies, their protobuf form, and \<open>evaluate_commit\<close>.
  \<^item> \<open>Tls_Map\<close>, \<open>Tls_Set\<close>: \<open>tls_map.rs\<close>, \<open>tls_set.rs\<close>, \<open>inbox_id.rs\<close>. Sorted vectors with batches that roll back;
    they refine a finite map, and their wire format is lossless for any lossless codec of keys and values.
  \<^item> \<open>Component_Registry\<close>: \<open>component_id.rs\<close>, \<open>component_registry.rs\<close>, \<open>validation.rs\<close>: who may write which
    component of a group's dictionary.
  \<^item> \<open>App_Values\<close>, \<open>Mutable_Metadata\<close>, \<open>App_Components\<close>, \<open>App_Data\<close>, \<open>App_Data_Intents\<close>: the values of the
    dictionary, the behaviour of each component, and how a commit's updates are expanded, accumulated and judged.
  \<^item> \<open>Group_Metadata\<close>: \<open>group_metadata.rs\<close> and its two readers. \<open>Migration\<close>, \<open>Reference_Codecs\<close>,
    \<open>Migration_Roundtrip\<close>: \<open>migration.rs\<close>, the move of a group from MLS extensions to the dictionary: policies
    keep their meaning and metadata reads back.
  \<^item> \<open>Staged_Commit\<close>, \<open>Commit_Changes\<close>, \<open>Commit_Proposals\<close>, \<open>Validated_Commit\<close>: \<open>validated_commit.rs\<close>. What a
    client reads of a commit, what it changes, the rules for its proposals, and the verdict, which
    threads the database of identity updates through. \<open>Commit_Verdict\<close> says what an accepted commit
    guarantees: added installations and committers are backed by identity logs, sequence ids never
    decrease, roles change only on behalf of super admins, and the version floor only rises.
    \<open>Commit_Instance\<close> has two commits that are accepted.
  \<^item> \<open>Bootstrap\<close>, \<open>Bootstrap_Instance\<close>: \<open>app_data/bootstrap_validator.rs\<close>. The commit that migrates a group
    passes exactly if it does what the receiver computes itself.

  \<^bold>\<open>Forks\<close> (\<open>crates/xmtp_mls/src/groups\<close>, \<open>crates/xmtp_db/src/encrypted_store\<close>).

  \<^item> \<open>Commit_Log\<close>: \<open>commit_log.rs\<close>, \<open>commit_log_key.rs\<close>, \<open>commit_log_storer.rs\<close> and the queries over
    \<open>local_commit_log.rs\<close>, \<open>remote_commit_log.rs\<close>, \<open>refresh_state.rs\<close> and \<open>group.rs\<close>. The database is a record
    of tables that every operation returns updated. \<open>Fork_Detection\<close> has the step relation of the log; in every
    reachable state the saved log is a chain and the verdict on a fork is the specified one.
  \<^item> \<open>Log_Exchange\<close>: what one member signs and another one saves.
  \<^item> \<open>Fork_Recovery\<close>: \<open>readd_status.rs\<close>, \<open>oneshot.rs\<close> and the rest of \<open>commit_log.rs\<close>: requests to be added again
    and their validation, with the groups of OpenMLS as arguments that may change the whole state.
    \<open>Log_Instance\<close> runs all of it at concrete inputs.

  \<^bold>\<open>Shared\<close>. \<open>Prelude\<close> has the result type (\<open>Ok\<close> and \<open>Err\<close> over a sum), fallible folds and the collections of
  facts; \<open>Collections\<close> has the finite maps and sets of the standard library as association lists. A \<open>HashMap\<close>
  keeps an order here that the code does not promise; no theorem depends on it. Where the code's equality
  of keys is not structural, \<open>key_eq\<close> states what is needed of it.

  \<^bold>\<open>Parameters\<close>. Cryptography, hexadecimal, protobuf, variable-length integers, version parsing, the
  database queries for identity updates, OpenMLS and the verdict on a smart contract wallet are
  arguments of the definitions. What is relied on is a named assumption of a locale or of the theorem,
  and the witness of the theorem instantiates it: \<open>rfc_libs\<close> has the integers of RFC 9000,
  \<open>Reference_Codecs\<close> a lossless encoding of policies.

  \<^bold>\<open>Not modelled\<close>. The network, the SQLite storage, streams, the scheduling of workers, the staging of MLS commits and
  the encryption itself, since their behaviour is that of libraries outside the repository; generated
  protobuf code, of which only the messages appear, as records; bindings, applications, macros, logging
  and configuration. Texts of error messages and \<open>Display\<close> are left out unless a decision depends on them.
\<close>

end
